(* ===== verification/Py_Prelude.thy ===== *)
theory Py_Prelude
  imports Main "HOL-Library.Char_ord" "HOL-Library.List_Lexorder" "HOL-Library.Sublist"
begin

text \<open>
  The part of Python's string and list library that the modelled services use, and the lemmas
  about it that the component theories share.

  A Python \<open>str\<close> is a HOL \<open>string\<close>.  The strings the code handles here are ASCII identifiers,
  keys and addresses: \<open>lower\<close> and \<open>upper\<close> change the letters A-Z and a-z and nothing else.
  \<open>sorted\<close> on strings is the lexicographic order on code points (\<open>List_Lexorder\<close> over
  \<open>Char_ord\<close>).  A raised exception is the \<open>Inl\<close> of a sum.
\<close>

named_theorems py_simps \<open>unfolding rules for the Python library functions\<close>

subsection \<open>Sum results\<close>

definition bind_res :: "'e + 'a \<Rightarrow> ('a \<Rightarrow> 'e + 'b) \<Rightarrow> 'e + 'b" where
  "bind_res r f = (case r of Inl e \<Rightarrow> Inl e | Inr x \<Rightarrow> f x)"

lemma bind_res_simps [simp]:
  "bind_res (Inl e) f = Inl e"
  "bind_res (Inr x) f = f x"
  by (simp_all add: bind_res_def)

lemma bind_res_eq_Inr [simp]:
  "bind_res r f = Inr y \<longleftrightarrow> (\<exists>x. r = Inr x \<and> f x = Inr y)"
  by (cases r) auto

fun mapM_res :: "('a \<Rightarrow> 'e + 'b) \<Rightarrow> 'a list \<Rightarrow> 'e + 'b list" where
  "mapM_res f [] = Inr []"
| "mapM_res f (x # xs) =
     bind_res (f x) (\<lambda>y. bind_res (mapM_res f xs) (\<lambda>ys. Inr (y # ys)))"

subsection \<open>Characters and case\<close>

definition is_upper :: "char \<Rightarrow> bool" where
  "is_upper c \<longleftrightarrow> CHR ''A'' \<le> c \<and> c \<le> CHR ''Z''"

definition is_lower :: "char \<Rightarrow> bool" where
  "is_lower c \<longleftrightarrow> CHR ''a'' \<le> c \<and> c \<le> CHR ''z''"

definition is_digit :: "char \<Rightarrow> bool" where
  "is_digit c \<longleftrightarrow> CHR ''0'' \<le> c \<and> c \<le> CHR ''9''"

definition is_space :: "char \<Rightarrow> bool" where
  "is_space c \<longleftrightarrow> (let n = (of_char c :: nat) in
     n = 32 \<or> (9 \<le> n \<and> n \<le> 13) \<or> (28 \<le> n \<and> n \<le> 31) \<or> n = 133 \<or> n = 160)"

definition lower_char :: "char \<Rightarrow> char" where
  "lower_char c = (if is_upper c then char_of ((of_char c :: nat) + 32) else c)"

definition upper_char :: "char \<Rightarrow> char" where
  "upper_char c = (if is_lower c then char_of ((of_char c :: nat) - 32) else c)"

definition lower :: "string \<Rightarrow> string" where
  "lower s = map lower_char s"

definition upper :: "string \<Rightarrow> string" where
  "upper s = map upper_char s"

lemma char_le_iff: "(c::char) \<le> d \<longleftrightarrow> (of_char c :: nat) \<le> of_char d"
  by (simp add: less_eq_char_def)

lemma lower_char_not_upper: "\<not> is_upper (lower_char c)"
proof (cases "is_upper c")
  case True
  then have "65 \<le> (of_char c :: nat)" "(of_char c :: nat) \<le> 90"
    by (auto simp: is_upper_def char_le_iff)
  then have "(of_char (char_of ((of_char c :: nat) + 32) :: char) :: nat) = of_char c + 32"
    by (simp add: of_char_of)
  with True \<open>65 \<le> (of_char c :: nat)\<close> show ?thesis
    by (simp add: lower_char_def is_upper_def char_le_iff)
qed (simp add: lower_char_def)

lemma lower_char_idem [simp]: "lower_char (lower_char c) = lower_char c"
  using lower_char_not_upper [of c] by (simp add: lower_char_def [of "lower_char c"])

lemma lower_idem [simp]: "lower (lower s) = lower s"
  by (simp add: lower_def)

lemma lower_simps [simp]:
  "lower [] = []" "lower (a @ b) = lower a @ lower b" "length (lower s) = length s"
  by (simp_all add: lower_def)

subsection \<open>Searching and trimming\<close>

definition lstrip :: "string \<Rightarrow> string" where
  "lstrip s = dropWhile is_space s"

definition rstrip :: "string \<Rightarrow> string" where
  "rstrip s = rev (dropWhile is_space (rev s))"

definition strip :: "string \<Rightarrow> string" where
  "strip s = rstrip (lstrip s)"

text \<open>\<open>p in s\<close> on strings, \<open>s.startswith(p)\<close> and \<open>s.endswith(p)\<close>.\<close>

fun substr_in :: "'a list \<Rightarrow> 'a list \<Rightarrow> bool" where
  "substr_in p [] = (p = [])"
| "substr_in p (c # cs) = (prefix p (c # cs) \<or> substr_in p cs)"

definition startswith :: "string \<Rightarrow> string \<Rightarrow> bool" where
  "startswith s p = prefix p s"

definition endswith :: "string \<Rightarrow> string \<Rightarrow> bool" where
  "endswith s p = suffix p s"

lemma substr_in_iff: "substr_in p s \<longleftrightarrow> (\<exists>a b. s = a @ p @ b)"
proof (induction s)
  case Nil
  then show ?case by auto
next
  case (Cons c cs)
  show ?case
  proof
    assume "substr_in p (c # cs)"
    then consider "prefix p (c # cs)" | "substr_in p cs" by auto
    then show "\<exists>a b. c # cs = a @ p @ b"
    proof cases
      case 1
      then obtain b where "c # cs = [] @ p @ b" by (auto simp: prefix_def)
      then show ?thesis by blast
    next
      case 2
      with Cons.IH obtain a b where "cs = a @ p @ b" by blast
      then have "c # cs = (c # a) @ p @ b" by simp
      then show ?thesis by blast
    qed
  next
    assume "\<exists>a b. c # cs = a @ p @ b"
    then obtain a b where ab: "c # cs = a @ p @ b" by blast
    show "substr_in p (c # cs)"
    proof (cases a)
      case Nil
      with ab have "prefix p (c # cs)" by (auto simp: prefix_def)
      then show ?thesis by simp
    next
      case (Cons x xs)
      with ab have "cs = xs @ p @ b" by simp
      with Cons.IH show ?thesis by auto
    qed
  qed
qed

lemma substr_in_refl [simp]: "substr_in s s"
  unfolding substr_in_iff by (rule exI [of _ "[]"], rule exI [of _ "[]"]) simp

lemma substr_in_Nil [simp]: "substr_in [] s"
  by (cases s) simp_all

lemma substr_in_trans: "substr_in p q \<Longrightarrow> substr_in q s \<Longrightarrow> substr_in p s"
  unfolding substr_in_iff by (metis append.assoc)

subsection \<open>Splitting and joining\<close>

text \<open>\<open>s.split(c)\<close> for a one-character separator, and \<open>sep.join(parts)\<close>.\<close>

fun split_on :: "char \<Rightarrow> string \<Rightarrow> string list" where
  "split_on c [] = [[]]"
| "split_on c (x # xs) =
     (if x = c then [] # split_on c xs
      else (case split_on c xs of [] \<Rightarrow> [[x]] | p # ps \<Rightarrow> (x # p) # ps))"

fun join_with :: "string \<Rightarrow> string list \<Rightarrow> string" where
  "join_with sep [] = []"
| "join_with sep [p] = p"
| "join_with sep (p # q # ps) = p @ sep @ join_with sep (q # ps)"

lemma split_on_nonempty [simp]: "split_on c s \<noteq> []"
  by (induction s) (auto split: list.splits)

lemma join_with_Cons_char [simp]: "join_with sep ((x # p) # ps) = x # join_with sep (p # ps)"
  by (cases ps) simp_all

lemma join_with_Nil_char [simp]: "ps \<noteq> [] \<Longrightarrow> join_with sep ([] # ps) = sep @ join_with sep ps"
  by (cases ps) simp_all

lemma join_split: "join_with [c] (split_on c s) = s"
proof (induction s)
  case (Cons x xs)
  obtain p ps where "split_on c xs = p # ps"
    using split_on_nonempty [of c xs] by (cases "split_on c xs") blast+
  with Cons show ?case by simp
qed simp

lemma split_on_no_sep: "c \<notin> set s \<Longrightarrow> split_on c s = [s]"
  by (induction s) auto

lemma split_on_append: "c \<notin> set a \<Longrightarrow> split_on c (a @ c # b) = a # split_on c b"
  by (induction a) auto

lemma split_join:
  "ps \<noteq> [] \<Longrightarrow> \<forall>p \<in> set ps. c \<notin> set p \<Longrightarrow> split_on c (join_with [c] ps) = ps"
proof (induction ps rule: induct_list012)
  case (3 p q ps)
  then show ?case by (simp add: split_on_append)
qed (auto simp: split_on_no_sep)

lemma split_on_sep_free: "\<forall>p \<in> set (split_on c s). c \<notin> set p"
  by (induction s) (auto split: list.splits)

text \<open>Joining is injective on separator-free parts: what a canonical string determines.\<close>

lemma join_with_inject:
  assumes "ps \<noteq> []" "qs \<noteq> []"
    and "\<forall>p \<in> set ps. c \<notin> set p" "\<forall>q \<in> set qs. c \<notin> set q"
    and "join_with [c] ps = join_with [c] qs"
  shows "ps = qs"
  by (metis assms split_join)

subsection \<open>Association lists as insertion-ordered dictionaries\<close>

text \<open>\<open>d[k] = v\<close> keeps the position of an existing key and appends a new one.\<close>

fun dict_set :: "'k \<Rightarrow> 'v \<Rightarrow> ('k \<times> 'v) list \<Rightarrow> ('k \<times> 'v) list" where
  "dict_set k v [] = [(k, v)]"
| "dict_set k v ((k', v') # d) = (if k' = k then (k, v) # d else (k', v') # dict_set k v d)"

definition dict_del :: "'k \<Rightarrow> ('k \<times> 'v) list \<Rightarrow> ('k \<times> 'v) list" where
  "dict_del k d = filter (\<lambda>(k', v'). k' \<noteq> k) d"

definition dict_get :: "('k \<times> 'v) list \<Rightarrow> 'k \<Rightarrow> 'v option" where
  "dict_get d k = map_of d k"

definition dict_update :: "('k \<times> 'v) list \<Rightarrow> ('k \<times> 'v) list \<Rightarrow> ('k \<times> 'v) list" where
  "dict_update d e = foldl (\<lambda>acc (k, v). dict_set k v acc) d e"

lemma dict_get_simps [simp]:
  "dict_get [] k = None"
  "dict_get ((k', v) # d) k = (if k = k' then Some v else dict_get d k)"
  by (auto simp: dict_get_def)

lemma dict_get_set [simp]:
  "dict_get (dict_set k v d) k' = (if k' = k then Some v else dict_get d k')"
  by (induction k v d rule: dict_set.induct) auto

lemma dict_get_del [simp]:
  "dict_get (dict_del k d) k' = (if k' = k then None else dict_get d k')"
  by (induction d) (auto simp: dict_del_def)

lemma keys_dict_set [simp]: "fst ` set (dict_set k v d) = insert k (fst ` set d)"
  by (induction k v d rule: dict_set.induct) auto

lemma keys_dict_del [simp]: "fst ` set (dict_del k d) = fst ` set d - {k}"
  by (force simp: dict_del_def)

lemma distinct_dict_set [simp]:
  "distinct (map fst (dict_set k v d)) \<longleftrightarrow> distinct (map fst d)"
  by (induction k v d rule: dict_set.induct) (auto simp: image_iff)

lemma distinct_dict_del [simp, intro]:
  "distinct (map fst d) \<Longrightarrow> distinct (map fst (dict_del k d))"
  by (simp add: dict_del_def distinct_map_filter)

lemma set_dict_set_sub: "set (dict_set k v d) \<subseteq> insert (k, v) (set d)"
  by (induction d) (auto split: if_splits)

lemma dict_set_twice [simp]: "dict_set k v (dict_set k u d) = dict_set k v d"
  by (induction d) auto

definition dict_all :: "('v \<Rightarrow> bool) \<Rightarrow> ('k \<times> 'v) list \<Rightarrow> bool" where
  "dict_all P d \<longleftrightarrow> list_all (\<lambda>(k, v). P v) d"

lemma dict_all_set [intro]: "dict_all P d \<Longrightarrow> P v \<Longrightarrow> dict_all P (dict_set k v d)"
  using set_dict_set_sub [of k v d] by (fastforce simp: dict_all_def list_all_iff)

lemma dict_all_Nil [simp]: "dict_all P []"
  by (simp add: dict_all_def)

lemma dict_get_None_iff: "dict_get d k = None \<longleftrightarrow> k \<notin> fst ` set d"
  by (simp add: dict_get_def map_of_eq_None_iff)

lemma dict_get_SomeD: "dict_get d k = Some v \<Longrightarrow> (k, v) \<in> set d"
  by (simp add: dict_get_def map_of_SomeD)

lemma dict_all_get: "dict_all P d \<Longrightarrow> dict_get d k = Some v \<Longrightarrow> P v"
  by (auto simp: dict_all_def list_all_iff dest!: dict_get_SomeD)

lemma dict_get_update:
  "dict_get (dict_update d e) k =
     (case map_of (rev e) k of None \<Rightarrow> dict_get d k | Some v \<Rightarrow> Some v)"
proof (induction e arbitrary: d)
  case (Cons p e)
  obtain k' v where p: "p = (k', v)" by (cases p)
  have "dict_get (dict_update d (p # e)) k = dict_get (dict_update (dict_set k' v d) e) k"
    by (simp add: dict_update_def p)
  also have "\<dots> = (case map_of (rev e) k of None \<Rightarrow> dict_get (dict_set k' v d) k | Some w \<Rightarrow> Some w)"
    by (rule Cons.IH)
  finally show ?case by (auto simp: p map_add_def split: option.splits)
qed (simp add: dict_update_def)

text \<open>Mapping the values.\<close>

lemma dict_get_map: "dict_get (map (\<lambda>(k, v). (k, f v)) d) k = map_option f (dict_get d k)"
  by (induction d) (auto simp: dict_get_def)

lemma dict_set_map: "dict_set k (f v) (map (\<lambda>(k, v). (k, f v)) d) = map (\<lambda>(k, v). (k, f v)) (dict_set k v d)"
  by (induction d) auto

lemma dict_del_map: "dict_del k (map (\<lambda>(k, v). (k, f v)) d) = map (\<lambda>(k, v). (k, f v)) (dict_del k d)"
  by (induction d) (auto simp: dict_del_def)

subsection \<open>Sorted, duplicate-free enumeration of a finite collection\<close>

text \<open>\<open>sorted(set(xs))\<close>.\<close>

definition sorted_set :: "('a::linorder) list \<Rightarrow> 'a list" where
  "sorted_set xs = sort (remdups xs)"

lemma sorted_set_props [simp]:
  "set (sorted_set xs) = set xs" "sorted (sorted_set xs)" "distinct (sorted_set xs)"
  by (simp_all add: sorted_set_def)

lemma sorted_set_cong: "set xs = set ys \<Longrightarrow> sorted_set xs = sorted_set ys"
  by (metis sorted_distinct_set_unique sorted_set_props)

lemma sorted_set_eq_iff: "sorted_set xs = sorted_set ys \<longleftrightarrow> set xs = set ys"
  by (metis sorted_set_cong sorted_set_props(1))

subsection \<open>Integers as decimal text\<close>

text \<open>\<open>str(n)\<close> of a Python int, and \<open>int(s)\<close> of a string: surrounding white space, one sign,
  digits with single underscores between them.  \<open>None\<close> stands for \<open>ValueError\<close>.\<close>

definition digit_char :: "nat \<Rightarrow> char" where
  "digit_char d = char_of (48 + d)"

fun nat_str :: "nat \<Rightarrow> string" where
  "nat_str n = (if n < 10 then [digit_char n] else nat_str (n div 10) @ [digit_char (n mod 10)])"

declare nat_str.simps [simp del]

definition int_str :: "int \<Rightarrow> string" where
  "int_str i = (if i < 0 then CHR ''-'' # nat_str (nat (- i)) else nat_str (nat i))"

definition digit_val :: "char \<Rightarrow> nat" where
  "digit_val c = of_char c - 48"

fun digits_ok :: "string \<Rightarrow> bool" where
  "digits_ok [] = False"
| "digits_ok [c] = is_digit c"
| "digits_ok (c # CHR ''_'' # cs) = (is_digit c \<and> digits_ok cs)"
| "digits_ok (c # d # cs) = (is_digit c \<and> digits_ok (d # cs))"

definition digits_val :: "string \<Rightarrow> nat" where
  "digits_val s = foldl (\<lambda>acc c. 10 * acc + digit_val c) 0 (filter (\<lambda>c. c \<noteq> CHR ''_'') s)"

definition py_int :: "string \<Rightarrow> int option" where
  "py_int s = (let t = strip s in
     case t of
       [] \<Rightarrow> None
     | c # cs \<Rightarrow>
         if c = CHR ''-'' then (if digits_ok cs then Some (- int (digits_val cs)) else None)
         else if c = CHR ''+'' then (if digits_ok cs then Some (int (digits_val cs)) else None)
         else if digits_ok t then Some (int (digits_val t)) else None)"

lemma digit_char_props:
  assumes "d < 10"
  shows "is_digit (digit_char d)" "digit_val (digit_char d) = d" "digit_char d \<noteq> CHR ''_''"
    "\<not> is_space (digit_char d)"
proof -
  have n: "(of_char (digit_char d) :: nat) = 48 + d"
    using assms by (simp add: digit_char_def of_char_of)
  then show "is_digit (digit_char d)" "digit_val (digit_char d) = d" "\<not> is_space (digit_char d)"
    using assms by (auto simp: is_digit_def digit_val_def is_space_def char_le_iff Let_def)
  show "digit_char d \<noteq> CHR ''_''"
  proof
    assume "digit_char d = CHR ''_''"
    with n have "(95::nat) = 48 + d" by simp
    with assms show False by simp
  qed
qed

lemma digits_ok_all: "s \<noteq> [] \<Longrightarrow> \<forall>c \<in> set s. is_digit c \<Longrightarrow> digits_ok s"
  by (induction s rule: digits_ok.induct) (auto simp: is_digit_def char_le_iff)

lemma nat_str_digits: "\<forall>c \<in> set (nat_str n). is_digit c \<and> \<not> is_space c \<and> c \<noteq> CHR ''_''"
proof (induction n rule: nat_str.induct)
  case (1 n)
  then show ?case
    by (subst nat_str.simps) (auto simp: digit_char_props)
qed

lemma nat_str_nonempty [simp]: "nat_str n \<noteq> []"
  by (subst nat_str.simps) simp

lemma digits_val_snoc: "c \<noteq> CHR ''_'' \<Longrightarrow> digits_val (s @ [c]) = 10 * digits_val s + digit_val c"
  by (simp add: digits_val_def)

lemma digits_val_nat_str: "digits_val (nat_str n) = n"
proof (induction n rule: nat_str.induct)
  case (1 n)
  show ?case
  proof (cases "n < 10")
    case True
    have "digits_val [digit_char n] = n"
      using digits_val_snoc [of "digit_char n" "[]"] digit_char_props [OF True]
      by (simp add: digits_val_def)
    with True show ?thesis by (subst nat_str.simps) simp
  next
    case False
    then have "digits_val (nat_str (n div 10)) = n div 10" using "1.IH" by simp
    with False show ?thesis
      by (subst nat_str.simps) (simp add: digits_val_snoc digit_char_props)
  qed
qed

lemma strip_outer: "s \<noteq> [] \<Longrightarrow> \<not> is_space (hd s) \<Longrightarrow> \<not> is_space (last s) \<Longrightarrow> strip s = s"
proof -
  assume a: "s \<noteq> []" "\<not> is_space (hd s)" "\<not> is_space (last s)"
  then have "dropWhile is_space s = s" "dropWhile is_space (rev s) = rev s"
    by (simp_all add: dropWhile_eq_self_iff hd_rev)
  then show ?thesis by (simp add: strip_def lstrip_def rstrip_def)
qed

lemma strip_space_Cons [simp]: "is_space c \<Longrightarrow> strip (c # s) = strip s"
  by (simp add: strip_def lstrip_def)

lemma strip_space_snoc: "is_space c \<Longrightarrow> strip (s @ [c]) = strip s"
  by (induction s) (auto simp: strip_def lstrip_def rstrip_def)

lemma strip_id: "\<forall>c \<in> set s. \<not> is_space c \<Longrightarrow> strip s = s"
  using strip_outer [of s] by (cases "s = []") (auto simp: strip_def lstrip_def rstrip_def)

lemma digits_ok_hd: "digits_ok (c # cs) \<Longrightarrow> is_digit c"
  by (cases "c # cs" rule: digits_ok.cases) auto

lemma py_int_int_str: "py_int (int_str i) = Some i"
proof -
  have ns: "digits_ok (nat_str n)" for n
    using nat_str_digits by (intro digits_ok_all) auto
  have first: "\<exists>c cs. nat_str n = c # cs \<and> is_digit c" for n
    using nat_str_digits [of n] by (cases "nat_str n") auto
  show ?thesis
  proof (cases "i < 0")
    case True
    have "strip (int_str i) = int_str i"
      using nat_str_digits True by (intro strip_id) (auto simp: int_str_def is_space_def)
    with True ns show ?thesis by (simp add: py_int_def int_str_def digits_val_nat_str)
  next
    case False
    have s: "strip (nat_str (nat i)) = nat_str (nat i)"
      using nat_str_digits by (intro strip_id) auto
    obtain c cs where c: "nat_str (nat i) = c # cs" "is_digit c" using first by blast
    then have "c \<noteq> CHR ''-''" "c \<noteq> CHR ''+''" by (auto simp: is_digit_def char_le_iff)
    with False c s ns [of "nat i"] digits_val_nat_str [of "nat i"] show ?thesis
      by (simp add: py_int_def int_str_def Let_def)
  qed
qed

lemma int_str_inject [simp]: "int_str i = int_str j \<longleftrightarrow> i = j"
  by (metis py_int_int_str option.inject)

end
