(* ===== verification/Py_Value.thy ===== *)
theory Py_Value
  imports Complex_Main Py_Prelude
begin

text \<open>
  The dynamically typed values that arrive as JSON (connector events, rule configurations,
  playbook contexts, audit payloads), with Python's truth value, equality, hashability,
  \<open>str\<close> and \<open>repr\<close> on them.

  A finite float is kept as its exact rational value together with its \<open>repr\<close> text, which
  Python derives from the value; no function below inspects the text except \<open>repr\<close> and
  \<open>str\<close>.  A dictionary is the list of its items in insertion order.
\<close>

datatype val =
    VNone
  | VBool bool
  | VInt int
  | VFloat rat string
  | VStr string
  | VList "val list"
  | VDict "(string \<times> val) list"

type_synonym dict = "(string \<times> val) list"

datatype py_error = TypeError | ValueError | KeyError | IndexError | AttributeError

abbreviation the_dict :: "val \<Rightarrow> dict option" where
  "the_dict v \<equiv> (case v of VDict d \<Rightarrow> Some d | _ \<Rightarrow> None)"

text \<open>\<open>d.get(k)\<close>, which is \<open>None\<close> for a missing key, and \<open>d.get(k, default)\<close>.\<close>

definition vget :: "dict \<Rightarrow> string \<Rightarrow> val" where
  "vget d k = (case dict_get d k of None \<Rightarrow> VNone | Some v \<Rightarrow> v)"

definition vget_default :: "dict \<Rightarrow> string \<Rightarrow> val \<Rightarrow> val" where
  "vget_default d k dflt = (case dict_get d k of None \<Rightarrow> dflt | Some v \<Rightarrow> v)"

fun truthy :: "val \<Rightarrow> bool" where
  "truthy VNone = False"
| "truthy (VBool b) = b"
| "truthy (VInt i) = (i \<noteq> 0)"
| "truthy (VFloat r s) = (r \<noteq> 0)"
| "truthy (VStr s) = (s \<noteq> [])"
| "truthy (VList xs) = (xs \<noteq> [])"
| "truthy (VDict d) = (d \<noteq> [])"

text \<open>\<open>a or b\<close> on values.\<close>

definition py_or :: "val \<Rightarrow> val \<Rightarrow> val" where
  "py_or a b = (if truthy a then a else b)"

text \<open>The numeric tower: \<open>True == 1 == 1.0\<close>.\<close>

fun num_of :: "val \<Rightarrow> rat option" where
  "num_of (VBool b) = Some (if b then 1 else 0)"
| "num_of (VInt i) = Some (of_int i)"
| "num_of (VFloat r s) = Some r"
| "num_of _ = None"

fun py_eq :: "val \<Rightarrow> val \<Rightarrow> bool" where
  "py_eq VNone w = (w = VNone)"
| "py_eq (VStr s) w = (w = VStr s)"
| "py_eq (VList xs) w =
     (case w of VList ys \<Rightarrow> list_all2 py_eq xs ys | _ \<Rightarrow> False)"
| "py_eq (VDict d) w =
     (case w of
        VDict e \<Rightarrow> length d = length e \<and>
          list_all (\<lambda>(k, v). case dict_get e k of None \<Rightarrow> False | Some u \<Rightarrow> py_eq v u) d
      | _ \<Rightarrow> False)"
| "py_eq v w = (num_of v = num_of w)"

text \<open>\<open>hash(v)\<close> raises TypeError for lists and dictionaries.\<close>

fun hashable :: "val \<Rightarrow> bool" where
  "hashable (VList xs) = False"
| "hashable (VDict d) = False"
| "hashable v = True"

text \<open>\<open>repr\<close> of a string: single quotes unless only a single quote occurs inside.\<close>

definition hex_digit :: "nat \<Rightarrow> char" where
  "hex_digit n = (if n < 10 then char_of (48 + n) else char_of (87 + n))"

definition repr_char :: "char \<Rightarrow> char \<Rightarrow> string" where
  "repr_char q c = (let n = (of_char c :: nat) in
     if c = q \<or> n = 92 then [CHR 0x5C, c]
     else if n = 9 then [CHR 0x5C, CHR ''t'']
     else if n = 10 then [CHR 0x5C, CHR ''n'']
     else if n = 13 then [CHR 0x5C, CHR ''r'']
     else if n < 32 \<or> (127 \<le> n \<and> n \<le> 160) \<or> n = 173
       then [CHR 0x5C, CHR ''x'', hex_digit (n div 16), hex_digit (n mod 16)]
     else [c])"

definition repr_str :: "string \<Rightarrow> string" where
  "repr_str s =
     (let q = (if CHR 0x27 \<in> set s \<and> CHR 0x22 \<notin> set s then CHR 0x22 else CHR 0x27)
      in q # concat (map (repr_char q) s) @ [q])"

fun py_repr :: "val \<Rightarrow> string" where
  "py_repr VNone = ''None''"
| "py_repr (VBool b) = (if b then ''True'' else ''False'')"
| "py_repr (VInt i) = int_str i"
| "py_repr (VFloat r s) = s"
| "py_repr (VStr s) = repr_str s"
| "py_repr (VList xs) = ''['' @ join_with '', '' (map py_repr xs) @ '']''"
| "py_repr (VDict d) =
     ''{'' @ join_with '', '' (map (\<lambda>(k, v). repr_str k @ '': '' @ py_repr v) d) @ ''}''"

definition py_str :: "val \<Rightarrow> string" where
  "py_str v = (case v of VStr s \<Rightarrow> s | _ \<Rightarrow> py_repr v)"

text \<open>\<open>v in xs\<close> for a list.\<close>

definition py_in :: "val \<Rightarrow> val list \<Rightarrow> bool" where
  "py_in v xs = list_ex (py_eq v) xs"

text \<open>\<open>float(s)\<close> on a decimal numeral, as the exact rational it denotes; the texts for the infinities
  and for not-a-number have no rational value and are outside the model.\<close>

definition strip_sign :: "string \<Rightarrow> bool \<times> string" where
  "strip_sign s = (case s of
      [] \<Rightarrow> (False, [])
    | c # cs \<Rightarrow> if c = CHR ''-'' then (True, cs) else if c = CHR ''+'' then (False, cs) else (False, s))"

definition exponent_of :: "string \<Rightarrow> int option" where
  "exponent_of s = (case s of
      [] \<Rightarrow> Some 0
    | _ # cs \<Rightarrow> (case strip_sign cs of (neg, ds) \<Rightarrow>
        if digits_ok ds then Some (if neg then - int (digits_val ds) else int (digits_val ds)) else None))"

definition py_float :: "string \<Rightarrow> rat option" where
  "py_float s =
     (case strip_sign (strip s) of (neg, u) \<Rightarrow>
      let mant = takeWhile (\<lambda>c. c \<noteq> CHR ''e'' \<and> c \<noteq> CHR ''E'') u;
          ip = takeWhile (\<lambda>c. c \<noteq> CHR ''.'') mant;
          fr = drop (Suc (length ip)) mant
      in if (ip = [] \<or> digits_ok ip) \<and> (fr = [] \<or> digits_ok fr) \<and> (ip \<noteq> [] \<or> fr \<noteq> [])
         then (case exponent_of (drop (length mant) u) of
             None \<Rightarrow> None
           | Some e \<Rightarrow>
               let m = of_nat (digits_val (ip @ fr)) / 10 ^ length (filter (\<lambda>c. c \<noteq> CHR ''_'') fr);
                   x = (if e < 0 then m / 10 ^ nat (- e) else m * 10 ^ nat e)
               in Some (if neg then - x else x))
         else None)"

subsection \<open>Laws\<close>

lemma vget_Nil [simp]: "vget [] k = VNone"
  by (simp add: vget_def)

lemma vget_Cons [simp]: "vget ((k', v) # d) k = (if k = k' then v else vget d k)"
  by (simp add: vget_def)

lemma vget_set [simp]: "vget (dict_set k v d) k' = (if k' = k then v else vget d k')"
  by (simp add: vget_def)

lemma vget_not_None_in_keys: "vget d k \<noteq> VNone \<Longrightarrow> k \<in> fst ` set d"
  by (cases "dict_get d k") (auto simp: vget_def dest!: dict_get_SomeD intro: rev_image_eqI)

lemma py_str_VStr [simp]: "py_str (VStr s) = s"
  by (simp add: py_str_def)

lemma py_eq_VStr [simp]: "py_eq v (VStr s) \<longleftrightarrow> v = VStr s"
  by (cases v) auto

lemma py_eq_VNone [simp]: "py_eq v VNone \<longleftrightarrow> v = VNone"
  by (cases v) auto

text \<open>Equality is reflexive on values whose dictionaries have distinct keys, as a Python
  dictionary always has.\<close>

fun wf_val :: "val \<Rightarrow> bool" where
  "wf_val (VList xs) = list_all wf_val xs"
| "wf_val (VDict d) = (distinct (map fst d) \<and> list_all (\<lambda>(k, v). wf_val v) d)"
| "wf_val v = True"

lemma list_all2_same_weak: "(\<And>x. x \<in> set xs \<Longrightarrow> P x x) \<Longrightarrow> list_all2 P xs xs"
  by (induction xs) auto

lemma py_eq_refl: "wf_val v \<Longrightarrow> py_eq v v"
proof (induction v rule: wf_val.induct)
  case (1 xs)
  then show ?case by (auto simp: list_all_iff intro!: list_all2_same_weak)
next
  case (2 d)
  have "case dict_get d k of None \<Rightarrow> False | Some u \<Rightarrow> py_eq v u" if kv: "(k, v) \<in> set d" for k v
  proof -
    have "dict_get d k = Some v"
      using 2(2) kv by (simp add: dict_get_def)
    moreover have "py_eq v v" using 2 kv by (fastforce simp: list_all_iff)
    ultimately show ?thesis by simp
  qed
  then show ?case by (auto simp: list_all_iff)
qed auto

text \<open>\<open>round(x)\<close>: half to even.\<close>

definition round_half_even :: "rat \<Rightarrow> int" where
  "round_half_even x =
     (let f = \<lfloor>x\<rfloor>; d = x - of_int f in
      if d < 1 / 2 then f else if 1 / 2 < d then f + 1 else if even f then f else f + 1)"

end
