(* ===== verification/Filter_Rules.thy ===== *)
theory Filter_Rules
  imports Py_Value
begin

text \<open>
  The connector edge's pre-ingest filter (\<open>services/connectors/app/pipeline/filter_rules.py\<close>):
  a rule list from the connector configuration decides, first match wins, whether a normalised
  event is dropped or kept.  The configuration is unvalidated JSON, so a rule, its operator and
  its action are arbitrary values here as they are there.
\<close>

subsection \<open>Decisions and vocabulary\<close>

record filter_decision =
  fd_action :: val
  fd_rule_index :: "nat option"

definition VALID_OPS :: "string list" where
  "VALID_OPS = [''eq'', ''ne'', ''contains'', ''starts_with'', ''ends_with'', ''in'']"

definition VALID_ACTIONS :: "string list" where
  "VALID_ACTIONS = [''drop'', ''keep'']"

text \<open>\<open>x in frozenset\<close>: hashing a list or dictionary raises TypeError.\<close>

definition in_frozenset :: "val \<Rightarrow> string list \<Rightarrow> py_error + bool" where
  "in_frozenset v ss =
     (if hashable v then Inr (case v of VStr s \<Rightarrow> s \<in> set ss | _ \<Rightarrow> False) else Inl TypeError)"

subsection \<open>One predicate\<close>

definition matches :: "dict \<Rightarrow> string \<Rightarrow> string \<Rightarrow> val \<Rightarrow> bool" where
  "matches event field op value =
     (let actual = vget event field in
      if actual = VNone then False
      else if op = ''eq'' then py_eq actual value
      else if op = ''ne'' then \<not> py_eq actual value
      else if op = ''in'' then
        (case value of VList xs \<Rightarrow> py_in actual xs | _ \<Rightarrow> py_eq actual value)
      else
        let actual_str = py_str actual; value_str = py_str value in
        if op = ''contains'' then substr_in (lower value_str) (lower actual_str)
        else if op = ''starts_with'' then startswith (lower actual_str) (lower value_str)
        else if op = ''ends_with'' then endswith (lower actual_str) (lower value_str)
        else False)"

subsection \<open>The rule loop\<close>

definition keep_default :: filter_decision where
  "keep_default = \<lparr>fd_action = VStr ''keep'', fd_rule_index = None\<rparr>"

text \<open>The body of the loop for one rule: \<open>None\<close> is \<open>continue\<close>.\<close>

definition eval_rule :: "dict \<Rightarrow> nat \<Rightarrow> val \<Rightarrow> py_error + filter_decision option" where
  "eval_rule event index rule =
     (case rule of
        VDict r \<Rightarrow>
          (let field = vget r ''field''; op = vget r ''op''; value = vget r ''value'';
               action = vget_default r ''action'' (VStr ''drop'')
           in case field of
                VStr f \<Rightarrow>
                  if f = [] then Inr None
                  else bind_res (in_frozenset op VALID_OPS) (\<lambda>op_ok.
                    if \<not> op_ok then Inr None
                    else bind_res (in_frozenset action VALID_ACTIONS) (\<lambda>action_ok.
                      if \<not> action_ok then Inr None
                      else if matches event f (py_str op) value
                        then Inr (Some \<lparr>fd_action = action, fd_rule_index = Some index\<rparr>)
                      else Inr None))
              | _ \<Rightarrow> Inr None)
      | _ \<Rightarrow> Inr None)"

fun filter_loop :: "dict \<Rightarrow> nat \<Rightarrow> val list \<Rightarrow> py_error + filter_decision" where
  "filter_loop event index [] = Inr keep_default"
| "filter_loop event index (rule # rules) =
     bind_res (eval_rule event index rule) (\<lambda>d.
       case d of Some dec \<Rightarrow> Inr dec | None \<Rightarrow> filter_loop event (Suc index) rules)"

definition apply_filter_rules :: "dict \<Rightarrow> val list option \<Rightarrow> py_error + filter_decision" where
  "apply_filter_rules event rules =
     (case rules of
        None \<Rightarrow> Inr keep_default
      | Some rs \<Rightarrow> if rs = [] then Inr keep_default else filter_loop event 0 rs)"

subsection \<open>The first-match contract\<close>

text \<open>
  Abstractly a rule is either ignored (malformed) or a guarded action; the list is a firewall
  chain.  A rule is \<open>evaluable\<close> if its operator and action can be looked up in a set at all.
\<close>

definition well_formed_rule :: "val \<Rightarrow> (string \<times> string \<times> val \<times> string) option" where
  "well_formed_rule rule =
     (case rule of
        VDict r \<Rightarrow>
          (case (vget r ''field'', vget r ''op'', vget_default r ''action'' (VStr ''drop'')) of
             (VStr f, VStr op, VStr a) \<Rightarrow>
               if f \<noteq> [] \<and> op \<in> set VALID_OPS \<and> a \<in> set VALID_ACTIONS
               then Some (f, op, vget r ''value'', a) else None
           | _ \<Rightarrow> None)
      | _ \<Rightarrow> None)"

definition evaluable :: "val \<Rightarrow> bool" where
  "evaluable rule =
     (case rule of
        VDict r \<Rightarrow> hashable (vget r ''op'') \<and> hashable (vget_default r ''action'' (VStr ''drop''))
      | _ \<Rightarrow> True)"

definition fires :: "dict \<Rightarrow> val \<Rightarrow> bool" where
  "fires event rule =
     (case well_formed_rule rule of
        None \<Rightarrow> False | Some (f, op, v, a) \<Rightarrow> matches event f op v)"

definition rule_action :: "val \<Rightarrow> string" where
  "rule_action rule = (case well_formed_rule rule of None \<Rightarrow> ''keep'' | Some (f, op, v, a) \<Rightarrow> a)"

fun first_match :: "dict \<Rightarrow> nat \<Rightarrow> val list \<Rightarrow> (nat \<times> val) option" where
  "first_match event i [] = None"
| "first_match event i (r # rs) = (if fires event r then Some (i, r) else first_match event (Suc i) rs)"

lemma eval_rule_evaluable:
  assumes "evaluable rule"
  shows "eval_rule event i rule =
    Inr (if fires event rule
         then Some \<lparr>fd_action = VStr (rule_action rule), fd_rule_index = Some i\<rparr> else None)"
proof (cases rule)
  case (VDict r)
  show ?thesis
    using assms
    by (cases "vget r ''field''"; cases "vget r ''op''";
        cases "vget_default r ''action'' (VStr ''drop'')")
      (auto simp: VDict eval_rule_def evaluable_def fires_def rule_action_def
        well_formed_rule_def in_frozenset_def Let_def)
qed (simp_all add: eval_rule_def fires_def well_formed_rule_def)

lemma filter_loop_first_match:
  "\<forall>r \<in> set rules. evaluable r \<Longrightarrow>
   filter_loop event i rules =
     Inr (case first_match event i rules of
            None \<Rightarrow> keep_default
          | Some (j, r) \<Rightarrow> \<lparr>fd_action = VStr (rule_action r), fd_rule_index = Some j\<rparr>)"
  by (induction event i rules rule: first_match.induct) (auto simp: eval_rule_evaluable)

lemma first_match_Some:
  "first_match event i rules = Some (j, r) \<Longrightarrow>
   i \<le> j \<and> j - i < length rules \<and> r = rules ! (j - i) \<and> fires event r
   \<and> (\<forall>k < j - i. \<not> fires event (rules ! k))"
proof (induction event i rules rule: first_match.induct)
  case (2 event i r' rs)
  show ?case
  proof (cases "fires event r'")
    case False
    with 2 have IH: "Suc i \<le> j" "j - Suc i < length rs" "r = rs ! (j - Suc i)" "fires event r"
      "\<forall>k < j - Suc i. \<not> fires event (rs ! k)" by auto
    then have "j - i = Suc (j - Suc i)" by simp
    with IH False show ?thesis by (auto simp: nth_Cons split: nat.splits)
  qed (use 2 in auto)
qed simp

lemma first_match_None: "first_match event i rules = None \<longleftrightarrow> (\<forall>r \<in> set rules. \<not> fires event r)"
  by (induction event i rules rule: first_match.induct) auto

lemma apply_filter_rules_loop: "apply_filter_rules event (Some rs) = filter_loop event 0 rs"
  by (simp add: apply_filter_rules_def)

lemma eval_rule_Inr:
  assumes "eval_rule event i rule = Inr o1"
  shows "o1 = (if fires event rule
      then Some \<lparr>fd_action = VStr (rule_action rule), fd_rule_index = Some i\<rparr> else None)"
proof (cases rule)
  case (VDict r)
  from assms show ?thesis
    by (cases "vget r ''field''"; cases "vget r ''op''";
        cases "vget_default r ''action'' (VStr ''drop'')")
      (auto simp: VDict eval_rule_def fires_def rule_action_def
        well_formed_rule_def in_frozenset_def Let_def split: if_splits)
qed (use assms in \<open>auto simp: eval_rule_def fires_def well_formed_rule_def\<close>)

lemma filter_loop_decision:
  "filter_loop event i rules = Inr d \<Longrightarrow>
   d = keep_default \<or>
   (\<exists>j < length rules. fires event (rules ! j) \<and> fd_rule_index d = Some (i + j)
      \<and> fd_action d = VStr (rule_action (rules ! j)))"
proof (induction rules arbitrary: i)
  case (Cons rule rules)
  from Cons.prems obtain o1 where o1: "eval_rule event i rule = Inr o1" by auto
  note ev = eval_rule_Inr [OF o1]
  show ?case
  proof (cases "fires event rule")
    case True
    with Cons.prems o1 ev have "d = \<lparr>fd_action = VStr (rule_action rule), fd_rule_index = Some i\<rparr>"
      by simp
    with True show ?thesis by (intro disjI2 exI [of _ 0]) simp
  next
    case False
    with Cons.prems o1 ev have "filter_loop event (Suc i) rules = Inr d" by simp
    from Cons.IH [OF this] show ?thesis by (auto intro: exI [of _ "Suc _"])
  qed
qed simp

lemma fires_cases:
  assumes "fires event rule"
  obtains r f op a where "rule = VDict r" "vget r ''field'' = VStr f" "f \<noteq> []"
    "vget r ''op'' = VStr op" "op \<in> set VALID_OPS" "a \<in> set VALID_ACTIONS"
    "vget_default r ''action'' (VStr ''drop'') = VStr a" "rule_action rule = a"
    "matches event f op (vget r ''value'')"
  using assms
  by (auto simp: fires_def well_formed_rule_def rule_action_def
      split: val.splits option.splits if_splits)

lemma eval_rule_not_evaluable:
  assumes "rule = VDict r" "vget r ''field'' = VStr (c # f)" "\<not> hashable (vget r ''op'')"
  shows "eval_rule event i rule = Inl TypeError"
  using assms by (simp add: eval_rule_def in_frozenset_def)

lemma filter_loop_append_none:
  "\<forall>r \<in> set pre. evaluable r \<and> \<not> fires event r \<Longrightarrow>
   filter_loop event i (pre @ rules) = filter_loop event (i + length pre) rules"
  by (induction pre arbitrary: i) (auto simp: eval_rule_evaluable)

subsection \<open>Properties\<close>

text \<open>
  C22.  On a rule list whose operators and actions are hashable, the loop is exactly the
  first-match chain: the decision carries the action and the index of the first rule that is
  well formed and whose predicate holds, and is keep with no index when there is none.
\<close>

theorem filter_first_match:
  assumes "\<forall>r \<in> set rules. evaluable r"
  shows "case first_match event 0 rules of
      None \<Rightarrow> apply_filter_rules event (Some rules) = Inr keep_default
        \<and> (\<forall>k < length rules. \<not> fires event (rules ! k))
    | Some (j, r) \<Rightarrow> apply_filter_rules event (Some rules)
          = Inr \<lparr>fd_action = VStr (rule_action r), fd_rule_index = Some j\<rparr>
        \<and> j < length rules \<and> r = rules ! j \<and> fires event r \<and> (\<forall>k < j. \<not> fires event (rules ! k))"
  using filter_loop_first_match [OF assms] first_match_Some [of event 0 rules]
    first_match_None [of event 0 rules]
  by (auto simp: apply_filter_rules_loop split: option.splits)

lemma filter_first_match_witness:
  "apply_filter_rules [(''severity'', VInt 5), (''host'', VStr ''DC-01'')]
     (Some [VStr ''junk'',
            VDict [(''field'', VStr ''host''), (''op'', VStr ''starts_with''), (''value'', VStr ''web'')],
            VDict [(''field'', VStr ''severity''), (''op'', VStr ''contains''), (''value'', VStr ''5''),
                   (''action'', VStr ''keep'')],
            VDict [(''field'', VStr ''host''), (''op'', VStr ''ne''), (''value'', VStr ''x'')]])
   = Inr \<lparr>fd_action = VStr ''keep'', fd_rule_index = Some 2\<rparr>"
proof -
  define event where "event = [(''severity'', VInt 5), (''host'', VStr ''DC-01'')]"
  define rs where "rs = [VStr ''junk'',
            VDict [(''field'', VStr ''host''), (''op'', VStr ''starts_with''), (''value'', VStr ''web'')],
            VDict [(''field'', VStr ''severity''), (''op'', VStr ''contains''), (''value'', VStr ''5''),
                   (''action'', VStr ''keep'')],
            VDict [(''field'', VStr ''host''), (''op'', VStr ''ne''), (''value'', VStr ''x'')]]"
  have ev: "\<forall>r \<in> set rs. evaluable r" unfolding rs_def by code_simp
  have fm: "map_option fst (first_match event 0 rs) = Some 2" "rule_action (rs ! 2) = ''keep''"
    unfolding rs_def event_def by code_simp+
  then obtain r where r: "first_match event 0 rs = Some (2, r)" by auto
  from filter_first_match [OF ev, of event] fm
  have "apply_filter_rules event (Some rs) = Inr \<lparr>fd_action = VStr ''keep'', fd_rule_index = Some 2\<rparr>"
    by (simp add: r)
  then show ?thesis unfolding event_def rs_def .
qed

text \<open>
  The edge never discards an event by accident: whatever the configuration holds, a drop
  decision names a rule of the list that is a well-formed drop rule whose field is present and
  not null in the event and whose predicate holds.
\<close>

theorem filter_drop_justified:
  assumes "apply_filter_rules event (Some rules) = Inr d" "fd_action d = VStr ''drop''"
  shows "\<exists>j r f op. fd_rule_index d = Some j \<and> j < length rules \<and> rules ! j = VDict r
    \<and> vget r ''field'' = VStr f \<and> f \<noteq> [] \<and> vget r ''op'' = VStr op \<and> op \<in> set VALID_OPS
    \<and> vget_default r ''action'' (VStr ''drop'') = VStr ''drop''
    \<and> vget event f \<noteq> VNone \<and> matches event f op (vget r ''value'')"
proof -
  from assms(1) have "filter_loop event 0 rules = Inr d" by (simp add: apply_filter_rules_loop)
  from filter_loop_decision [OF this] assms(2)
  obtain j where j: "j < length rules" "fires event (rules ! j)" "fd_rule_index d = Some j"
      "rule_action (rules ! j) = ''drop''"
    by (auto simp: keep_default_def)
  from j(2) obtain r f op a where r: "rules ! j = VDict r" "vget r ''field'' = VStr f" "f \<noteq> []"
    "vget r ''op'' = VStr op" "op \<in> set VALID_OPS" "a \<in> set VALID_ACTIONS"
    "vget_default r ''action'' (VStr ''drop'') = VStr a" "rule_action (rules ! j) = a"
    "matches event f op (vget r ''value'')" by (rule fires_cases)
  moreover from r(9) have "vget event f \<noteq> VNone" by (auto simp: matches_def)
  ultimately show ?thesis using j by auto
qed

lemma filter_drop_justified_witness:
  "\<exists>j r f op. Some (1::nat) = Some j \<and> j < 2
    \<and> [VInt 3, VDict [(''field'', VStr ''os''), (''op'', VStr ''eq''), (''value'', VStr ''linux'')]] ! j = VDict r
    \<and> vget r ''field'' = VStr f \<and> f \<noteq> [] \<and> vget r ''op'' = VStr op \<and> op \<in> set VALID_OPS
    \<and> vget_default r ''action'' (VStr ''drop'') = VStr ''drop''
    \<and> vget [(''os'', VStr ''linux'')] f \<noteq> VNone
    \<and> matches [(''os'', VStr ''linux'')] f op (vget r ''value'')"
proof -
  have a: "apply_filter_rules [(''os'', VStr ''linux'')]
    (Some [VInt 3, VDict [(''field'', VStr ''os''), (''op'', VStr ''eq''), (''value'', VStr ''linux'')]])
    = Inr \<lparr>fd_action = VStr ''drop'', fd_rule_index = Some 1\<rparr>" by code_simp
  show ?thesis using filter_drop_justified [OF a] by simp
qed

end
