(* ===== verification/Sha256.thy ===== *)
theory Sha256
  imports Py_Prelude "HOL-Library.Word"
begin

unbundle bit_operations_syntax

text \<open>
  \<open>hashlib.sha256(...).hexdigest()\<close> and \<open>hmac.new(key, msg, hashlib.sha256).hexdigest()\<close> of
  the standard library (FIPS 180-4 and FIPS 198-1), executable, on the UTF-8 bytes
  of a string.  The theorems of the development never rest on a cryptographic assumption: where
  tampering could only go unseen through a collision, the theorem exhibits the collision.
\<close>

definition sha_k :: "32 word list" where
  "sha_k = [1116352408, 1899447441, 3049323471, 3921009573, 961987163, 1508970993, 2453635748, 2870763221,
   3624381080, 310598401, 607225278, 1426881987, 1925078388, 2162078206, 2614888103, 3248222580,
   3835390401, 4022224774, 264347078, 604807628, 770255983, 1249150122, 1555081692, 1996064986,
   2554220882, 2821834349, 2952996808, 3210313671, 3336571891, 3584528711, 113926993, 338241895,
   666307205, 773529912, 1294757372, 1396182291, 1695183700, 1986661051, 2177026350, 2456956037,
   2730485921, 2820302411, 3259730800, 3345764771, 3516065817, 3600352804, 4094571909, 275423344,
   430227734, 506948616, 659060556, 883997877, 958139571, 1322822218, 1537002063, 1747873779,
   1955562222, 2024104815, 2227730452, 2361852424, 2428436474, 2756734187, 3204031479, 3329325298]"

definition sha_h0 :: "32 word list" where
  "sha_h0 = [1779033703, 3144134277, 1013904242, 2773480762, 1359893119, 2600822924, 528734635, 1541459225]"

text \<open>\<open>s.encode("utf-8")\<close> for code points below 256.\<close>

definition utf8_char :: "char \<Rightarrow> 8 word list" where
  "utf8_char c = (let n = of_char c :: nat in
     if n < 128 then [of_nat n] else [of_nat (192 + n div 64), of_nat (128 + n mod 64)])"

definition str_bytes :: "string \<Rightarrow> 8 word list" where
  "str_bytes s = concat (map utf8_char s)"

definition be_bytes :: "nat \<Rightarrow> nat \<Rightarrow> 8 word list" where
  "be_bytes k n = map (\<lambda>i. of_nat (n div 256 ^ (k - 1 - i) mod 256)) [0..<k]"

definition sha_pad :: "8 word list \<Rightarrow> 8 word list" where
  "sha_pad m = m @ [0x80] @ replicate ((119 - length m mod 64) mod 64) 0 @ be_bytes 8 (8 * length m)"

fun words_of :: "8 word list \<Rightarrow> 32 word list" where
  "words_of (a # b # c # d # bs) =
     of_nat (unat a * 2 ^ 24 + unat b * 2 ^ 16 + unat c * 2 ^ 8 + unat d) # words_of bs"
| "words_of _ = []"

definition rotr :: "nat \<Rightarrow> 32 word \<Rightarrow> 32 word" where
  "rotr n w = drop_bit n w OR push_bit (32 - n) w"

text \<open>The message schedule, newest word first, extended to 64 words.\<close>

fun sha_schedule :: "nat \<Rightarrow> 32 word list \<Rightarrow> 32 word list" where
  "sha_schedule 0 ws = rev ws"
| "sha_schedule (Suc n) ws =
     (let w15 = ws ! 14; w2 = ws ! 1;
          s0 = rotr 7 w15 XOR rotr 18 w15 XOR drop_bit 3 w15;
          s1 = rotr 17 w2 XOR rotr 19 w2 XOR drop_bit 10 w2
      in sha_schedule n ((ws ! 15 + s0 + ws ! 6 + s1) # ws))"

fun sha_rounds :: "(32 word \<times> 32 word) list \<Rightarrow> 32 word list \<Rightarrow> 32 word list" where
  "sha_rounds ((k, w) # kws) [a, b, c, d, e, f, g, h] =
     (let t1 = h + (rotr 6 e XOR rotr 11 e XOR rotr 25 e) + ((e AND f) XOR (NOT e AND g)) + k + w;
          t2 = (rotr 2 a XOR rotr 13 a XOR rotr 22 a) + ((a AND b) XOR (a AND c) XOR (b AND c))
      in sha_rounds kws [t1 + t2, a, b, c, d + t1, e, f, g])"
| "sha_rounds _ st = st"

definition sha_block :: "32 word list \<Rightarrow> 32 word list \<Rightarrow> 32 word list" where
  "sha_block st blk = map2 (+) st (sha_rounds (zip sha_k (sha_schedule 48 (rev blk))) st)"

fun sha_blocks :: "nat \<Rightarrow> 32 word list \<Rightarrow> 32 word list \<Rightarrow> 32 word list" where
  "sha_blocks 0 st ws = st"
| "sha_blocks (Suc n) st ws = sha_blocks n (sha_block st (take 16 ws)) (drop 16 ws)"

definition sha256_words :: "8 word list \<Rightarrow> 32 word list" where
  "sha256_words m = (let p = sha_pad m in sha_blocks (length p div 64) sha_h0 (words_of p))"

definition word_bytes :: "32 word \<Rightarrow> 8 word list" where
  "word_bytes w = be_bytes 4 (unat w)"

definition sha256_bytes :: "8 word list \<Rightarrow> 8 word list" where
  "sha256_bytes m = concat (map word_bytes (sha256_words m))"

definition lower_hex :: "nat \<Rightarrow> char" where
  "lower_hex n = (if n < 10 then char_of (48 + n) else char_of (87 + n))"

definition hexdigest :: "8 word list \<Rightarrow> string" where
  "hexdigest bs = concat (map (\<lambda>b. [lower_hex (unat b div 16), lower_hex (unat b mod 16)]) bs)"

definition sha256 :: "string \<Rightarrow> string" where
  "sha256 s = hexdigest (sha256_bytes (str_bytes s))"

definition hmac_sha256 :: "string \<Rightarrow> string \<Rightarrow> string" where
  "hmac_sha256 key msg =
     (let k0 = str_bytes key;
          k1 = (if length k0 > 64 then sha256_bytes k0 else k0);
          k = k1 @ replicate (64 - length k1) 0;
          inner = sha256_bytes (map (\<lambda>b. b XOR 0x36) k @ str_bytes msg)
      in hexdigest (sha256_bytes (map (\<lambda>b. b XOR 0x5c) k @ inner)))"

subsection \<open>Shape of a digest\<close>

definition hex_alphabet :: "char set" where
  "hex_alphabet = set ''0123456789abcdef''"

lemma lower_hex_char: "n < 16 \<Longrightarrow> lower_hex n \<in> hex_alphabet"
proof -
  assume "n < 16"
  moreover have "\<forall>n \<in> set [0..<16]. lower_hex n \<in> hex_alphabet"
    unfolding hex_alphabet_def by code_simp
  ultimately show ?thesis by simp
qed

lemma hexdigest_chars: "set (hexdigest bs) \<subseteq> hex_alphabet"
proof -
  have b8: "unat (b :: 8 word) < 256" for b
  proof -
    have "unat b < 2 ^ LENGTH(8)" by (rule unsigned_less)
    then show ?thesis by simp
  qed
  have "lower_hex (unat (b :: 8 word) div 16) \<in> hex_alphabet"
    "lower_hex (unat b mod 16) \<in> hex_alphabet" for b
    using b8 [of b] by (auto intro!: lower_hex_char)
  then show ?thesis by (auto simp: hexdigest_def)
qed

lemma hexdigest_length: "length (hexdigest bs) = 2 * length bs"
  by (induction bs) (auto simp: hexdigest_def)

lemma sha_rounds_length: "length st = 8 \<Longrightarrow> length (sha_rounds kws st) = 8"
proof (induction kws st rule: sha_rounds.induct)
  case (1 k w kws a b c d e f g h)
  then show ?case by (simp add: Let_def)
qed simp_all

lemma sha_blocks_length: "length st = 8 \<Longrightarrow> length (sha_blocks n st ws) = 8"
  by (induction n st ws rule: sha_blocks.induct) (auto simp: sha_block_def sha_rounds_length)

lemma sha256_bytes_length: "length (sha256_bytes m) = 32"
proof -
  have "length (sha256_words m) = 8"
    by (simp add: sha256_words_def Let_def sha_blocks_length sha_h0_def)
  moreover have "length (concat (map word_bytes ws)) = 4 * length ws" for ws
    by (induction ws) (auto simp: word_bytes_def be_bytes_def)
  ultimately show ?thesis by (simp add: sha256_bytes_def)
qed

lemma sha256_length: "length (sha256 s) = 64"
  by (simp add: sha256_def hexdigest_length sha256_bytes_length)

lemma sha256_chars: "set (sha256 s) \<subseteq> hex_alphabet"
  by (simp add: sha256_def hexdigest_chars)

lemma hmac_sha256_length: "length (hmac_sha256 k m) = 64"
  by (simp add: hmac_sha256_def Let_def hexdigest_length sha256_bytes_length)

lemma hmac_sha256_chars: "set (hmac_sha256 k m) \<subseteq> hex_alphabet"
  by (simp add: hmac_sha256_def Let_def hexdigest_chars)

lemma sha256_nonempty [simp]: "sha256 s \<noteq> []" "sha256 s = [] \<longleftrightarrow> False"
  using sha256_length [of s] by auto

end
