(* ===== verification/Fingerprint.thy ===== *)
theory Fingerprint
  imports Py_Value Sha256
begin

text \<open>
  Schema fingerprints of the drift sentinel
  (\<open>services/connectors/app/pipeline/fingerprint.py\<close>): the digest of the set of top-level
  field names of a batch, and the difference between two field sets.
\<close>

subsection \<open>The code\<close>

definition SEPARATOR :: char where
  "SEPARATOR = CHR 0x1F"

definition event_keys :: "val \<Rightarrow> string list" where
  "event_keys e = (case e of VDict d \<Rightarrow> map fst d | _ \<Rightarrow> [])"

definition batch_keys :: "val list \<Rightarrow> string list" where
  "batch_keys events = concat (map event_keys events)"

definition compute_fingerprint :: "val list \<Rightarrow> string option" where
  "compute_fingerprint events =
     (let keys = batch_keys events in
      if keys = [] then None
      else Some (sha256 (join_with [SEPARATOR] (sorted_set keys))))"

record drift_details =
  dd_added :: "string list"
  dd_removed :: "string list"
  dd_unchanged_count :: nat

definition diff_fingerprints :: "string list \<Rightarrow> string list \<Rightarrow> drift_details" where
  "diff_fingerprints previous_keys current_keys =
     \<lparr>dd_added = sorted_set (filter (\<lambda>k. k \<notin> set previous_keys) current_keys),
      dd_removed = sorted_set (filter (\<lambda>k. k \<notin> set current_keys) previous_keys),
      dd_unchanged_count = length (remdups (filter (\<lambda>k. k \<in> set current_keys) previous_keys))\<rparr>"

subsection \<open>Lemmas\<close>

definition sha_collision :: "string \<Rightarrow> string \<Rightarrow> bool" where
  "sha_collision s t \<longleftrightarrow> s \<noteq> t \<and> sha256 s = sha256 t"

lemma sha256_eqD: "sha256 s = sha256 t \<Longrightarrow> s = t \<or> sha_collision s t"
  by (auto simp: sha_collision_def)

abbreviation canonical_keys :: "val list \<Rightarrow> string" where
  "canonical_keys events \<equiv> join_with [SEPARATOR] (sorted_set (batch_keys events))"

lemma sorted_set_Nil_iff: "sorted_set xs = [] \<longleftrightarrow> xs = []"
  by (metis set_empty sorted_set_props(1))

lemma canonical_keys_inject:
  assumes "\<forall>k \<in> set (batch_keys b1) \<union> set (batch_keys b2). SEPARATOR \<notin> set k"
    and "batch_keys b1 \<noteq> []" "batch_keys b2 \<noteq> []"
    and "canonical_keys b1 = canonical_keys b2"
  shows "set (batch_keys b1) = set (batch_keys b2)"
proof -
  have "sorted_set (batch_keys b1) = sorted_set (batch_keys b2)"
    by (rule join_with_inject [OF _ _ _ _ assms(4)]) (use assms(1-3) in \<open>auto simp: sorted_set_Nil_iff\<close>)
  then show ?thesis by (simp add: sorted_set_eq_iff)
qed

lemma compute_fingerprint_cong:
  "set (batch_keys b1) = set (batch_keys b2) \<Longrightarrow> compute_fingerprint b1 = compute_fingerprint b2"
proof -
  assume a: "set (batch_keys b1) = set (batch_keys b2)"
  then have "(batch_keys b1 = []) = (batch_keys b2 = [])" by auto
  with sorted_set_cong [OF a] show ?thesis by (simp add: compute_fingerprint_def Let_def)
qed

subsection \<open>Properties\<close>

text \<open>
  C38.  The fingerprint is a faithful name of the field set: two batches with the same set of
  top-level fields have the same fingerprint, whatever the values, the order and the missing
  optional fields; and if two batches whose field names are free of the separator have the same
  fingerprint, either their field sets are the same or their canonical strings are a SHA-256
  collision.
\<close>

theorem fingerprint_sound_complete:
  assumes "\<forall>k \<in> set (batch_keys b1) \<union> set (batch_keys b2). SEPARATOR \<notin> set k"
  shows "compute_fingerprint b1 = compute_fingerprint b2 \<longleftrightarrow>
      set (batch_keys b1) = set (batch_keys b2)
    \<or> batch_keys b1 \<noteq> [] \<and> batch_keys b2 \<noteq> [] \<and> sha_collision (canonical_keys b1) (canonical_keys b2)"
proof (cases "batch_keys b1 = [] \<or> batch_keys b2 = []")
  case True
  then show ?thesis by (auto simp: compute_fingerprint_def Let_def)
next
  case False
  then have fp: "compute_fingerprint b1 = compute_fingerprint b2
      \<longleftrightarrow> sha256 (canonical_keys b1) = sha256 (canonical_keys b2)"
    by (simp add: compute_fingerprint_def Let_def)
  show ?thesis
    using fp False canonical_keys_inject [OF assms] compute_fingerprint_cong [of b1 b2]
    by (auto simp: sha_collision_def)
qed

lemma fingerprint_sound_complete_witness:
  "compute_fingerprint [VDict [(''user'', VInt 1)], VDict [(''severity'', VNone), (''user'', VStr ''x'')]]
   = compute_fingerprint [VStr ''noise'', VDict [(''severity'', VInt 3), (''user'', VStr ''y'')]]"
  by (subst fingerprint_sound_complete) (auto simp: batch_keys_def event_keys_def SEPARATOR_def)

text \<open>
  The drift details account for the whole change: applying them to the previous field set
  (remove, then add) gives the current one, the three parts are disjoint and sorted without
  duplicates, and they are empty exactly when the two field sets are equal, which is when two
  batches with these keys have the same fingerprint.
\<close>

theorem diff_fingerprints_reconstructs:
  "let d = diff_fingerprints prev cur in
     (set prev - set (dd_removed d)) \<union> set (dd_added d) = set cur
   \<and> sorted (dd_added d) \<and> distinct (dd_added d) \<and> sorted (dd_removed d) \<and> distinct (dd_removed d)
   \<and> card (set prev) = length (dd_removed d) + dd_unchanged_count d
   \<and> card (set cur) = length (dd_added d) + dd_unchanged_count d
   \<and> (dd_added d = [] \<and> dd_removed d = [] \<longleftrightarrow> set prev = set cur)"
proof -
  have len: "length (sorted_set xs) = card (set xs)" for xs :: "string list"
    by (simp add: sorted_set_def length_remdups_card_conv)
  have split: "card (set xs) = card (set (filter P xs)) + card (set (filter (\<lambda>x. \<not> P x) xs))"
    for xs :: "string list" and P
    by (subst card_Un_disjoint [symmetric]) (auto intro: arg_cong [of _ _ card])
  define d where "d = diff_fingerprints prev cur"
  have "(set prev - set (dd_removed d)) \<union> set (dd_added d) = set cur"
    by (auto simp: d_def diff_fingerprints_def)
  moreover have "sorted (dd_added d) \<and> distinct (dd_added d) \<and> sorted (dd_removed d) \<and> distinct (dd_removed d)"
    by (simp add: d_def diff_fingerprints_def)
  moreover have "card (set prev) = length (dd_removed d) + dd_unchanged_count d"
    using split [of prev "\<lambda>k. k \<notin> set cur"]
    by (simp add: d_def diff_fingerprints_def len length_remdups_card_conv)
  moreover have inter: "set (filter (\<lambda>k. k \<in> set cur) prev) = set (filter (\<lambda>k. k \<in> set prev) cur)" by auto
  have "card (set cur) = length (dd_added d) + dd_unchanged_count d"
    using split [of cur "\<lambda>k. k \<notin> set prev"] inter
    by (simp add: d_def diff_fingerprints_def len length_remdups_card_conv)
  moreover have "dd_added d = [] \<and> dd_removed d = [] \<longleftrightarrow> set prev = set cur"
    by (auto simp: d_def diff_fingerprints_def sorted_set_Nil_iff filter_empty_conv)
  ultimately show ?thesis by (simp add: Let_def d_def)
qed

end
