(* ===== verification/Json.thy ===== *)
theory Json
  imports Py_Value
begin

text \<open>
  \<open>json.dumps\<close> of the standard library on JSON values, with the options the services use
  (\<open>sort_keys\<close>, the two separators, ASCII output), and the fact the hash-based components rest
  on: the text determines the value, up to the order of dictionary keys that \<open>sort_keys\<close>
  forgets.
\<close>

subsection \<open>The encoder\<close>

definition json_char :: "char \<Rightarrow> string" where
  "json_char c = (let n = (of_char c :: nat) in
     if n = 34 \<or> n = 92 then [CHR 0x5C, c]
     else if n = 10 then [CHR 0x5C, CHR ''n'']
     else if n = 13 then [CHR 0x5C, CHR ''r'']
     else if n = 9 then [CHR 0x5C, CHR ''t'']
     else if n = 8 then [CHR 0x5C, CHR ''b'']
     else if n = 12 then [CHR 0x5C, CHR ''f'']
     else if n < 32 \<or> 126 < n
       then [CHR 0x5C, CHR ''u'', CHR ''0'', CHR ''0'', hex_digit (n div 16), hex_digit (n mod 16)]
     else [c])"

definition json_str :: "string \<Rightarrow> string" where
  "json_str s = CHR 0x22 # concat (map json_char s) @ [CHR 0x22]"

fun json_text :: "string \<Rightarrow> string \<Rightarrow> val \<Rightarrow> string" where
  "json_text isep ksep VNone = ''null''"
| "json_text isep ksep (VBool b) = (if b then ''true'' else ''false'')"
| "json_text isep ksep (VInt i) = int_str i"
| "json_text isep ksep (VFloat r s) = s"
| "json_text isep ksep (VStr s) = json_str s"
| "json_text isep ksep (VList xs) = CHR ''['' # join_with isep (map (json_text isep ksep) xs) @ '']''"
| "json_text isep ksep (VDict d) =
     CHR ''{'' # join_with isep (map (\<lambda>(k, v). json_str k @ ksep @ json_text isep ksep v) d) @ ''}''"

text \<open>\<open>sort_keys=True\<close> sorts every dictionary by key.\<close>

fun sort_dicts :: "val \<Rightarrow> val" where
  "sort_dicts (VList xs) = VList (map sort_dicts xs)"
| "sort_dicts (VDict d) = VDict (sort_key fst (map (\<lambda>(k, v). (k, sort_dicts v)) d))"
| "sort_dicts v = v"

definition json_dumps :: "val \<Rightarrow> string" where
  "json_dumps v = json_text '', '' '': '' v"

definition json_dumps_sorted :: "val \<Rightarrow> string" where
  "json_dumps_sorted v = json_text '', '' '': '' (sort_dicts v)"

definition json_compact :: "val \<Rightarrow> string" where
  "json_compact v = json_text '','' '':'' v"

definition json_compact_sorted :: "val \<Rightarrow> string" where
  "json_compact_sorted v = json_text '','' '':'' (sort_dicts v)"

subsection \<open>Strings are decodable from the front\<close>

fun hex_val :: "char \<Rightarrow> nat" where
  "hex_val c = (if is_digit c then of_char c - 48 else of_char c - 87)"

fun unescape1 :: "string \<Rightarrow> (char \<times> string) option" where
  "unescape1 [] = None"
| "unescape1 (c # cs) =
     (if c = CHR 0x22 then None
      else if c \<noteq> CHR 0x5C then Some (c, cs)
      else (case cs of
          [] \<Rightarrow> None
        | d # ds \<Rightarrow>
            if d = CHR ''n'' then Some (char_of (10::nat), ds)
            else if d = CHR ''r'' then Some (char_of (13::nat), ds)
            else if d = CHR ''t'' then Some (char_of (9::nat), ds)
            else if d = CHR ''b'' then Some (char_of (8::nat), ds)
            else if d = CHR ''f'' then Some (char_of (12::nat), ds)
            else if d = CHR ''u'' then
              (case ds of _ # _ # a # b # es \<Rightarrow> Some (char_of (16 * hex_val a + hex_val b), es) | _ \<Rightarrow> None)
            else Some (d, ds)))"

lemma unescape1_append: "unescape1 a = Some (c, []) \<Longrightarrow> unescape1 (a @ x) = Some (c, x)"
  by (cases a rule: unescape1.cases) (auto split: list.splits if_splits)

lemma hex_digit_val: "n < 16 \<Longrightarrow> hex_val (hex_digit n) = n"
proof -
  assume "n < 16"
  moreover have "\<forall>n \<in> set [0..<16]. hex_val (hex_digit n) = n" by code_simp
  ultimately show ?thesis by simp
qed

lemma char_eq_code: "c = d \<longleftrightarrow> (of_char c :: nat) = of_char d"
  by (rule inj_eq [OF inj_of_char, symmetric])

lemma unescape1_char: "unescape1 (json_char c) = Some (c, [])"
proof -
  define n where "n = (of_char c :: nat)"
  have c: "c = char_of n" and n: "n < 256" by (simp_all add: n_def)
  consider "n = 34 \<or> n = 92" | "n \<in> {8, 9, 10, 12, 13}"
    | "n \<notin> {8, 9, 10, 12, 13}" "n < 32 \<or> 126 < n"
    | "n \<noteq> 34" "n \<noteq> 92" "32 \<le> n" "n \<le> 126"
    by fastforce
  then show ?thesis
  proof cases
    case 1
    then show ?thesis by (auto simp: c json_char_def char_eq_code)
  next
    case 2
    then show ?thesis by (auto simp: c json_char_def)
  next
    case 3
    then have "json_char c = [CHR 0x5C, CHR ''u'', CHR ''0'', CHR ''0'', hex_digit (n div 16), hex_digit (n mod 16)]"
      using n by (auto simp: json_char_def n_def [symmetric] Let_def)
    moreover have "n div 16 < 16" using n by simp
    ultimately show ?thesis
      by (simp add: hex_digit_val c del: hex_val.simps)
  next
    case 4
    then have "json_char c = [c]" by (simp add: json_char_def n_def [symmetric] Let_def)
    moreover have "c \<noteq> CHR 0x22" "c \<noteq> CHR 0x5C"
      using 4 by (auto simp: char_eq_code n_def [symmetric])
    ultimately show ?thesis by simp
  qed
qed

lemma json_char_decode: "unescape1 (json_char c @ x) = Some (c, x)"
  by (rule unescape1_append) (rule unescape1_char)

lemma json_body_inject:
  "concat (map json_char s) @ CHR 0x22 # r = concat (map json_char t) @ CHR 0x22 # u
   \<Longrightarrow> s = t \<and> r = u"
proof (induction s arbitrary: t)
  case Nil
  then show ?case
  proof (cases t)
    case (Cons d t')
    have "unescape1 (CHR 0x22 # r) = Some (d, concat (map json_char t') @ CHR 0x22 # u)"
      using Nil json_char_decode [of d] by (simp add: Cons)
    then show ?thesis by simp
  qed simp
next
  case (Cons c s)
  show ?case
  proof (cases t)
    case Nil
    have "unescape1 (CHR 0x22 # u) = Some (c, concat (map json_char s) @ CHR 0x22 # r)"
      using Cons.prems json_char_decode [of c "concat (map json_char s) @ CHR 0x22 # r"]
      by (simp only: Nil list.map concat.simps append.simps append_assoc)
    then show ?thesis by simp
  next
    case (Cons d t')
    have "json_char c @ (concat (map json_char s) @ CHR 0x22 # r)
      = json_char d @ (concat (map json_char t') @ CHR 0x22 # u)"
      using Cons.prems by (simp add: Cons)
    then have "c = d" "concat (map json_char s) @ CHR 0x22 # r = concat (map json_char t') @ CHR 0x22 # u"
      using json_char_decode by (metis option.inject prod.inject)+
    with Cons.IH show ?thesis by (simp add: Cons)
  qed
qed

lemma json_str_inject: "json_str s @ r = json_str t @ u \<Longrightarrow> s = t \<and> r = u"
  by (rule json_body_inject) (simp add: json_str_def)

subsection \<open>Values are decodable from the front\<close>

text \<open>
  The values whose text is decodable: a float carries a numeral that is not an integer literal
  and that denotes its value.
\<close>

definition num_char :: "char \<Rightarrow> bool" where
  "num_char c \<longleftrightarrow> is_digit c \<or> c \<in> set ''+-.e''"

definition float_text :: "string \<Rightarrow> bool" where
  "float_text s \<longleftrightarrow> list_all num_char s \<and> list_ex (\<lambda>c. c = CHR ''.'' \<or> c = CHR ''e'') s"

fun json_ok :: "val \<Rightarrow> bool" where
  "json_ok (VFloat r s) = (float_text s \<and> py_float s = Some r)"
| "json_ok (VList xs) = list_all json_ok xs"
| "json_ok (VDict d) = list_all (\<lambda>(k, v). json_ok v) d"
| "json_ok v = True"

definition stops :: "string \<Rightarrow> bool" where
  "stops r \<longleftrightarrow> (case r of [] \<Rightarrow> True | c # _ \<Rightarrow> c \<in> set '',]}'')"

lemma stops_simps [simp]:
  "stops []" "stops (CHR '','' # r)" "stops (CHR '']'' # r)" "stops (CHR ''}'' # r)"
  by (simp_all add: stops_def)

lemma num_char_digit: "is_digit c \<Longrightarrow> num_char c"
  by (simp add: num_char_def)

lemma digit_distinct: "is_digit c \<Longrightarrow> c \<noteq> CHR ''.'' \<and> c \<noteq> CHR ''e'' \<and> c \<noteq> CHR ''-''"
  by (auto simp: is_digit_def char_le_iff)

lemma int_str_chars: "list_all num_char (int_str i)" "\<not> list_ex (\<lambda>c. c = CHR ''.'' \<or> c = CHR ''e'') (int_str i)"
  using nat_str_digits num_char_digit digit_distinct
  by (auto simp: int_str_def list_all_iff list_ex_iff num_char_def)

lemma int_str_nonempty [simp]: "int_str i \<noteq> []"
  by (simp add: int_str_def)

lemma num_prefix:
  assumes "list_all num_char a" "list_all num_char b" "stops r" "stops s" "a @ r = b @ s"
  shows "a = b \<and> r = s"
proof -
  have tw: "takeWhile num_char (x @ y) = x" if "list_all num_char x" "stops y" for x y
    using that by (cases y) (auto simp: stops_def list_all_iff takeWhile_append2 num_char_def is_digit_def char_le_iff)
  have "a = b" using tw [OF assms(1,3)] tw [OF assms(2,4)] assms(5) by simp
  with assms(5) show ?thesis by simp
qed

text \<open>The first character of a text tells the kind of the value.\<close>

definition text_kind :: "char \<Rightarrow> nat" where
  "text_kind c = (if c = CHR ''n'' then 0 else if c \<in> set ''tf'' then 1 else if num_char c then 2
     else if c = CHR 0x22 then 3 else if c = CHR ''['' then 4 else if c = CHR ''{'' then 5 else 6)"

fun val_kind :: "val \<Rightarrow> nat" where
  "val_kind VNone = 0" | "val_kind (VBool b) = 1" | "val_kind (VInt i) = 2" | "val_kind (VFloat r s) = 2"
| "val_kind (VStr s) = 3" | "val_kind (VList xs) = 4" | "val_kind (VDict d) = 5"

lemma num_char_kind: "num_char c \<Longrightarrow> text_kind c = 2"
  by (auto simp: text_kind_def num_char_def is_digit_def char_le_iff)

lemma json_text_head:
  assumes "json_ok v"
  shows "\<exists>c cs. json_text isep ksep v = c # cs \<and> text_kind c = val_kind v"
proof (cases v)
  case (VInt i)
  then show ?thesis using int_str_chars(1) [of i]
    by (cases "int_str i") (auto simp: num_char_kind)
next
  case (VFloat r s)
  then show ?thesis using assms by (cases s) (auto simp: float_text_def num_char_kind)
qed (auto simp: text_kind_def json_str_def num_char_def is_digit_def char_le_iff)

lemma join_with_tails: "join_with sep (p # ps) = p @ concat (map (\<lambda>q. sep @ q) ps)"
  by (induction ps arbitrary: p) simp_all

abbreviation tails_text :: "string \<Rightarrow> ('a \<Rightarrow> string) \<Rightarrow> 'a list \<Rightarrow> string \<Rightarrow> string" where
  "tails_text isep f xs r \<equiv> concat (map (\<lambda>q. isep @ q) (map f xs)) @ r"

lemma tails_stop: "isep = CHR '','' # w \<Longrightarrow> stops r \<Longrightarrow> stops (tails_text isep f xs r)"
  by (cases xs) (simp_all add: stops_def)

lemma tails_inject:
  assumes step: "\<And>x y r s. x \<in> set xs \<Longrightarrow> y \<in> set ys \<Longrightarrow> stops r \<Longrightarrow> stops s \<Longrightarrow> f x @ r = f y @ s
      \<Longrightarrow> x = y \<and> r = s"
    and isep: "isep = CHR '','' # w" and close: "close = CHR '']'' \<or> close = CHR ''}''"
    and eq: "tails_text isep f xs (close # r) = tails_text isep f ys (close # s)"
  shows "xs = ys \<and> r = s"
  using step eq
proof (induction xs arbitrary: ys)
  case Nil
  then show ?case using isep close by (cases ys) auto
next
  case (Cons x xs)
  show ?case
  proof (cases ys)
    case Nil
    then show ?thesis using Cons.prems isep close by auto
  next
    case (Cons y zs)
    have st: "stops (tails_text isep f ws (close # q))" for ws q
      using close by (intro tails_stop [OF isep]) auto
    have "f x @ tails_text isep f xs (close # r) = f y @ tails_text isep f zs (close # s)"
      using Cons.prems(2) by (simp add: Cons)
    then have "x = y \<and> tails_text isep f xs (close # r) = tails_text isep f zs (close # s)"
      by (intro Cons.prems(1) [OF _ _ st st]) (simp_all add: Cons)
    moreover from this have "xs = zs \<and> r = s"
      using Cons.prems(1) by (intro Cons.IH) (auto simp: Cons)
    ultimately show ?thesis by (simp add: Cons)
  qed
qed

lemma items_inject:
  assumes step: "\<And>x y r s. x \<in> set xs \<Longrightarrow> y \<in> set ys \<Longrightarrow> stops r \<Longrightarrow> stops s \<Longrightarrow> f x @ r = f y @ s
      \<Longrightarrow> x = y \<and> r = s"
    and head: "\<And>x. x \<in> set xs \<union> set ys \<Longrightarrow> \<exists>c cs. f x = c # cs \<and> c \<noteq> close"
    and isep: "isep = CHR '','' # w" and close: "close = CHR '']'' \<or> close = CHR ''}''"
    and eq: "join_with isep (map f xs) @ close # r = join_with isep (map f ys) @ close # s"
  shows "xs = ys \<and> r = s"
proof (cases xs)
  case xs: Nil
  show ?thesis
  proof (cases ys)
    case (Cons y zs)
    then show ?thesis using eq head [of y] by (auto simp: xs join_with_tails)
  qed (use eq xs in simp)
next
  case xs: (Cons x xs')
  show ?thesis
  proof (cases ys)
    case Nil
    then show ?thesis using eq head [of x] by (auto simp: xs join_with_tails)
  next
    case ys: (Cons y ys')
    have st: "stops (tails_text isep f ws (close # q))" for ws q
      using close by (intro tails_stop [OF isep]) auto
    have "f x @ tails_text isep f xs' (close # r) = f y @ tails_text isep f ys' (close # s)"
      using eq by (simp add: xs ys join_with_tails)
    then have "x = y \<and> tails_text isep f xs' (close # r) = tails_text isep f ys' (close # s)"
      by (intro step [OF _ _ st st]) (simp_all add: xs ys)
    moreover from this have "xs' = ys' \<and> r = s"
      using step isep close by (intro tails_inject [of xs' ys' f isep w close]) (auto simp: xs ys)
    ultimately show ?thesis by (simp add: xs ys)
  qed
qed

lemma json_text_prefix:
  assumes isep: "isep = CHR '','' # w"
  shows "json_ok v \<Longrightarrow> json_ok u \<Longrightarrow> stops r \<Longrightarrow> stops s \<Longrightarrow>
    json_text isep ksep v @ r = json_text isep ksep u @ s \<Longrightarrow> v = u \<and> r = s"
proof (induction v arbitrary: u r s)
  case VNone
  obtain c cs where "json_text isep ksep u = c # cs" "text_kind c = val_kind u"
    using json_text_head VNone by blast
  with VNone have "val_kind u = 0" by (simp add: text_kind_def)
  then have "u = VNone" by (cases u) auto
  with VNone show ?case by simp
next
  case (VBool b)
  obtain c cs where c: "json_text isep ksep u = c # cs" "text_kind c = val_kind u"
    using json_text_head VBool by blast
  with VBool have "val_kind u = 1" by (auto simp: text_kind_def split: if_splits)
  then obtain b' where "u = VBool b'" by (cases u) auto
  with VBool show ?case by (auto split: if_splits)
next
  case (VInt i)
  have "val_kind u = 2"
    using json_text_head [OF VInt(1), of isep ksep] json_text_head [OF VInt(2), of isep ksep] VInt.prems(5)
    by fastforce
  then consider j where "u = VInt j" | q t where "u = VFloat q t" by (cases u) auto
  then show ?case
  proof cases
    case (1 j)
    then show ?thesis using VInt.prems num_prefix [OF int_str_chars(1) int_str_chars(1)] by simp
  next
    case (2 q t)
    then have "int_str i = t"
      using VInt.prems num_prefix [OF int_str_chars(1), of t r s] by (auto simp: float_text_def)
    then show ?thesis using VInt.prems(2) int_str_chars(2) [of i] 2 by (auto simp: float_text_def)
  qed
next
  case (VFloat q t)
  have "val_kind u = 2"
    using json_text_head [OF VFloat(1), of isep ksep] json_text_head [OF VFloat(2), of isep ksep] VFloat.prems(5)
    by fastforce
  then consider j where "u = VInt j" | q' t' where "u = VFloat q' t'" by (cases u) auto
  then show ?case
  proof cases
    case (1 j)
    then have "int_str j = t"
      using VFloat.prems num_prefix [OF _ int_str_chars(1), of t r s] by (auto simp: float_text_def)
    then show ?thesis using VFloat.prems(1) int_str_chars(2) [of j] by (auto simp: float_text_def)
  next
    case (2 q' t')
    then show ?thesis using VFloat.prems num_prefix [of t t' r s] by (auto simp: float_text_def)
  qed
next
  case (VStr t)
  obtain c cs where "json_text isep ksep u = c # cs" "text_kind c = val_kind u"
    using json_text_head VStr by blast
  with VStr have "val_kind u = 3" by (auto simp: text_kind_def json_str_def num_char_def is_digit_def char_le_iff)
  then obtain t' where "u = VStr t'" by (cases u) auto
  have "t = t' \<and> r = s"
    by (rule json_str_inject) (use VStr.prems(5) in \<open>simp add: \<open>u = VStr t'\<close>\<close>)
  with \<open>u = VStr t'\<close> show ?case by simp
next
  case (VList xs)
  obtain c cs where "json_text isep ksep u = c # cs" "text_kind c = val_kind u"
    using json_text_head VList.prems(2) by blast
  with VList.prems(5) have "val_kind u = 4" by (auto simp: text_kind_def num_char_def is_digit_def char_le_iff)
  then obtain ys where u: "u = VList ys" by (cases u) auto
  have "xs = ys \<and> r = s"
  proof (rule items_inject [where f = "json_text isep ksep", OF _ _ isep])
    show "join_with isep (map (json_text isep ksep) xs) @ CHR '']'' # r
      = join_with isep (map (json_text isep ksep) ys) @ CHR '']'' # s"
      using VList.prems(5) by (simp add: u)
    show "\<exists>c cs. json_text isep ksep x = c # cs \<and> c \<noteq> CHR '']''" if "x \<in> set xs \<union> set ys" for x
    proof -
      have "json_ok x" using that VList.prems(1,2) by (auto simp: u list_all_iff)
      then obtain c cs where c: "json_text isep ksep x = c # cs" "text_kind c = val_kind x"
        using json_text_head by blast
      have "val_kind x < 6" by (cases x) auto
      with c show ?thesis by (auto simp: text_kind_def num_char_def is_digit_def char_le_iff)
    qed
    show "x = y \<and> r' = s'" if xy: "x \<in> set xs" "y \<in> set ys" "stops r'" "stops s'"
        "json_text isep ksep x @ r' = json_text isep ksep y @ s'" for x y r' s'
    proof (rule VList.IH [OF xy(1) _ _ xy(3,4,5)])
      show "json_ok x" using VList.prems(1) xy(1) by (simp add: list_all_iff)
      show "json_ok y" using VList.prems(2) xy(2) by (simp add: u list_all_iff)
    qed
  qed simp
  with u show ?case by simp
next
  case (VDict d)
  obtain c cs where "json_text isep ksep u = c # cs" "text_kind c = val_kind u"
    using json_text_head VDict.prems(2) by blast
  with VDict.prems(5) have "val_kind u = 5" by (auto simp: text_kind_def num_char_def is_digit_def char_le_iff)
  then obtain e where u: "u = VDict e" by (cases u) auto
  let ?f = "\<lambda>(k, v). json_str k @ ksep @ json_text isep ksep v"
  have "d = e \<and> r = s"
  proof (rule items_inject [where f = ?f, OF _ _ isep])
    show "join_with isep (map ?f d) @ CHR ''}'' # r = join_with isep (map ?f e) @ CHR ''}'' # s"
      using VDict.prems(5) by (simp add: u)
    show "\<exists>c cs. ?f x = c # cs \<and> c \<noteq> CHR ''}''" for x
      by (cases x) (simp add: json_str_def)
    show "x = y \<and> r' = s'" if xy: "x \<in> set d" "y \<in> set e" "stops r'" "stops s'" "?f x @ r' = ?f y @ s'" for x y r' s'
    proof -
      obtain k v k' v' where p: "x = (k, v)" "y = (k', v')" by (cases x, cases y)
      have "k = k' \<and> ksep @ json_text isep ksep v @ r' = ksep @ json_text isep ksep v' @ s'"
        by (rule json_str_inject) (use xy(5) p in simp)
      then have "k = k'" "json_text isep ksep v @ r' = json_text isep ksep v' @ s'" by simp_all
      moreover have "json_ok v" "json_ok v'" using VDict.prems(1,2) xy p by (auto simp: u list_all_iff)
      moreover have "v \<in> Basic_BNFs.snds x" by (simp add: p)
      ultimately show ?thesis using VDict.IH [OF xy(1), of v v' r' s'] xy(3,4) p by simp
    qed
  qed auto
  with u show ?case by simp
qed

lemma json_text_inject:
  "isep = CHR '','' # w \<Longrightarrow> json_ok v \<Longrightarrow> json_ok u \<Longrightarrow> json_text isep ksep v = json_text isep ksep u \<Longrightarrow> v = u"
  using json_text_prefix [of isep w v u "[]" "[]" ksep] by simp

lemma json_ok_sort_dicts: "json_ok v \<Longrightarrow> json_ok (sort_dicts v)"
proof (induction v)
  case (VDict d)
  then show ?case by (fastforce simp: list_all_iff)
qed (auto simp: list_all_iff)

lemma json_dumps_sorted_inject:
  "json_ok v \<Longrightarrow> json_ok u \<Longrightarrow> json_dumps_sorted v = json_dumps_sorted u \<Longrightarrow> sort_dicts v = sort_dicts u"
  unfolding json_dumps_sorted_def by (rule json_text_inject) (simp_all add: json_ok_sort_dicts)

lemma json_compact_sorted_inject:
  "json_ok v \<Longrightarrow> json_ok u \<Longrightarrow> json_compact_sorted v = json_compact_sorted u \<Longrightarrow> sort_dicts v = sort_dicts u"
  unfolding json_compact_sorted_def by (rule json_text_inject) (simp_all add: json_ok_sort_dicts)

end
