(* ===== verification/Py_Obj.thy ===== *)
theory Py_Obj
  imports Json
begin

text \<open>
  The Python objects that reach the audit pipeline: JSON values, and the three kinds of object
  that are not JSON but occur in payloads (UUIDs, datetimes, anything else), each carried by its
  text.  Dictionary keys are strings, so \<open>str(k)\<close> is the key itself.
\<close>

datatype pyobj =
    PNone
  | PBool bool
  | PInt int
  | PFloat rat string
  | PStr string
  | PUuid string             \<comment> \<open>its canonical text\<close>
  | PDatetime string string  \<comment> \<open>\<open>isoformat()\<close> and \<open>str()\<close>\<close>
  | POther string            \<comment> \<open>\<open>str()\<close>\<close>
  | PList "pyobj list"
  | PDict "(string \<times> pyobj) list"

text \<open>What \<open>json.dumps(..., default=str)\<close> encodes.\<close>

fun json_default_str :: "pyobj \<Rightarrow> val" where
  "json_default_str PNone = VNone"
| "json_default_str (PBool b) = VBool b"
| "json_default_str (PInt i) = VInt i"
| "json_default_str (PFloat r s) = VFloat r s"
| "json_default_str (PStr s) = VStr s"
| "json_default_str (PUuid s) = VStr s"
| "json_default_str (PDatetime i s) = VStr s"
| "json_default_str (POther s) = VStr s"
| "json_default_str (PList xs) = VList (map json_default_str xs)"
| "json_default_str (PDict d) = VDict (map (\<lambda>(k, v). (k, json_default_str v)) d)"

definition opt_str :: "string option \<Rightarrow> val" where
  "opt_str v = (case v of None \<Rightarrow> VNone | Some s \<Rightarrow> VStr s)"

lemma opt_str_inject [simp]: "opt_str a = opt_str b \<longleftrightarrow> a = b"
  by (cases a; cases b) (auto simp: opt_str_def)

lemma opt_str_simps [simp]: "json_ok (opt_str a)" "sort_dicts (opt_str a) = opt_str a"
  by (cases a; simp add: opt_str_def)+

end
