(* ===== verification/Audit_Redaction.thy ===== *)
theory Audit_Redaction
  imports Py_Obj Sha256
begin

text \<open>
  Redaction of audit payloads (\<open>services/api/app/services/audit_redaction.py\<close>): secret-bearing
  keys are masked at every depth, the walk is bounded in depth and node count, and an oversized
  result collapses to a marker.
\<close>

subsection \<open>Sensitive keys\<close>

text \<open>
  The pattern table: a plain word anywhere in the key, two words joined by nothing, a hyphen or
  an underscore, or the whole key (where \<open>$\<close> also matches before a final newline).
\<close>

datatype key_pattern = Word string | Joined string string | Whole string

definition SENSITIVE_KEY_PATTERNS :: "key_pattern list" where
  "SENSITIVE_KEY_PATTERNS =
    [Word ''password'', Word ''passwd'', Word ''secret'', Word ''token'', Joined ''api'' ''key'',
     Joined ''private'' ''key'', Word ''credential'', Word ''authorization'', Whole ''auth'',
     Joined ''client'' ''secret'', Joined ''refresh'' ''token'', Joined ''access'' ''token'',
     Joined ''session'' ''id'', Word ''cookie'', Word ''otp'', Joined ''mfa'' ''code'',
     Joined ''recovery'' ''code'', Joined ''webhook'' ''secret'', Joined ''signing'' ''key'']"

fun pattern_search :: "string \<Rightarrow> key_pattern \<Rightarrow> bool" where
  "pattern_search key (Word w) = substr_in w (lower key)"
| "pattern_search key (Joined a b) =
     (substr_in (a @ b) (lower key) \<or> substr_in (a @ ''_'' @ b) (lower key)
      \<or> substr_in (a @ ''-'' @ b) (lower key))"
| "pattern_search key (Whole w) = (lower key = w \<or> lower key = w @ [CHR 0x0A])"

definition is_sensitive_key :: "string \<Rightarrow> bool" where
  "is_sensitive_key key = list_ex (pattern_search key) SENSITIVE_KEY_PATTERNS"

definition REDACTED_SENTINEL :: string where
  "REDACTED_SENTINEL = ''[REDACTED]''"

definition DEFAULT_MAX_BYTES :: int where "DEFAULT_MAX_BYTES = 16 * 1024"
definition MAX_DEPTH :: nat where "MAX_DEPTH = 8"
definition MAX_NODES :: nat where "MAX_NODES = 2000"

text \<open>The argument is the environment variable.\<close>

definition max_bytes :: "string option \<Rightarrow> int" where
  "max_bytes raw =
     (case raw of
        None \<Rightarrow> DEFAULT_MAX_BYTES
      | Some s \<Rightarrow> if s = [] then DEFAULT_MAX_BYTES
          else (case py_int s of None \<Rightarrow> DEFAULT_MAX_BYTES | Some value \<Rightarrow> max value 256))"

subsection \<open>The walk\<close>

text \<open>The counter is a one-element list in the code; it is threaded here.\<close>

fun redact_node :: "pyobj \<Rightarrow> nat \<Rightarrow> nat \<Rightarrow> pyobj \<times> nat"
  and redact_items :: "(string \<times> pyobj) list \<Rightarrow> nat \<Rightarrow> nat \<Rightarrow> (string \<times> pyobj) list \<times> nat"
  and redact_elems :: "pyobj list \<Rightarrow> nat \<Rightarrow> nat \<Rightarrow> pyobj list \<times> nat"
where
  "redact_node value depth counter =
     (let counter = Suc counter in
      if MAX_NODES < counter then (PStr REDACTED_SENTINEL, counter)
      else if MAX_DEPTH < depth then (PStr REDACTED_SENTINEL, counter)
      else (case value of
          PDict d \<Rightarrow> (case redact_items d depth counter of (out, n) \<Rightarrow> (PDict out, n))
        | PList xs \<Rightarrow> (case redact_elems xs depth counter of (out, n) \<Rightarrow> (PList out, n))
        | _ \<Rightarrow> (value, counter)))"
| "redact_items [] depth counter = ([], counter)"
| "redact_items ((k, v) # d) depth counter =
     (if is_sensitive_key k
      then (case redact_items d depth counter of (out, n) \<Rightarrow> ((k, PStr REDACTED_SENTINEL) # out, n))
      else (case redact_node v (Suc depth) counter of (v', n) \<Rightarrow>
            (case redact_items d depth n of (out, m) \<Rightarrow> ((k, v') # out, m))))"
| "redact_elems [] depth counter = ([], counter)"
| "redact_elems (x # xs) depth counter =
     (case redact_node x (Suc depth) counter of (x', n) \<Rightarrow>
      (case redact_elems xs depth n of (out, m) \<Rightarrow> (x' # out, m)))"

declare redact_node.simps [simp del]

abbreviation over_limits :: "nat \<Rightarrow> nat \<Rightarrow> bool" where
  "over_limits dep n \<equiv> MAX_NODES < Suc n \<or> MAX_DEPTH < dep"

lemma redact_node_over: "over_limits dep n \<Longrightarrow> redact_node v dep n = (PStr REDACTED_SENTINEL, Suc n)"
  by (auto simp: redact_node.simps [of v dep n] Let_def)

lemma redact_node_dict:
  "\<not> over_limits dep n \<Longrightarrow> redact_node (PDict d) dep n = map_prod PDict id (redact_items d dep (Suc n))"
  by (simp add: redact_node.simps [of _ dep n] Let_def map_prod_def)

lemma redact_node_list:
  "\<not> over_limits dep n \<Longrightarrow> redact_node (PList xs) dep n = map_prod PList id (redact_elems xs dep (Suc n))"
  by (simp add: redact_node.simps [of _ dep n] Let_def map_prod_def)

fun is_leaf :: "pyobj \<Rightarrow> bool" where
  "is_leaf (PList xs) = False" | "is_leaf (PDict d) = False" | "is_leaf v = True"

lemma redact_node_leaf: "is_leaf v \<Longrightarrow> \<not> over_limits dep n \<Longrightarrow> redact_node v dep n = (v, Suc n)"
  by (cases v) (auto simp: redact_node.simps [of _ dep n] Let_def)

lemma redact_items_sensitive:
  "is_sensitive_key k \<Longrightarrow> redact_items ((k, v) # d) dep n
     = map_prod (\<lambda>out. (k, PStr REDACTED_SENTINEL) # out) id (redact_items d dep n)"
  by (simp add: map_prod_def)

lemma redact_items_plain:
  "\<not> is_sensitive_key k \<Longrightarrow> redact_items ((k, v) # d) dep n
     = map_prod (\<lambda>out. (k, fst (redact_node v (Suc dep) n)) # out) id
         (redact_items d dep (snd (redact_node v (Suc dep) n)))"
  by (simp add: map_prod_def split: prod.split)

lemma redact_elems_Cons:
  "redact_elems (x # xs) dep n
     = map_prod (\<lambda>out. fst (redact_node x (Suc dep) n) # out) id
         (redact_elems xs dep (snd (redact_node x (Suc dep) n)))"
  by (simp add: map_prod_def split: prod.split)

lemmas redact_steps = redact_node_over redact_node_dict redact_node_list redact_items_sensitive
  redact_items_plain redact_elems_Cons redact_items.simps(1) redact_elems.simps(1)

declare redact_items.simps(2) [simp del] redact_elems.simps(2) [simp del]

text \<open>Induction along the walk, one case per kind of node.\<close>

lemma redact_induct [case_names over leaf dict list nil_item sensitive item nil_elem elem]:
  assumes over: "\<And>v dep n. over_limits dep n \<Longrightarrow> P v dep n"
    and leaf: "\<And>v dep n. \<not> over_limits dep n \<Longrightarrow> is_leaf v \<Longrightarrow> P v dep n"
    and dict: "\<And>d dep n. \<not> over_limits dep n \<Longrightarrow> Q d dep (Suc n) \<Longrightarrow> P (PDict d) dep n"
    and list: "\<And>xs dep n. \<not> over_limits dep n \<Longrightarrow> R xs dep (Suc n) \<Longrightarrow> P (PList xs) dep n"
    and nil_item: "\<And>dep n. Q [] dep n"
    and sensitive: "\<And>k v d dep n. is_sensitive_key k \<Longrightarrow> Q d dep n \<Longrightarrow> Q ((k, v) # d) dep n"
    and item: "\<And>k v d dep n. \<not> is_sensitive_key k \<Longrightarrow> P v (Suc dep) n
      \<Longrightarrow> Q d dep (snd (redact_node v (Suc dep) n)) \<Longrightarrow> Q ((k, v) # d) dep n"
    and nil_elem: "\<And>dep n. R [] dep n"
    and elem: "\<And>x xs dep n. P x (Suc dep) n \<Longrightarrow> R xs dep (snd (redact_node x (Suc dep) n))
      \<Longrightarrow> R (x # xs) dep n"
  shows "P v dep n" and "Q d dep n" and "R xs dep n"
proof (induction v dep n and d dep n and xs dep n rule: redact_node_redact_items_redact_elems.induct)
  case (1 v0 depth counter)
  show ?case
  proof (cases "over_limits depth counter")
    case False
    show ?thesis
    proof (cases v0)
      case (PList xs)
      have "R xs depth (Suc counter)" by (rule 1(1)) (use False PList in auto)
      then show ?thesis using list False PList by blast
    next
      case (PDict d)
      have "Q d depth (Suc counter)" by (rule 1(2)) (use False PDict in auto)
      then show ?thesis using dict False PDict by blast
    qed (use leaf [OF False] in auto)
  qed (use over in blast)
next
  case (3 k v d depth counter)
  show ?case
  proof (cases "is_sensitive_key k")
    case True
    with 3 show ?thesis by (intro sensitive) auto
  next
    case False
    with 3 show ?thesis by (intro item) (auto simp: prod_eq_iff)
  qed
next
  case (5 x xs depth counter)
  then show ?case by (auto intro: elem simp: prod_eq_iff)
qed (auto intro: nil_item nil_elem)

subsection \<open>The entry point\<close>

definition encoded_size :: "(string \<times> pyobj) list \<Rightarrow> int" where
  "encoded_size d = int (length (str_bytes (json_compact (json_default_str (PDict d)))))"

definition truncated_marker :: "int \<Rightarrow> int \<Rightarrow> (string \<times> pyobj) list" where
  "truncated_marker nbytes cap =
     [(''_truncated'', PBool True), (''_original_size_bytes'', PInt nbytes), (''_max_size_bytes'', PInt cap)]"

text \<open>
  The top node is never over the limits, so the walk starts in its items.  The values above have
  no cycle and every one of them is serialisable, so the \<open>unserializable\<close> marker cannot occur.
\<close>

definition redact_changes :: "string option \<Rightarrow> (string \<times> pyobj) list option \<Rightarrow> (string \<times> pyobj) list option" where
  "redact_changes env changes =
     (case changes of
        None \<Rightarrow> None
      | Some d \<Rightarrow>
          if d = [] then Some []
          else (case redact_node (PDict d) 0 0 of
              (PDict redacted, _) \<Rightarrow>
                let cap = max_bytes env; nbytes = encoded_size redacted in
                if nbytes \<le> cap then Some redacted else Some (truncated_marker nbytes cap)
            | _ \<Rightarrow> None))"

subsection \<open>No secret survives\<close>

text \<open>Every sensitive key, at every depth, holds the sentinel.\<close>

fun masked :: "pyobj \<Rightarrow> bool" where
  "masked (PDict d) =
     list_all (\<lambda>(k, v). if is_sensitive_key k then v = PStr REDACTED_SENTINEL else masked v) d"
| "masked (PList xs) = list_all masked xs"
| "masked v = True"

lemma redact_masked:
  "masked (fst (redact_node v dep n))"
  "list_all (\<lambda>(k, v). if is_sensitive_key k then v = PStr REDACTED_SENTINEL else masked v)
     (fst (redact_items d dep n))"
  "list_all masked (fst (redact_elems xs dep n))"
proof (induction v dep n and d dep n and xs dep n rule: redact_induct)
  case (leaf v dep n)
  then show ?case by (cases v) (auto simp: redact_node_leaf)
qed (simp_all add: redact_steps)

text \<open>The walk keeps the shape: a second walk takes the same decisions.\<close>

lemma redact_idem:
  "redact_node (fst (redact_node v dep n)) dep n = redact_node v dep n"
  "redact_items (fst (redact_items d dep n)) dep n = redact_items d dep n"
  "redact_elems (fst (redact_elems xs dep n)) dep n = redact_elems xs dep n"
proof (induction v dep n and d dep n and xs dep n rule: redact_induct)
  case (leaf v dep n)
  then show ?case by (simp add: redact_node_leaf)
qed (simp_all add: redact_steps prod_eq_iff)

text \<open>A payload inside the limits and without a sensitive key passes unchanged.\<close>

fun node_count :: "pyobj \<Rightarrow> nat" where
  "node_count (PDict d) = Suc (sum_list (map (\<lambda>(k, v). node_count v) d))"
| "node_count (PList xs) = Suc (sum_list (map node_count xs))"
| "node_count v = 1"

fun depth_of :: "pyobj \<Rightarrow> nat" where
  "depth_of (PDict d) = fold max (map (\<lambda>(k, v). Suc (depth_of v)) d) 0"
| "depth_of (PList xs) = fold max (map (\<lambda>v. Suc (depth_of v)) xs) 0"
| "depth_of v = 0"

fun no_sensitive :: "pyobj \<Rightarrow> bool" where
  "no_sensitive (PDict d) = list_all (\<lambda>(k, v). \<not> is_sensitive_key k \<and> no_sensitive v) d"
| "no_sensitive (PList xs) = list_all no_sensitive xs"
| "no_sensitive v = True"

lemma fold_max_le: "fold max xs a \<le> (b::nat) \<longleftrightarrow> a \<le> b \<and> (\<forall>x \<in> set xs. x \<le> b)"
  by (induction xs arbitrary: a) auto

lemma redact_unchanged:
  "no_sensitive v \<Longrightarrow> n + node_count v \<le> MAX_NODES \<Longrightarrow> dep + depth_of v \<le> MAX_DEPTH
   \<Longrightarrow> redact_node v dep n = (v, n + node_count v)"
  "list_all (\<lambda>(k, v). \<not> is_sensitive_key k \<and> no_sensitive v) d
   \<Longrightarrow> n + sum_list (map (\<lambda>(k, v). node_count v) d) \<le> MAX_NODES
   \<Longrightarrow> (\<forall>(k, v) \<in> set d. Suc dep + depth_of v \<le> MAX_DEPTH)
   \<Longrightarrow> redact_items d dep n = (d, n + sum_list (map (\<lambda>(k, v). node_count v) d))"
  "list_all no_sensitive xs
   \<Longrightarrow> n + sum_list (map node_count xs) \<le> MAX_NODES
   \<Longrightarrow> (\<forall>v \<in> set xs. Suc dep + depth_of v \<le> MAX_DEPTH)
   \<Longrightarrow> redact_elems xs dep n = (xs, n + sum_list (map node_count xs))"
proof (induction v dep n and d dep n and xs dep n rule: redact_induct)
  case (leaf v dep n)
  then show ?case by (cases v) (simp_all add: redact_node_leaf)
next
  case (over v dep n)
  then show ?case by (cases v) auto
next
  case (dict d dep n)
  have fm: "fold max (map (\<lambda>(k, v). Suc (depth_of v)) d) 0 \<le> MAX_DEPTH - dep"
    using dict.prems(3) by simp
  have "Suc dep + depth_of v \<le> MAX_DEPTH" if "(k, v) \<in> set d" for k v
    using fm that dict.prems(3) unfolding fold_max_le by force
  then have "redact_items d dep (Suc n) = (d, Suc n + sum_list (map (\<lambda>(k, v). node_count v) d))"
    using dict by (intro dict.IH) auto
  with dict show ?case by (simp add: redact_node_dict)
next
  case (list xs dep n)
  have fm: "fold max (map (\<lambda>v. Suc (depth_of v)) xs) 0 \<le> MAX_DEPTH - dep"
    using list.prems(3) by simp
  have "Suc dep + depth_of v \<le> MAX_DEPTH" if "v \<in> set xs" for v
    using fm that list.prems(3) unfolding fold_max_le by force
  then have "redact_elems xs dep (Suc n) = (xs, Suc n + sum_list (map node_count xs))"
    using list by (intro list.IH) auto
  with list show ?case by (simp add: redact_node_list)
next
  case (item k v d dep n)
  then have v: "redact_node v (Suc dep) n = (v, n + node_count v)" by simp
  with item show ?case by (simp add: redact_steps add.assoc)
next
  case (elem x xs dep n)
  then have v: "redact_node x (Suc dep) n = (x, n + node_count x)" by simp
  with elem show ?case by (simp add: redact_steps add.assoc)
qed (simp_all add: redact_steps)


lemma masked_items:
  "list_all (\<lambda>(k, v). if is_sensitive_key k then v = PStr REDACTED_SENTINEL else masked v) d
   \<longleftrightarrow> masked (PDict d)"
  by simp

lemma root_within [simp]: "\<not> over_limits 0 0"
  by (simp add: MAX_NODES_def MAX_DEPTH_def)

lemma redact_changes_Some:
  assumes "d \<noteq> []"
  shows "redact_changes env (Some d) =
    (let redacted = fst (redact_items d 0 1); cap = max_bytes env; nbytes = encoded_size redacted in
     if nbytes \<le> cap then Some redacted else Some (truncated_marker nbytes cap))"
  using assms redact_node_dict [OF root_within, of d]
  by (simp add: redact_changes_def map_prod_def Let_def split: prod.split)

lemma marker_masked: "masked (PDict (truncated_marker a b))"
proof -
  have "\<not> is_sensitive_key ''_truncated''" "\<not> is_sensitive_key ''_original_size_bytes''"
    "\<not> is_sensitive_key ''_max_size_bytes''" by code_simp+
  then show ?thesis by (simp add: truncated_marker_def)
qed

subsection \<open>Properties\<close>

text \<open>
  C15.  No secret reaches the audit row: in whatever is persisted, at every depth, a key that
  matches the sensitive patterns holds the sentinel; and the encoded size of a payload that is
  not the truncation marker is within the configured cap.
\<close>

theorem redact_changes_masks:
  assumes "redact_changes env changes = Some out"
  shows "masked (PDict out) \<and> (encoded_size out \<le> max_bytes env \<or> out = []
    \<or> (\<exists>n > max_bytes env. out = truncated_marker n (max_bytes env)))"
proof -
  from assms obtain d where d: "changes = Some d" by (auto simp: redact_changes_def split: option.splits)
  show ?thesis
  proof (cases "d = []")
    case True
    with assms d show ?thesis by (simp add: redact_changes_def)
  next
    case False
    have "masked (PDict (fst (redact_items d 0 1)))"
      using redact_masked(2) [of d 0 1] by (simp only: masked_items)
    with assms d False marker_masked show ?thesis
      by (auto simp del: masked.simps simp: redact_changes_Some Let_def not_le split: if_splits)
  qed
qed

lemma redact_changes_masks_witness:
  "masked (PDict [(''user'', PDict [(''Api-Key'', PStr REDACTED_SENTINEL), (''name'', PStr ''eve'')])])"
proof -
  have "redact_changes None (Some [(''user'', PDict [(''Api-Key'', PStr ''sk-123''), (''name'', PStr ''eve'')])])
    = Some [(''user'', PDict [(''Api-Key'', PStr REDACTED_SENTINEL), (''name'', PStr ''eve'')])]"
    by code_simp
  from redact_changes_masks [OF this] show ?thesis by (rule conjunct1)
qed

text \<open>
  Redaction is exact: the walk is idempotent on every value, at every depth and counter, so
  a payload that was redacted once is not changed by a second pass over it; and a payload without
  sensitive keys inside the depth, node and size limits is persisted unchanged.
\<close>

theorem redaction_exact:
  "redact_node (fst (redact_node v dep n)) dep n = redact_node v dep n
   \<and> (no_sensitive (PDict d) \<and> node_count (PDict d) \<le> MAX_NODES \<and> depth_of (PDict d) \<le> MAX_DEPTH
      \<and> encoded_size d \<le> max_bytes env \<longrightarrow> redact_changes env (Some d) = Some d)"
proof (intro conjI impI)
  show "redact_node (fst (redact_node v dep n)) dep n = redact_node v dep n" by (rule redact_idem)
  assume a: "no_sensitive (PDict d) \<and> node_count (PDict d) \<le> MAX_NODES \<and> depth_of (PDict d) \<le> MAX_DEPTH
      \<and> encoded_size d \<le> max_bytes env"
  show "redact_changes env (Some d) = Some d"
  proof (cases "d = []")
    case False
    have "redact_node (PDict d) 0 0 = (PDict d, 0 + node_count (PDict d))"
      using a by (intro redact_unchanged) simp_all
    then have "fst (redact_items d 0 1) = d"
      using redact_node_dict [OF root_within, of d] by (auto simp: map_prod_def split: prod.splits)
    with a False show ?thesis by (simp add: redact_changes_Some Let_def)
  qed (simp add: redact_changes_def)
qed

lemma redaction_exact_witness:
  "redact_changes None (Some [(''title'', PStr ''phish''), (''tags'', PList [PInt 1, PNone])])
   = Some [(''title'', PStr ''phish''), (''tags'', PList [PInt 1, PNone])]"
proof -
  have "no_sensitive (PDict [(''title'', PStr ''phish''), (''tags'', PList [PInt 1, PNone])])
    \<and> node_count (PDict [(''title'', PStr ''phish''), (''tags'', PList [PInt 1, PNone])]) \<le> MAX_NODES
    \<and> depth_of (PDict [(''title'', PStr ''phish''), (''tags'', PList [PInt 1, PNone])]) \<le> MAX_DEPTH
    \<and> encoded_size [(''title'', PStr ''phish''), (''tags'', PList [PInt 1, PNone])] \<le> max_bytes None"
    by code_simp
  then show ?thesis
    using redaction_exact [of PNone 0 0 "[(''title'', PStr ''phish''), (''tags'', PList [PInt 1, PNone])]" None]
    by blast
qed

end
