(* ===== verification/Audit_Chain.thy ===== *)
theory Audit_Chain
  imports Audit_Redaction Fingerprint "HOL-Library.Product_Lexorder"
begin

text \<open>
  The tamper-evident audit log: row hashes and chain verification
  (\<open>services/api/app/services/audit_hash.py\<close>) and the writer
  (\<open>services/api/app/services/audit.py\<close>).  A row id, a tenant and an actor id are the texts of
  their UUIDs, a creation time is its ISO text (UTC, so the text order is the time order).  The
  database is the list of the persisted rows; whether its lookup succeeds, the new id and the
  clock are arguments.
\<close>

subsection \<open>Rows and their canonical form\<close>

fun canonicalise :: "pyobj \<Rightarrow> val" where
  "canonicalise PNone = VNone"
| "canonicalise (PBool b) = VBool b"
| "canonicalise (PInt i) = VInt i"
| "canonicalise (PFloat r s) = VFloat r s"
| "canonicalise (PStr s) = VStr s"
| "canonicalise (PUuid s) = VStr s"
| "canonicalise (PDatetime t s) = VStr t"
| "canonicalise (PDict d) = VDict (map (\<lambda>(k, v). (k, canonicalise v)) d)"
| "canonicalise (PList xs) = VList (map canonicalise xs)"
| "canonicalise (POther s) = VStr s"

record audit_row =
  ar_id :: string
  ar_tenant_id :: string
  ar_actor_id :: "string option"
  ar_actor_email :: "string option"
  ar_actor_ip :: "string option"
  ar_action :: string
  ar_resource :: "string option"
  ar_resource_id :: "string option"
  ar_changes :: pyobj
  ar_metadata :: pyobj
  ar_created_at :: string
  ar_prev_hash :: "string option"
  ar_entry_hash :: "string option"

definition row_body :: "audit_row \<Rightarrow> val" where
  "row_body r = VDict
    [(''id'', canonicalise (PUuid (ar_id r))),
     (''tenant_id'', canonicalise (PUuid (ar_tenant_id r))),
     (''actor_id'', canonicalise (case ar_actor_id r of None \<Rightarrow> PNone | Some u \<Rightarrow> PUuid u)),
     (''actor_email'', opt_str (ar_actor_email r)),
     (''actor_ip'', opt_str (ar_actor_ip r)),
     (''action'', VStr (ar_action r)),
     (''resource'', opt_str (ar_resource r)),
     (''resource_id'', opt_str (ar_resource_id r)),
     (''changes'', canonicalise (ar_changes r)),
     (''metadata'', canonicalise (ar_metadata r)),
     (''created_at'', canonicalise (PDatetime (ar_created_at r) []))]"

definition prev_text :: "string option \<Rightarrow> string" where
  "prev_text p = (case p of None \<Rightarrow> [] | Some s \<Rightarrow> s)"

definition hash_input :: "string option \<Rightarrow> audit_row \<Rightarrow> string" where
  "hash_input prev_hash r =
     prev_text prev_hash @ CHR 0x1F # ''audit-log-v1'' @ CHR 0x1F # json_compact_sorted (row_body r)"

definition compute_entry_hash :: "string option \<Rightarrow> audit_row \<Rightarrow> string" where
  "compute_entry_hash prev_hash r = sha256 (hash_input prev_hash r)"

subsection \<open>Verification\<close>

type_synonym verdict = "bool \<times> nat option \<times> string option"

fun verify_loop :: "nat \<Rightarrow> bool \<Rightarrow> string option \<Rightarrow> audit_row list \<Rightarrow> verdict" where
  "verify_loop idx started prev_hash [] = (True, None, None)"
| "verify_loop idx started prev_hash (row # rows) =
     (case ar_entry_hash row of
        None \<Rightarrow>
          if started then (False, Some idx, Some ''chain interrupted: entry_hash missing'')
          else verify_loop (Suc idx) started prev_hash rows
      | Some stored \<Rightarrow>
          if ar_prev_hash row \<noteq> prev_hash then (False, Some idx, Some ''prev_hash mismatch'')
          else let computed = compute_entry_hash prev_hash row in
            if computed \<noteq> stored then (False, Some idx, Some ''entry_hash mismatch'')
            else verify_loop (Suc idx) True (Some computed) rows)"

definition verify_chain :: "audit_row list \<Rightarrow> verdict" where
  "verify_chain rows = verify_loop 0 False None rows"

abbreviation accepted :: verdict where
  "accepted \<equiv> (True, None, None)"

subsection \<open>The writer\<close>

definition MAX_UA_LEN :: nat where "MAX_UA_LEN = 512"
definition MAX_REQUEST_ID_LEN :: nat where "MAX_REQUEST_ID_LEN = 128"

definition safe_truncate :: "string option \<Rightarrow> nat \<Rightarrow> string option" where
  "safe_truncate v limit =
     (case v of None \<Rightarrow> None | Some s \<Rightarrow> if length s \<le> limit then Some s else Some (take limit s))"

text \<open>What the request offers: the outcome of the client address resolution and two headers.\<close>

record request_info =
  rq_client_ip :: "unit + string option"
  rq_user_agent :: "string option"
  rq_request_id :: "string option"

record emit_args =
  em_tenant_id :: string
  em_actor_id :: "string option"
  em_actor_email :: "string option"
  em_action :: string
  em_resource :: "string option"
  em_resource_id :: "string option"
  em_changes :: "(string \<times> pyobj) list option"
  em_request :: "request_info option"

definition header_entry :: "string \<Rightarrow> string option \<Rightarrow> (string \<times> pyobj) list" where
  "header_entry key v = (case v of None \<Rightarrow> [] | Some s \<Rightarrow> if s = [] then [] else [(key, PStr s)])"

definition request_meta :: "request_info \<Rightarrow> (string \<times> pyobj) list" where
  "request_meta rq =
     header_entry ''user_agent'' (safe_truncate (rq_user_agent rq) MAX_UA_LEN)
     @ header_entry ''request_id'' (safe_truncate (rq_request_id rq) MAX_REQUEST_ID_LEN)"

definition opt_dict :: "(string \<times> pyobj) list option \<Rightarrow> pyobj" where
  "opt_dict d = (case d of None \<Rightarrow> PNone | Some d \<Rightarrow> PDict d)"

definition stamp_less :: "audit_row \<Rightarrow> audit_row \<Rightarrow> bool" where
  "stamp_less a b \<longleftrightarrow> ar_created_at a < ar_created_at b
     \<or> ar_created_at a = ar_created_at b \<and> ar_id a < ar_id b"

fun latest_row :: "audit_row list \<Rightarrow> audit_row option" where
  "latest_row [] = None"
| "latest_row (r # rs) =
     (case latest_row rs of None \<Rightarrow> Some r | Some q \<Rightarrow> if stamp_less q r then Some r else Some q)"

definition resolve_prev_hash :: "audit_row list \<Rightarrow> string \<Rightarrow> string option" where
  "resolve_prev_hash db tenant_id =
     (case latest_row (filter (\<lambda>r. ar_tenant_id r = tenant_id \<and> ar_entry_hash r \<noteq> None) db) of
        None \<Rightarrow> None | Some r \<Rightarrow> ar_entry_hash r)"

text \<open>The event that is built from the outcome of the lookup; \<open>None\<close> is a failed lookup.\<close>

definition build_event ::
  "string option \<Rightarrow> string option option \<Rightarrow> emit_args \<Rightarrow> string \<Rightarrow> string \<Rightarrow> audit_row" where
  "build_event env lookup a new_id now =
     (let actor_ip = (case em_request a of None \<Rightarrow> None
            | Some rq \<Rightarrow> (case rq_client_ip rq of Inl _ \<Rightarrow> None | Inr ip \<Rightarrow> ip));
          meta = (case em_request a of None \<Rightarrow> [] | Some rq \<Rightarrow> request_meta rq);
          event = \<lparr>ar_id = new_id, ar_tenant_id = em_tenant_id a, ar_actor_id = em_actor_id a,
             ar_actor_email = em_actor_email a, ar_actor_ip = actor_ip, ar_action = em_action a,
             ar_resource = em_resource a, ar_resource_id = em_resource_id a,
             ar_changes = opt_dict (redact_changes env (em_changes a)),
             ar_metadata = (if meta = [] then PNone else PDict meta),
             ar_created_at = now, ar_prev_hash = None, ar_entry_hash = None\<rparr>
      in case lookup of
           None \<Rightarrow> event
         | Some prev \<Rightarrow> event\<lparr>ar_prev_hash := prev, ar_entry_hash := Some (compute_entry_hash prev event)\<rparr>)"

definition emit_audit ::
  "string option \<Rightarrow> bool \<Rightarrow> audit_row list \<Rightarrow> emit_args \<Rightarrow> string \<Rightarrow> string \<Rightarrow> audit_row list" where
  "emit_audit env lookup_ok db a new_id now =
     db @ [build_event env (if lookup_ok then Some (resolve_prev_hash db (em_tenant_id a)) else None)
            a new_id now]"

subsection \<open>Acceptance as linkage\<close>

fun linked :: "string option \<Rightarrow> audit_row list \<Rightarrow> bool" where
  "linked p [] = True"
| "linked p (r # rs) =
     (ar_prev_hash r = p \<and> ar_entry_hash r = Some (compute_entry_hash p r)
      \<and> linked (ar_entry_hash r) rs)"

definition end_hash :: "string option \<Rightarrow> audit_row list \<Rightarrow> string option" where
  "end_hash p rs = (if rs = [] then p else ar_entry_hash (last rs))"

lemma verify_started: "verify_loop i True p rs = accepted \<longleftrightarrow> linked p rs"
  by (induction rs arbitrary: i p) (auto simp: Let_def split: option.splits)

lemma verify_unstarted:
  "verify_loop i False None rs = accepted \<longleftrightarrow>
   linked None (dropWhile (\<lambda>r. ar_entry_hash r = None) rs)"
proof (induction rs arbitrary: i)
  case (Cons r rs)
  then show ?case
    using verify_started [of "Suc i" "ar_entry_hash r" rs] by (auto simp: Let_def split: option.splits)
qed simp

lemma linked_append: "linked p (a @ b) \<longleftrightarrow> linked p a \<and> linked (end_hash p a) b"
  by (induction a arbitrary: p) (auto simp: end_hash_def)

lemma linked_hashed: "linked p rs \<Longrightarrow> r \<in> set rs \<Longrightarrow> ar_entry_hash r \<noteq> None"
  by (induction rs arbitrary: p) auto

lemma linked_take: "linked p rs \<Longrightarrow> linked p (take n rs)"
  by (metis append_take_drop_id linked_append)

lemma compute_entry_hash_update [simp]:
  "compute_entry_hash p (r\<lparr>ar_prev_hash := q, ar_entry_hash := h\<rparr>) = compute_entry_hash p r"
  by (simp add: compute_entry_hash_def hash_input_def row_body_def)

lemma verify_prefix: "verify_loop i st p (a @ b) = accepted \<Longrightarrow> verify_loop i st p a = accepted"
  by (induction a arbitrary: i st p) (auto simp: Let_def split: option.splits if_splits)

lemma verify_erased: "verify_loop i False p (map (\<lambda>r. r\<lparr>ar_entry_hash := None\<rparr>) rows) = accepted"
  by (induction rows arbitrary: i) auto

lemma verify_linked_append:
  "linked p a \<Longrightarrow> verify_loop i True p (a @ b) = verify_loop (i + length a) True (end_hash p a) b"
  by (induction a arbitrary: i p) (auto simp: end_hash_def)

lemma verify_append:
  assumes "linked None (dropWhile (\<lambda>r. ar_entry_hash r = None) a)"
  shows "verify_loop i False None (a @ b) =
    verify_loop (i + length a) (dropWhile (\<lambda>r. ar_entry_hash r = None) a \<noteq> [])
      (end_hash None (dropWhile (\<lambda>r. ar_entry_hash r = None) a)) b"
  using assms
proof (induction a arbitrary: i)
  case (Cons r a)
  show ?case
  proof (cases "ar_entry_hash r")
    case (Some h)
    with Cons.prems verify_linked_append [of "Some h" a "Suc i" b] show ?thesis
      by (auto simp: end_hash_def)
  qed (use Cons in simp)
qed (simp add: end_hash_def)

subsection \<open>What an entry hash determines\<close>

definition row_content :: "audit_row \<Rightarrow> val" where
  "row_content r = sort_dicts (row_body r)"

definition serialisable :: "audit_row \<Rightarrow> bool" where
  "serialisable r \<longleftrightarrow> json_ok (canonicalise (ar_changes r)) \<and> json_ok (canonicalise (ar_metadata r))"

lemma serialisable_body: "serialisable r \<Longrightarrow> json_ok (row_body r)"
  by (simp add: serialisable_def row_body_def split: option.split)

definition is_digest :: "string option \<Rightarrow> bool" where
  "is_digest p \<longleftrightarrow> (case p of None \<Rightarrow> True | Some s \<Rightarrow> length s = 64 \<and> CHR 0x1F \<notin> set s)"

lemma no_separator_hex: "set s \<subseteq> hex_alphabet \<Longrightarrow> CHR 0x1F \<notin> set s"
  by (auto simp: hex_alphabet_def)

lemma compute_is_digest: "is_digest (Some (compute_entry_hash p r))"
  using no_separator_hex [OF sha256_chars] by (simp add: is_digest_def compute_entry_hash_def sha256_length)

lemma hash_input_inject:
  assumes "is_digest p" "is_digest q" "serialisable a" "serialisable b"
    and eq: "hash_input p a = hash_input q b"
  shows "p = q \<and> row_content a = row_content b"
proof -
  have app: "x = y \<and> u = w" if "x @ CHR 0x1F # u = y @ CHR 0x1F # w" "CHR 0x1F \<notin> set x" "CHR 0x1F \<notin> set y"
    for x y u w :: string
    using that by (induction x arbitrary: y) (case_tac y; auto)+
  have "CHR 0x1F \<notin> set (prev_text p)" "CHR 0x1F \<notin> set (prev_text q)"
    using assms(1,2) by (auto simp: is_digest_def prev_text_def split: option.splits)
  then have *: "prev_text p = prev_text q \<and> ''audit-log-v1'' @ CHR 0x1F # json_compact_sorted (row_body a)
      = ''audit-log-v1'' @ CHR 0x1F # json_compact_sorted (row_body b)"
    using eq unfolding hash_input_def by (intro app) simp_all
  then have "json_compact_sorted (row_body a) = json_compact_sorted (row_body b)" by simp
  then have "row_content a = row_content b"
    unfolding row_content_def using assms(3,4) by (intro json_compact_sorted_inject serialisable_body)
  moreover have "p = q"
    using * assms(1,2) by (auto simp: is_digest_def prev_text_def split: option.splits)
  ultimately show ?thesis by simp
qed

definition chain_collision :: "audit_row list \<Rightarrow> audit_row list \<Rightarrow> bool" where
  "chain_collision a b \<longleftrightarrow> (\<exists>x \<in> set a. \<exists>y \<in> set b.
     sha_collision (hash_input (ar_prev_hash x) x) (hash_input (ar_prev_hash y) y))"

lemma linked_end_digest: "linked p rs \<Longrightarrow> is_digest p \<Longrightarrow> is_digest (end_hash p rs)"
  by (induction rs arbitrary: p) (auto simp: end_hash_def compute_is_digest)

lemma linked_snoc:
  "linked p (rs @ [r]) \<longleftrightarrow> linked p rs \<and> ar_prev_hash r = end_hash p rs
     \<and> ar_entry_hash r = Some (compute_entry_hash (end_hash p rs) r)"
  by (auto simp: linked_append)

lemma linked_determined:
  assumes "linked None a" "linked None b" "\<forall>r \<in> set a \<union> set b. serialisable r"
    and "end_hash None a = end_hash None b" "\<not> chain_collision a b"
  shows "map row_content a = map row_content b"
  using assms
proof (induction a arbitrary: b rule: rev_induct)
  case Nil
  then show ?case
    by (cases b rule: rev_cases) (auto simp: end_hash_def linked_snoc)
next
  case (snoc x a)
  then obtain b' y where b: "b = b' @ [y]"
    by (cases b rule: rev_cases) (auto simp: end_hash_def linked_snoc)
  let ?p = "end_hash None a" and ?q = "end_hash None b'"
  have x: "linked None a" "ar_prev_hash x = ?p" "ar_entry_hash x = Some (compute_entry_hash ?p x)"
    and y: "linked None b'" "ar_prev_hash y = ?q" "ar_entry_hash y = Some (compute_entry_hash ?q y)"
    using snoc.prems by (auto simp: b linked_snoc)
  have "sha256 (hash_input ?p x) = sha256 (hash_input ?q y)"
    using snoc.prems(4) x(3) y(3) by (simp add: b end_hash_def [of _ "_ @ _"] compute_entry_hash_def)
  moreover have "\<not> sha_collision (hash_input ?p x) (hash_input ?q y)"
    using snoc.prems(5) x(2) y(2) by (auto simp: chain_collision_def b)
  ultimately have eq: "hash_input ?p x = hash_input ?q y" using sha256_eqD by blast
  have "is_digest ?p" "is_digest ?q" using linked_end_digest [OF x(1)] linked_end_digest [OF y(1)] by (simp_all add: is_digest_def [of None])
  with eq snoc.prems(3) have "?p = ?q \<and> row_content x = row_content y"
    by (intro hash_input_inject) (auto simp: b)
  moreover from this have "map row_content a = map row_content b'"
    using snoc.prems x(1) y(1) by (intro snoc.IH) (auto simp: b chain_collision_def)
  ultimately show ?case by (simp add: b)
qed

subsection \<open>The writer extends a verified log\<close>

lemma latest_row_sorted: "sorted_wrt stamp_less rs \<Longrightarrow> latest_row rs = (if rs = [] then None else Some (last rs))"
proof (induction rs)
  case (Cons r rs)
  have "\<not> stamp_less (last rs) r" if "rs \<noteq> []"
    using Cons.prems that by (auto simp: stamp_less_def dest!: bspec [OF _ last_in_set])
  with Cons show ?case by auto
qed simp

lemma end_hash_filter:
  assumes "linked None rs"
  shows "filter (\<lambda>r. ar_entry_hash r \<noteq> None) rs = rs"
  using linked_hashed [OF assms] by (simp add: filter_id_conv)

lemma resolve_prev_hash_linked:
  assumes "sorted_wrt stamp_less db" "\<forall>r \<in> set db. ar_tenant_id r = t"
    and "linked None (dropWhile (\<lambda>r. ar_entry_hash r = None) db)"
  shows "resolve_prev_hash db t = end_hash None (dropWhile (\<lambda>r. ar_entry_hash r = None) db)"
proof -
  let ?P = "\<lambda>r. ar_entry_hash r = None"
  have "filter (\<lambda>r. ar_tenant_id r = t \<and> ar_entry_hash r \<noteq> None) db = filter (\<lambda>r. \<not> ?P r) db"
    using assms(2) by (intro filter_cong) auto
  also have "\<dots> = filter (\<lambda>r. \<not> ?P r) (takeWhile ?P db @ dropWhile ?P db)" by simp
  also have "\<dots> = dropWhile ?P db"
    unfolding filter_append using end_hash_filter [OF assms(3)]
    by (auto simp: filter_empty_conv dest: set_takeWhileD)
  finally have f: "filter (\<lambda>r. ar_tenant_id r = t \<and> ar_entry_hash r \<noteq> None) db = dropWhile ?P db" .
  have "sorted_wrt stamp_less (dropWhile ?P db)"
    using assms(1) by (metis sorted_wrt_append takeWhile_dropWhile_id)
  then show ?thesis unfolding resolve_prev_hash_def f by (simp add: latest_row_sorted end_hash_def)
qed

lemma build_event_fields [simp]:
  "ar_prev_hash (build_event env (Some prev) a i now) = prev"
  "ar_entry_hash (build_event env (Some prev) a i now)
     = Some (compute_entry_hash prev (build_event env (Some prev) a i now))"
  "ar_tenant_id (build_event env l a i now) = em_tenant_id a"
  "ar_created_at (build_event env l a i now) = now"
  "ar_id (build_event env l a i now) = i"
  by (simp_all add: build_event_def Let_def compute_entry_hash_def hash_input_def row_body_def
      split: option.split)

lemma dropWhile_snoc:
  "\<not> P x \<Longrightarrow> dropWhile P (xs @ [x]) = dropWhile P xs @ [x]"
  by (induction xs) auto

lemma emit_extends:
  assumes "sorted_wrt stamp_less db" "\<forall>r \<in> set db. ar_tenant_id r = em_tenant_id a"
    and "verify_chain db = accepted"
  shows "verify_chain (emit_audit env True db a i now) = accepted"
proof -
  let ?P = "\<lambda>r. ar_entry_hash r = None" and ?e = "build_event env (Some (resolve_prev_hash db (em_tenant_id a))) a i now"
  from assms(3) have l: "linked None (dropWhile ?P db)" by (simp add: verify_chain_def verify_unstarted)
  have "\<not> ?P ?e" by simp
  then have "dropWhile ?P (db @ [?e]) = dropWhile ?P db @ [?e]" by (rule dropWhile_snoc)
  then show ?thesis
    using l resolve_prev_hash_linked [OF assms(1,2) l]
    by (simp add: verify_chain_def verify_unstarted emit_audit_def linked_snoc)
qed

text \<open>A run of the writer: each call reads the log the previous one left.\<close>

fun emit_all :: "string option \<Rightarrow> audit_row list \<Rightarrow> (emit_args \<times> string \<times> string) list \<Rightarrow> audit_row list" where
  "emit_all env db [] = db"
| "emit_all env db ((a, i, now) # calls) = emit_all env (emit_audit env True db a i now) calls"

lemma emit_all_verifies:
  assumes "verify_chain db = accepted" "\<forall>r \<in> set db. ar_tenant_id r = t"
    and "\<forall>(a, i, now) \<in> set calls. em_tenant_id a = t"
    and "sorted_wrt (\<lambda>x y. x < y) (map (\<lambda>r. (ar_created_at r, ar_id r)) db @ map (\<lambda>(a, i, now). (now, i)) calls)"
  shows "verify_chain (emit_all env db calls) = accepted"
  using assms
proof (induction calls arbitrary: db)
  case (Cons c calls)
  obtain a i now where c: "c = (a, i, now)" by (cases c)
  have "sorted_wrt stamp_less db"
    using Cons.prems(4) by (auto simp: sorted_wrt_append sorted_wrt_map stamp_less_def less_prod_def
        elim!: sorted_wrt_mono_rel [rotated])
  then have "verify_chain (emit_audit env True db a i now) = accepted"
    using Cons.prems(1-3) by (intro emit_extends) (auto simp: c)
  then show ?case
    using Cons.prems(2-4) Cons.IH [of "emit_audit env True db a i now"]
    by (auto simp: c emit_audit_def sorted_wrt_append)
qed simp

subsection \<open>Properties\<close>

text \<open>
  C14.  A chained log is tamper evident.  If two logs that verify, and that both start with a
  chained row, end in the same entry hash, they hold the same rows in the same order (every
  hashed field, up to the order of dictionary keys), or the inputs of two of their row hashes are
  a SHA-256 collision.  So altering, inserting, dropping or reordering rows changes the last hash.
\<close>

theorem chain_tamper_evident:
  assumes "verify_chain a = accepted" "verify_chain b = accepted"
    and "a \<noteq> [] \<longrightarrow> ar_entry_hash (hd a) \<noteq> None" "b \<noteq> [] \<longrightarrow> ar_entry_hash (hd b) \<noteq> None"
    and "\<forall>r \<in> set a \<union> set b. serialisable r"
    and "end_hash None a = end_hash None b"
  shows "map row_content a = map row_content b \<or> chain_collision a b"
proof -
  have lk: "linked None rs" if "verify_chain rs = accepted" "rs \<noteq> [] \<longrightarrow> ar_entry_hash (hd rs) \<noteq> None" for rs
    using that by (cases rs) (auto simp del: verify_loop.simps simp: verify_chain_def verify_unstarted)
  show ?thesis using linked_determined [OF lk lk assms(5,6)] assms(1-4) by blast
qed

definition demo_args :: emit_args where
  "demo_args = \<lparr>em_tenant_id = ''t1'', em_actor_id = None, em_actor_email = Some ''a@b'',
     em_action = ''cases:create'', em_resource = None, em_resource_id = None,
     em_changes = Some [(''token'', PStr ''s3cret'')], em_request = None\<rparr>"

lemma demo_log:
  "verify_chain (emit_audit None True [] demo_args ''i1'' ''2025'') = accepted"
  by (rule emit_extends) (simp_all add: verify_chain_def)

lemma demo_serialisable: "\<forall>r \<in> set (emit_audit None True [] demo_args ''i1'' ''2025''). serialisable r"
proof -
  have "redact_changes None (em_changes demo_args) = Some [(''token'', PStr REDACTED_SENTINEL)]"
    by code_simp
  then show ?thesis
    by (simp add: emit_audit_def build_event_def serialisable_def Let_def demo_args_def opt_dict_def)
qed

lemma chain_tamper_evident_witness:
  "map row_content (emit_audit None True [] demo_args ''i1'' ''2025'')
     = map row_content (emit_audit None True [] demo_args ''i1'' ''2025'')
   \<or> chain_collision (emit_audit None True [] demo_args ''i1'' ''2025'')
       (emit_audit None True [] demo_args ''i1'' ''2025'')"
  by (rule chain_tamper_evident [OF demo_log demo_log])
    (use demo_serialisable in \<open>auto simp: emit_audit_def\<close>)

text \<open>
  C21.  Every run of the writer on a verified log of the tenant leaves a verified log, whatever
  the payloads, requests and redaction settings, as long as each call reads the log that the
  previous one left and the stamps (creation time, then id) increase.
\<close>

theorem writer_run_verifies:
  assumes "verify_chain db = accepted" "\<forall>r \<in> set db. ar_tenant_id r = t"
    and "\<forall>(a, i, now) \<in> set calls. em_tenant_id a = t"
    and "sorted_wrt (<) (map (\<lambda>r. (ar_created_at r, ar_id r)) db @ map (\<lambda>(a, i, now). (now, i)) calls)"
  shows "verify_chain (emit_all env db calls) = accepted"
  using assms by (rule emit_all_verifies)

lemma writer_run_verifies_witness:
  "verify_chain (emit_all None [] [(demo_args, ''i1'', ''2025''), (demo_args, ''i2'', ''2026'')]) = accepted"
proof (rule writer_run_verifies [of _ "''t1''"])
  show "sorted_wrt (<) (map (\<lambda>r. (ar_created_at r, ar_id r)) [] @
    map (\<lambda>(a, i, now). (now, i)) [(demo_args, ''i1'', ''2025''), (demo_args, ''i2'', ''2026'')])"
    by code_simp
qed (simp_all add: verify_chain_def demo_args_def)

text \<open>
  Two concurrent writers break the chain: if both look up the previous hash before either
  row is persisted, the log they leave is rejected at the second row as tampered, although no
  row was altered (unless the first row's hash equals its predecessor's).
\<close>

theorem concurrent_emit_rejected:
  assumes "verify_chain db = accepted"
    and "e1 = build_event env (Some p) a1 i1 t1" "e2 = build_event env (Some p) a2 i2 t2"
    and "p = end_hash None (dropWhile (\<lambda>r. ar_entry_hash r = None) db)"
    and "ar_entry_hash e1 \<noteq> p"
  shows "verify_chain (db @ [e1, e2]) = (False, Some (Suc (length db)), Some ''prev_hash mismatch'')"
proof -
  let ?P = "\<lambda>r. ar_entry_hash r = None"
  have "linked None (dropWhile ?P db)" using assms(1) by (simp add: verify_chain_def verify_unstarted)
  from verify_append [OF this, of 0 "[e1, e2]"] show ?thesis
    using assms(4,5) by (auto simp: verify_chain_def assms(2,3))
qed

lemma concurrent_emit_rejected_witness:
  "verify_chain [build_event None (Some None) demo_args ''i1'' ''2025'',
                 build_event None (Some None) demo_args ''i2'' ''2025'']
   = (False, Some 1, Some ''prev_hash mismatch'')"
  using concurrent_emit_rejected [of "[]" _ None None demo_args "''i1''" "''2025''" _ demo_args "''i2''" "''2025''"]
  by (simp add: verify_chain_def end_hash_def)

text \<open>
  What verification cannot see: the verdict survives cutting off the end of the log at any
  row, and erasing the entry hashes of all rows, whatever those rows hold.
\<close>

theorem verification_blind_spots:
  "(verify_chain rows = accepted \<longrightarrow> verify_chain (take n rows) = accepted)
   \<and> verify_chain (map (\<lambda>r. r\<lparr>ar_entry_hash := None\<rparr>) rows) = accepted"
  using verify_prefix [of 0 False None "take n rows" "drop n rows"] verify_erased [of 0 None rows]
  by (simp add: verify_chain_def)

lemma verification_blind_spots_witness:
  "verify_chain (take 1 (emit_audit None True [] demo_args ''i1'' ''2025'')) = accepted"
  using verification_blind_spots [of "emit_audit None True [] demo_args ''i1'' ''2025''" 1] demo_log
  by blast

end
