(* ===== verification/Action_Model.thy ===== *)
theory Action_Model
  imports Py_Value
begin

text \<open>
  The data model of the action service (\<open>services/actions/app/models/action.py\<close>) and the keys
  of its executor registry (\<open>services/actions/app/services/executor_registry.py\<close>).
\<close>

datatype action_type =
    BLOCK_IP | BLOCK_DOMAIN | ISOLATE_HOST | DISABLE_USER | RESET_PASSWORD | KILL_PROCESS
    | QUARANTINE_FILE | CAPTURE_FORENSICS | ADD_IOC_TO_BLOCKLIST | NOTIFY_SLACK | CREATE_TICKET
    | RUN_PLAYBOOK | CHATOPS_VERIFY | RUN_SCRIPT | ALLOW_IP | BLOCK_IOC | RUN_AV_SCAN
    | SUSPEND_SESSION | FORCE_MFA | SEARCH_SIEM | CREATE_NOTABLE_EVENT | SYNC_DETECTION_RULE
    | UPDATE_WATCHER

datatype action_status =
    PENDING | AWAITING_APPROVAL | APPROVED | REJECTED | RUNNING | COMPLETED | FAILED
    | ROLLED_BACK

datatype blast_radius = MINIMAL | LOW | MEDIUM | HIGH | CRITICAL

fun action_type_value :: "action_type \<Rightarrow> string" where
  "action_type_value BLOCK_IP = ''block_ip''"
| "action_type_value BLOCK_DOMAIN = ''block_domain''"
| "action_type_value ISOLATE_HOST = ''isolate_host''"
| "action_type_value DISABLE_USER = ''disable_user''"
| "action_type_value RESET_PASSWORD = ''reset_password''"
| "action_type_value KILL_PROCESS = ''kill_process''"
| "action_type_value QUARANTINE_FILE = ''quarantine_file''"
| "action_type_value CAPTURE_FORENSICS = ''capture_forensics''"
| "action_type_value ADD_IOC_TO_BLOCKLIST = ''add_ioc_to_blocklist''"
| "action_type_value NOTIFY_SLACK = ''notify_slack''"
| "action_type_value CREATE_TICKET = ''create_ticket''"
| "action_type_value RUN_PLAYBOOK = ''run_playbook''"
| "action_type_value CHATOPS_VERIFY = ''chatops_verify''"
| "action_type_value RUN_SCRIPT = ''run_script''"
| "action_type_value ALLOW_IP = ''allow_ip''"
| "action_type_value BLOCK_IOC = ''block_ioc''"
| "action_type_value RUN_AV_SCAN = ''run_av_scan''"
| "action_type_value SUSPEND_SESSION = ''suspend_session''"
| "action_type_value FORCE_MFA = ''force_mfa''"
| "action_type_value SEARCH_SIEM = ''search_siem''"
| "action_type_value CREATE_NOTABLE_EVENT = ''create_notable_event''"
| "action_type_value SYNC_DETECTION_RULE = ''sync_detection_rule''"
| "action_type_value UPDATE_WATCHER = ''update_watcher''"

text \<open>An f-string shows the member of a string enumeration, not its value.\<close>

definition action_type_member :: "action_type \<Rightarrow> string" where
  "action_type_member t = ''ActionType.'' @ upper (action_type_value t)"

fun blast_radius_value :: "blast_radius \<Rightarrow> string" where
  "blast_radius_value MINIMAL = ''minimal''"
| "blast_radius_value LOW = ''low''"
| "blast_radius_value MEDIUM = ''medium''"
| "blast_radius_value HIGH = ''high''"
| "blast_radius_value CRITICAL = ''critical''"

definition blast_radius_member :: "blast_radius \<Rightarrow> string" where
  "blast_radius_member b = ''BlastRadius.'' @ upper (blast_radius_value b)"

fun action_status_value :: "action_status \<Rightarrow> string" where
  "action_status_value PENDING = ''pending''"
| "action_status_value AWAITING_APPROVAL = ''awaiting_approval''"
| "action_status_value APPROVED = ''approved''"
| "action_status_value REJECTED = ''rejected''"
| "action_status_value RUNNING = ''running''"
| "action_status_value COMPLETED = ''completed''"
| "action_status_value FAILED = ''failed''"
| "action_status_value ROLLED_BACK = ''rolled_back''"

definition ACTION_BLAST_RADIUS :: "(action_type \<times> blast_radius) list" where
  "ACTION_BLAST_RADIUS =
   [(BLOCK_IP, MEDIUM), (BLOCK_DOMAIN, MEDIUM), (ISOLATE_HOST, HIGH), (DISABLE_USER, HIGH),
    (RESET_PASSWORD, MEDIUM), (KILL_PROCESS, MEDIUM), (QUARANTINE_FILE, LOW),
    (CAPTURE_FORENSICS, LOW), (ADD_IOC_TO_BLOCKLIST, LOW), (NOTIFY_SLACK, MINIMAL),
    (CREATE_TICKET, MINIMAL), (RUN_PLAYBOOK, MEDIUM), (CHATOPS_VERIFY, MINIMAL),
    (RUN_SCRIPT, HIGH), (ALLOW_IP, MEDIUM), (BLOCK_IOC, MEDIUM), (RUN_AV_SCAN, LOW),
    (SUSPEND_SESSION, HIGH), (FORCE_MFA, MEDIUM), (SEARCH_SIEM, MINIMAL),
    (CREATE_NOTABLE_EVENT, LOW), (SYNC_DETECTION_RULE, MEDIUM), (UPDATE_WATCHER, MEDIUM)]"

definition APPROVAL_REQUIRED_ACTIONS :: "action_type list" where
  "APPROVAL_REQUIRED_ACTIONS =
   [ISOLATE_HOST, DISABLE_USER, RESET_PASSWORD, KILL_PROCESS, RUN_SCRIPT, SUSPEND_SESSION,
    BLOCK_IOC, SYNC_DETECTION_RULE]"

definition EXECUTOR_REGISTRY :: "action_type list" where
  "EXECUTOR_REGISTRY =
   [BLOCK_IP, ALLOW_IP, BLOCK_DOMAIN, ISOLATE_HOST, QUARANTINE_FILE, KILL_PROCESS, RUN_SCRIPT,
    RUN_AV_SCAN, DISABLE_USER, RESET_PASSWORD, SUSPEND_SESSION, FORCE_MFA, SEARCH_SIEM,
    CREATE_NOTABLE_EVENT, SYNC_DETECTION_RULE, UPDATE_WATCHER, BLOCK_IOC, NOTIFY_SLACK,
    CREATE_TICKET, CHATOPS_VERIFY]"

record action_request =
  rq_id :: string
  rq_incident_id :: string
  rq_tenant_id :: string
  rq_action_type :: action_type
  rq_target :: string
  rq_parameters :: dict
  rq_requested_by :: string
  rq_rationale :: string
  rq_auto_rollback :: bool
  rq_rollback_after_seconds :: "int option"

text \<open>The defaults of the request model, for a request that names only what is required.\<close>

definition new_request ::
  "string \<Rightarrow> string \<Rightarrow> string \<Rightarrow> action_type \<Rightarrow> string \<Rightarrow> string \<Rightarrow> action_request" where
  "new_request i incident tenant ty target rationale =
     \<lparr>rq_id = i, rq_incident_id = incident, rq_tenant_id = tenant, rq_action_type = ty,
      rq_target = target, rq_parameters = [], rq_requested_by = ''system'', rq_rationale = rationale,
      rq_auto_rollback = False, rq_rollback_after_seconds = None\<rparr>"

record action_result =
  rs_action_id :: string
  rs_status :: action_status
  rs_blast_radius :: blast_radius
  rs_output :: dict
  rs_error :: "string option"
  rs_rollback_data :: dict

subsection \<open>The tables are total where the code relies on it\<close>

text \<open>Every action type has a radius, so the defaults of the two gates are never used.\<close>

lemma blast_radius_total: "\<exists>b. dict_get ACTION_BLAST_RADIUS t = Some b"
  by (cases t) (simp_all add: ACTION_BLAST_RADIUS_def)

definition radius_of :: "action_type \<Rightarrow> blast_radius" where
  "radius_of t = (case dict_get ACTION_BLAST_RADIUS t of Some b \<Rightarrow> b | None \<Rightarrow> MEDIUM)"

lemma radius_of_get: "dict_get ACTION_BLAST_RADIUS t = Some (radius_of t)"
  using blast_radius_total [of t] by (auto simp: radius_of_def)

lemma executor_missing_iff:
  "t \<notin> set EXECUTOR_REGISTRY \<longleftrightarrow> t \<in> {CAPTURE_FORENSICS, ADD_IOC_TO_BLOCKLIST, RUN_PLAYBOOK}"
  by (cases t) (simp_all add: EXECUTOR_REGISTRY_def)

lemma never_critical: "radius_of t \<noteq> CRITICAL"
  by (cases t) (simp_all add: radius_of_def ACTION_BLAST_RADIUS_def)

end
