(* ===== verification/Action_Gates.thy ===== *)
theory Action_Gates
  imports Action_Model
begin

text \<open>
  The two gates in front of an executor: the blast-radius gate of the action service
  (\<open>services/actions/app/services/blast_radius.py\<close>) and the tenant maturity gate
  (\<open>services/actions/app/services/maturity.py\<close>).
\<close>

subsection \<open>The blast-radius gate\<close>

definition AUTO_EXECUTE_LIMIT :: blast_radius where
  "AUTO_EXECUTE_LIMIT = MEDIUM"

fun BLAST_RADIUS_ORDER :: "blast_radius \<Rightarrow> nat" where
  "BLAST_RADIUS_ORDER MINIMAL = 0"
| "BLAST_RADIUS_ORDER LOW = 1"
| "BLAST_RADIUS_ORDER MEDIUM = 2"
| "BLAST_RADIUS_ORDER HIGH = 3"
| "BLAST_RADIUS_ORDER CRITICAL = 4"

definition gate_evaluate :: "action_request \<Rightarrow> action_status \<times> blast_radius \<times> string" where
  "gate_evaluate request =
     (let blast_radius = (case dict_get ACTION_BLAST_RADIUS (rq_action_type request) of
            Some b \<Rightarrow> b | None \<Rightarrow> MEDIUM)
      in if rq_action_type request \<in> set APPROVAL_REQUIRED_ACTIONS
         then (AWAITING_APPROVAL, blast_radius,
           ''Action type '' @ [CHR 0x27] @ action_type_member (rq_action_type request) @ [CHR 0x27]
             @ '' always requires human approval'')
         else if BLAST_RADIUS_ORDER AUTO_EXECUTE_LIMIT < BLAST_RADIUS_ORDER blast_radius
         then (AWAITING_APPROVAL, blast_radius,
           ''Blast radius '' @ [CHR 0x27] @ blast_radius_member blast_radius @ [CHR 0x27]
             @ '' exceeds auto-execute limit '' @ [CHR 0x27] @ blast_radius_member AUTO_EXECUTE_LIMIT @ [CHR 0x27])
         else (APPROVED, blast_radius,
           ''Blast radius '' @ [CHR 0x27] @ blast_radius_member blast_radius @ [CHR 0x27]
             @ '' within auto-execute policy''))"

definition auto_approved :: "action_type \<Rightarrow> bool" where
  "auto_approved t \<longleftrightarrow> t \<notin> set APPROVAL_REQUIRED_ACTIONS \<and> BLAST_RADIUS_ORDER (radius_of t) \<le> 2"

lemma gate_evaluate_status:
  "fst (gate_evaluate r) = (if auto_approved (rq_action_type r) then APPROVED else AWAITING_APPROVAL)"
  by (auto simp: gate_evaluate_def auto_approved_def radius_of_get AUTO_EXECUTE_LIMIT_def Let_def)

lemma gate_evaluate_radius: "fst (snd (gate_evaluate r)) = radius_of (rq_action_type r)"
  by (simp add: gate_evaluate_def radius_of_get Let_def)

subsection \<open>The maturity gate\<close>

datatype maturity_tier = L0_OBSERVE | L1_NOTIFY | L2_CONTAIN | L3_REMEDIATE | L4_AUTOMATE

fun tier_int :: "maturity_tier \<Rightarrow> nat" where
  "tier_int L0_OBSERVE = 0"
| "tier_int L1_NOTIFY = 1"
| "tier_int L2_CONTAIN = 2"
| "tier_int L3_REMEDIATE = 3"
| "tier_int L4_AUTOMATE = 4"

fun tier_label :: "maturity_tier \<Rightarrow> string" where
  "tier_label L0_OBSERVE = ''L0-Observe''"
| "tier_label L1_NOTIFY = ''L1-Notify''"
| "tier_label L2_CONTAIN = ''L2-Contain''"
| "tier_label L3_REMEDIATE = ''L3-Remediate''"
| "tier_label L4_AUTOMATE = ''L4-Automate''"

fun AUTO_ALLOWED_AT_TIER :: "maturity_tier \<Rightarrow> blast_radius list" where
  "AUTO_ALLOWED_AT_TIER L0_OBSERVE = []"
| "AUTO_ALLOWED_AT_TIER L1_NOTIFY = [MINIMAL]"
| "AUTO_ALLOWED_AT_TIER L2_CONTAIN = [MINIMAL, LOW]"
| "AUTO_ALLOWED_AT_TIER L3_REMEDIATE = [MINIMAL, LOW, MEDIUM]"
| "AUTO_ALLOWED_AT_TIER L4_AUTOMATE = [MINIMAL, LOW, MEDIUM, HIGH]"

datatype gate_verdict = Auto | QueuedApproval | Blocked

record gate_decision =
  gd_action_id :: string
  gd_action_type :: string
  gd_blast_radius :: string
  gd_maturity_tier :: nat
  gd_decision :: gate_verdict
  gd_rationale :: string
  gd_overrides_applied :: "string list"

text \<open>The overrides and the whitelist are tenant JSON.\<close>

record tenant_maturity_config =
  tm_tenant_id :: string
  tm_maturity_tier :: int
  tm_action_overrides :: dict
  tm_whitelist :: "dict list"

text \<open>\<open>MaturityTier(n)\<close> raises ValueError outside 0 to 4.\<close>

definition config_tier :: "tenant_maturity_config \<Rightarrow> py_error + maturity_tier" where
  "config_tier config =
     (let n = tm_maturity_tier config in
      if n = 0 then Inr L0_OBSERVE else if n = 1 then Inr L1_NOTIFY else if n = 2 then Inr L2_CONTAIN
      else if n = 3 then Inr L3_REMEDIATE else if n = 4 then Inr L4_AUTOMATE else Inl ValueError)"

definition as_dict :: "val \<Rightarrow> py_error + dict" where
  "as_dict v = (case v of VDict d \<Rightarrow> Inr d | _ \<Rightarrow> Inl AttributeError)"

text \<open>\<open>entry.get("id", "whitelist_entry")\<close>: a null id is returned, and then reads as no match.\<close>

definition entry_id :: "dict \<Rightarrow> val" where
  "entry_id entry = vget_default entry ''id'' (VStr ''whitelist_entry'')"

definition starts_with_val :: "string \<Rightarrow> val \<Rightarrow> py_error + bool" where
  "starts_with_val target p = (case p of VStr s \<Rightarrow> Inr (startswith target s) | _ \<Rightarrow> Inl TypeError)"

fun check_whitelist :: "action_request \<Rightarrow> dict list \<Rightarrow> py_error + val" where
  "check_whitelist request [] = Inr VNone"
| "check_whitelist request (entry # entries) =
     (if vget entry ''action_type'' \<noteq> VStr (action_type_value (rq_action_type request))
      then check_whitelist request entries
      else bind_res (as_dict (vget_default entry ''constraints'' (VDict []))) (\<lambda>constraints.
        let target_prefix = vget constraints ''target_prefix'' in
        if truthy target_prefix
        then bind_res (starts_with_val (rq_target request) target_prefix) (\<lambda>ok.
          if ok then Inr (entry_id entry) else check_whitelist request entries)
        else Inr (entry_id entry)))"

definition quoted :: "string \<Rightarrow> string" where
  "quoted s = CHR 0x27 # s @ [CHR 0x27]"

definition evaluate_gate :: "action_request \<Rightarrow> tenant_maturity_config \<Rightarrow> py_error + gate_decision" where
  "evaluate_gate request config =
     (let blast = (case dict_get ACTION_BLAST_RADIUS (rq_action_type request) of Some b \<Rightarrow> b | None \<Rightarrow> HIGH);
          action_key = action_type_value (rq_action_type request)
      in bind_res (config_tier config) (\<lambda>tier.
         bind_res (as_dict (vget_default (tm_action_overrides config) action_key (VDict []))) (\<lambda>override.
         let decide = (\<lambda>v why ov. \<lparr>gd_action_id = rq_id request, gd_action_type = action_key,
               gd_blast_radius = blast_radius_value blast, gd_maturity_tier = tier_int tier,
               gd_decision = v, gd_rationale = why, gd_overrides_applied = ov\<rparr>);
             standard = (\<lambda>ov.
               if blast \<in> set (AUTO_ALLOWED_AT_TIER tier)
               then decide Auto (''Tier '' @ tier_label tier @ '': '' @ quoted (blast_radius_value blast)
                      @ '' blast-radius auto-execution permitted.'') ov
               else decide QueuedApproval (''Tier '' @ tier_label tier @ '': ''
                      @ quoted (blast_radius_value blast) @ '' blast-radius requires human approval.'') ov)
         in if truthy (vget override ''block'')
            then Inr (decide Blocked (''Action type '' @ quoted action_key @ '' is blocked by tenant override.'')
                   [''block_override''])
            else if truthy (vget override ''force_auto'')
            then Inr (decide Auto (''Action type '' @ quoted action_key @ '' is force-auto by tenant override.'')
                   [''force_auto_override''])
            else if blast = HIGH \<and> tier = L4_AUTOMATE
            then bind_res (check_whitelist request (tm_whitelist config)) (\<lambda>whitelist_match.
                   if whitelist_match = VNone
                   then Inr (decide QueuedApproval
                     (''HIGH blast-radius action at L4 requires whitelist entry. No matching whitelist entry found for ''
                       @ quoted action_key @ ''.'') [])
                   else Inr (standard [''whitelist:'' @ py_str whitelist_match]))
            else Inr (standard []))))"

subsection \<open>Lemmas\<close>

text \<open>An entry of the whitelist that covers a request.\<close>

definition covers :: "action_request \<Rightarrow> dict \<Rightarrow> bool" where
  "covers request entry \<longleftrightarrow>
     vget entry ''action_type'' = VStr (action_type_value (rq_action_type request))
   \<and> (\<exists>c. vget_default entry ''constraints'' (VDict []) = VDict c
      \<and> (truthy (vget c ''target_prefix'')
         \<longrightarrow> (\<exists>p. vget c ''target_prefix'' = VStr p \<and> startswith (rq_target request) p)))"

lemma check_whitelist_match:
  "check_whitelist request entries = Inr v \<Longrightarrow> v \<noteq> VNone \<Longrightarrow>
   \<exists>entry \<in> set entries. covers request entry \<and> v = entry_id entry"
proof (induction entries)
  case (Cons entry entries)
  show ?case
  proof (cases "vget entry ''action_type'' = VStr (action_type_value (rq_action_type request))")
    case True
    with Cons.prems obtain c where c: "vget_default entry ''constraints'' (VDict []) = VDict c"
      by (auto simp: as_dict_def split: val.splits)
    show ?thesis
    proof (cases "truthy (vget c ''target_prefix'')")
      case t: True
      with True Cons.prems c obtain p where p: "vget c ''target_prefix'' = VStr p"
        by (auto simp: as_dict_def starts_with_val_def split: val.splits)
      with True t Cons c show ?thesis
        by (cases "startswith (rq_target request) p")
          (auto simp: as_dict_def starts_with_val_def covers_def)
    next
      case False
      with True Cons.prems c show ?thesis by (auto simp: as_dict_def covers_def)
    qed
  qed (use Cons in auto)
qed simp

lemma evaluate_gate_cases:
  assumes "evaluate_gate request config = Inr d"
  obtains tier override where "config_tier config = Inr tier"
    "vget_default (tm_action_overrides config) (action_type_value (rq_action_type request)) (VDict []) = VDict override"
    "gd_decision d =
       (if truthy (vget override ''block'') then Blocked
        else if truthy (vget override ''force_auto'') then Auto
        else if radius_of (rq_action_type request) = HIGH \<and> tier = L4_AUTOMATE
          \<and> check_whitelist request (tm_whitelist config) = Inr VNone then QueuedApproval
        else if radius_of (rq_action_type request) \<in> set (AUTO_ALLOWED_AT_TIER tier) then Auto
        else QueuedApproval)"
    "radius_of (rq_action_type request) = HIGH \<and> tier = L4_AUTOMATE \<and> gd_decision d = Auto
       \<and> \<not> truthy (vget override ''force_auto'') \<longrightarrow>
     (\<exists>v. check_whitelist request (tm_whitelist config) = Inr v \<and> v \<noteq> VNone)"
proof -
  from assms obtain tier override where t: "config_tier config = Inr tier"
    "as_dict (vget_default (tm_action_overrides config) (action_type_value (rq_action_type request)) (VDict []))
       = Inr override"
    by (auto simp: evaluate_gate_def Let_def)
  then have o: "vget_default (tm_action_overrides config) (action_type_value (rq_action_type request)) (VDict [])
       = VDict override"
    by (auto simp: as_dict_def split: val.splits)
  show thesis
    by (rule that [OF t(1) o])
      (use assms t in \<open>auto simp: evaluate_gate_def Let_def radius_of_get split: if_splits\<close>)
qed

lemma auto_allowed_mono:
  "tier_int t \<le> tier_int t' \<Longrightarrow> b \<in> set (AUTO_ALLOWED_AT_TIER t) \<Longrightarrow> b \<in> set (AUTO_ALLOWED_AT_TIER t')"
  by (cases t; cases t'; cases b) simp_all

lemma auto_allowed_order:
  "b \<in> set (AUTO_ALLOWED_AT_TIER t) \<longleftrightarrow> BLAST_RADIUS_ORDER b < tier_int t"
  by (cases t; cases b) simp_all

subsection \<open>Properties\<close>

text \<open>
  C24.  The maturity gate lets an action run unattended only for a reason the tenant gave: a
  force-auto override of its type, or a blast radius below the tier, and for a high radius (which
  only the top tier reaches) also a whitelist entry for the type whose target prefix covers the
  target.  A block override always wins.
\<close>

theorem maturity_auto_justified:
  assumes "evaluate_gate request config = Inr d"
    and "ov = vget_default (tm_action_overrides config) (action_type_value (rq_action_type request)) (VDict [])"
  shows "\<exists>tier override. config_tier config = Inr tier \<and> ov = VDict override
    \<and> (gd_decision d = Blocked \<longleftrightarrow> truthy (vget override ''block''))
    \<and> (gd_decision d = Auto \<longrightarrow> truthy (vget override ''force_auto'')
        \<or> BLAST_RADIUS_ORDER (radius_of (rq_action_type request)) < tier_int tier
          \<and> (radius_of (rq_action_type request) = HIGH
               \<longrightarrow> (\<exists>entry \<in> set (tm_whitelist config). covers request entry)))"
proof -
  obtain tier override where t: "config_tier config = Inr tier"
      "vget_default (tm_action_overrides config) (action_type_value (rq_action_type request)) (VDict []) = VDict override"
    and dec: "gd_decision d =
       (if truthy (vget override ''block'') then Blocked
        else if truthy (vget override ''force_auto'') then Auto
        else if radius_of (rq_action_type request) = HIGH \<and> tier = L4_AUTOMATE
          \<and> check_whitelist request (tm_whitelist config) = Inr VNone then QueuedApproval
        else if radius_of (rq_action_type request) \<in> set (AUTO_ALLOWED_AT_TIER tier) then Auto
        else QueuedApproval)"
    and wl: "radius_of (rq_action_type request) = HIGH \<and> tier = L4_AUTOMATE \<and> gd_decision d = Auto
       \<and> \<not> truthy (vget override ''force_auto'') \<longrightarrow>
     (\<exists>v. check_whitelist request (tm_whitelist config) = Inr v \<and> v \<noteq> VNone)"
    by (rule evaluate_gate_cases [OF assms(1)])
  have "\<exists>entry \<in> set (tm_whitelist config). covers request entry"
    if "gd_decision d = Auto" "\<not> truthy (vget override ''force_auto'')"
      "radius_of (rq_action_type request) = HIGH"
  proof -
    have "HIGH \<in> set (AUTO_ALLOWED_AT_TIER tier)" using dec that by (auto split: if_splits)
    then have "tier = L4_AUTOMATE" by (cases tier) auto
    with wl that obtain v where "check_whitelist request (tm_whitelist config) = Inr v" "v \<noteq> VNone" by blast
    from check_whitelist_match [OF this] show ?thesis by blast
  qed
  moreover have "gd_decision d = Blocked \<longleftrightarrow> truthy (vget override ''block'')"
    by (simp add: dec)
  moreover have "truthy (vget override ''force_auto'')
      \<or> BLAST_RADIUS_ORDER (radius_of (rq_action_type request)) < tier_int tier" if "gd_decision d = Auto"
    using dec that by (auto simp: auto_allowed_order split: if_splits)
  ultimately show ?thesis using t assms(2) by auto
qed

definition demo_config :: tenant_maturity_config where
  "demo_config = \<lparr>tm_tenant_id = ''t'', tm_maturity_tier = 4, tm_action_overrides = [],
     tm_whitelist = [[(''action_type'', VStr ''isolate_host''),
       (''constraints'', VDict [(''target_prefix'', VStr ''lab-'')])]]\<rparr>"

lemma maturity_auto_justified_witness:
  "\<exists>entry \<in> set (tm_whitelist demo_config). covers (new_request ''a'' ''i'' ''t'' ISOLATE_HOST ''lab-7'' [])  entry"
proof -
  let ?r = "new_request ''a'' ''i'' ''t'' ISOLATE_HOST ''lab-7'' []"
  have "map_sum id gd_decision (evaluate_gate ?r demo_config) = Inr Auto" by code_simp
  then obtain d where d: "evaluate_gate ?r demo_config = Inr d" "gd_decision d = Auto"
    by (cases "evaluate_gate ?r demo_config") auto
  have "vget_default (tm_action_overrides demo_config) (action_type_value (rq_action_type ?r)) (VDict []) = VDict []"
    "radius_of (rq_action_type ?r) = HIGH" by code_simp+
  with maturity_auto_justified [OF d(1) refl] d(2) show ?thesis by auto
qed

text \<open>
  Raising a tenant's tier never takes an action back to the approval queue: with the same
  overrides and whitelist, what runs unattended at one tier runs unattended at every higher one.
\<close>

theorem maturity_tier_monotone:
  assumes "evaluate_gate request config = Inr d" "gd_decision d = Auto"
    and "tm_maturity_tier config \<le> n" "n \<le> 4"
  shows "\<exists>d'. evaluate_gate request (config\<lparr>tm_maturity_tier := n\<rparr>) = Inr d' \<and> gd_decision d' = Auto"
proof (cases "n = tm_maturity_tier config")
  case False
  obtain tier override where t: "config_tier config = Inr tier"
    and o1: "vget_default (tm_action_overrides config) (action_type_value (rq_action_type request)) (VDict [])
      = VDict override"
    and dec: "gd_decision d =
       (if truthy (vget override ''block'') then Blocked
        else if truthy (vget override ''force_auto'') then Auto
        else if radius_of (rq_action_type request) = HIGH \<and> tier = L4_AUTOMATE
          \<and> check_whitelist request (tm_whitelist config) = Inr VNone then QueuedApproval
        else if radius_of (rq_action_type request) \<in> set (AUTO_ALLOWED_AT_TIER tier) then Auto
        else QueuedApproval)"
    by (rule evaluate_gate_cases [OF assms(1)])
  have tier: "int (tier_int tier) = tm_maturity_tier config" "tm_maturity_tier config < n" "0 \<le> n"
    using t False assms(3) by (auto simp: config_tier_def Let_def split: if_splits)
  then have "n = 1 \<or> n = 2 \<or> n = 3 \<or> n = 4" using assms(4) by auto
  then obtain tier' where t': "config_tier (config\<lparr>tm_maturity_tier := n\<rparr>) = Inr tier'" "int (tier_int tier') = n"
    by (auto simp: config_tier_def Let_def)
  have blk: "\<not> truthy (vget override ''block'')" using dec assms(2) by auto
  show ?thesis
  proof (cases "truthy (vget override ''force_auto'')")
    case True
    then show ?thesis using t' o1 blk by (simp add: evaluate_gate_def Let_def as_dict_def)
  next
    case False
    then have r: "radius_of (rq_action_type request) \<in> set (AUTO_ALLOWED_AT_TIER tier)"
      using dec assms(2) blk by (auto split: if_splits)
    have lt: "tier_int tier < tier_int tier'" using t'(2) tier(1,2) by linarith
    then have r': "radius_of (rq_action_type request) \<in> set (AUTO_ALLOWED_AT_TIER tier')"
      using auto_allowed_mono [OF _ r] by simp
    have "tier_int tier < 4" using lt by (cases tier') auto
    then have "radius_of (rq_action_type request) \<noteq> HIGH" using r by (cases tier) auto
    with False r' t' o1 blk show ?thesis by (simp add: evaluate_gate_def Let_def as_dict_def radius_of_get)
  qed
qed (use assms in auto)

lemma maturity_tier_monotone_witness:
  "\<exists>d'. evaluate_gate (new_request ''a'' ''i'' ''t'' BLOCK_IP ''10.0.0.1'' [])
      (demo_config\<lparr>tm_maturity_tier := 3, tm_maturity_tier := 4\<rparr>) = Inr d' \<and> gd_decision d' = Auto"
proof -
  let ?r = "new_request ''a'' ''i'' ''t'' BLOCK_IP ''10.0.0.1'' []"
  have "map_sum id gd_decision (evaluate_gate ?r (demo_config\<lparr>tm_maturity_tier := 3\<rparr>)) = Inr Auto" by code_simp
  then obtain d where d: "evaluate_gate ?r (demo_config\<lparr>tm_maturity_tier := 3\<rparr>) = Inr d" "gd_decision d = Auto"
    by (cases "evaluate_gate ?r (demo_config\<lparr>tm_maturity_tier := 3\<rparr>)") auto
  show ?thesis by (rule maturity_tier_monotone [OF d]) simp_all
qed

end
