(* ===== verification/Action_Router.thy ===== *)
theory Action_Router
  imports Action_Gates
begin

text \<open>
  The REST handlers of the action service (\<open>services/actions/app/api/router.py\<close>): submission,
  approval, rejection, lookup and the ChatOps callback over the in-memory store.

  A record is a Python object that a suspended handler still holds while the store may already
  name another one, so records live in a heap and the store maps an id to a reference.  A handler
  that awaits (an executor, the timeline) is split at the await: \<open>_begin\<close> runs up to it,
  \<open>_end\<close> takes its outcome.  What an executor returns or raises is an argument; the calls made
  to executors and the timeline are logged in the state.
\<close>

subsection \<open>State\<close>

record action_record =
  rec_id :: string
  rec_action_type :: action_type
  rec_target :: string
  rec_status :: action_status
  rec_blast_radius :: blast_radius
  rec_gate_reason :: string
  rec_incident_id :: string
  rec_tenant_id :: string
  rec_rationale :: string
  rec_output :: "dict option"
  rec_rollback_data :: "dict option"
  rec_error :: "string option"

datatype call_origin = AutoExecuted | ApprovedBy string

record service =
  sv_heap :: "action_record list"
  sv_actions :: "(string \<times> nat) list"
  sv_replied :: "string list"
  sv_calls :: "(call_origin \<times> action_request) list"
  sv_timeline :: "string list"

definition init_service :: service where
  "init_service = \<lparr>sv_heap = [], sv_actions = [], sv_replied = [], sv_calls = [], sv_timeline = []\<rparr>"

type_synonym http_error = "nat \<times> string"
type_synonym outcome = "string + action_result"

definition upd_record :: "nat \<Rightarrow> (action_record \<Rightarrow> action_record) \<Rightarrow> service \<Rightarrow> service" where
  "upd_record ref f sv =
     (if ref < length (sv_heap sv) then sv\<lparr>sv_heap := (sv_heap sv)[ref := f (sv_heap sv ! ref)]\<rparr> else sv)"

definition find_record :: "service \<Rightarrow> string \<Rightarrow> nat option" where
  "find_record sv action_id = dict_get (sv_actions sv) action_id"

subsection \<open>Submission\<close>

definition gate_record :: "action_request \<Rightarrow> action_status \<Rightarrow> blast_radius \<Rightarrow> string \<Rightarrow> action_record" where
  "gate_record request status blast_radius reason =
     \<lparr>rec_id = rq_id request, rec_action_type = rq_action_type request,
      rec_target = rq_target request, rec_status = status, rec_blast_radius = blast_radius,
      rec_gate_reason = reason, rec_incident_id = rq_incident_id request,
      rec_tenant_id = rq_tenant_id request, rec_rationale = rq_rationale request,
      rec_output = None, rec_rollback_data = None, rec_error = None\<rparr>"

definition submit_begin :: "service \<Rightarrow> action_request \<Rightarrow> service \<times> nat \<times> action_request option" where
  "submit_begin sv request =
     (case gate_evaluate request of (status, blast_radius, reason) \<Rightarrow>
       let rec = gate_record request status blast_radius reason;
           ref = length (sv_heap sv);
           sv1 = sv\<lparr>sv_heap := sv_heap sv @ [rec], sv_actions := dict_set (rq_id request) ref (sv_actions sv)\<rparr>
       in if status = APPROVED
          then (if rq_action_type request \<in> set EXECUTOR_REGISTRY
                then (sv1\<lparr>sv_calls := sv_calls sv1 @ [(AutoExecuted, request)]\<rparr>, ref, Some request)
                else (upd_record ref (\<lambda>r. r\<lparr>rec_status := FAILED, rec_error := Some
                       (''No executor found for action type: '' @ action_type_member (rq_action_type request))\<rparr>) sv1,
                      ref, None))
          else (sv1, ref, None))"

definition submit_end :: "service \<Rightarrow> nat \<Rightarrow> outcome \<Rightarrow> service" where
  "submit_end sv ref res =
     (case res of
        Inr result \<Rightarrow> upd_record ref (\<lambda>r. r\<lparr>rec_status := rs_status result,
            rec_output := Some (rs_output result), rec_rollback_data := Some (rs_rollback_data result),
            rec_error := (case rs_error result of None \<Rightarrow> rec_error r
              | Some e \<Rightarrow> if e = [] then rec_error r else Some e)\<rparr>) sv
      | Inl exc \<Rightarrow> upd_record ref (\<lambda>r. r\<lparr>rec_status := FAILED, rec_error := Some exc\<rparr>) sv)"

definition submit_action ::
  "(action_request \<Rightarrow> outcome) \<Rightarrow> service \<Rightarrow> action_request \<Rightarrow> service \<times> action_record" where
  "submit_action execute sv request =
     (case submit_begin sv request of (sv1, ref, job) \<Rightarrow>
       let sv2 = (case job of None \<Rightarrow> sv1 | Some r \<Rightarrow> submit_end sv1 ref (execute r))
       in (sv2, sv_heap sv2 ! ref))"

subsection \<open>Approval and rejection\<close>

definition rebuild_request :: "string \<Rightarrow> action_record \<Rightarrow> action_request" where
  "rebuild_request action_id r =
     new_request action_id (rec_incident_id r) (rec_tenant_id r) (rec_action_type r) (rec_target r)
       (rec_rationale r)"

definition approve_begin ::
  "service \<Rightarrow> string \<Rightarrow> http_error + service \<times> nat \<times> action_request option" where
  "approve_begin sv action_id =
     (case find_record sv action_id of
        None \<Rightarrow> Inl (404, ''Action not found'')
      | Some ref \<Rightarrow>
          let r = sv_heap sv ! ref in
          if rec_status r \<noteq> AWAITING_APPROVAL
          then Inl (400, ''Action is not awaiting approval (current: ActionStatus.''
                 @ upper (action_status_value (rec_status r)) @ '')'')
          else let request = rebuild_request action_id r in
            if rq_action_type request \<in> set EXECUTOR_REGISTRY
            then Inr (sv\<lparr>sv_calls := sv_calls sv @ [(ApprovedBy action_id, request)]\<rparr>, ref, Some request)
            else Inr (upd_record ref (\<lambda>r. r\<lparr>rec_status := FAILED,
                   rec_error := Some ''No executor available''\<rparr>) sv, ref, None))"

text \<open>An exception of the executor leaves the handler and the record as it was.\<close>

definition approve_end :: "service \<Rightarrow> nat \<Rightarrow> outcome \<Rightarrow> service" where
  "approve_end sv ref res =
     (case res of
        Inr result \<Rightarrow> upd_record ref (\<lambda>r. r\<lparr>rec_status := rs_status result,
            rec_output := Some (rs_output result)\<rparr>) sv
      | Inl exc \<Rightarrow> sv)"

definition approve_action ::
  "(action_request \<Rightarrow> outcome) \<Rightarrow> service \<Rightarrow> string \<Rightarrow> http_error + service \<times> action_record" where
  "approve_action execute sv action_id =
     bind_res (approve_begin sv action_id) (\<lambda>(sv1, ref, job).
       case job of
         None \<Rightarrow> Inr (sv1, sv_heap sv1 ! ref)
       | Some r \<Rightarrow> let sv2 = approve_end sv1 ref (execute r) in
           (case execute r of Inl exc \<Rightarrow> Inl (500, exc) | Inr _ \<Rightarrow> Inr (sv2, sv_heap sv2 ! ref)))"

definition reject_action :: "service \<Rightarrow> string \<Rightarrow> http_error + service \<times> action_record" where
  "reject_action sv action_id =
     (case find_record sv action_id of
        None \<Rightarrow> Inl (404, ''Action not found'')
      | Some ref \<Rightarrow> let sv1 = upd_record ref (\<lambda>r. r\<lparr>rec_status := REJECTED\<rparr>) sv
          in Inr (sv1, sv_heap sv1 ! ref))"

definition get_action :: "service \<Rightarrow> string \<Rightarrow> http_error + action_record" where
  "get_action sv action_id =
     (case find_record sv action_id of
        None \<Rightarrow> Inl (404, ''Action not found'') | Some ref \<Rightarrow> Inr (sv_heap sv ! ref))"

subsection \<open>The ChatOps callback\<close>

record chatops_claims =
  cl_action_id :: string
  cl_case_id :: string
  cl_tenant_id :: string
  cl_choice :: string
  cl_user_ref :: string
  cl_issued_at :: int
  cl_expires_at :: int

datatype page = LinkExpired | LinkInvalid | AlreadyRecorded | Recorded string

definition error_page :: "string \<Rightarrow> page" where
  "error_page reason = (if reason = ''expired'' then LinkExpired else LinkInvalid)"

text \<open>Up to the timeline post: the reference the handler keeps, or the page it returns at once.\<close>

definition callback_begin ::
  "service \<Rightarrow> string + chatops_claims \<Rightarrow> (nat \<times> page) + (service \<times> nat option)" where
  "callback_begin sv verified =
     (case verified of
        Inl reason \<Rightarrow> Inl (400, error_page reason)
      | Inr claims \<Rightarrow>
          if cl_action_id claims \<in> set (sv_replied sv) then Inl (200, AlreadyRecorded)
          else Inr (sv\<lparr>sv_timeline := sv_timeline sv @ [cl_action_id claims]\<rparr>,
                    find_record sv (cl_action_id claims)))"

definition reply_output :: "chatops_claims \<Rightarrow> string \<Rightarrow> string option \<Rightarrow> dict \<Rightarrow> dict" where
  "reply_output claims responded_at warning out =
     (let out1 = dict_update out [(''user_choice'', VStr (cl_choice claims)),
            (''user_ref'', VStr (cl_user_ref claims)), (''responded_at'', VStr responded_at)]
      in case warning of None \<Rightarrow> out1
         | Some w \<Rightarrow> if w = [] then out1 else dict_set ''timeline_warning'' (VStr w) out1)"

definition choice_page :: "string \<Rightarrow> page" where
  "choice_page choice =
     (if choice \<in> {''acknowledge'', ''deny'', ''escalate''} then Recorded choice else Recorded ''acknowledge'')"

definition callback_end ::
  "service \<Rightarrow> chatops_claims \<Rightarrow> nat option \<Rightarrow> string option \<Rightarrow> string \<Rightarrow> service \<times> (nat \<times> page)" where
  "callback_end sv claims ref warning responded_at =
     (let sv1 = sv\<lparr>sv_replied := List.insert (cl_action_id claims) (sv_replied sv)\<rparr>;
          sv2 = (case ref of None \<Rightarrow> sv1
            | Some i \<Rightarrow> upd_record i (\<lambda>r. r\<lparr>rec_status := COMPLETED,
                rec_output := Some (reply_output claims responded_at warning
                  (case rec_output r of None \<Rightarrow> [] | Some out \<Rightarrow> out))\<rparr>) sv1)
      in (sv2, 200, choice_page (cl_choice claims)))"

definition chatops_callback ::
  "service \<Rightarrow> string + chatops_claims \<Rightarrow> string option \<Rightarrow> string \<Rightarrow> service \<times> (nat \<times> page)" where
  "chatops_callback sv verified warning responded_at =
     (case callback_begin sv verified of
        Inl response \<Rightarrow> (sv, response)
      | Inr (sv1, ref) \<Rightarrow>
          (case verified of Inr claims \<Rightarrow> callback_end sv1 claims ref warning responded_at
           | Inl reason \<Rightarrow> (sv, 400, error_page reason)))"

subsection \<open>Interleavings\<close>

text \<open>
  The event loop runs one handler segment at a time; a job is a handler suspended at its await.
  An executor settles an action: those under \<open>services/actions/app/executors\<close> return completed,
  failed or running.
\<close>

datatype job = SubmitJob nat action_request | ApproveJob nat action_request
  | CallbackJob chatops_claims "nat option"

type_synonym sys = "service \<times> job list"

definition settled :: "outcome \<Rightarrow> bool" where
  "settled res \<longleftrightarrow> (case res of Inl _ \<Rightarrow> True | Inr r \<Rightarrow> rs_status r \<in> {COMPLETED, FAILED, RUNNING})"

definition job_list :: "('r \<Rightarrow> job) \<Rightarrow> 'r option \<Rightarrow> job list" where
  "job_list f j = (case j of None \<Rightarrow> [] | Some r \<Rightarrow> [f r])"

inductive step :: "sys \<Rightarrow> sys \<Rightarrow> bool" where
  Submit: "submit_begin sv rq = (sv', ref, j) \<Longrightarrow> step (sv, jobs) (sv', jobs @ job_list (SubmitJob ref) j)"
| SubmitDone: "settled res \<Longrightarrow> step (sv, a @ SubmitJob ref rq # b) (submit_end sv ref res, a @ b)"
| Approve: "approve_begin sv i = Inr (sv', ref, j) \<Longrightarrow> step (sv, jobs) (sv', jobs @ job_list (ApproveJob ref) j)"
| ApproveDone: "settled res \<Longrightarrow> step (sv, a @ ApproveJob ref rq # b) (approve_end sv ref res, a @ b)"
| Reject: "reject_action sv i = Inr (sv', r) \<Longrightarrow> step (sv, jobs) (sv', jobs)"
| Callback: "callback_begin sv (Inr cl) = Inr (sv', ref) \<Longrightarrow> step (sv, jobs) (sv', jobs @ [CallbackJob cl ref])"
| CallbackDone: "callback_end sv cl ref w t = (sv', resp) \<Longrightarrow> step (sv, a @ CallbackJob cl ref # b) (sv', a @ b)"

inductive reachable :: "sys \<Rightarrow> bool" where
  Start: "reachable (init_service, [])"
| Step: "reachable s \<Longrightarrow> step s s' \<Longrightarrow> reachable s'"

definition record_ok :: "action_record \<Rightarrow> bool" where
  "record_ok r \<longleftrightarrow> rec_blast_radius r = radius_of (rec_action_type r)
     \<and> (rec_status r = AWAITING_APPROVAL \<longrightarrow> \<not> auto_approved (rec_action_type r))"

fun call_ok :: "call_origin \<times> action_request \<Rightarrow> bool" where
  "call_ok (AutoExecuted, rq) = (rq_action_type rq \<in> set EXECUTOR_REGISTRY \<and> auto_approved (rq_action_type rq))"
| "call_ok (ApprovedBy i, rq) =
     (rq_action_type rq \<in> set EXECUTOR_REGISTRY \<and> \<not> auto_approved (rq_action_type rq)
      \<and> rq = new_request i (rq_incident_id rq) (rq_tenant_id rq) (rq_action_type rq) (rq_target rq) (rq_rationale rq))"

definition service_inv :: "service \<Rightarrow> bool" where
  "service_inv sv \<longleftrightarrow>
     (\<forall>(i, ref) \<in> set (sv_actions sv). ref < length (sv_heap sv) \<and> rec_id (sv_heap sv ! ref) = i)
   \<and> (\<forall>r \<in> set (sv_heap sv). record_ok r) \<and> (\<forall>c \<in> set (sv_calls sv). call_ok c)"

lemma upd_record_simps [simp]:
  "sv_actions (upd_record ref f sv) = sv_actions sv" "sv_calls (upd_record ref f sv) = sv_calls sv"
  "length (sv_heap (upd_record ref f sv)) = length (sv_heap sv)"
  "sv_replied (upd_record ref f sv) = sv_replied sv" "sv_timeline (upd_record ref f sv) = sv_timeline sv"
  by (simp_all add: upd_record_def)

lemma upd_record_nth:
  "k < length (sv_heap sv) \<Longrightarrow>
   sv_heap (upd_record ref f sv) ! k = (if k = ref then f (sv_heap sv ! k) else sv_heap sv ! k)"
  by (auto simp: upd_record_def nth_list_update)

text \<open>An update of a record that keeps its identity and does not put it back in the queue.\<close>

definition benign :: "(action_record \<Rightarrow> action_record) \<Rightarrow> bool" where
  "benign f \<longleftrightarrow> (\<forall>r. rec_id (f r) = rec_id r \<and> rec_action_type (f r) = rec_action_type r
     \<and> rec_blast_radius (f r) = rec_blast_radius r \<and> rec_status (f r) \<noteq> AWAITING_APPROVAL)"

lemma upd_record_inv: "service_inv sv \<Longrightarrow> benign f \<Longrightarrow> service_inv (upd_record ref f sv)"
  unfolding service_inv_def all_set_conv_all_nth
  by (auto simp: upd_record_nth benign_def record_ok_def case_prod_beta)

lemma find_record_inv:
  "service_inv sv \<Longrightarrow> find_record sv i = Some ref \<Longrightarrow>
   ref < length (sv_heap sv) \<and> rec_id (sv_heap sv ! ref) = i \<and> record_ok (sv_heap sv ! ref)"
  by (auto simp: find_record_def service_inv_def dest!: dict_get_SomeD)

lemma set_dict_set: "p \<in> set (dict_set k v d) \<Longrightarrow> p = (k, v) \<or> p \<in> set d"
  by (induction k v d rule: dict_set.induct) (auto split: if_splits)

lemma submit_record_inv:
  assumes "service_inv sv" "rec_id r = i" "record_ok r"
  shows "service_inv (sv\<lparr>sv_heap := sv_heap sv @ [r], sv_actions := dict_set i (length (sv_heap sv)) (sv_actions sv)\<rparr>)"
  using assms by (fastforce simp: service_inv_def nth_append dest!: set_dict_set)

lemma add_call_inv: "service_inv sv \<Longrightarrow> call_ok c \<Longrightarrow> service_inv (sv\<lparr>sv_calls := sv_calls sv @ [c]\<rparr>)"
  by (auto simp: service_inv_def)

lemma submit_begin_inv:
  assumes "service_inv sv" "submit_begin sv rq = (sv', ref, j)"
  shows "service_inv sv'"
proof -
  obtain st b why where g: "gate_evaluate rq = (st, b, why)" by (cases "gate_evaluate rq") auto
  have st: "st = (if auto_approved (rq_action_type rq) then APPROVED else AWAITING_APPROVAL)"
    and b: "b = radius_of (rq_action_type rq)"
    using gate_evaluate_status [of rq] gate_evaluate_radius [of rq] g by auto
  define r where "r = gate_record rq st b why"
  let ?sv1 = "sv\<lparr>sv_heap := sv_heap sv @ [r], sv_actions := dict_set (rq_id rq) (length (sv_heap sv)) (sv_actions sv)\<rparr>"
  have inv: "service_inv ?sv1"
    by (rule submit_record_inv [OF assms(1)]) (simp_all add: r_def gate_record_def record_ok_def st b)
  then have call: "service_inv (?sv1\<lparr>sv_calls := sv_calls ?sv1 @ [(AutoExecuted, rq)]\<rparr>)"
    if "st = APPROVED" "rq_action_type rq \<in> set EXECUTOR_REGISTRY"
    using that by (intro add_call_inv) (auto simp: st split: if_splits)
  show ?thesis
    using assms(2) inv [unfolded r_def] call [unfolded r_def]
    by (auto simp: submit_begin_def g Let_def benign_def intro!: upd_record_inv split: if_splits)
qed

lemma approve_begin_inv:
  assumes "service_inv sv" "approve_begin sv i = Inr (sv', ref, j)"
  shows "service_inv sv'"
proof -
  obtain ref' where f: "find_record sv i = Some ref'" using assms(2)
    by (auto simp: approve_begin_def split: option.splits)
  note ok = find_record_inv [OF assms(1) f]
  have st: "rec_status (sv_heap sv ! ref') = AWAITING_APPROVAL"
    using assms(2) f by (auto simp: approve_begin_def Let_def split: if_splits)
  then have "\<not> auto_approved (rec_action_type (sv_heap sv ! ref'))" using ok by (simp add: record_ok_def)
  with st assms f show ?thesis
    by (auto simp: approve_begin_def Let_def rebuild_request_def new_request_def benign_def
        intro!: upd_record_inv add_call_inv split: if_splits)
qed

lemma service_inv_ghost [simp]:
  "service_inv (sv\<lparr>sv_replied := x\<rparr>) = service_inv sv" "service_inv (sv\<lparr>sv_timeline := y\<rparr>) = service_inv sv"
  by (simp_all add: service_inv_def)

lemma step_inv: "step s s' \<Longrightarrow> service_inv (fst s) \<Longrightarrow> service_inv (fst s')"
proof (induction rule: step.induct)
  case (SubmitDone res sv a ref rq b)
  then show ?case
    by (auto simp: submit_end_def settled_def benign_def intro!: upd_record_inv split: sum.splits option.splits)
next
  case (ApproveDone res sv a ref rq b)
  then show ?case
    by (auto simp: approve_end_def settled_def benign_def intro!: upd_record_inv split: sum.splits)
next
  case (Reject sv i sv' r jobs)
  then show ?case
    by (auto simp: reject_action_def Let_def benign_def intro!: upd_record_inv split: option.splits)
next
  case (Callback sv cl sv' ref jobs)
  then show ?case by (auto simp: callback_begin_def split: if_splits)
next
  case (CallbackDone sv cl ref w t sv' resp a b)
  then show ?case
    by (auto simp: callback_end_def Let_def benign_def intro!: upd_record_inv split: option.splits)
qed (auto dest: submit_begin_inv approve_begin_inv)

lemma reachable_inv: "reachable s \<Longrightarrow> service_inv (fst s)"
proof (induction rule: reachable.induct)
  case Start
  then show ?case by (simp add: service_inv_def init_service_def)
next
  case (Step s s')
  then show ?case using step_inv by blast
qed

subsection \<open>Properties\<close>

text \<open>
  C1.  In every reachable state, however submissions, approvals, rejections, callbacks and their
  executor calls interleave, an executor was called without approval only for an action type that
  the gate lets run (no policy entry and a radius within the limit), every other call was made by
  an approval of a gated action, and what an approval hands to the executor carries the defaults
  for everything but the stored incident, tenant, type, target and rationale: no parameters, and
  the system as requester.
\<close>

theorem executor_calls_gated:
  assumes "reachable (sv, jobs)" "(origin, rq) \<in> set (sv_calls sv)"
  shows "rq_action_type rq \<in> set EXECUTOR_REGISTRY
    \<and> (auto_approved (rq_action_type rq) \<longleftrightarrow> origin = AutoExecuted)
    \<and> (\<forall>i. origin = ApprovedBy i \<longrightarrow> rq_id rq = i \<and> rq_parameters rq = [] \<and> rq_requested_by rq = ''system'')"
proof -
  have "call_ok (origin, rq)"
    using reachable_inv [OF assms(1)] assms(2) by (simp add: service_inv_def)
  moreover have "rq_parameters (new_request a b c d e f) = []" "rq_requested_by (new_request a b c d e f) = ''system''"
    "rq_id (new_request a b c d e f) = a" for a b c d e f by (simp_all add: new_request_def)
  ultimately show ?thesis by (cases origin) (simp_all, metis)
qed

definition demo_request :: action_request where
  "demo_request = (new_request ''a1'' ''inc'' ''ten'' ISOLATE_HOST ''host-7'' ''malware'')
     \<lparr>rq_parameters := [(''api_key'', VStr ''k'')], rq_requested_by := ''alice''\<rparr>"

lemma executor_calls_gated_witness:
  "\<exists>sv jobs rq. reachable (sv, jobs) \<and> (ApprovedBy ''a1'', rq) \<in> set (sv_calls sv) \<and> rq_parameters rq = []
    \<and> rq_parameters demo_request \<noteq> []"
proof -
  obtain sv1 ref where s: "submit_begin init_service demo_request = (sv1, ref, None)"
    by (simp add: submit_begin_def gate_evaluate_def demo_request_def new_request_def
        APPROVAL_REQUIRED_ACTIONS_def Let_def)
  have "reachable (sv1, [] @ job_list (SubmitJob ref) None)"
    by (rule reachable.Step [OF reachable.Start step.Submit [OF s]])
  moreover obtain sv2 ref' j rq where a: "approve_begin sv1 ''a1'' = Inr (sv2, ref', j)"
    "(ApprovedBy ''a1'', rq) \<in> set (sv_calls sv2)"
    using s by (auto simp: submit_begin_def gate_evaluate_def demo_request_def new_request_def init_service_def
        APPROVAL_REQUIRED_ACTIONS_def Let_def approve_begin_def find_record_def gate_record_def
        rebuild_request_def EXECUTOR_REGISTRY_def)
  ultimately have r: "reachable (sv2, ([] @ job_list (SubmitJob ref) None) @ job_list (ApproveJob ref') j)"
    using reachable.Step step.Approve [OF a(1)] by blast
  from executor_calls_gated [OF r a(2)] r a(2) show ?thesis
    by (auto simp: demo_request_def)
qed

text \<open>
  C29.  One approval can run an action twice.  While the executor call of an approval is under
  way, or after it raised, the record still awaits approval: a second approval is accepted and
  hands the same request to the executor again.
\<close>

theorem approval_executes_twice:
  assumes "approve_begin sv i = Inr (sv1, ref, Some rq)"
  shows "approve_end sv1 ref (Inl exc) = sv1
    \<and> approve_begin sv1 i = Inr (sv1\<lparr>sv_calls := sv_calls sv1 @ [(ApprovedBy i, rq)]\<rparr>, ref, Some rq)
    \<and> sv_calls sv1 = sv_calls sv @ [(ApprovedBy i, rq)]"
  using assms
  by (auto simp: approve_begin_def approve_end_def find_record_def Let_def split: option.splits if_splits)

definition demo_service :: service where
  "demo_service = fst (submit_begin init_service demo_request)"

lemma approval_executes_twice_witness:
  "\<exists>sv1 ref rq. approve_begin demo_service ''a1'' = Inr (sv1, ref, Some rq)
    \<and> approve_begin sv1 ''a1'' = Inr (sv1\<lparr>sv_calls := sv_calls sv1 @ [(ApprovedBy ''a1'', rq)]\<rparr>, ref, Some rq)"
proof -
  have "\<exists>p. approve_begin demo_service ''a1'' = Inr p \<and> (\<exists>rq. snd (snd p) = Some rq)"
    by (simp add: demo_service_def submit_begin_def gate_evaluate_def demo_request_def new_request_def
        init_service_def APPROVAL_REQUIRED_ACTIONS_def Let_def approve_begin_def find_record_def
        gate_record_def rebuild_request_def EXECUTOR_REGISTRY_def)
  then obtain sv1 ref rq where a: "approve_begin demo_service ''a1'' = Inr (sv1, ref, Some rq)" by force
  from approval_executes_twice [OF a] a show ?thesis by blast
qed

text \<open>
  Rejection is final for the approval queue: after a rejection of an id the store knows, in
  any status, an approval of that id is refused with 400 and calls nothing; an unknown id gives
  404 in both, and neither changes any other record.
\<close>

theorem reject_blocks_approval:
  assumes "service_inv sv"
  shows "case find_record sv i of
      None \<Rightarrow> reject_action sv i = Inl (404, ''Action not found'')
        \<and> approve_begin sv i = Inl (404, ''Action not found'')
    | Some ref \<Rightarrow> \<exists>sv1 r. reject_action sv i = Inr (sv1, r) \<and> rec_status r = REJECTED \<and> rec_id r = i
        \<and> approve_begin sv1 i = Inl (400, ''Action is not awaiting approval (current: ActionStatus.REJECTED)'')
        \<and> sv_calls sv1 = sv_calls sv
        \<and> (\<forall>k < length (sv_heap sv). k \<noteq> ref \<longrightarrow> sv_heap sv1 ! k = sv_heap sv ! k)"
proof (cases "find_record sv i")
  case (Some ref)
  note ok = find_record_inv [OF assms Some]
  have up: "upper ''rejected'' = ''REJECTED''" by code_simp
  from ok Some show ?thesis
    by (simp add: reject_action_def approve_begin_def find_record_def Let_def upd_record_nth up)
qed (simp add: reject_action_def approve_begin_def)

lemma reject_blocks_approval_witness:
  "\<exists>sv1 r. reject_action demo_service ''a1'' = Inr (sv1, r) \<and> rec_status r = REJECTED
     \<and> approve_begin sv1 ''a1'' = Inl (400, ''Action is not awaiting approval (current: ActionStatus.REJECTED)'')"
proof -
  have inv: "service_inv demo_service"
    using submit_begin_inv [of init_service demo_request] reachable_inv [OF reachable.Start]
    by (cases "submit_begin init_service demo_request") (auto simp: demo_service_def)
  have "find_record demo_service ''a1'' = Some 0"
    by (simp add: demo_service_def submit_begin_def gate_evaluate_def demo_request_def new_request_def
        init_service_def APPROVAL_REQUIRED_ACTIONS_def Let_def find_record_def)
  with reject_blocks_approval [OF inv, of "''a1''"] show ?thesis by auto
qed

fun run_callbacks :: "service \<Rightarrow> ((string + chatops_claims) \<times> string option \<times> string) list \<Rightarrow> service" where
  "run_callbacks sv [] = sv"
| "run_callbacks sv ((v, w, t) # cs) = run_callbacks (fst (chatops_callback sv v w t)) cs"

lemma chatops_callback_posts:
  "set (sv_timeline sv) \<subseteq> set (sv_replied sv) \<Longrightarrow> distinct (sv_timeline sv) \<Longrightarrow>
   set (sv_timeline (fst (chatops_callback sv v w t))) \<subseteq> set (sv_replied (fst (chatops_callback sv v w t)))
   \<and> distinct (sv_timeline (fst (chatops_callback sv v w t)))"
  by (cases v) (auto simp: chatops_callback_def callback_begin_def callback_end_def Let_def split: option.splits)

lemma run_callbacks_posts:
  "set (sv_timeline sv) \<subseteq> set (sv_replied sv) \<Longrightarrow> distinct (sv_timeline sv) \<Longrightarrow>
   distinct (sv_timeline (run_callbacks sv cs))"
proof (induction sv cs rule: run_callbacks.induct)
  case (2 sv v w t cs)
  show ?case using "2.IH" chatops_callback_posts [OF "2.prems", of v w t] by simp
qed simp

text \<open>
  A ChatOps reply counts once when callbacks run one after the other: over any sequence of
  callbacks, each action id reaches the timeline at most once.  The check and the mark are on the
  two sides of an await, so two callbacks that overlap both reach it.
\<close>

theorem chatops_single_use:
  "distinct (sv_timeline (run_callbacks init_service cs))
   \<and> (case callback_begin init_service (Inr cl) of
        Inr (sv1, ref) \<Rightarrow> (case callback_begin sv1 (Inr cl) of
            Inr (sv2, ref') \<Rightarrow> sv_timeline sv2 = [cl_action_id cl, cl_action_id cl]
          | Inl _ \<Rightarrow> False)
      | Inl _ \<Rightarrow> False)"
  using run_callbacks_posts [of init_service cs]
  by (simp add: callback_begin_def init_service_def)

end
