(* ===== verification/Live_Actions.thy ===== *)
theory Live_Actions
  imports Py_Value "HOL-Library.Product_Lexorder"
begin

text \<open>
  The registry-driven live-action layer (\<open>services/actions/app/live_actions\<close>): models, the
  capability vocabulary, the registry and the dispatcher.  An executor is its declared metadata
  and the outcome of its call: a result, or the type name and the text of what it raised.
\<close>

subsection \<open>Models\<close>

datatype live_status = SUCCEEDED | FAILED | SIMULATED

record live_request =
  lr_request_id :: string
  lr_capability :: string
  lr_vendor_id :: string
  lr_target :: string
  lr_params :: dict
  lr_dry_run :: bool
  lr_case_id :: "string option"
  lr_playbook_run_id :: "string option"
  lr_tenant_id :: "string option"
  lr_requested_by :: string

record live_result =
  lx_request_id :: string
  lx_status :: live_status
  lx_capability :: string
  lx_vendor_id :: string
  lx_summary :: string
  lx_details :: dict
  lx_error :: "string option"

record live_descriptor =
  ld_vendor_id :: string
  ld_capability :: string
  ld_description :: string
  ld_source :: string
  ld_requires_credentials :: bool

record live_executor =
  le_class :: string
  le_vendor_id :: string
  le_capability :: string
  le_description :: "string option"
  le_requires_credentials :: bool
  le_execute :: "live_request \<Rightarrow> (string \<times> string) + live_result"

definition KNOWN_CAPABILITIES :: "string list" where
  "KNOWN_CAPABILITIES =
   [''pull_alerts'', ''pull_audit'', ''pull_file'', ''pull_logs'', ''pull_pcap'', ''query_logs'',
    ''query_processes'', ''pivot_domain'', ''pivot_hash'', ''pivot_host'', ''pivot_ip'', ''pivot_user'',
    ''enrich_asset'', ''enrich_domain'', ''enrich_host'', ''enrich_ioc'', ''enrich_user'', ''enrich_vuln'',
    ''block_domain'', ''block_hash'', ''block_user_signin'', ''disable_user'', ''isolate_host'',
    ''kill_process'', ''quarantine_file'', ''reset_password'', ''revoke_session'', ''revoke_token'',
    ''unisolate_host'', ''allow_ip'', ''block_ioc'', ''block_ip'', ''create_notable_event'', ''force_mfa'',
    ''run_av_scan'', ''run_script'', ''search_siem'', ''suspend_session'', ''sync_detection_rule'',
    ''update_watcher'', ''push_case'', ''push_status'', ''read_audit_trail'']"

subsection \<open>The registry\<close>

type_synonym live_key = "string \<times> string"
type_synonym live_registry = "(live_key \<times> live_executor \<times> string) list"

definition already_registered :: "live_executor \<Rightarrow> live_executor \<Rightarrow> string \<Rightarrow> string" where
  "already_registered executor existing existing_source =
     ''Live action '' @ le_vendor_id executor @ ''/'' @ le_capability executor
     @ '' is already registered (source='' @ existing_source @ '', class='' @ le_class existing
     @ ''). Pass overwrite=True to replace it intentionally.''"

text \<open>The second component of the result tells whether the unknown-capability warning is logged.\<close>

definition register_executor ::
  "live_registry \<Rightarrow> live_executor \<Rightarrow> string \<Rightarrow> bool \<Rightarrow> string + live_registry \<times> bool" where
  "register_executor reg executor source overwrite =
     (if le_vendor_id executor = [] \<or> le_capability executor = []
      then Inl (''LiveActionExecutor must declare vendor_id and capability (got vendor_id=''
             @ repr_str (le_vendor_id executor) @ '', capability='' @ repr_str (le_capability executor) @ '')'')
      else
        let warned = le_capability executor \<notin> set KNOWN_CAPABILITIES;
            key = (le_vendor_id executor, le_capability executor)
        in case dict_get reg key of
             Some (existing, existing_source) \<Rightarrow>
               if \<not> overwrite then Inl (already_registered executor existing existing_source)
               else Inr (dict_set key (executor, source) reg, warned)
           | None \<Rightarrow> Inr (dict_set key (executor, source) reg, warned))"

definition unregister_executor :: "live_registry \<Rightarrow> string \<Rightarrow> string \<Rightarrow> live_registry \<times> bool" where
  "unregister_executor reg vendor_id capability =
     (dict_del (vendor_id, capability) reg, dict_get reg (vendor_id, capability) \<noteq> None)"

definition get_executor :: "live_registry \<Rightarrow> string \<Rightarrow> string \<Rightarrow> live_executor option" where
  "get_executor reg vendor_id capability = map_option fst (dict_get reg (vendor_id, capability))"

definition list_descriptors :: "live_registry \<Rightarrow> live_descriptor list" where
  "list_descriptors reg =
     map (\<lambda>((vendor_id, capability), (executor, source)).
       \<lparr>ld_vendor_id = vendor_id, ld_capability = capability,
        ld_description = (case le_description executor of None \<Rightarrow> [] | Some t \<Rightarrow> t),
        ld_source = source, ld_requires_credentials = le_requires_credentials executor\<rparr>)
       (sort_key fst reg)"

definition list_capabilities_for_vendor :: "live_registry \<Rightarrow> string \<Rightarrow> string list" where
  "list_capabilities_for_vendor reg vendor_id =
     sort (map snd (filter (\<lambda>(vid, cap). vid = vendor_id) (map fst reg)))"

definition list_vendors_for_capability :: "live_registry \<Rightarrow> string \<Rightarrow> string list" where
  "list_vendors_for_capability reg capability =
     sort (map fst (filter (\<lambda>(vid, cap). cap = capability) (map fst reg)))"

definition reset_for_tests :: "live_registry \<Rightarrow> live_registry" where
  "reset_for_tests reg = []"

subsection \<open>The dispatcher\<close>

definition not_found_result :: "live_request \<Rightarrow> string list \<Rightarrow> live_result" where
  "not_found_result request available =
     \<lparr>lx_request_id = lr_request_id request, lx_status = FAILED, lx_capability = lr_capability request,
      lx_vendor_id = lr_vendor_id request,
      lx_summary = ''No executor registered for '' @ lr_vendor_id request @ ''/'' @ lr_capability request,
      lx_details = [(''available_vendors_for_capability'', VList (map VStr available))],
      lx_error = Some ''executor_not_found''\<rparr>"

definition crashed_result :: "live_request \<Rightarrow> string \<Rightarrow> string \<Rightarrow> string \<Rightarrow> live_result" where
  "crashed_result request executor_class exc_class exc_text =
     \<lparr>lx_request_id = lr_request_id request, lx_status = FAILED, lx_capability = lr_capability request,
      lx_vendor_id = lr_vendor_id request,
      lx_summary = ''Executor '' @ executor_class @ '' raised an exception'', lx_details = [],
      lx_error = Some (exc_class @ '': '' @ exc_text)\<rparr>"

definition dispatch :: "live_registry \<Rightarrow> live_request \<Rightarrow> live_result" where
  "dispatch reg request =
     (case get_executor reg (lr_vendor_id request) (lr_capability request) of
        None \<Rightarrow> not_found_result request (list_vendors_for_capability reg (lr_capability request))
      | Some executor \<Rightarrow>
          (case le_execute executor request of
             Inl (exc_class, exc_text) \<Rightarrow> crashed_result request (le_class executor) exc_class exc_text
           | Inr result \<Rightarrow>
               let r1 = (if lx_request_id result \<noteq> lr_request_id request
                         then result\<lparr>lx_request_id := lr_request_id request\<rparr> else result);
                   r2 = (if lx_vendor_id r1 \<noteq> lr_vendor_id request
                         then r1\<lparr>lx_vendor_id := lr_vendor_id request\<rparr> else r1)
               in if lx_capability r2 \<noteq> lr_capability request
                  then r2\<lparr>lx_capability := lr_capability request\<rparr> else r2))"

subsection \<open>The interface the dispatcher relies on\<close>

text \<open>
  A keyed table: what a lookup returns after an insertion or a removal, and which keys it lists.
\<close>

locale keyed_table =
  fixes lookup :: "'s \<Rightarrow> 'k \<Rightarrow> 'v option"
    and put :: "'k \<Rightarrow> 'v \<Rightarrow> 's \<Rightarrow> 's"
    and drop_key :: "'k \<Rightarrow> 's \<Rightarrow> 's"
    and keys :: "'s \<Rightarrow> 'k set"
  assumes lookup_put: "lookup (put k v s) k' = (if k' = k then Some v else lookup s k')"
    and lookup_drop: "lookup (drop_key k s) k' = (if k' = k then None else lookup s k')"
    and keys_lookup: "k \<in> keys s \<longleftrightarrow> lookup s k \<noteq> None"
begin

lemma keys_put: "keys (put k v s) = insert k (keys s)"
  by (rule set_eqI) (simp add: keys_lookup lookup_put)

lemma keys_drop: "keys (drop_key k s) = keys s - {k}"
  by (rule set_eqI) (simp add: keys_lookup lookup_drop)

lemma put_put_lookup: "lookup (put k v (put k w s)) k' = lookup (put k v s) k'"
  by (simp add: lookup_put)

lemma drop_put_lookup: "lookup s k = None \<Longrightarrow> lookup (drop_key k (put k v s)) k' = lookup s k'"
  by (simp add: lookup_put lookup_drop)

end

interpretation reg_table: keyed_table dict_get dict_set dict_del
    "\<lambda>reg :: live_registry. fst ` set reg"
  by unfold_locales (auto simp: dict_get_None_iff)

subsection \<open>The registry invariant\<close>

definition registry_ok :: "live_registry \<Rightarrow> bool" where
  "registry_ok reg \<longleftrightarrow> distinct (map fst reg)
     \<and> (\<forall>(key, executor, source) \<in> set reg. key = (le_vendor_id executor, le_capability executor)
          \<and> le_vendor_id executor \<noteq> [] \<and> le_capability executor \<noteq> [])"

datatype registry_op = Register live_executor string bool | Unregister string string | Reset

fun run_op :: "registry_op \<Rightarrow> live_registry \<Rightarrow> live_registry" where
  "run_op (Register e src ow) reg =
     (case register_executor reg e src ow of Inl _ \<Rightarrow> reg | Inr (reg', _) \<Rightarrow> reg')"
| "run_op (Unregister v c) reg = fst (unregister_executor reg v c)"
| "run_op Reset reg = reset_for_tests reg"

lemma run_op_ok:
  assumes "registry_ok reg"
  shows "registry_ok (run_op opn reg)"
proof (cases opn)
  case (Register e src ow)
  let ?key = "(le_vendor_id e, le_capability e)"
  have "registry_ok (dict_set ?key (e, src) reg)" if "le_vendor_id e \<noteq> []" "le_capability e \<noteq> []"
    using assms that set_dict_set_sub [of ?key "(e, src)" reg] by (auto simp: registry_ok_def)
  with assms show ?thesis
    by (auto simp: Register register_executor_def Let_def split: option.splits)
qed (use assms in \<open>auto simp: unregister_executor_def registry_ok_def dict_del_def reset_for_tests_def
       distinct_map_filter\<close>)

lemma run_ops_ok: "registry_ok reg \<Longrightarrow> registry_ok (fold run_op ops reg)"
  by (induction ops arbitrary: reg) (auto intro: run_op_ok)

lemma registered_vendors:
  "set (list_vendors_for_capability reg c) = {v. get_executor reg v c \<noteq> None}"
proof -
  have "set (list_vendors_for_capability reg c) = {v. (v, c) \<in> fst ` set reg}"
    by (force simp: list_vendors_for_capability_def)
  also have "\<dots> = {v. get_executor reg v c \<noteq> None}"
    unfolding reg_table.keys_lookup by (simp add: get_executor_def)
  finally show ?thesis .
qed

subsection \<open>Properties\<close>

text \<open>
  The dispatcher always answers, and the answer can be trusted: whatever is registered and
  whatever the executor does, the result carries the request's id, vendor and capability; without
  an executor for the pair it is a failure that lists exactly the vendors that have the
  capability, an exception is a failure that names it, and otherwise status, summary, details and
  error are the executor's.
\<close>


theorem dispatch_contract:
  "lx_request_id (dispatch reg rq) = lr_request_id rq \<and> lx_vendor_id (dispatch reg rq) = lr_vendor_id rq
   \<and> lx_capability (dispatch reg rq) = lr_capability rq
   \<and> (case get_executor reg (lr_vendor_id rq) (lr_capability rq) of
        None \<Rightarrow> lx_status (dispatch reg rq) = FAILED \<and> lx_error (dispatch reg rq) = Some ''executor_not_found''
          \<and> (\<exists>vs. lx_details (dispatch reg rq) = [(''available_vendors_for_capability'', VList (map VStr vs))]
               \<and> sorted vs \<and> set vs = {v. get_executor reg v (lr_capability rq) \<noteq> None}
               \<and> lr_vendor_id rq \<notin> set vs)
      | Some e \<Rightarrow> (case le_execute e rq of
            Inl (cls, txt) \<Rightarrow> lx_status (dispatch reg rq) = FAILED
              \<and> lx_error (dispatch reg rq) = Some (cls @ '': '' @ txt)
          | Inr res \<Rightarrow> lx_status (dispatch reg rq) = lx_status res \<and> lx_error (dispatch reg rq) = lx_error res
              \<and> lx_summary (dispatch reg rq) = lx_summary res \<and> lx_details (dispatch reg rq) = lx_details res))"
proof -
  have "sorted (list_vendors_for_capability reg (lr_capability rq))"
    by (simp add: list_vendors_for_capability_def)
  then show ?thesis
    using registered_vendors [of reg "lr_capability rq"]
    by (auto simp: dispatch_def not_found_result_def crashed_result_def Let_def split: option.split sum.split)
qed

text \<open>
  The registry stays well formed and never loses a binding silently: after any sequence of
  registrations, removals and resets, each pair is bound once, to an executor that declares
  exactly that non-empty pair; a registration of a bound pair without the overwrite flag is
  refused, and every other registration with a declared pair is visible to the next lookup and
  leaves all other bindings alone.
\<close>

theorem registry_discipline:
  "registry_ok (fold run_op ops [])
   \<and> (let reg = fold run_op ops []; key = (le_vendor_id e, le_capability e) in
      case register_executor reg e src ow of
        Inl _ \<Rightarrow> le_vendor_id e = [] \<or> le_capability e = [] \<or> (\<not> ow \<and> get_executor reg (fst key) (snd key) \<noteq> None)
      | Inr (reg', warned) \<Rightarrow> (ow \<or> get_executor reg (fst key) (snd key) = None)
          \<and> (\<forall>v c. get_executor reg' v c = (if (v, c) = key then Some e else get_executor reg v c))
          \<and> (warned \<longleftrightarrow> le_capability e \<notin> set KNOWN_CAPABILITIES))"
proof -
  have "registry_ok (fold run_op ops [])" by (rule run_ops_ok) (simp add: registry_ok_def)
  then show ?thesis
    by (auto simp: register_executor_def get_executor_def Let_def reg_table.lookup_put split: option.splits)
qed

end
