(* ===== verification/Fusion_Model.thy ===== *)
theory Fusion_Model
  imports Fingerprint Json
begin

text \<open>
  The data model of the fusion service (\<open>services/fusion/app/models/alert.py\<close>): alerts, fused
  alerts, incidents, and the two keys an alert is recognised by.  A UUID is its canonical text,
  a time a number of seconds, a float its exact rational value.
\<close>

datatype severity = CRITICAL | HIGH | MEDIUM | LOW | INFO

fun severity_value :: "severity \<Rightarrow> string" where
  "severity_value CRITICAL = ''critical''"
| "severity_value HIGH = ''high''"
| "severity_value MEDIUM = ''medium''"
| "severity_value LOW = ''low''"
| "severity_value INFO = ''info''"

datatype alert_status = NEW | ACKNOWLEDGED | IN_PROGRESS | RESOLVED | SUPPRESSED | FUSED

datatype fusion_decision = NEW_ALERT | DUPLICATE | CORRELATED | NEW_INCIDENT

record raw_alert =
  al_id :: string
  al_tenant_id :: string
  al_source :: string
  al_title :: string
  al_description :: string
  al_severity :: severity
  al_status :: alert_status
  al_src_ip :: "string option"
  al_dst_ip :: "string option"
  al_hostname :: "string option"
  al_username :: "string option"
  al_file_hash :: "string option"
  al_domain :: "string option"
  al_url :: "string option"
  al_mitre_tactics :: "string list"
  al_mitre_techniques :: "string list"
  al_raw_event :: dict
  al_tags :: "string list"
  al_risk_score :: rat
  al_created_at :: nat
  al_event_time :: "nat option"

definition opt_val :: "string option \<Rightarrow> val" where
  "opt_val v = (case v of None \<Rightarrow> VNone | Some s \<Rightarrow> VStr s)"

definition fingerprint_fields :: "raw_alert \<Rightarrow> val" where
  "fingerprint_fields a = VDict
    [(''tenant_id'', VStr (al_tenant_id a)),
     (''source'', VStr (al_source a)),
     (''title'', VStr (al_title a)),
     (''src_ip'', opt_val (al_src_ip a)),
     (''dst_ip'', opt_val (al_dst_ip a)),
     (''hostname'', opt_val (al_hostname a)),
     (''username'', opt_val (al_username a)),
     (''file_hash'', opt_val (al_file_hash a)),
     (''mitre_techniques'', VList (map VStr (sort (al_mitre_techniques a))))]"

definition fingerprint :: "raw_alert \<Rightarrow> string" where
  "fingerprint a = sha256 (json_dumps_sorted (fingerprint_fields a))"

text \<open>\<open>a or b or ...\<close> on optional strings: the first that is present and not empty.\<close>

fun first_text :: "string option list \<Rightarrow> string \<Rightarrow> string" where
  "first_text [] d = d"
| "first_text (v # vs) d = (case v of None \<Rightarrow> first_text vs d | Some s \<Rightarrow> if s = [] then first_text vs d else s)"

definition correlation_key :: "raw_alert \<Rightarrow> string" where
  "correlation_key a =
     (let entity = first_text [al_src_ip a, al_hostname a, al_username a, al_domain a] ''unknown'';
          tactic = (case al_mitre_tactics a of [] \<Rightarrow> ''unknown'' | t # _ \<Rightarrow> t)
      in al_tenant_id a @ '':'' @ entity @ '':'' @ tactic)"

datatype confidence_label = HIGH_CONFIDENCE | MEDIUM_CONFIDENCE | LOW_CONFIDENCE

fun confidence_label_value :: "confidence_label \<Rightarrow> string" where
  "confidence_label_value HIGH_CONFIDENCE = ''high''"
| "confidence_label_value MEDIUM_CONFIDENCE = ''medium''"
| "confidence_label_value LOW_CONFIDENCE = ''low''"

record confidence_factor =
  cf_factor :: string
  cf_label :: string
  cf_value :: string
  cf_contribution :: rat
  cf_weight :: rat

record fused_alert =
  fu_id :: string
  fu_tenant_id :: string
  fu_incident_id :: "string option"
  fu_decision :: fusion_decision
  fu_duplicate_of :: "string option"
  fu_alert :: raw_alert
  fu_enrichments :: dict
  fu_anomaly_score :: rat
  fu_priority_score :: rat
  fu_exploit_in_wild :: bool
  fu_label :: confidence_label
  fu_score :: rat
  fu_rationale :: "confidence_factor list"
  fu_narrative :: "string option"

text \<open>A fused alert with the defaults of the model.\<close>

definition new_fused :: "raw_alert \<Rightarrow> string option \<Rightarrow> fusion_decision \<Rightarrow> string option \<Rightarrow> fused_alert" where
  "new_fused a incident decision dup =
     \<lparr>fu_id = al_id a, fu_tenant_id = al_tenant_id a, fu_incident_id = incident, fu_decision = decision,
      fu_duplicate_of = dup, fu_alert = a, fu_enrichments = [], fu_anomaly_score = 0, fu_priority_score = 0,
      fu_exploit_in_wild = False, fu_label = MEDIUM_CONFIDENCE, fu_score = 1 / 2, fu_rationale = [],
      fu_narrative = None\<rparr>"

record incident =
  in_id :: string
  in_tenant_id :: string
  in_title :: string
  in_severity :: severity
  in_alert_count :: nat
  in_alert_ids :: "string list"
  in_src_ips :: "string list"
  in_hostnames :: "string list"
  in_usernames :: "string list"
  in_mitre_tactics :: "string list"
  in_mitre_techniques :: "string list"
  in_correlation_keys :: "string list"
  in_first_seen :: nat
  in_last_seen :: nat

subsection \<open>What the two keys determine\<close>

lemma opt_val_inject [simp]: "opt_val a = opt_val b \<longleftrightarrow> a = b"
  by (cases a; cases b) (auto simp: opt_val_def)

lemma fingerprint_fields_ok: "json_ok (fingerprint_fields a)"
proof -
  have "json_ok (opt_val v)" for v by (cases v) (auto simp: opt_val_def)
  then show ?thesis by (simp add: fingerprint_fields_def list_all_iff)
qed

lemma sort_dicts_opt_val [simp]: "sort_dicts (opt_val v) = opt_val v"
  by (cases v) (simp_all add: opt_val_def)

text \<open>The fields two alerts must share to be duplicates.\<close>

definition same_identity :: "raw_alert \<Rightarrow> raw_alert \<Rightarrow> bool" where
  "same_identity a b \<longleftrightarrow> al_tenant_id a = al_tenant_id b \<and> al_source a = al_source b
     \<and> al_title a = al_title b \<and> al_src_ip a = al_src_ip b \<and> al_dst_ip a = al_dst_ip b
     \<and> al_hostname a = al_hostname b \<and> al_username a = al_username b
     \<and> al_file_hash a = al_file_hash b
     \<and> sort (al_mitre_techniques a) = sort (al_mitre_techniques b)"

lemma same_identity_fields: "same_identity a b \<longleftrightarrow> fingerprint_fields a = fingerprint_fields b"
  by (auto simp: same_identity_def fingerprint_fields_def map_inj_on dest: map_injective [rotated] simp: inj_def)

lemma sort_key_map_of:
  assumes "distinct (map fst d)" "distinct (map fst e)" "sort_key fst d = sort_key fst (e :: (string \<times> 'a) list)"
  shows "map_of d = map_of e"
  using assms map_of_inject_set [OF assms(1,2)] by (metis set_sort)

lemma map_sort_dicts_VStr [simp]: "map (sort_dicts \<circ> VStr) xs = map VStr xs"
  by simp

lemma fingerprint_fields_inject:
  assumes "sort_dicts (fingerprint_fields a) = sort_dicts (fingerprint_fields b)"
  shows "same_identity a b"
proof -
  have id: "sort_dicts (fingerprint_fields x) =
      VDict (sort_key fst (case fingerprint_fields x of VDict d \<Rightarrow> d | _ \<Rightarrow> []))" for x
    by (simp add: fingerprint_fields_def comp_def)
  let ?d = "\<lambda>x. case fingerprint_fields x of VDict d \<Rightarrow> d | _ \<Rightarrow> []"
  have "map_of (?d a) = map_of (?d b)"
    by (rule sort_key_map_of) (use assms id in \<open>simp_all add: fingerprint_fields_def\<close>)
  then have eq: "map_of (?d a) k = map_of (?d b) k" for k by simp
  have inj: "map VStr xs = map VStr ys \<Longrightarrow> xs = ys" for xs ys
    by (rule map_injective) (auto simp: inj_def)
  show ?thesis
    using eq [of "''tenant_id''"] eq [of "''source''"] eq [of "''title''"] eq [of "''src_ip''"]
      eq [of "''dst_ip''"] eq [of "''hostname''"] eq [of "''username''"] eq [of "''file_hash''"]
      eq [of "''mitre_techniques''"]
    by (simp add: fingerprint_fields_def same_identity_def) (auto dest: inj)
qed

text \<open>Equal fingerprints mean the same identity or a collision; the same identity gives equal fingerprints.\<close>

lemma fingerprint_eqD:
  "fingerprint a = fingerprint b \<Longrightarrow> same_identity a b
     \<or> sha_collision (json_dumps_sorted (fingerprint_fields a)) (json_dumps_sorted (fingerprint_fields b))"
  unfolding fingerprint_def
  using sha256_eqD fingerprint_fields_inject json_dumps_sorted_inject fingerprint_fields_ok by blast

lemma same_identity_fingerprint: "same_identity a b \<Longrightarrow> fingerprint a = fingerprint b"
  by (simp add: same_identity_fields fingerprint_def)

lemma correlation_key_tenant:
  assumes "correlation_key a = correlation_key b" "CHR '':'' \<notin> set (al_tenant_id a)" "CHR '':'' \<notin> set (al_tenant_id b)"
  shows "al_tenant_id a = al_tenant_id b"
proof -
  have "hd (split_on (CHR '':'') (correlation_key x)) = al_tenant_id x" if "CHR '':'' \<notin> set (al_tenant_id x)" for x
    using that by (simp add: correlation_key_def Let_def split_on_append)
  with assms show ?thesis by metis
qed

end
