(* ===== verification/Fusion_Correlation.thy ===== *)
theory Fusion_Correlation
  imports Fusion_Model
begin

text \<open>
  Deduplication and correlation (\<open>services/fusion/app/services/deduplicator.py\<close>,
  \<open>correlator.py\<close>) over the two windows of \<open>services/fusion/app/core/config.py\<close>.

  Redis is a parameter: its state, \<open>GET key\<close> at a time and \<open>SET key v EX ttl\<close> at a time.
  \<open>ttl_laws\<close> is its documented behaviour: a key holds the last value set until its time to live
  has passed, no other key is affected, and waiting only lets values expire.  The JSON codec of the incident model (pydantic) is a
  parameter whose law is that reading back what was written gives the incident.
\<close>

record 's redis =
  rd_get :: "'s \<Rightarrow> nat \<Rightarrow> string \<Rightarrow> string option"
  rd_set :: "'s \<Rightarrow> nat \<Rightarrow> string \<Rightarrow> string \<Rightarrow> nat \<Rightarrow> 's"
  js_dump :: "incident \<Rightarrow> string"
  js_load :: "string \<Rightarrow> incident option"

definition ttl_laws :: "'s redis \<Rightarrow> bool" where
  "ttl_laws r \<longleftrightarrow> (\<forall>s t k v ttl t' k'. t \<le> t' \<longrightarrow>
     rd_get r (rd_set r s t k v ttl) t' k' =
       (if k' = k then (if t' < t + ttl then Some v else None) else rd_get r s t' k'))
   \<and> (\<forall>s t t' k v. t \<le> t' \<longrightarrow> rd_get r s t' k = Some v \<longrightarrow> rd_get r s t k = Some v)"

definition codec_laws :: "'s redis \<Rightarrow> bool" where
  "codec_laws r \<longleftrightarrow> (\<forall>i. js_load r (js_dump r i) = Some i \<and> js_dump r i \<noteq> [])"

definition dedup_window_seconds :: nat where "dedup_window_seconds = 300"
definition correlation_window_seconds :: nat where "correlation_window_seconds = 3600"
definition max_alerts_per_incident :: nat where "max_alerts_per_incident = 500"

subsection \<open>Deduplicator\<close>

definition DEDUP_PREFIX :: string where "DEDUP_PREFIX = ''aisoc:fusion:dedup:''"

text \<open>\<open>if existing\<close>: an empty value reads as absent.\<close>

definition present :: "string option \<Rightarrow> string option" where
  "present v = (case v of None \<Rightarrow> None | Some s \<Rightarrow> if s = [] then None else Some s)"

definition is_duplicate :: "'s redis \<Rightarrow> 's \<Rightarrow> nat \<Rightarrow> raw_alert \<Rightarrow> bool \<times> string option" where
  "is_duplicate r s now a =
     (case present (rd_get r s now (DEDUP_PREFIX @ fingerprint a)) of
        Some existing \<Rightarrow> (True, Some existing) | None \<Rightarrow> (False, None))"

definition register :: "'s redis \<Rightarrow> 's \<Rightarrow> nat \<Rightarrow> raw_alert \<Rightarrow> 's" where
  "register r s now a = rd_set r s now (DEDUP_PREFIX @ fingerprint a) (al_id a) dedup_window_seconds"

subsection \<open>Correlator\<close>

definition CORRELATION_PREFIX :: string where "CORRELATION_PREFIX = ''aisoc:fusion:correlation:''"
definition INCIDENT_PREFIX :: string where "INCIDENT_PREFIX = ''aisoc:fusion:incident:''"

fun SEVERITY_ORDER :: "severity \<Rightarrow> nat" where
  "SEVERITY_ORDER CRITICAL = 5"
| "SEVERITY_ORDER HIGH = 4"
| "SEVERITY_ORDER MEDIUM = 3"
| "SEVERITY_ORDER LOW = 2"
| "SEVERITY_ORDER INFO = 1"

definition max_severity :: "severity \<Rightarrow> severity \<Rightarrow> severity" where
  "max_severity a b = (if SEVERITY_ORDER a \<ge> SEVERITY_ORDER b then a else b)"

definition opt_list :: "string option \<Rightarrow> string list" where
  "opt_list v = (case v of None \<Rightarrow> [] | Some s \<Rightarrow> if s = [] then [] else [s])"

text \<open>The order of \<open>list(set(xs))\<close> is unspecified in Python; the model keeps last occurrences and
  nothing below depends on the order.\<close>

definition create_incident :: "string \<Rightarrow> raw_alert \<Rightarrow> incident" where
  "create_incident new_id a =
     \<lparr>in_id = new_id, in_tenant_id = al_tenant_id a, in_title = ''Incident: '' @ al_title a,
      in_severity = al_severity a, in_alert_count = 1, in_alert_ids = [al_id a],
      in_src_ips = opt_list (al_src_ip a), in_hostnames = opt_list (al_hostname a),
      in_usernames = opt_list (al_username a),
      in_mitre_tactics = remdups (al_mitre_tactics a),
      in_mitre_techniques = remdups (al_mitre_techniques a),
      in_correlation_keys = [correlation_key a],
      in_first_seen = al_created_at a, in_last_seen = al_created_at a\<rparr>"

text \<open>\<open>if x not in xs: xs.append(x)\<close>, once and for each element of a list.\<close>

definition append_new :: "string \<Rightarrow> string list \<Rightarrow> string list" where
  "append_new x xs = (if x \<in> set xs then xs else xs @ [x])"

definition append_all_new :: "string list \<Rightarrow> string list \<Rightarrow> string list" where
  "append_all_new ys xs = foldl (\<lambda>acc y. append_new y acc) xs ys"

definition merge_alert :: "nat \<Rightarrow> incident \<Rightarrow> raw_alert \<Rightarrow> incident" where
  "merge_alert now i a =
     i\<lparr>in_alert_count := in_alert_count i + 1,
       in_alert_ids := in_alert_ids i @ [al_id a],
       in_severity := max_severity (in_severity i) (al_severity a),
       in_last_seen := now,
       in_src_ips := append_all_new (opt_list (al_src_ip a)) (in_src_ips i),
       in_hostnames := append_all_new (opt_list (al_hostname a)) (in_hostnames i),
       in_usernames := append_all_new (opt_list (al_username a)) (in_usernames i),
       in_mitre_tactics := append_all_new (al_mitre_tactics a) (in_mitre_tactics i),
       in_mitre_techniques := append_all_new (al_mitre_techniques a) (in_mitre_techniques i),
       in_correlation_keys := append_new (correlation_key a) (in_correlation_keys i)\<rparr>"

definition save_incident :: "'s redis \<Rightarrow> 's \<Rightarrow> nat \<Rightarrow> incident \<Rightarrow> 's" where
  "save_incident r s now i = rd_set r s now (INCIDENT_PREFIX @ in_id i) (js_dump r i) correlation_window_seconds"

definition load_incident :: "'s redis \<Rightarrow> 's \<Rightarrow> nat \<Rightarrow> string \<Rightarrow> incident option" where
  "load_incident r s now incident_id =
     (case present (rd_get r s now (INCIDENT_PREFIX @ incident_id)) of None \<Rightarrow> None | Some data \<Rightarrow> js_load r data)"

definition correlate :: "'s redis \<Rightarrow> 's \<Rightarrow> nat \<Rightarrow> string \<Rightarrow> raw_alert \<Rightarrow> 's \<times> bool \<times> incident" where
  "correlate r s now new_id a =
     (let index_key = CORRELATION_PREFIX @ correlation_key a;
          create = (let i = create_incident new_id a; s1 = save_incident r s now i
                    in (rd_set r s1 now index_key (in_id i) correlation_window_seconds, False, i))
      in case present (rd_get r s now index_key) of
           None \<Rightarrow> create
         | Some incident_id \<Rightarrow>
             (case load_incident r s now incident_id of
                None \<Rightarrow> create
              | Some i \<Rightarrow>
                  if in_alert_count i < max_alerts_per_incident
                  then let i' = merge_alert now i a in (save_incident r s now i', True, i')
                  else create))"

subsection \<open>Keys\<close>

lemma prefix_disjoint [simp]:
  "DEDUP_PREFIX @ a \<noteq> CORRELATION_PREFIX @ b" "CORRELATION_PREFIX @ b \<noteq> DEDUP_PREFIX @ a"
  "DEDUP_PREFIX @ a \<noteq> INCIDENT_PREFIX @ b" "INCIDENT_PREFIX @ b \<noteq> DEDUP_PREFIX @ a"
  "CORRELATION_PREFIX @ a \<noteq> INCIDENT_PREFIX @ b" "INCIDENT_PREFIX @ b \<noteq> CORRELATION_PREFIX @ a"
  by (simp_all add: DEDUP_PREFIX_def CORRELATION_PREFIX_def INCIDENT_PREFIX_def)

lemma rd_get_set:
  "ttl_laws r \<Longrightarrow> t \<le> t' \<Longrightarrow> rd_get r (rd_set r s t k v ttl) t' k' =
     (if k' = k then (if t' < t + ttl then Some v else None) else rd_get r s t' k')"
  by (simp add: ttl_laws_def)

subsection \<open>The incident invariant\<close>

definition incident_ok :: "incident \<Rightarrow> bool" where
  "incident_ok i \<longleftrightarrow> in_alert_count i = length (in_alert_ids i)
     \<and> 1 \<le> in_alert_count i \<and> in_alert_count i \<le> max_alerts_per_incident
     \<and> distinct (in_src_ips i) \<and> distinct (in_hostnames i) \<and> distinct (in_usernames i)
     \<and> distinct (in_mitre_tactics i) \<and> distinct (in_mitre_techniques i)
     \<and> distinct (in_correlation_keys i)"

lemma append_new_props [simp]:
  "set (append_new x xs) = insert x (set xs)" "distinct (append_new x xs) \<longleftrightarrow> distinct xs"
  by (auto simp: append_new_def)

lemma append_all_new_props [simp]:
  "set (append_all_new ys xs) = set ys \<union> set xs" "distinct (append_all_new ys xs) \<longleftrightarrow> distinct xs"
  by (induction ys arbitrary: xs) (auto simp: append_all_new_def)

lemma create_incident_ok: "incident_ok (create_incident new_id a)"
  by (simp add: incident_ok_def create_incident_def max_alerts_per_incident_def opt_list_def split: option.split)

lemma merge_alert_ok:
  "incident_ok i \<Longrightarrow> in_alert_count i < max_alerts_per_incident \<Longrightarrow> incident_ok (merge_alert now i a)"
  by (simp add: incident_ok_def merge_alert_def)

lemma max_severity_order: "SEVERITY_ORDER (max_severity a b) = max (SEVERITY_ORDER a) (SEVERITY_ORDER b)"
  by (simp add: max_severity_def)

text \<open>
  What the store says at a time: every stored incident is well formed, and an index entry for a
  correlation key names an incident that, while it is stored, belongs to the tenant of that key.
\<close>

definition key_tenant :: "string \<Rightarrow> string" where
  "key_tenant k = hd (split_on (CHR '':'') k)"

definition store_ok :: "'s redis \<Rightarrow> 's \<Rightarrow> nat \<Rightarrow> bool" where
  "store_ok r s now \<longleftrightarrow>
     (\<forall>t iid i. now \<le> t \<and> load_incident r s t iid = Some i \<longrightarrow> incident_ok i \<and> in_id i = iid)
   \<and> (\<forall>t k iid i. now \<le> t \<and> rd_get r s t (CORRELATION_PREFIX @ k) = Some iid
        \<and> load_incident r s t iid = Some i \<longrightarrow> in_tenant_id i = key_tenant k)"

lemma store_okI:
  assumes "\<And>t iid i. now \<le> t \<Longrightarrow> load_incident r s t iid = Some i \<Longrightarrow> incident_ok i \<and> in_id i = iid"
    and "\<And>t k iid i. now \<le> t \<Longrightarrow> rd_get r s t (CORRELATION_PREFIX @ k) = Some iid \<Longrightarrow>
        load_incident r s t iid = Some i \<Longrightarrow> in_tenant_id i = key_tenant k"
  shows "store_ok r s now"
  using assms unfolding store_ok_def by blast

lemma store_okD:
  assumes "store_ok r s now" "now \<le> t" "load_incident r s t iid = Some i"
  shows "incident_ok i" "in_id i = iid"
    "rd_get r s t (CORRELATION_PREFIX @ k) = Some iid \<Longrightarrow> in_tenant_id i = key_tenant k"
  using assms unfolding store_ok_def by blast+

lemma key_tenant_correlation_key:
  "CHR '':'' \<notin> set (al_tenant_id a) \<Longrightarrow> key_tenant (correlation_key a) = al_tenant_id a"
  by (simp add: key_tenant_def correlation_key_def Let_def split_on_append)

lemma store_ok_later: "store_ok r s t \<Longrightarrow> t \<le> t' \<Longrightarrow> store_ok r s t'"
  unfolding store_ok_def using le_trans by blast

lemma load_save:
  assumes "ttl_laws r" "codec_laws r" "now \<le> t"
  shows "load_incident r (save_incident r s now i) t iid =
    (if iid = in_id i then (if t < now + correlation_window_seconds then Some i else None)
     else load_incident r s t iid)"
  using assms by (auto simp: load_incident_def save_incident_def rd_get_set present_def codec_laws_def)

lemma load_set_index:
  assumes "ttl_laws r" "now \<le> t"
  shows "load_incident r (rd_set r s now (CORRELATION_PREFIX @ k) v ttl) t iid = load_incident r s t iid"
  using assms by (simp add: load_incident_def rd_get_set)

lemma index_save:
  assumes "ttl_laws r" "now \<le> t"
  shows "rd_get r (save_incident r s now i) t (CORRELATION_PREFIX @ k) = rd_get r s t (CORRELATION_PREFIX @ k)"
  using assms by (simp add: save_incident_def rd_get_set)

definition fresh_id :: "'s redis \<Rightarrow> 's \<Rightarrow> nat \<Rightarrow> string \<Rightarrow> bool" where
  "fresh_id r s now new_id \<longleftrightarrow> (\<forall>t \<ge> now. \<forall>k. rd_get r s t (CORRELATION_PREFIX @ k) \<noteq> Some new_id)"

text \<open>Saving a well-formed incident whose index entries agree with its tenant keeps the store well formed.\<close>

lemma save_store_ok:
  assumes laws: "ttl_laws r" "codec_laws r" and ok: "store_ok r s now" "incident_ok i"
    and idx: "\<And>t k. now \<le> t \<Longrightarrow> rd_get r s t (CORRELATION_PREFIX @ k) = Some (in_id i) \<Longrightarrow> in_tenant_id i = key_tenant k"
  shows "store_ok r (save_incident r s now i) now"
proof (rule store_okI)
  fix t iid j
  assume t: "now \<le> t" and l: "load_incident r (save_incident r s now i) t iid = Some j"
  then show "incident_ok j \<and> in_id j = iid"
    using ok store_okD(1,2) [OF ok(1) t] by (auto simp: load_save [OF laws] split: if_splits)
  fix k
  assume "rd_get r (save_incident r s now i) t (CORRELATION_PREFIX @ k) = Some iid"
  then have k: "rd_get r s t (CORRELATION_PREFIX @ k) = Some iid" by (simp add: index_save [OF laws(1) t])
  show "in_tenant_id j = key_tenant k"
  proof (cases "iid = in_id i")
    case True
    with l t have "j = i" by (simp add: load_save [OF laws] split: if_splits)
    with idx [OF t] k True show ?thesis by simp
  next
    case False
    with l t have "load_incident r s t iid = Some j" by (simp add: load_save [OF laws])
    from store_okD(3) [OF ok(1) t this k] show ?thesis .
  qed
qed

lemma create_store_ok:
  assumes laws: "ttl_laws r" "codec_laws r" and ok: "store_ok r s now" "fresh_id r s now new_id"
    and colon: "CHR '':'' \<notin> set (al_tenant_id a)"
  shows "store_ok r (rd_set r (save_incident r s now (create_incident new_id a)) now
    (CORRELATION_PREFIX @ correlation_key a) new_id correlation_window_seconds) now"
proof -
  let ?i = "create_incident new_id a"
  let ?s1 = "save_incident r s now ?i"
  have id: "in_id ?i = new_id" "in_tenant_id ?i = al_tenant_id a" by (simp_all add: create_incident_def)
  have s1: "store_ok r ?s1 now"
    using ok(2) id by (intro save_store_ok [OF laws ok(1) create_incident_ok]) (auto simp: fresh_id_def)
  show ?thesis
  proof (rule store_okI)
    fix t iid j
    assume t: "now \<le> t" and "load_incident r (rd_set r ?s1 now (CORRELATION_PREFIX @ correlation_key a) new_id
      correlation_window_seconds) t iid = Some j"
    then have l: "load_incident r ?s1 t iid = Some j" by (simp add: load_set_index [OF laws(1)])
    show "incident_ok j \<and> in_id j = iid" using store_okD(1,2) [OF s1 t l] by simp
    fix k
    assume k: "rd_get r (rd_set r ?s1 now (CORRELATION_PREFIX @ correlation_key a) new_id
      correlation_window_seconds) t (CORRELATION_PREFIX @ k) = Some iid"
    show "in_tenant_id j = key_tenant k"
    proof (cases "k = correlation_key a")
      case True
      with k t have "iid = new_id" by (simp add: rd_get_set [OF laws(1)] split: if_splits)
      with l t have "j = ?i" by (simp add: load_save [OF laws] id split: if_splits)
      with True show ?thesis by (simp add: id key_tenant_correlation_key [OF colon])
    next
      case False
      with k t have "rd_get r ?s1 t (CORRELATION_PREFIX @ k) = Some iid" by (simp add: rd_get_set [OF laws(1)])
      from store_okD(3) [OF s1 t l this] show ?thesis .
    qed
  qed
qed

text \<open>One call of the correlator keeps the store well formed and returns a well-formed incident of
  the alert's tenant.\<close>

lemma correlate_ok:
  assumes laws: "ttl_laws r" "codec_laws r" and ok: "store_ok r s now" "fresh_id r s now new_id"
    and colon: "CHR '':'' \<notin> set (al_tenant_id a)"
    and c: "correlate r s now new_id a = (s', merged, i)"
  shows "store_ok r s' now \<and> incident_ok i \<and> in_tenant_id i = al_tenant_id a
    \<and> al_id a \<in> set (in_alert_ids i) \<and> correlation_key a \<in> set (in_correlation_keys i)
    \<and> SEVERITY_ORDER (al_severity a) \<le> SEVERITY_ORDER (in_severity i)"
proof (cases merged)
  case False
  with c have "i = create_incident new_id a"
    "s' = rd_set r (save_incident r s now i) now (CORRELATION_PREFIX @ correlation_key a) (in_id i) correlation_window_seconds"
    by (auto simp: correlate_def Let_def split: option.splits if_splits)
  then show ?thesis
    using create_store_ok [OF laws ok colon] create_incident_ok [of new_id a]
    by (simp add: create_incident_def)
next
  case True
  with c obtain iid j where j: "present (rd_get r s now (CORRELATION_PREFIX @ correlation_key a)) = Some iid"
    "load_incident r s now iid = Some j" "in_alert_count j < max_alerts_per_incident"
    "i = merge_alert now j a" "s' = save_incident r s now i"
    by (auto simp: correlate_def Let_def split: option.splits if_splits)
  then have g: "rd_get r s now (CORRELATION_PREFIX @ correlation_key a) = Some iid"
    by (auto simp: present_def split: option.splits if_splits)
  note jok = store_okD [OF ok(1) order.refl j(2)]
  have tenant: "in_tenant_id j = al_tenant_id a"
    using jok(3) [OF g] key_tenant_correlation_key [OF colon] by simp
  have iok: "incident_ok i" using merge_alert_ok [OF jok(1) j(3)] j(4) by simp
  have id: "in_id i = iid" "in_tenant_id i = in_tenant_id j" using jok(2) j(4) by (simp_all add: merge_alert_def)
  have "store_ok r s' now"
    unfolding j(5)
  proof (rule save_store_ok [OF laws ok(1) iok])
    fix t k
    assume "now \<le> t" "rd_get r s t (CORRELATION_PREFIX @ k) = Some (in_id i)"
    then have "rd_get r s now (CORRELATION_PREFIX @ k) = Some iid"
      using laws(1) id unfolding ttl_laws_def by blast
    from jok(3) [OF this] show "in_tenant_id i = key_tenant k" by (simp add: id)
  qed
  then show ?thesis
    using iok tenant id by (simp add: j(4) merge_alert_def max_severity_order)
qed

end
