(* ===== verification/Fusion_Scoring.thy ===== *)
theory Fusion_Scoring
  imports Fusion_Model
begin

text \<open>
  Detection confidence (\<open>services/fusion/app/services/confidence.py\<close>) and the exploit boost
  (\<open>services/fusion/app/services/vuln_boost.py\<close>).  Scores are exact rationals: the binary
  rounding of the intermediate floating-point sums is not modelled; the two explicit roundings
  of the code (two decimals in the texts, four in the score) are, half to even.
\<close>

subsection \<open>Rounding and formatting\<close>

definition round4 :: "rat \<Rightarrow> rat" where
  "round4 x = of_int (round_half_even (x * 10000)) / 10000"

definition two_digits :: "nat \<Rightarrow> string" where
  "two_digits n = [digit_char (n div 10), digit_char (n mod 10)]"

text \<open>\<open>f"{x:.2f}"\<close>.\<close>

definition fmt2 :: "rat \<Rightarrow> string" where
  "fmt2 x = (let n = round_half_even (\<bar>x\<bar> * 100) in
     (if x < 0 then ''-'' else []) @ int_str (n div 100) @ ''.'' @ two_digits (nat (n mod 100)))"

subsection \<open>Factors\<close>

definition HIGH_THRESHOLD :: rat where "HIGH_THRESHOLD = 70 / 100"
definition LOW_THRESHOLD :: rat where "LOW_THRESHOLD = 40 / 100"
definition WEIGHT_SEVERITY :: rat where "WEIGHT_SEVERITY = 20 / 100"
definition WEIGHT_ML_ANOMALY :: rat where "WEIGHT_ML_ANOMALY = 18 / 100"
definition WEIGHT_ML_PRIORITY :: rat where "WEIGHT_ML_PRIORITY = 18 / 100"
definition WEIGHT_MITRE :: rat where "WEIGHT_MITRE = 14 / 100"
definition WEIGHT_THREAT_INTEL :: rat where "WEIGHT_THREAT_INTEL = 16 / 100"
definition WEIGHT_UPSTREAM_RISK :: rat where "WEIGHT_UPSTREAM_RISK = 8 / 100"
definition WEIGHT_IOC_DENSITY :: rat where "WEIGHT_IOC_DENSITY = 6 / 100"

lemmas weight_defs = WEIGHT_SEVERITY_def WEIGHT_ML_ANOMALY_def WEIGHT_ML_PRIORITY_def
  WEIGHT_MITRE_def WEIGHT_THREAT_INTEL_def WEIGHT_UPSTREAM_RISK_def WEIGHT_IOC_DENSITY_def

fun SEVERITY_CONTRIBUTION :: "severity \<Rightarrow> rat" where
  "SEVERITY_CONTRIBUTION CRITICAL = 1"
| "SEVERITY_CONTRIBUTION HIGH = 6 / 10"
| "SEVERITY_CONTRIBUTION MEDIUM = 0"
| "SEVERITY_CONTRIBUTION LOW = - 5 / 10"
| "SEVERITY_CONTRIBUTION INFO = - 1"

definition band :: "rat \<Rightarrow> confidence_label" where
  "band score = (if score \<ge> HIGH_THRESHOLD then HIGH_CONFIDENCE
     else if score < LOW_THRESHOLD then LOW_CONFIDENCE else MEDIUM_CONFIDENCE)"

definition ml_contribution :: "rat \<Rightarrow> rat" where
  "ml_contribution v = max (- 1) (min 1 ((v - 5 / 10) * 2))"

definition mitre_contribution :: "nat \<Rightarrow> rat" where
  "mitre_contribution n =
     (if n = 0 then - 4 / 10 else if n = 1 then 0 else if n = 2 then 4 / 10
      else min 1 (4 / 10 + of_nat (n - 2) * (2 / 10)))"

definition TI_SOURCES :: "string list" where
  "TI_SOURCES = [''misp'', ''otx'', ''taxii'', ''kev'', ''virustotal'']"

definition ti_hit :: "dict \<Rightarrow> string \<Rightarrow> bool" where
  "ti_hit enrichments source =
     (case vget enrichments source of
        VDict m \<Rightarrow> truthy (vget m ''hit'') \<or> truthy (vget m ''matches'')
      | VList xs \<Rightarrow> xs \<noteq> []
      | _ \<Rightarrow> False)"

definition ti_contribution :: "dict \<Rightarrow> rat \<times> string" where
  "ti_contribution enrichments =
     (if enrichments = [] then (- 3 / 10, ''no TI match'')
      else case map upper (filter (ti_hit enrichments) TI_SOURCES) of
          [] \<Rightarrow> (- 3 / 10, ''no TI match'')
        | [s] \<Rightarrow> (6 / 10, s)
        | sources \<Rightarrow> (1, join_with '' + '' sources))"

definition ioc_fields :: "raw_alert \<Rightarrow> string option list" where
  "ioc_fields a = [al_src_ip a, al_dst_ip a, al_hostname a, al_username a, al_file_hash a, al_domain a, al_url a]"

definition populated_count :: "raw_alert \<Rightarrow> nat" where
  "populated_count a = length (filter (\<lambda>f. f \<noteq> None \<and> f \<noteq> Some []) (ioc_fields a))"

definition ioc_density_contribution :: "raw_alert \<Rightarrow> rat \<times> nat" where
  "ioc_density_contribution a =
     (let populated = populated_count a in
      (if populated = 0 then - 6 / 10 else if populated \<le> 2 then 0
       else if populated \<le> 4 then 5 / 10 else 1, populated))"

subsection \<open>The scorer\<close>

definition clamp01 :: "rat \<Rightarrow> rat" where
  "clamp01 x = max 0 (min 1 x)"

definition mk_factor :: "string \<Rightarrow> string \<Rightarrow> string \<Rightarrow> rat \<Rightarrow> rat \<Rightarrow> confidence_factor" where
  "mk_factor f l v c w = \<lparr>cf_factor = f, cf_label = l, cf_value = v, cf_contribution = c, cf_weight = w\<rparr>"

definition rationale_of :: "fused_alert \<Rightarrow> confidence_factor list" where
  "rationale_of fused =
     (let a = fu_alert fused;
          n_tech = length (al_mitre_techniques a);
          (ti_c, ti_value) = ti_contribution (fu_enrichments fused);
          upstream = clamp01 (al_risk_score a);
          (ioc_c, populated) = ioc_density_contribution a
      in [mk_factor ''severity'' ''Alert severity'' (severity_value (al_severity a))
            (SEVERITY_CONTRIBUTION (al_severity a)) WEIGHT_SEVERITY,
          mk_factor ''ml_anomaly'' ''ML anomaly score'' (fmt2 (fu_anomaly_score fused))
            (ml_contribution (fu_anomaly_score fused)) WEIGHT_ML_ANOMALY,
          mk_factor ''ml_priority'' ''ML priority rank'' (fmt2 (fu_priority_score fused))
            (ml_contribution (fu_priority_score fused)) WEIGHT_ML_PRIORITY,
          mk_factor ''mitre_coverage'' ''MITRE technique coverage''
            (if n_tech \<noteq> 1 then nat_str n_tech @ '' techniques'' else ''1 technique'')
            (mitre_contribution n_tech) WEIGHT_MITRE,
          mk_factor ''threat_intel'' ''Threat-intel match'' ti_value ti_c WEIGHT_THREAT_INTEL,
          mk_factor ''upstream_risk'' ''Upstream vendor risk score'' (fmt2 upstream)
            (ml_contribution upstream) WEIGHT_UPSTREAM_RISK,
          mk_factor ''ioc_density'' ''IOC density'' (nat_str populated @ '' populated fields'')
            ioc_c WEIGHT_IOC_DENSITY])"

definition impact :: "confidence_factor \<Rightarrow> rat" where
  "impact f = cf_contribution f * cf_weight f"

definition score_alert :: "bool \<Rightarrow> fused_alert \<Rightarrow> fused_alert" where
  "score_alert enabled fused =
     (if \<not> enabled then fused
      else let rationale = rationale_of fused;
               delta = sum_list (map impact rationale);
               score = clamp01 (5 / 10 + delta)
           in fused\<lparr>fu_score := round4 score, fu_label := band score,
                fu_rationale := sort_key (\<lambda>f. - \<bar>impact f\<bar>) rationale\<rparr>)"

subsection \<open>The exploit boost\<close>

text \<open>\<open>a > b\<close> on the values a score can have; unlike types raise TypeError.\<close>

fun py_gt :: "val \<Rightarrow> val \<Rightarrow> py_error + bool"
  and py_gt_list :: "val list \<Rightarrow> val list \<Rightarrow> py_error + bool"
where
  "py_gt (VStr s) w = (case w of VStr t \<Rightarrow> Inr (t < s) | _ \<Rightarrow> Inl TypeError)"
| "py_gt (VList xs) w = (case w of VList ys \<Rightarrow> py_gt_list xs ys | _ \<Rightarrow> Inl TypeError)"
| "py_gt v w = (case (num_of v, num_of w) of (Some x, Some y) \<Rightarrow> Inr (y < x) | _ \<Rightarrow> Inl TypeError)"
| "py_gt_list [] ys = Inr False"
| "py_gt_list (x # xs) [] = Inr True"
| "py_gt_list (x # xs) (y # ys) = (if py_eq x y then py_gt_list xs ys else py_gt x y)"

text \<open>\<open>max(xs, key=...)\<close>: the first of the largest.\<close>

fun max_by :: "('a \<Rightarrow> val) \<Rightarrow> 'a \<Rightarrow> 'a list \<Rightarrow> py_error + 'a" where
  "max_by key best [] = Inr best"
| "max_by key best (x # xs) =
     bind_res (py_gt (key x) (key best)) (\<lambda>gt. max_by key (if gt then x else best) xs)"

definition exploited_vulns :: "dict \<Rightarrow> py_error + dict list" where
  "exploited_vulns enrichments =
     (let vulns = py_or (vget_default enrichments ''vulnerabilities'' (VList [])) (VList [])
      in case vulns of
           VList vs \<Rightarrow> Inr (concat (map (\<lambda>v. case v of
               VDict d \<Rightarrow> if truthy (vget d ''is_exploited'') then [d] else [] | _ \<Rightarrow> []) vs))
         | VDict d \<Rightarrow> Inr []
         | VStr s \<Rightarrow> Inr []
         | _ \<Rightarrow> Inl TypeError)"

definition cvss_key :: "dict \<Rightarrow> val" where
  "cvss_key v = vget_default v ''cvss_score'' (VFloat 0 ''0.0'')"

definition boost_factor :: "dict \<Rightarrow> confidence_factor" where
  "boost_factor tv =
     mk_factor ''exploit_in_wild'' ''Exploit in the wild''
       (py_str (vget_default tv ''cve_id'' (VStr ''unknown'')) @ '' (CVSS ''
          @ py_str (vget_default tv ''cvss_score'' (VStr ''?'')) @ '')'')
       (25 / 100) (15 / 100)"

text \<open>The alert is mutated in place: what was written before an exception stays.\<close>

definition apply_vuln_boost :: "fused_alert \<Rightarrow> fused_alert \<times> py_error option" where
  "apply_vuln_boost fused =
     (case exploited_vulns (fu_enrichments fused) of
        Inl e \<Rightarrow> (fused, Some e)
      | Inr [] \<Rightarrow> (fused, None)
      | Inr (v # vs) \<Rightarrow>
          let f1 = fused\<lparr>fu_exploit_in_wild := True\<rparr>
          in (case max_by cvss_key v vs of
                Inl e \<Rightarrow> (f1, Some e)
              | Inr tv \<Rightarrow> (f1\<lparr>fu_rationale := fu_rationale f1 @ [boost_factor tv],
                              fu_score := min 1 (fu_score f1 + 15 / 100)\<rparr>, None)))"

subsection \<open>Bounds\<close>

lemma round_half_even_bounds:
  assumes "of_int l \<le> x" "x \<le> of_int u"
  shows "l \<le> round_half_even x \<and> round_half_even x \<le> u"
proof -
  have f: "of_int \<lfloor>x\<rfloor> \<le> x" "x < of_int \<lfloor>x\<rfloor> + 1" by linarith+
  have l: "l \<le> \<lfloor>x\<rfloor>" using assms(1) by (simp add: le_floor_iff)
  have "round_half_even x \<le> \<lfloor>x\<rfloor> + 1" "\<lfloor>x\<rfloor> \<le> round_half_even x"
    by (auto simp: round_half_even_def Let_def)
  moreover have "round_half_even x \<le> u"
  proof (cases "x = of_int u")
    case True
    then show ?thesis by (simp add: round_half_even_def)
  next
    case False
    with assms(2) have "x < of_int u" by simp
    then have "\<lfloor>x\<rfloor> < u" by (simp add: floor_less_iff)
    with calculation show ?thesis by linarith
  qed
  ultimately show ?thesis using l by linarith
qed

lemma round4_bounds:
  assumes "0 \<le> x" "x \<le> 1"
  shows "0 \<le> round4 x \<and> round4 x \<le> 1"
proof -
  let ?n = "round_half_even (x * 10000)"
  have "0 \<le> ?n \<and> ?n \<le> 10000"
    using assms by (intro round_half_even_bounds) simp_all
  then have "0 \<le> (of_int ?n :: rat)" "(of_int ?n :: rat) \<le> 10000"
    by simp (metis of_int_le_iff of_int_numeral \<open>0 \<le> ?n \<and> ?n \<le> 10000\<close>)
  then show ?thesis by (simp add: round4_def)
qed

lemma round4_close: "\<bar>round4 x - x\<bar> \<le> 1 / 20000"
proof -
  have "\<bar>of_int (round_half_even y) - y\<bar> \<le> 1 / 2" for y :: rat
    using floor_correct [of y] by (auto simp: round_half_even_def Let_def abs_le_iff)
  from this [of "x * 10000"] show ?thesis by (simp add: round4_def abs_le_iff field_simps)
qed

lemma clamp01_bounds [simp]: "0 \<le> clamp01 x" "clamp01 x \<le> 1"
  by (simp_all add: clamp01_def)

lemma clamp01_mono: "x \<le> y \<Longrightarrow> clamp01 x \<le> clamp01 y"
  by (auto simp: clamp01_def)

lemma ml_contribution_bounds: "- 1 \<le> ml_contribution v" "ml_contribution v \<le> 1"
  by (auto simp: ml_contribution_def)

lemma ml_contribution_mono: "v \<le> w \<Longrightarrow> ml_contribution v \<le> ml_contribution w"
  by (auto simp: ml_contribution_def)

lemma mitre_contribution_bounds: "- 1 \<le> mitre_contribution n" "mitre_contribution n \<le> 1"
  by (auto simp: mitre_contribution_def min_def intro: order.trans [of _ 0])

lemma ti_contribution_bounds: "- 1 \<le> fst (ti_contribution e)" "fst (ti_contribution e) \<le> 1"
  by (auto simp: ti_contribution_def split: list.split)

lemma severity_contribution_bounds: "- 1 \<le> SEVERITY_CONTRIBUTION s" "SEVERITY_CONTRIBUTION s \<le> 1"
  by (cases s; simp)+

definition factor_ok :: "confidence_factor \<Rightarrow> bool" where
  "factor_ok f \<longleftrightarrow> - 1 \<le> cf_contribution f \<and> cf_contribution f \<le> 1 \<and> 0 \<le> cf_weight f \<and> cf_weight f \<le> 1"

lemma rationale_factors_ok: "\<forall>f \<in> set (rationale_of fused). factor_ok f"
  by (simp add: rationale_of_def Let_def case_prod_beta factor_ok_def mk_factor_def weight_defs
      severity_contribution_bounds ml_contribution_bounds mitre_contribution_bounds
      ti_contribution_bounds ioc_density_contribution_def)

lemma rationale_weights: "sum_list (map cf_weight (rationale_of fused)) = 1"
  by (simp add: rationale_of_def Let_def case_prod_beta mk_factor_def weight_defs)

lemma sum_list_insort_key: "sum_list (map f (insort_key k x xs)) = f x + (sum_list (map f xs) :: rat)"
  by (induction xs) simp_all

lemma sum_list_sort_key: "sum_list (map f (sort_key k xs)) = (sum_list (map f xs) :: rat)"
  by (induction xs) (simp_all add: sum_list_insort_key)

lemma score_alert_enabled:
  "score_alert True f = (let s = clamp01 (5 / 10 + sum_list (map impact (rationale_of f))) in
     f\<lparr>fu_score := round4 s, fu_label := band s, fu_rationale := sort_key (\<lambda>f. - \<bar>impact f\<bar>) (rationale_of f)\<rparr>)"
  by (simp add: score_alert_def Let_def)

lemma round_half_even_mono: "x \<le> y \<Longrightarrow> round_half_even x \<le> round_half_even y"
proof -
  assume xy: "x \<le> y"
  show ?thesis
  proof (cases "\<lfloor>x\<rfloor> = \<lfloor>y\<rfloor>")
    case True
    with xy show ?thesis by (auto simp: round_half_even_def Let_def)
  next
    case False
    with xy have "\<lfloor>x\<rfloor> + 1 \<le> \<lfloor>y\<rfloor>" using floor_mono [OF xy] by linarith
    then show ?thesis by (auto simp: round_half_even_def Let_def)
  qed
qed

lemma round4_mono: "x \<le> y \<Longrightarrow> round4 x \<le> round4 y"
  using round_half_even_mono [of "x * 10000" "y * 10000"]
  by (simp add: round4_def divide_right_mono)

fun label_rank :: "confidence_label \<Rightarrow> nat" where
  "label_rank LOW_CONFIDENCE = 0" | "label_rank MEDIUM_CONFIDENCE = 1" | "label_rank HIGH_CONFIDENCE = 2"

lemma band_mono: "x \<le> y \<Longrightarrow> label_rank (band x) \<le> label_rank (band y)"
  by (auto simp: band_def HIGH_THRESHOLD_def LOW_THRESHOLD_def)

lemma impact_sum:
  "sum_list (map impact (rationale_of f)) =
     SEVERITY_CONTRIBUTION (al_severity (fu_alert f)) * WEIGHT_SEVERITY
     + ml_contribution (fu_anomaly_score f) * WEIGHT_ML_ANOMALY
     + ml_contribution (fu_priority_score f) * WEIGHT_ML_PRIORITY
     + mitre_contribution (length (al_mitre_techniques (fu_alert f))) * WEIGHT_MITRE
     + fst (ti_contribution (fu_enrichments f)) * WEIGHT_THREAT_INTEL
     + ml_contribution (clamp01 (al_risk_score (fu_alert f))) * WEIGHT_UPSTREAM_RISK
     + fst (ioc_density_contribution (fu_alert f)) * WEIGHT_IOC_DENSITY"
  by (simp add: rationale_of_def Let_def case_prod_beta mk_factor_def impact_def)

subsection \<open>Properties\<close>


text \<open>
  More suspicion never lowers the confidence: raising the anomaly score, the priority score
  or the vendor risk, everything else equal, lowers neither the score nor the label.
\<close>

theorem score_monotone:
  assumes "g = f\<lparr>fu_anomaly_score := x, fu_priority_score := y, fu_alert := (fu_alert f)\<lparr>al_risk_score := z\<rparr>\<rparr>"
    and "fu_anomaly_score f \<le> x" "fu_priority_score f \<le> y" "al_risk_score (fu_alert f) \<le> z"
  shows "fu_score (score_alert True f) \<le> fu_score (score_alert True g)
    \<and> label_rank (fu_label (score_alert True f)) \<le> label_rank (fu_label (score_alert True g))"
proof -
  have "ml_contribution (fu_anomaly_score f) \<le> ml_contribution x"
    "ml_contribution (fu_priority_score f) \<le> ml_contribution y"
    "ml_contribution (clamp01 (al_risk_score (fu_alert f))) \<le> ml_contribution (clamp01 z)"
    using assms by (auto intro!: ml_contribution_mono clamp01_mono)
  then have "sum_list (map impact (rationale_of f)) \<le> sum_list (map impact (rationale_of g))"
    by (simp add: impact_sum assms(1) weight_defs ioc_density_contribution_def populated_count_def ioc_fields_def)
  then have "clamp01 (5 / 10 + sum_list (map impact (rationale_of f)))
      \<le> clamp01 (5 / 10 + sum_list (map impact (rationale_of g)))" by (intro clamp01_mono) simp
  then show ?thesis by (simp add: score_alert_enabled Let_def round4_mono band_mono)
qed

definition demo_alert :: raw_alert where
  "demo_alert = \<lparr>al_id = ''a1'', al_tenant_id = ''t1'', al_source = ''edr'', al_title = ''x'',
     al_description = [], al_severity = HIGH, al_status = NEW, al_src_ip = Some ''10.0.0.1'',
     al_dst_ip = None, al_hostname = None, al_username = None, al_file_hash = None, al_domain = None,
     al_url = None, al_mitre_tactics = [''TA0001''], al_mitre_techniques = [''T1059''], al_raw_event = [],
     al_tags = [], al_risk_score = 1 / 2, al_created_at = 0, al_event_time = None\<rparr>"

definition demo_fused :: fused_alert where
  "demo_fused = (new_fused demo_alert None NEW_INCIDENT None)
     \<lparr>fu_anomaly_score := 1 / 2, fu_priority_score := 1 / 2,
      fu_enrichments := [(''vulnerabilities'', VList [VDict [(''cve_id'', VStr ''CVE-1''),
        (''is_exploited'', VBool True), (''cvss_score'', VInt 9)]])]\<rparr>"


lemma score_monotone_witness:
  "fu_score (score_alert True demo_fused) \<le> fu_score (score_alert True (demo_fused
     \<lparr>fu_anomaly_score := 9 / 10, fu_priority_score := 1 / 2, fu_alert := (fu_alert demo_fused)\<lparr>al_risk_score := 1\<rparr>\<rparr>))"
  using score_monotone [OF refl, of demo_fused "9 / 10" "1 / 2" 1]
  by (simp add: demo_fused_def demo_alert_def new_fused_def)

text \<open>
  The exploit boost is outside the explained model: when it applies it raises the score by
  0.15 (capped at 1) and keeps the label, while the factor it appends accounts for 0.0375 only;
  so there is an alert labelled medium whose final score is in the high band.
\<close>

theorem boost_breaks_explanation:
  "(case exploited_vulns (fu_enrichments f) of
      Inr (v # vs) \<Rightarrow> (case max_by cvss_key v vs of
          Inr tv \<Rightarrow> (let f' = fst (apply_vuln_boost f) in
            fu_score f' = min 1 (fu_score f + 15 / 100) \<and> fu_label f' = fu_label f \<and> fu_exploit_in_wild f'
            \<and> fu_rationale f' = fu_rationale f @ [boost_factor tv] \<and> impact (boost_factor tv) = 375 / 10000)
        | Inl e \<Rightarrow> apply_vuln_boost f = (f\<lparr>fu_exploit_in_wild := True\<rparr>, Some e))
    | _ \<Rightarrow> fst (apply_vuln_boost f) = f)
   \<and> (let f' = fst (apply_vuln_boost (score_alert True demo_fused)) in
        fu_label f' = MEDIUM_CONFIDENCE \<and> band (fu_score f') = HIGH_CONFIDENCE)"
proof -
  have demo: "let f' = fst (apply_vuln_boost (score_alert True demo_fused)) in
        fu_label f' = MEDIUM_CONFIDENCE \<and> band (fu_score f') = HIGH_CONFIDENCE"
    by code_simp
  show ?thesis
    using demo
    by (auto simp: apply_vuln_boost_def boost_factor_def mk_factor_def impact_def Let_def
        split: sum.splits list.splits)
qed

end
