(* ===== verification/Py_Text.thy ===== *)
theory Py_Text
  imports Py_Value
begin

text \<open>
  Further Python library functions on text and values: \<open>str.find\<close>, \<open>str.replace\<close>, \<open>int(v)\<close> and
  \<open>float(v)\<close> on dynamically typed values, the \<open>repr\<close> of a float given by a decimal numeral, and
  the names of the types as they occur in exception messages.
\<close>

subsection \<open>Searching and replacing\<close>

fun find_sub :: "string \<Rightarrow> string \<Rightarrow> nat option" where
  "find_sub p s =
     (if startswith s p then Some 0
      else case s of [] \<Rightarrow> None | _ # cs \<Rightarrow> map_option Suc (find_sub p cs))"

declare find_sub.simps [simp del]

text \<open>\<open>s.replace(p, r)\<close> for a non-empty \<open>p\<close>.\<close>

function replace_sub :: "string \<Rightarrow> string \<Rightarrow> string \<Rightarrow> string" where
  "replace_sub p r s =
     (case s of
        [] \<Rightarrow> []
      | c # cs \<Rightarrow> if p \<noteq> [] \<and> startswith s p then r @ replace_sub p r (drop (length p) s)
                  else c # replace_sub p r cs)"
  by pat_completeness auto
termination
  by (relation "measure (\<lambda>(p, r, s). length s)") auto

declare replace_sub.simps [simp del]

lemma startswith_iff: "startswith s p \<longleftrightarrow> (\<exists>u. s = p @ u)"
  by (auto simp: startswith_def prefix_def)

lemma startswith_append [simp]: "startswith (p @ u) p"
  by (auto simp: startswith_iff)

lemma find_sub_SomeD: "find_sub p s = Some i \<Longrightarrow> s = take i s @ p @ drop (i + length p) s"
proof (induction s arbitrary: i)
  case Nil
  then show ?case by (auto simp: find_sub.simps [of p "[]"] startswith_iff split: if_splits)
next
  case (Cons c cs)
  show ?case
  proof (cases "startswith (c # cs) p")
    case True
    then show ?thesis using Cons.prems by (auto simp: find_sub.simps [of p "c # cs"] startswith_iff)
  next
    case False
    then obtain j where "i = Suc j" "find_sub p cs = Some j"
      using Cons.prems by (auto simp: find_sub.simps [of p "c # cs"])
    with Cons.IH [of j] show ?thesis by simp
  qed
qed

lemma find_sub_None_iff: "find_sub p s = None \<longleftrightarrow> \<not> substr_in p s"
proof (induction s)
  case Nil
  then show ?case by (auto simp: find_sub.simps [of p "[]"] substr_in_iff startswith_iff)
next
  case (Cons c cs)
  have "substr_in p (c # cs) \<longleftrightarrow> startswith (c # cs) p \<or> substr_in p cs"
    unfolding substr_in_iff startswith_iff by (metis append_Cons append_Nil append_eq_Cons_conv)
  then show ?case using Cons by (auto simp: find_sub.simps [of p "c # cs"])
qed

text \<open>The first occurrence of \<open>p\<close> is where it was put, when its first character does not occur earlier.\<close>

lemma find_sub_append:
  assumes "p \<noteq> []" "hd p \<notin> set a"
  shows "find_sub p (a @ p @ b) = Some (length a)"
  using assms(2)
proof (induction a)
  case Nil
  then show ?case by (simp add: find_sub.simps [of p "p @ b"])
next
  case (Cons c a)
  have "\<not> startswith (c # a @ p @ b) p"
    using Cons.prems assms(1) by (cases p) (auto simp: startswith_iff)
  then show ?case using Cons by (simp add: find_sub.simps [of p "c # a @ p @ b"])
qed

subsection \<open>Numbers\<close>

definition rat_trunc :: "rat \<Rightarrow> int" where
  "rat_trunc r = (if r < 0 then - \<lfloor>- r\<rfloor> else \<lfloor>r\<rfloor>)"

text \<open>\<open>int(v)\<close>: \<open>None\<close> for the TypeError or ValueError.\<close>

definition int_of_val :: "val \<Rightarrow> int option" where
  "int_of_val v =
     (case v of
        VBool b \<Rightarrow> Some (if b then 1 else 0)
      | VInt i \<Rightarrow> Some i
      | VFloat r s \<Rightarrow> Some (rat_trunc r)
      | VStr s \<Rightarrow> py_int s
      | _ \<Rightarrow> None)"

text \<open>The \<open>repr\<close> of the float with the decimal digits \<open>ds\<close> (no zero at either end) times ten to the
  power \<open>pt - length ds\<close>; binary rounding is not modelled.\<close>

definition digits_repr :: "string \<Rightarrow> int \<Rightarrow> string" where
  "digits_repr ds pt =
     (let n = int (length ds) in
      if ds = [] then ''0.0''
      else if - 4 < pt \<and> pt \<le> 16 then
        (if pt \<le> 0 then ''0.'' @ replicate (nat (- pt)) (CHR ''0'') @ ds
         else if n \<le> pt then ds @ replicate (nat (pt - n)) (CHR ''0'') @ ''.0''
         else take (nat pt) ds @ ''.'' @ drop (nat pt) ds)
      else (let e = pt - 1; a = nat_str (nat \<bar>e\<bar>)
            in take 1 ds @ (if n = 1 then [] else ''.'' @ drop 1 ds) @ ''e'' @ (if e < 0 then ''-'' else ''+'')
               @ (if length a < 2 then ''0'' @ a else a)))"

definition float_text_repr :: "string \<Rightarrow> string" where
  "float_text_repr s =
     (case strip_sign (strip s) of (neg, u) \<Rightarrow>
      let mant = takeWhile (\<lambda>c. c \<noteq> CHR ''e'' \<and> c \<noteq> CHR ''E'') u;
          ip = takeWhile (\<lambda>c. c \<noteq> CHR ''.'') mant;
          fr = drop (Suc (length ip)) mant;
          e = (case exponent_of (drop (length mant) u) of None \<Rightarrow> 0 | Some e \<Rightarrow> e);
          digs = filter is_digit;
          lead = dropWhile (\<lambda>c. c = CHR ''0'') (digs (ip @ fr));
          ds = rev (dropWhile (\<lambda>c. c = CHR ''0'') (rev lead))
      in (if neg then ''-'' else []) @ digits_repr ds (e + int (length lead) - int (length (digs fr))))"

text \<open>\<open>float(s)\<close> as a value.\<close>

definition float_val :: "string \<Rightarrow> val option" where
  "float_val s = map_option (\<lambda>r. VFloat r (float_text_repr s)) (py_float s)"

lemma float_val_examples:
  "float_val ''1.50'' = Some (VFloat (3/2) ''1.5'')"
  "float_val ''-0.00001'' = Some (VFloat (-1/100000) ''-1e-05'')"
  "float_val ''120.0'' = Some (VFloat 120 ''120.0'')"
  "float_val ''0.25e1'' = Some (VFloat (5/2) ''2.5'')"
  "float_val ''a.b'' = None"
  by code_simp+

text \<open>Hexadecimal digits of either case.\<close>

definition hex_code :: "char \<Rightarrow> nat option" where
  "hex_code c =
     (let n = (of_char c :: nat) in
      if is_digit c then Some (n - 48)
      else if 97 \<le> n \<and> n \<le> 102 then Some (n - 87)
      else if 65 \<le> n \<and> n \<le> 70 then Some (n - 55) else None)"

lemma hex_code_digit: "n < 16 \<Longrightarrow> hex_code (hex_digit n) = Some n"
proof -
  assume n: "n < 16"
  then have "(of_char (hex_digit n) :: nat) = (if n < 10 then 48 + n else 87 + n)"
    by (simp add: hex_digit_def of_char_of)
  with n show ?thesis by (simp add: hex_code_def is_digit_def char_le_iff)
qed

subsection \<open>Exceptions\<close>

fun type_name :: "val \<Rightarrow> string" where
  "type_name VNone = ''NoneType''"
| "type_name (VBool b) = ''bool''"
| "type_name (VInt i) = ''int''"
| "type_name (VFloat r s) = ''float''"
| "type_name (VStr s) = ''str''"
| "type_name (VList xs) = ''list''"
| "type_name (VDict d) = ''dict''"

definition no_attribute :: "val \<Rightarrow> string \<Rightarrow> string" where
  "no_attribute v attr = [CHR 0x27] @ type_name v @ [CHR 0x27] @ '' object has no attribute '' @ repr_str attr"

text \<open>The TypeError of \<open>v['key'] = x\<close> on a value that is not a dictionary.\<close>

definition no_item_assignment :: "val \<Rightarrow> string" where
  "no_item_assignment v =
     (case v of
        VList xs \<Rightarrow> ''list indices must be integers or slices, not str''
      | _ \<Rightarrow> [CHR 0x27] @ type_name v @ [CHR 0x27] @ '' object does not support item assignment'')"

end
