(* ===== verification/Entity_Risk.thy ===== *)
theory Entity_Risk
  imports Fusion_Scoring Py_Text
begin

text \<open>
  Risk-based alerting (\<open>services/fusion/app/services/entity_risk.py\<close>): points accumulate on the
  entities an alert touches, decay with a half-life and promote an entity at a threshold.  The
  Redis hashes and sorted sets are association lists with expiry times; a hash is kept decoded.
  Times are seconds; scores are real numbers, since the decay is a power of one half.
\<close>

subsection \<open>Records\<close>

definition ENTITY_PREFIX :: string where "ENTITY_PREFIX = ''aisoc:fusion:rba:entity:''"
definition TOPN_KEY :: string where "TOPN_KEY = ''aisoc:fusion:rba:topn:''"
definition PROMOTED_KEY :: string where "PROMOTED_KEY = ''aisoc:fusion:rba:promoted:''"

definition ENTITY_TYPES :: "string list" where
  "ENTITY_TYPES = [''user'', ''host'', ''src_ip'', ''domain'']"

record entity_signal =
  sg_entity_type :: string
  sg_entity_value :: string
  sg_points :: rat
  sg_alert_id :: string
  sg_severity :: string
  sg_detection :: string
  sg_occurred_at :: nat

record contributor =
  ct_alert_id :: string
  ct_severity :: string
  ct_detection :: string
  ct_points :: rat
  ct_at :: nat

record risk_record =
  rr_tenant_id :: string
  rr_entity_type :: string
  rr_entity_value :: string
  rr_score :: real
  rr_alert_count :: nat
  rr_last_seen :: nat
  rr_contributing_alerts :: "string list"
  rr_severities :: "(string \<times> nat) list"
  rr_promoted_at :: "nat option"
  rr_contributors :: "contributor list"

record risk_settings =
  st_enabled :: bool
  st_threshold :: real
  st_window :: nat
  st_half_life :: nat
  st_weight :: "severity \<Rightarrow> rat"
  st_max_top :: nat

definition default_settings :: risk_settings where
  "default_settings = \<lparr>st_enabled = True, st_threshold = 80, st_window = 86400, st_half_life = 14400,
     st_weight = (\<lambda>s. case s of CRITICAL \<Rightarrow> 40 | HIGH \<Rightarrow> 20 | MEDIUM \<Rightarrow> 8 | LOW \<Rightarrow> 3 | INFO \<Rightarrow> 1),
     st_max_top = 100\<rparr>"

definition risk_engine :: "risk_settings \<Rightarrow> risk_settings" where
  "risk_engine settings = settings\<lparr>st_half_life := max 60 (st_half_life settings), st_max_top := max 10 (st_max_top settings)\<rparr>"

subsection \<open>The store\<close>

text \<open>A sorted set is kept in ascending order of score, then member.\<close>

type_synonym zset = "(string \<times> real) list"

record risk_store =
  rs_entities :: "(string \<times> (risk_record \<times> nat)) list"
  rs_topn :: "(string \<times> (zset \<times> nat)) list"
  rs_promoted :: "(string \<times> (zset \<times> nat)) list"

definition alive :: "nat \<Rightarrow> ('a \<times> nat) option \<Rightarrow> 'a option" where
  "alive now e = (case e of None \<Rightarrow> None | Some (v, expiry) \<Rightarrow> if now < expiry then Some v else None)"

definition zmembers :: "(string \<times> (zset \<times> nat)) list \<Rightarrow> nat \<Rightarrow> string \<Rightarrow> zset" where
  "zmembers zs now key = (case alive now (dict_get zs key) of None \<Rightarrow> [] | Some z \<Rightarrow> z)"

fun zinsert :: "string \<Rightarrow> real \<Rightarrow> zset \<Rightarrow> zset" where
  "zinsert m x [] = [(m, x)]"
| "zinsert m x ((m', x') # z) =
     (if x < x' \<or> x = x' \<and> m < m' then (m, x) # (m', x') # z else (m', x') # zinsert m x z)"

definition zadd :: "string \<Rightarrow> real \<Rightarrow> zset \<Rightarrow> zset" where
  "zadd m x z = zinsert m x (filter (\<lambda>(m', x'). m' \<noteq> m) z)"

text \<open>\<open>zremrangebyrank(key, 0, -(n + 1))\<close>: all but the \<open>n\<close> highest.\<close>

definition zkeep :: "nat \<Rightarrow> zset \<Rightarrow> zset" where
  "zkeep n z = drop (length z - n) z"

definition entity_key :: "string \<Rightarrow> string \<Rightarrow> string \<Rightarrow> string" where
  "entity_key tenant_id entity_type entity_value =
     ENTITY_PREFIX @ tenant_id @ '':'' @ entity_type @ '':'' @ entity_value"

definition member_name :: "risk_record \<Rightarrow> string" where
  "member_name r = rr_entity_type r @ ''::'' @ rr_entity_value r"

definition load_risk :: "risk_store \<Rightarrow> nat \<Rightarrow> string \<Rightarrow> string \<Rightarrow> string \<Rightarrow> risk_record option" where
  "load_risk s now tenant_id entity_type entity_value =
     map_option (\<lambda>r. r\<lparr>rr_tenant_id := tenant_id, rr_entity_type := entity_type, rr_entity_value := entity_value\<rparr>)
       (alive now (dict_get (rs_entities s) (entity_key tenant_id entity_type entity_value)))"

definition save_risk :: "risk_settings \<Rightarrow> nat \<Rightarrow> risk_record \<Rightarrow> risk_store \<Rightarrow> risk_store" where
  "save_risk eng now r s =
     (let topn = TOPN_KEY @ rr_tenant_id r;
          z = zkeep (st_max_top eng) (zadd (member_name r) (rr_score r) (zmembers (rs_topn s) now topn))
      in s\<lparr>rs_entities := dict_set (entity_key (rr_tenant_id r) (rr_entity_type r) (rr_entity_value r))
               (r, now + st_window eng) (rs_entities s),
           rs_topn := dict_set topn (z, now + st_window eng) (rs_topn s)\<rparr>)"

subsection \<open>Ingest\<close>

definition round2 :: "rat \<Rightarrow> rat" where
  "round2 x = of_int (round_half_even (x * 100)) / 100"

definition signal_points :: "risk_settings \<Rightarrow> raw_alert \<Rightarrow> rat" where
  "signal_points eng alert = round2 (st_weight eng (al_severity alert) * (1 + clamp01 (al_risk_score alert)))"

definition build_signals :: "risk_settings \<Rightarrow> raw_alert \<Rightarrow> entity_signal list" where
  "build_signals eng alert =
     concat (map (\<lambda>(entity_type, v). case v of
         None \<Rightarrow> []
       | Some s \<Rightarrow> if s = [] then []
           else [\<lparr>sg_entity_type = entity_type, sg_entity_value = s, sg_points = signal_points eng alert,
                  sg_alert_id = al_id alert, sg_severity = severity_value (al_severity alert),
                  sg_detection = (if al_title alert \<noteq> [] then al_title alert else al_source alert),
                  sg_occurred_at = (case al_event_time alert of Some t \<Rightarrow> t | None \<Rightarrow> al_created_at alert)\<rparr>])
       (zip ENTITY_TYPES [al_username alert, al_hostname alert, al_src_ip alert, al_domain alert]))"

definition decay :: "risk_settings \<Rightarrow> real \<Rightarrow> nat \<Rightarrow> nat \<Rightarrow> real" where
  "decay eng prior prior_seen now =
     (if prior \<le> 0 then 0
      else let elapsed = now - prior_seen in
        if elapsed = 0 then prior
        else let decayed = prior * (1 / 2) powr (real elapsed / real (st_half_life eng))
             in if decayed > 5 / 100 then decayed else 0)"

text \<open>\<open>xs[-n:]\<close> when the list is longer than \<open>n\<close>.\<close>

definition keep_last :: "nat \<Rightarrow> 'a list \<Rightarrow> 'a list" where
  "keep_last n xs = drop (length xs - n) xs"

definition fresh_record :: "string \<Rightarrow> entity_signal \<Rightarrow> nat \<Rightarrow> risk_record" where
  "fresh_record tenant_id sg now =
     \<lparr>rr_tenant_id = tenant_id, rr_entity_type = sg_entity_type sg, rr_entity_value = sg_entity_value sg,
      rr_score = 0, rr_alert_count = 0, rr_last_seen = now, rr_contributing_alerts = [], rr_severities = [],
      rr_promoted_at = None, rr_contributors = []\<rparr>"

definition count_severity :: "string \<Rightarrow> (string \<times> nat) list \<Rightarrow> (string \<times> nat) list" where
  "count_severity sev counts =
     dict_set sev ((case dict_get counts sev of None \<Rightarrow> 0 | Some n \<Rightarrow> n) + 1) counts"

definition contributor_of :: "entity_signal \<Rightarrow> contributor" where
  "contributor_of sg = \<lparr>ct_alert_id = sg_alert_id sg, ct_severity = sg_severity sg, ct_detection = sg_detection sg,
     ct_points = sg_points sg, ct_at = sg_occurred_at sg\<rparr>"

definition bump_record :: "risk_settings \<Rightarrow> nat \<Rightarrow> entity_signal \<Rightarrow> risk_record \<Rightarrow> risk_record" where
  "bump_record eng now sg r =
     r\<lparr>rr_score := decay eng (rr_score r) (rr_last_seen r) now + of_rat (sg_points sg),
       rr_alert_count := rr_alert_count r + 1,
       rr_last_seen := now,
       rr_contributing_alerts :=
         (if sg_alert_id sg \<in> set (rr_contributing_alerts r) then rr_contributing_alerts r
          else keep_last 50 (rr_contributing_alerts r @ [sg_alert_id sg])),
       rr_severities := count_severity (sg_severity sg) (rr_severities r),
       rr_contributors := keep_last 25 (rr_contributors r @ [contributor_of sg])\<rparr>"

definition apply_signal :: "risk_settings \<Rightarrow> nat \<Rightarrow> string \<Rightarrow> entity_signal \<Rightarrow> risk_store \<Rightarrow> risk_store \<times> risk_record" where
  "apply_signal eng now tenant_id sg s =
     (let r0 = (case load_risk s now tenant_id (sg_entity_type sg) (sg_entity_value sg) of
                  None \<Rightarrow> fresh_record tenant_id sg now | Some r \<Rightarrow> r);
          r = bump_record eng now sg r0
      in (save_risk eng now r s, r))"

definition promote :: "risk_settings \<Rightarrow> nat \<Rightarrow> string \<Rightarrow> risk_record \<Rightarrow> risk_store \<Rightarrow> risk_store \<times> risk_record" where
  "promote eng now tenant_id r s =
     (let r' = r\<lparr>rr_promoted_at := Some now\<rparr>; s' = save_risk eng now r' s; key = PROMOTED_KEY @ tenant_id
      in (s'\<lparr>rs_promoted := dict_set key (zadd (member_name r') (real now) (zmembers (rs_promoted s') now key),
                              now + st_window eng) (rs_promoted s')\<rparr>, r'))"

definition observe_signal :: "risk_settings \<Rightarrow> nat \<Rightarrow> string \<Rightarrow> entity_signal \<Rightarrow> risk_store \<Rightarrow> risk_store \<times> risk_record list" where
  "observe_signal eng now tenant_id sg s =
     (case apply_signal eng now tenant_id sg s of (s1, r) \<Rightarrow>
        if rr_score r \<ge> st_threshold eng \<and> rr_promoted_at r = None
        then (case promote eng now tenant_id r s1 of (s2, r') \<Rightarrow> (s2, [r'])) else (s1, []))"

fun observe_signals :: "risk_settings \<Rightarrow> nat \<Rightarrow> string \<Rightarrow> entity_signal list \<Rightarrow> risk_store \<Rightarrow> risk_store \<times> risk_record list" where
  "observe_signals eng now tenant_id [] s = (s, [])"
| "observe_signals eng now tenant_id (sg # sgs) s =
     (case observe_signal eng now tenant_id sg s of (s1, p1) \<Rightarrow>
        (case observe_signals eng now tenant_id sgs s1 of (s2, p2) \<Rightarrow> (s2, p1 @ p2)))"

definition observe :: "risk_settings \<Rightarrow> nat \<Rightarrow> raw_alert \<Rightarrow> risk_store \<Rightarrow> risk_store \<times> risk_record list" where
  "observe eng now alert s =
     (if st_enabled eng then observe_signals eng now (al_tenant_id alert) (build_signals eng alert) s else (s, []))"

subsection \<open>Queue reads\<close>

text \<open>\<open>member.partition("::")\<close>.\<close>

definition split_member :: "string \<Rightarrow> string \<times> string" where
  "split_member m =
     (case find_sub ''::'' m of None \<Rightarrow> (m, []) | Some i \<Rightarrow> (take i m, drop (i + 2) m))"

definition top_entities :: "risk_store \<Rightarrow> nat \<Rightarrow> string \<Rightarrow> int \<Rightarrow> bool \<Rightarrow> risk_record list" where
  "top_entities s now tenant_id limit promoted_only =
     (let raw = take (Suc (nat (max 0 (limit - 1)))) (rev (zmembers (rs_topn s) now (TOPN_KEY @ tenant_id)));
          recs = map (\<lambda>(m, x). case split_member m of (t, v) \<Rightarrow> load_risk s now tenant_id t v) raw
      in filter (\<lambda>r. promoted_only \<longrightarrow> rr_promoted_at r \<noteq> None) (map the (filter (\<lambda>r. r \<noteq> None) recs)))"

definition score_band :: "real \<Rightarrow> nat" where
  "score_band x = (if x \<ge> 80 then 0 else if x \<ge> 50 then 1 else if x \<ge> 20 then 2 else 3)"

record risk_stats =
  ks_tracked :: nat
  ks_promoted :: nat
  ks_bands :: "nat list"  \<comment> \<open>critical, high, medium, low\<close>

definition risk_stats_of :: "risk_settings \<Rightarrow> risk_store \<Rightarrow> nat \<Rightarrow> string \<Rightarrow> risk_stats" where
  "risk_stats_of eng s now tenant_id =
     (let top = zmembers (rs_topn s) now (TOPN_KEY @ tenant_id);
          members = take (st_max_top eng) (rev top)
      in \<lparr>ks_tracked = length top,
          ks_promoted = length (zmembers (rs_promoted s) now (PROMOTED_KEY @ tenant_id)),
          ks_bands = map (\<lambda>b. length (filter (\<lambda>(m, x). score_band x = b) members)) [0, 1, 2, 3]\<rparr>)"

subsection \<open>Records stay well formed\<close>

definition severity_total :: "(string \<times> nat) list \<Rightarrow> nat" where
  "severity_total counts = sum_list (map snd counts)"

definition record_ok :: "risk_record \<Rightarrow> bool" where
  "record_ok r \<longleftrightarrow> 0 \<le> rr_score r \<and> severity_total (rr_severities r) = rr_alert_count r
     \<and> distinct (map fst (rr_severities r))
     \<and> distinct (rr_contributing_alerts r) \<and> length (rr_contributing_alerts r) \<le> 50
     \<and> length (rr_contributors r) = min 25 (rr_alert_count r)"

definition settled :: "risk_settings \<Rightarrow> risk_record \<Rightarrow> bool" where
  "settled eng r \<longleftrightarrow> (st_threshold eng \<le> rr_score r \<longrightarrow> rr_promoted_at r \<noteq> None)"

definition entities_ok :: "risk_settings \<Rightarrow> risk_store \<Rightarrow> bool" where
  "entities_ok eng s \<longleftrightarrow> dict_all (\<lambda>(r, e). record_ok r \<and> settled eng r) (rs_entities s)"

definition queues_ok :: "risk_settings \<Rightarrow> risk_store \<Rightarrow> bool" where
  "queues_ok eng s \<longleftrightarrow> dict_all (\<lambda>(z, e). length z \<le> st_max_top eng) (rs_topn s)"

lemma severity_total_count: "distinct (map fst counts) \<Longrightarrow>
    severity_total (count_severity sev counts) = Suc (severity_total counts) \<and> distinct (map fst (count_severity sev counts))"
proof (induction counts)
  case (Cons c counts)
  obtain k n where c: "c = (k, n)" by (cases c)
  show ?case
  proof (cases "k = sev")
    case True
    then show ?thesis using Cons.prems by (simp add: c count_severity_def severity_total_def)
  next
    case False
    have "fst ` set (dict_set sev v counts) = insert sev (fst ` set counts)" for v by simp
    with False Cons show ?thesis by (simp add: c count_severity_def severity_total_def)
  qed
qed (simp add: count_severity_def severity_total_def)

lemma keep_last_props:
  "length (keep_last n xs) = min n (length xs)" "distinct xs \<Longrightarrow> distinct (keep_last n xs)"
  by (auto simp: keep_last_def)

lemma decay_nonneg: "0 \<le> decay eng prior seen now"
  by (simp add: decay_def Let_def)

lemma decay_le: "0 \<le> prior \<Longrightarrow> decay eng prior seen now \<le> prior"
proof -
  assume "0 \<le> prior"
  moreover have "(1 / 2) powr x \<le> (1 :: real)" if "0 \<le> x" for x
    by (rule powr_le1 [OF that]) simp_all
  ultimately show ?thesis
    by (auto simp: decay_def Let_def mult_left_le)
qed

lemma signal_points_nonneg: "(\<And>s. 0 \<le> st_weight eng s) \<Longrightarrow> 0 \<le> signal_points eng alert"
  using round_half_even_mono [of 0 "st_weight eng (al_severity alert) * (1 + clamp01 (al_risk_score alert)) * 100"]
  by (simp add: signal_points_def round2_def round_half_even_def clamp01_bounds)

lemma bump_ok: "record_ok r \<Longrightarrow> 0 \<le> sg_points sg \<Longrightarrow> record_ok (bump_record eng now sg r)"
  using severity_total_count [of "rr_severities r" "sg_severity sg"]
  by (auto simp: record_ok_def bump_record_def keep_last_props decay_nonneg)

lemma fresh_ok: "record_ok (fresh_record t sg now)"
  by (simp add: record_ok_def fresh_record_def severity_total_def)

subsection \<open>The store stays well formed\<close>

lemma load_ok: "entities_ok eng s \<Longrightarrow> load_risk s now t ty v = Some r \<Longrightarrow> record_ok r \<and> settled eng r"
  by (auto simp: load_risk_def entities_ok_def record_ok_def settled_def alive_def
      dest!: dict_all_get split: option.splits if_splits)

lemma zkeep_length: "length (zkeep n z) \<le> n"
  by (simp add: zkeep_def)

lemma save_ok: "entities_ok eng s \<Longrightarrow> record_ok r \<Longrightarrow> settled eng r \<Longrightarrow> entities_ok eng (save_risk eng now r s)"
  by (auto simp: entities_ok_def save_risk_def Let_def)

lemma save_queues: "queues_ok eng s \<Longrightarrow> queues_ok eng (save_risk eng now r s)"
  by (auto simp: queues_ok_def save_risk_def Let_def zkeep_length)

lemma save_twice:
  "rr_tenant_id r' = rr_tenant_id r \<Longrightarrow> rr_entity_type r' = rr_entity_type r \<Longrightarrow> rr_entity_value r' = rr_entity_value r \<Longrightarrow>
   rs_entities (save_risk eng now r' (save_risk eng now r s)) = rs_entities (save_risk eng now r' s)"
  by (simp add: save_risk_def Let_def)

text \<open>The record an observation works on, and the entity part of the store it leaves.\<close>

definition observed :: "risk_settings \<Rightarrow> nat \<Rightarrow> string \<Rightarrow> entity_signal \<Rightarrow> risk_store \<Rightarrow> risk_record" where
  "observed eng now t sg s = bump_record eng now sg
     (case load_risk s now t (sg_entity_type sg) (sg_entity_value sg) of None \<Rightarrow> fresh_record t sg now | Some r \<Rightarrow> r)"

definition promotes :: "risk_settings \<Rightarrow> risk_record \<Rightarrow> bool" where
  "promotes eng r \<longleftrightarrow> st_threshold eng \<le> rr_score r \<and> rr_promoted_at r = None"

definition settle :: "risk_settings \<Rightarrow> nat \<Rightarrow> risk_record \<Rightarrow> risk_record" where
  "settle eng now r = (if promotes eng r then r\<lparr>rr_promoted_at := Some now\<rparr> else r)"

lemma observed_key:
  "rr_tenant_id (observed eng now t sg s) = t"
  "rr_entity_type (observed eng now t sg s) = sg_entity_type sg"
  "rr_entity_value (observed eng now t sg s) = sg_entity_value sg"
  by (auto simp: observed_def bump_record_def fresh_record_def load_risk_def split: option.split)

lemma observe_signal_eq:
  "rs_entities (fst (observe_signal eng now t sg s)) = dict_set (entity_key t (sg_entity_type sg) (sg_entity_value sg))
      (settle eng now (observed eng now t sg s), now + st_window eng) (rs_entities s)"
  "snd (observe_signal eng now t sg s) =
     (if promotes eng (observed eng now t sg s) then [settle eng now (observed eng now t sg s)] else [])"
proof -
  let ?r = "observed eng now t sg s"
  have a: "apply_signal eng now t sg s = (save_risk eng now ?r s, ?r)"
    by (simp add: apply_signal_def observed_def Let_def)
  show "rs_entities (fst (observe_signal eng now t sg s)) = dict_set (entity_key t (sg_entity_type sg) (sg_entity_value sg))
      (settle eng now ?r, now + st_window eng) (rs_entities s)"
    by (simp add: observe_signal_def a promote_def settle_def promotes_def Let_def save_risk_def observed_key)
  show "snd (observe_signal eng now t sg s) = (if promotes eng ?r then [settle eng now ?r] else [])"
    by (simp add: observe_signal_def a promote_def settle_def promotes_def Let_def)
qed

lemma observe_signal_ok:
  assumes "entities_ok eng s" "0 \<le> sg_points sg"
  shows "entities_ok eng (fst (observe_signal eng now t sg s))"
proof -
  have "record_ok (observed eng now t sg s)"
    unfolding observed_def
    using load_ok [OF assms(1)] fresh_ok by (intro bump_ok [OF _ assms(2)]) (auto split: option.split)
  then have "record_ok (settle eng now (observed eng now t sg s)) \<and> settled eng (settle eng now (observed eng now t sg s))"
    by (auto simp: settle_def promotes_def record_ok_def settled_def)
  with assms(1) show ?thesis by (auto simp: entities_ok_def observe_signal_eq)
qed

lemma observe_signal_queues: "queues_ok eng s \<Longrightarrow> queues_ok eng (fst (observe_signal eng now t sg s))"
  using save_queues
  by (auto simp: observe_signal_def apply_signal_def promote_def Let_def queues_ok_def split: prod.split)

lemma observe_signals_Cons:
  "fst (observe_signals eng now t (sg # sgs) s) = fst (observe_signals eng now t sgs (fst (observe_signal eng now t sg s)))"
  "snd (observe_signals eng now t (sg # sgs) s) = snd (observe_signal eng now t sg s)
     @ snd (observe_signals eng now t sgs (fst (observe_signal eng now t sg s)))"
  by (simp_all split: prod.split)

declare observe_signals.simps(2) [simp del]

lemma observe_signals_ok:
  "entities_ok eng s \<Longrightarrow> queues_ok eng s \<Longrightarrow> list_all (\<lambda>sg. 0 \<le> sg_points sg) sgs \<Longrightarrow>
   entities_ok eng (fst (observe_signals eng now t sgs s)) \<and> queues_ok eng (fst (observe_signals eng now t sgs s))"
  by (induction sgs arbitrary: s) (simp_all add: observe_signals_Cons observe_signal_ok observe_signal_queues)

lemma signals_points: "sg \<in> set (build_signals eng alert) \<Longrightarrow> sg_points sg = signal_points eng alert"
  by (auto simp: build_signals_def split: option.splits if_splits)

lemma observe_ok:
  assumes "\<And>sv. 0 \<le> st_weight eng sv" "entities_ok eng s" "queues_ok eng s"
  shows "entities_ok eng (fst (observe eng now alert s)) \<and> queues_ok eng (fst (observe eng now alert s))"
  using assms signal_points_nonneg [OF assms(1)]
  by (simp add: observe_def observe_signals_ok list_all_iff signals_points)

text \<open>A run: alerts with their arrival times; its promotions in order.\<close>

fun run_risk :: "risk_settings \<Rightarrow> (nat \<times> raw_alert) list \<Rightarrow> risk_store \<Rightarrow> risk_store \<times> risk_record list" where
  "run_risk eng [] s = (s, [])"
| "run_risk eng ((now, alert) # alerts) s =
     (case observe eng now alert s of (s1, p1) \<Rightarrow> (case run_risk eng alerts s1 of (s2, p2) \<Rightarrow> (s2, p1 @ p2)))"

lemma run_risk_Cons:
  "fst (run_risk eng ((now, alert) # alerts) s) = fst (run_risk eng alerts (fst (observe eng now alert s)))"
  "snd (run_risk eng ((now, alert) # alerts) s) = snd (observe eng now alert s) @ snd (run_risk eng alerts (fst (observe eng now alert s)))"
  by (simp_all split: prod.split)

declare run_risk.simps(2) [simp del]

lemma run_risk_ok:
  assumes "\<And>sv. 0 \<le> st_weight eng sv"
  shows "entities_ok eng s \<Longrightarrow> queues_ok eng s \<Longrightarrow>
    entities_ok eng (fst (run_risk eng alerts s)) \<and> queues_ok eng (fst (run_risk eng alerts s))"
proof (induction alerts arbitrary: s)
  case (Cons a alerts)
  obtain now alert where a: "a = (now, alert)" by (cases a)
  show ?case
    unfolding a run_risk_Cons using observe_ok [of eng s now alert, OF assms Cons.prems] by (intro Cons.IH) auto
qed simp

subsection \<open>Promotions\<close>

definition record_key :: "risk_record \<Rightarrow> string" where
  "record_key r = entity_key (rr_tenant_id r) (rr_entity_type r) (rr_entity_value r)"

text \<open>The entities of \<open>ks\<close> are marked as promoted, with records that live beyond \<open>last_time\<close>.\<close>

definition marked :: "risk_store \<Rightarrow> nat \<Rightarrow> string set \<Rightarrow> bool" where
  "marked s last_time ks \<longleftrightarrow>
     (\<forall>k \<in> ks. \<exists>r e. dict_get (rs_entities s) k = Some (r, e) \<and> rr_promoted_at r \<noteq> None \<and> last_time < e)"

lemma settle_props:
  "record_key (settle eng now r) = record_key r" "promotes eng r \<Longrightarrow> rr_promoted_at (settle eng now r) = Some now"
  "\<not> promotes eng r \<Longrightarrow> settle eng now r = r"
  by (simp_all add: settle_def record_key_def)

lemma observed_marked:
  assumes "marked s last_time ks" "now \<le> last_time" "entity_key t (sg_entity_type sg) (sg_entity_value sg) \<in> ks"
  shows "rr_promoted_at (observed eng now t sg s) \<noteq> None"
proof -
  obtain r e where "dict_get (rs_entities s) (entity_key t (sg_entity_type sg) (sg_entity_value sg)) = Some (r, e)"
    "rr_promoted_at r \<noteq> None" "last_time < e"
    using assms(1,3) by (auto simp: marked_def)
  with assms(2) show ?thesis by (simp add: observed_def load_risk_def alive_def bump_record_def)
qed

lemma observe_signal_marked:
  assumes m: "marked s last_time ks" and t: "now \<le> last_time" "last_time < now + st_window eng"
  shows "marked (fst (observe_signal eng now tn sg s)) last_time (ks \<union> record_key ` set (snd (observe_signal eng now tn sg s)))
    \<and> distinct (map record_key (snd (observe_signal eng now tn sg s)))
    \<and> ks \<inter> record_key ` set (snd (observe_signal eng now tn sg s)) = {}"
proof -
  let ?k = "entity_key tn (sg_entity_type sg) (sg_entity_value sg)" and ?r = "observed eng now tn sg s"
  have k: "record_key (settle eng now ?r) = ?k" unfolding settle_props(1) by (simp add: record_key_def observed_key)
  have new: "?k \<in> ks \<Longrightarrow> \<not> promotes eng ?r" using observed_marked [OF m t(1)] by (auto simp: promotes_def)
  have pr: "?k \<in> ks \<or> promotes eng ?r \<Longrightarrow> rr_promoted_at (settle eng now ?r) \<noteq> None"
    using observed_marked [OF m t(1), of tn sg eng] by (auto simp: settle_def)
  show ?thesis
    unfolding marked_def observe_signal_eq using m t(2) k new pr by (auto simp: marked_def)
qed

lemma observe_signals_marked:
  "marked s last_time ks \<Longrightarrow> now \<le> last_time \<Longrightarrow> last_time < now + st_window eng \<Longrightarrow>
   marked (fst (observe_signals eng now tn sgs s)) last_time (ks \<union> record_key ` set (snd (observe_signals eng now tn sgs s)))
    \<and> distinct (map record_key (snd (observe_signals eng now tn sgs s)))
    \<and> ks \<inter> record_key ` set (snd (observe_signals eng now tn sgs s)) = {}"
proof (induction sgs arbitrary: s ks)
  case (Cons sg sgs)
  let ?p = "snd (observe_signal eng now tn sg s)" and ?s = "fst (observe_signal eng now tn sg s)"
  note one = observe_signal_marked [OF Cons.prems, of tn sg]
  note rest = Cons.IH [OF conjunct1 [OF one] Cons.prems(2,3)]
  show ?case
    unfolding observe_signals_Cons using one rest by (auto simp: Un_assoc image_Un)
qed simp

lemma run_risk_marked:
  "marked s last_time ks \<Longrightarrow> list_all (\<lambda>(now, alert). now \<le> last_time \<and> last_time < now + st_window eng) alerts \<Longrightarrow>
   marked (fst (run_risk eng alerts s)) last_time (ks \<union> record_key ` set (snd (run_risk eng alerts s)))
    \<and> distinct (map record_key (snd (run_risk eng alerts s)))
    \<and> ks \<inter> record_key ` set (snd (run_risk eng alerts s)) = {}"
proof (induction alerts arbitrary: s ks)
  case (Cons a alerts)
  obtain now alert where a: "a = (now, alert)" by (cases a)
  let ?p = "snd (observe eng now alert s)" and ?s = "fst (observe eng now alert s)"
  have t: "now \<le> last_time" "last_time < now + st_window eng" using Cons.prems(2) by (auto simp: a)
  have one: "marked ?s last_time (ks \<union> record_key ` set ?p) \<and> distinct (map record_key ?p) \<and> ks \<inter> record_key ` set ?p = {}"
    using observe_signals_marked [OF Cons.prems(1) t] Cons.prems(1) by (simp add: observe_def)
  note rest = Cons.IH [OF conjunct1 [OF one]]
  show ?case
    unfolding a run_risk_Cons using one rest Cons.prems(2) by (auto simp: Un_assoc image_Un)
qed simp

subsection \<open>Properties\<close>

definition empty_risk :: risk_store where
  "empty_risk = \<lparr>rs_entities = [], rs_topn = [], rs_promoted = []\<rparr>"

text \<open>
  C26.  The risk store stays well formed along any run from the empty store: every stored record
  has a non-negative score, counts exactly the alerts its severities add up to, lists at most 50
  distinct alert ids and the last 25 contributions, and is promoted as soon as its score has
  reached the threshold; and no queue holds more than the configured number of entities.
\<close>

theorem risk_store_invariant:
  assumes "\<And>sv. 0 \<le> st_weight eng sv"
  shows "dict_all (\<lambda>(r, e). 0 \<le> rr_score r \<and> severity_total (rr_severities r) = rr_alert_count r
        \<and> distinct (rr_contributing_alerts r) \<and> length (rr_contributing_alerts r) \<le> 50
        \<and> length (rr_contributors r) = min 25 (rr_alert_count r)
        \<and> (rr_promoted_at r \<noteq> None \<or> rr_score r < st_threshold eng)) (rs_entities (fst (run_risk eng alerts empty_risk)))
    \<and> dict_all (\<lambda>(z, e). length z \<le> st_max_top eng) (rs_topn (fst (run_risk eng alerts empty_risk)))"
proof -
  have "entities_ok eng empty_risk" "queues_ok eng empty_risk"
    by (simp_all add: empty_risk_def entities_ok_def queues_ok_def)
  from run_risk_ok [OF assms this, of alerts] show ?thesis
    by (auto simp: entities_ok_def queues_ok_def dict_all_def record_ok_def settled_def list_all_iff not_le)
qed

definition demo_risk_alert :: "nat \<Rightarrow> raw_alert" where
  "demo_risk_alert n = \<lparr>al_id = nat_str n, al_tenant_id = ''t1'', al_source = ''edr'', al_title = ''beacon'',
     al_description = [], al_severity = HIGH, al_status = NEW, al_src_ip = None, al_dst_ip = None,
     al_hostname = Some ''ws1'', al_username = None, al_file_hash = None, al_domain = None, al_url = None,
     al_mitre_tactics = [], al_mitre_techniques = [], al_raw_event = [], al_tags = [], al_risk_score = 1 / 2,
     al_created_at = n, al_event_time = None\<rparr>"

lemma default_weights: "0 \<le> st_weight (risk_engine default_settings) sv"
  by (cases sv) (simp_all add: risk_engine_def default_settings_def)

lemma risk_store_invariant_witness:
  "dict_all (\<lambda>(z, e). length z \<le> 100)
     (rs_topn (fst (run_risk (risk_engine default_settings) [(1, demo_risk_alert 1), (2, demo_risk_alert 2)] empty_risk)))"
proof -
  have "st_max_top (risk_engine default_settings) = 100" by (simp add: risk_engine_def default_settings_def)
  with risk_store_invariant [of "risk_engine default_settings", OF default_weights,
      of "[(1, demo_risk_alert 1), (2, demo_risk_alert 2)]"] show ?thesis by simp
qed

text \<open>
  C28.  An entity is promoted at most once while its record lives: in a run whose alerts all arrive
  within one window before its last time, no entity occurs twice among the promotions, from any
  starting store.
\<close>

theorem promoted_once:
  assumes "list_all (\<lambda>(now, alert). now \<le> last_time \<and> last_time < now + st_window eng) alerts"
  shows "distinct (map record_key (snd (run_risk eng alerts s)))"
  using run_risk_marked [of s last_time "{}" eng alerts] assms by (simp add: marked_def)

lemma promoted_once_witness:
  "distinct (map record_key (snd (run_risk (risk_engine default_settings)
     [(10, demo_risk_alert 1), (20, demo_risk_alert 2), (30, demo_risk_alert 3), (40, demo_risk_alert 4)] empty_risk)))"
  by (rule promoted_once [where last_time = 40]) (simp add: risk_engine_def default_settings_def)

subsection \<open>One alert, and other tenants\<close>

lemma until_sep_inject: "c \<notin> set a \<Longrightarrow> c \<notin> set b \<Longrightarrow> a @ c # u = b @ c # v \<Longrightarrow> a = b \<and> u = v"
  by (induction a arbitrary: b) (case_tac b; force)+

lemma entity_key_tenant:
  "CHR '':'' \<notin> set t \<Longrightarrow> CHR '':'' \<notin> set t' \<Longrightarrow> entity_key t a b = entity_key t' c d \<Longrightarrow> t = t'"
  unfolding entity_key_def append.append_Cons append.append_Nil same_append_eq by (blast dest: until_sep_inject)

text \<open>What another tenant can see of the store.\<close>

definition same_view :: "string \<Rightarrow> risk_store \<Rightarrow> risk_store \<Rightarrow> bool" where
  "same_view t s s' \<longleftrightarrow> (\<forall>a b. dict_get (rs_entities s') (entity_key t a b) = dict_get (rs_entities s) (entity_key t a b))
     \<and> dict_get (rs_topn s') (TOPN_KEY @ t) = dict_get (rs_topn s) (TOPN_KEY @ t)
     \<and> dict_get (rs_promoted s') (PROMOTED_KEY @ t) = dict_get (rs_promoted s) (PROMOTED_KEY @ t)"

lemma save_same_view:
  "CHR '':'' \<notin> set t \<Longrightarrow> CHR '':'' \<notin> set (rr_tenant_id r) \<Longrightarrow> rr_tenant_id r \<noteq> t \<Longrightarrow> same_view t s (save_risk eng now r s)"
  by (auto simp: same_view_def save_risk_def Let_def dest: entity_key_tenant)

lemma same_view_trans: "same_view t s1 s2 \<Longrightarrow> same_view t s2 s3 \<Longrightarrow> same_view t s1 s3"
  by (simp add: same_view_def)

lemma observe_signal_view:
  assumes "CHR '':'' \<notin> set t" "CHR '':'' \<notin> set tn" "tn \<noteq> t"
  shows "same_view t s (fst (observe_signal eng now tn sg s))"
proof -
  let ?r = "observed eng now tn sg s" and ?p = "settle eng now (observed eng now tn sg s)"
  have a: "apply_signal eng now tn sg s = (save_risk eng now ?r s, ?r)"
    by (simp add: apply_signal_def observed_def Let_def)
  have v: "same_view t s (save_risk eng now ?r s)"
    using assms by (intro save_same_view) (auto simp: observed_key)
  have "same_view t (save_risk eng now ?r s) (save_risk eng now (?r\<lparr>rr_promoted_at := Some now\<rparr>) (save_risk eng now ?r s))"
    using assms by (intro save_same_view) (auto simp: observed_key)
  from same_view_trans [OF v this] v assms(3) show ?thesis
    by (auto simp: observe_signal_def a promote_def Let_def same_view_def)
qed

lemma observe_signals_view:
  "CHR '':'' \<notin> set t \<Longrightarrow> CHR '':'' \<notin> set tn \<Longrightarrow> tn \<noteq> t \<Longrightarrow> same_view t s (fst (observe_signals eng now tn sgs s))"
proof (induction sgs arbitrary: s)
  case (Cons sg sgs)
  then show ?case
    unfolding observe_signals_Cons using observe_signal_view same_view_trans by blast
qed (simp add: same_view_def)

lemma same_view_load: "same_view t s s' \<Longrightarrow> load_risk s' now t a b = load_risk s now t a b"
  by (simp add: same_view_def load_risk_def)

text \<open>
  An alert changes nothing that another tenant can read: entities, queue and statistics of
  every other tenant are what they were before, whatever the entities are called.
\<close>

theorem risk_tenant_isolation:
  assumes "CHR '':'' \<notin> set t" "CHR '':'' \<notin> set (al_tenant_id alert)" "al_tenant_id alert \<noteq> t"
  shows "load_risk (fst (observe eng now alert s)) now' t a b = load_risk s now' t a b
    \<and> top_entities (fst (observe eng now alert s)) now' t limit po = top_entities s now' t limit po
    \<and> risk_stats_of eng (fst (observe eng now alert s)) now' t = risk_stats_of eng s now' t"
proof -
  have v: "same_view t s (fst (observe eng now alert s))"
    using observe_signals_view [OF assms] by (simp add: observe_def same_view_def)
  then have "zmembers (rs_topn (fst (observe eng now alert s))) now' (TOPN_KEY @ t) = zmembers (rs_topn s) now' (TOPN_KEY @ t)"
    "zmembers (rs_promoted (fst (observe eng now alert s))) now' (PROMOTED_KEY @ t) = zmembers (rs_promoted s) now' (PROMOTED_KEY @ t)"
    by (simp_all add: same_view_def zmembers_def)
  with same_view_load [OF v] show ?thesis by (simp add: top_entities_def risk_stats_of_def)
qed

lemma risk_tenant_isolation_witness:
  "top_entities (fst (observe (risk_engine default_settings) 5 (demo_risk_alert 1) empty_risk)) 6 ''t2'' 25 False = []"
proof -
  have "top_entities empty_risk 6 ''t2'' 25 False = []"
    by (simp add: top_entities_def empty_risk_def zmembers_def alive_def)
  moreover have "al_tenant_id (demo_risk_alert 1) = ''t1''" by (simp add: demo_risk_alert_def)
  ultimately show ?thesis
    using risk_tenant_isolation [of "''t2''" "demo_risk_alert 1" "risk_engine default_settings" 5 empty_risk 6 _ _ 25 False]
    by simp
qed

lemma signal_keys_distinct: "distinct (map sg_entity_type (build_signals eng alert))"
  "sg \<in> set (build_signals eng alert) \<Longrightarrow> CHR '':'' \<notin> set (sg_entity_type sg)"
  by (auto simp: build_signals_def ENTITY_TYPES_def split: option.split option.splits if_splits)

lemma entity_key_type:
  "CHR '':'' \<notin> set a \<Longrightarrow> CHR '':'' \<notin> set a' \<Longrightarrow> entity_key t a b = entity_key t a' b' \<Longrightarrow> a = a'"
  unfolding entity_key_def append.append_Cons append.append_Nil same_append_eq by (blast dest: until_sep_inject)

text \<open>Signals whose entities have no record yet, pairwise of different types.\<close>

definition all_fresh :: "risk_store \<Rightarrow> string \<Rightarrow> entity_signal list \<Rightarrow> bool" where
  "all_fresh s t sgs \<longleftrightarrow> (\<forall>sg \<in> set sgs. dict_get (rs_entities s) (entity_key t (sg_entity_type sg) (sg_entity_value sg)) = None
     \<and> CHR '':'' \<notin> set (sg_entity_type sg)) \<and> distinct (map sg_entity_type sgs)"

lemma all_fresh_rest:
  assumes "all_fresh s t (sg # sgs)"
  shows "all_fresh (fst (observe_signal eng now t sg s)) t sgs"
proof -
  have "entity_key t (sg_entity_type g) (sg_entity_value g) \<noteq> entity_key t (sg_entity_type sg) (sg_entity_value sg)"
    if g: "g \<in> set sgs" for g
  proof -
    have "sg_entity_type g \<noteq> sg_entity_type sg" using assms g unfolding all_fresh_def by (auto simp: distinct_map) (metis image_eqI)
    moreover have "CHR '':'' \<notin> set (sg_entity_type g)" "CHR '':'' \<notin> set (sg_entity_type sg)"
      using assms g by (auto simp: all_fresh_def)
    ultimately show ?thesis by (blast dest: entity_key_type)
  qed
  with assms show ?thesis by (auto simp: all_fresh_def observe_signal_eq)
qed

lemma observed_fresh:
  assumes "all_fresh s t (sg # sgs)"
  shows "rr_score (observed eng now t sg s) = of_rat (sg_points sg)" "rr_alert_count (observed eng now t sg s) = 1"
    "rr_promoted_at (observed eng now t sg s) = None"
proof -
  have "load_risk s now t (sg_entity_type sg) (sg_entity_value sg) = None"
    using assms by (simp add: all_fresh_def load_risk_def alive_def)
  then show "rr_score (observed eng now t sg s) = of_rat (sg_points sg)" "rr_alert_count (observed eng now t sg s) = 1"
    "rr_promoted_at (observed eng now t sg s) = None"
    by (simp_all add: observed_def bump_record_def fresh_record_def decay_def)
qed

lemma observe_signals_fresh:
  "all_fresh s t sgs \<Longrightarrow> list_all (\<lambda>sg. st_threshold eng \<le> of_rat (sg_points sg)) sgs \<Longrightarrow>
   map (\<lambda>r. (rr_entity_type r, rr_entity_value r, rr_score r, rr_alert_count r)) (snd (observe_signals eng now t sgs s))
     = map (\<lambda>sg. (sg_entity_type sg, sg_entity_value sg, of_rat (sg_points sg), 1)) sgs"
proof (induction sgs arbitrary: s)
  case (Cons sg sgs)
  note rest = Cons.IH [OF all_fresh_rest [OF Cons.prems(1)]]
  have "promotes eng (observed eng now t sg s)"
    using Cons.prems(2) by (simp add: promotes_def observed_fresh [OF Cons.prems(1)])
  then have "map (\<lambda>r. (rr_entity_type r, rr_entity_value r, rr_score r, rr_alert_count r)) (snd (observe_signal eng now t sg s))
      = [(sg_entity_type sg, sg_entity_value sg, of_rat (sg_points sg), 1)]"
    using observed_fresh [OF Cons.prems(1)] by (simp add: observe_signal_eq settle_def observed_key)
  with rest Cons.prems(2) show ?case by (simp add: observe_signals_Cons)
qed simp

lemma signals_fresh: "all_fresh empty_risk t (build_signals eng alert)"
  using signal_keys_distinct by (auto simp: all_fresh_def empty_risk_def)

lemma critical_promotes:
  assumes "al_severity alert = CRITICAL" "1 \<le> al_risk_score alert"
  shows "map (\<lambda>r. (rr_entity_type r, rr_entity_value r, rr_score r, rr_alert_count r))
      (snd (observe (risk_engine default_settings) now alert empty_risk))
    = map (\<lambda>sg. (sg_entity_type sg, sg_entity_value sg, 80, 1)) (build_signals (risk_engine default_settings) alert)"
proof -
  let ?eng = "risk_engine default_settings"
  have e: "st_enabled ?eng" "st_threshold ?eng = 80" "st_weight ?eng CRITICAL = 40"
    by (simp_all add: risk_engine_def default_settings_def)
  have "clamp01 (al_risk_score alert) = 1" using assms(2) by (simp add: clamp01_def)
  then have "signal_points ?eng alert = 80"
    using assms(1) e by (simp add: signal_points_def round2_def round_half_even_def)
  then have p: "sg_points sg = 80" if "sg \<in> set (build_signals ?eng alert)" for sg
    using that by (simp add: signals_points)
  then have th: "list_all (\<lambda>sg. st_threshold ?eng \<le> of_rat (sg_points sg)) (build_signals ?eng alert)"
    by (simp add: list_all_iff e)
  show ?thesis
    using observe_signals_fresh [OF signals_fresh th, of now "al_tenant_id alert"] p e(1)
    by (simp add: observe_def)
qed

text \<open>
  With the default settings a single alert can promote every entity it touches, first
  sighting included: a critical alert with a vendor risk of one scores 80 points, the threshold.
\<close>

theorem single_alert_promotes:
  assumes "al_severity alert = CRITICAL" "1 \<le> al_risk_score alert"
  shows "map (\<lambda>r. (rr_entity_type r, rr_entity_value r, rr_score r, rr_alert_count r))
      (snd (observe (risk_engine default_settings) now alert empty_risk))
    = map (\<lambda>sg. (sg_entity_type sg, sg_entity_value sg, 80, 1)) (build_signals (risk_engine default_settings) alert)"
  by (rule critical_promotes [OF assms])

lemma single_alert_promotes_witness:
  "map rr_entity_value (snd (observe (risk_engine default_settings) 7
     ((demo_risk_alert 1)\<lparr>al_severity := CRITICAL, al_risk_score := 1\<rparr>) empty_risk)) = [''ws1'']"
proof -
  let ?a = "(demo_risk_alert 1)\<lparr>al_severity := CRITICAL, al_risk_score := 1\<rparr>"
  let ?f = "\<lambda>r. (rr_entity_type r, rr_entity_value r, rr_score r, rr_alert_count r)"
  have "map (\<lambda>sg. (sg_entity_type sg, sg_entity_value sg, 80 :: real, 1 :: nat)) (build_signals (risk_engine default_settings) ?a)
      = [(''host'', ''ws1'', 80, 1)]"
    by (simp add: build_signals_def ENTITY_TYPES_def demo_risk_alert_def)
  with single_alert_promotes [of ?a 7]
  have "map ?f (snd (observe (risk_engine default_settings) 7 ?a empty_risk)) = [(''host'', ''ws1'', 80, 1)]" by simp
  then show ?thesis by auto
qed

end
