(* ===== verification/Fusion_Engine.thy ===== *)
theory Fusion_Engine
  imports Fusion_Correlation Fusion_Scoring Entity_Risk
begin

text \<open>
  The fusion pipeline (\<open>services/fusion/app/services/fusion_engine.py\<close>): deduplicate, correlate,
  score, boost, roll up entity risk, narrate.  The model scorer, the entity risk engine and the
  narrative builder are parameters; the scorer's parameter is the alert it leaves behind, also
  when it raises, since the alert is mutated in place.
\<close>

subsection \<open>The narrative adapter\<close>

record narrative_factor =
  nf_label :: string
  nf_value :: string
  nf_contribution :: rat
  nf_weight :: rat

record narrative_inputs =
  ni_severity :: string
  ni_title :: string
  ni_confidence :: "int option"
  ni_confidence_label :: "string option"
  ni_rationale :: "narrative_factor list"
  ni_src_ip :: "string option"
  ni_dst_ip :: "string option"
  ni_hostname :: "string option"
  ni_username :: "string option"
  ni_file_hash :: "string option"
  ni_domain :: "string option"
  ni_url :: "string option"
  ni_mitre_tactics :: "string list"
  ni_mitre_techniques :: "string list"
  ni_incident_alert_count :: "nat option"
  ni_correlation_decision :: "string option"
  ni_rba_entity :: "string option"
  ni_rba_score :: "real option"
  ni_exploit_in_wild :: bool
  ni_source :: "string option"
  ni_tags :: "string list"

definition to_narrative_inputs ::
  "fused_alert \<Rightarrow> incident \<Rightarrow> risk_record option \<Rightarrow> narrative_inputs" where
  "to_narrative_inputs fused i promo =
     (let raw = fu_alert fused in
      \<lparr>ni_severity = severity_value (al_severity raw), ni_title = al_title raw,
       ni_confidence = Some (round_half_even (clamp01 (fu_score fused) * 100)),
       ni_confidence_label = Some (confidence_label_value (fu_label fused)),
       ni_rationale = map (\<lambda>row. \<lparr>nf_label = cf_label row, nf_value = cf_value row,
           nf_contribution = cf_contribution row, nf_weight = cf_weight row\<rparr>) (fu_rationale fused),
       ni_src_ip = al_src_ip raw, ni_dst_ip = al_dst_ip raw, ni_hostname = al_hostname raw,
       ni_username = al_username raw, ni_file_hash = al_file_hash raw, ni_domain = al_domain raw,
       ni_url = al_url raw, ni_mitre_tactics = al_mitre_tactics raw,
       ni_mitre_techniques = al_mitre_techniques raw, ni_incident_alert_count = Some (in_alert_count i),
       ni_correlation_decision = (case fu_decision fused of
           CORRELATED \<Rightarrow> Some ''correlated'' | NEW_INCIDENT \<Rightarrow> Some ''new_incident'' | _ \<Rightarrow> None),
       ni_rba_entity = map_option (\<lambda>p. rr_entity_type p @ '':'' @ rr_entity_value p) promo,
       ni_rba_score = map_option rr_score promo,
       ni_exploit_in_wild = fu_exploit_in_wild fused, ni_source = Some (al_source raw), ni_tags = al_tags raw\<rparr>)"

subsection \<open>The pipeline\<close>

record 's engine =
  en_redis :: "'s redis"
  en_ml_score :: "fused_alert \<Rightarrow> fused_alert"
  en_confidence_enabled :: bool
  en_vuln_boost_enabled :: bool
  en_entity_risk :: "(raw_alert \<Rightarrow> unit + risk_record list) option"
  en_build_narrative :: "narrative_inputs \<Rightarrow> unit + string"

text \<open>\<open>max(promotions, key=lambda r: (r.score, r.entity_value))\<close>, the first of the largest.\<close>

fun top_record :: "risk_record \<Rightarrow> risk_record list \<Rightarrow> risk_record" where
  "top_record best [] = best"
| "top_record best (p # ps) =
     top_record (if rr_score best < rr_score p
                  \<or> rr_score best = rr_score p \<and> rr_entity_value best < rr_entity_value p
                 then p else best) ps"

definition top_promotion :: "'s engine \<Rightarrow> raw_alert \<Rightarrow> risk_record option" where
  "top_promotion e a =
     (case en_entity_risk e of
        None \<Rightarrow> None
      | Some observer \<Rightarrow> (case observer a of
          Inl _ \<Rightarrow> None | Inr [] \<Rightarrow> None | Inr (p # ps) \<Rightarrow> Some (top_record p ps)))"

definition process :: "'s engine \<Rightarrow> 's \<Rightarrow> nat \<Rightarrow> string \<Rightarrow> raw_alert \<Rightarrow> 's \<times> fused_alert" where
  "process e s now new_id a =
     (case is_duplicate (en_redis e) s now a of
        (True, original_id) \<Rightarrow> (s, new_fused a None DUPLICATE original_id)
      | (False, _) \<Rightarrow>
          (case correlate (en_redis e) (register (en_redis e) s now a) now new_id a of
             (s2, correlated, i) \<Rightarrow>
               let f0 = new_fused a (Some (in_id i)) (if correlated then CORRELATED else NEW_INCIDENT) None;
                   f1 = en_ml_score e f0;
                   f2 = score_alert (en_confidence_enabled e) f1;
                   f3 = (if en_vuln_boost_enabled e then fst (apply_vuln_boost f2) else f2);
                   f4 = (case en_build_narrative e (to_narrative_inputs f3 i (top_promotion e a)) of
                           Inl _ \<Rightarrow> f3 | Inr text \<Rightarrow> f3\<lparr>fu_narrative := Some text\<rparr>)
               in (s2, f4)))"

text \<open>A run: alerts in arrival order, each with its time and the id a new incident would get.\<close>

fun run_engine :: "'s engine \<Rightarrow> 's \<Rightarrow> (nat \<times> string \<times> raw_alert) list \<Rightarrow> 's" where
  "run_engine e s [] = s"
| "run_engine e s ((now, new_id, a) # calls) = run_engine e (fst (process e s now new_id a)) calls"

text \<open>The model scorer changes its two scores and nothing the pipeline decided.\<close>

definition scorer_laws :: "'s engine \<Rightarrow> bool" where
  "scorer_laws e \<longleftrightarrow> (\<forall>f. fu_decision (en_ml_score e f) = fu_decision f
     \<and> fu_incident_id (en_ml_score e f) = fu_incident_id f \<and> fu_duplicate_of (en_ml_score e f) = fu_duplicate_of f)"

lemma boost_decision [simp]:
  "fu_decision (fst (apply_vuln_boost f)) = fu_decision f"
  "fu_incident_id (fst (apply_vuln_boost f)) = fu_incident_id f"
  "fu_duplicate_of (fst (apply_vuln_boost f)) = fu_duplicate_of f"
  by (simp_all add: apply_vuln_boost_def Let_def split: sum.split list.split)

lemma score_decision [simp]:
  "fu_decision (score_alert b f) = fu_decision f" "fu_incident_id (score_alert b f) = fu_incident_id f"
  "fu_duplicate_of (score_alert b f) = fu_duplicate_of f"
  by (simp_all add: score_alert_def Let_def)

lemma process_decision:
  assumes "scorer_laws e"
  shows "fu_decision (snd (process e s now new_id a)) =
      (if fst (is_duplicate (en_redis e) s now a) then DUPLICATE
       else if fst (snd (correlate (en_redis e) (register (en_redis e) s now a) now new_id a))
       then CORRELATED else NEW_INCIDENT)"
    and "fu_duplicate_of (snd (process e s now new_id a)) = snd (is_duplicate (en_redis e) s now a)"
    and "\<not> fst (is_duplicate (en_redis e) s now a) \<Longrightarrow> fu_incident_id (snd (process e s now new_id a)) =
      Some (in_id (snd (snd (correlate (en_redis e) (register (en_redis e) s now a) now new_id a))))"
    and "fst (process e s now new_id a) =
      (if fst (is_duplicate (en_redis e) s now a) then s
       else fst (correlate (en_redis e) (register (en_redis e) s now a) now new_id a))"
  using assms
  by (auto simp: process_def scorer_laws_def new_fused_def Let_def is_duplicate_def
      split: prod.split sum.split option.split)

subsection \<open>The deduplication window\<close>

abbreviation dedup_key :: "raw_alert \<Rightarrow> string" where
  "dedup_key a \<equiv> DEDUP_PREFIX @ fingerprint a"

lemma correlate_keeps_dedup:
  assumes "ttl_laws r" "now \<le> t"
  shows "rd_get r (fst (correlate r s now nid a)) t (DEDUP_PREFIX @ k) = rd_get r s t (DEDUP_PREFIX @ k)"
  using assms
  by (auto simp: correlate_def save_incident_def Let_def rd_get_set split: option.split)

lemma process_dedup:
  assumes laws: "ttl_laws (en_redis e)" "scorer_laws e" and t: "now \<le> t"
  shows "rd_get (en_redis e) (fst (process e s now nid b)) t (dedup_key a) =
    (if fst (is_duplicate (en_redis e) s now b) \<or> fingerprint b \<noteq> fingerprint a
     then rd_get (en_redis e) s t (dedup_key a)
     else if t < now + dedup_window_seconds then Some (al_id b) else None)"
  using assms
  by (auto simp: process_decision(4) correlate_keeps_dedup register_def rd_get_set)

text \<open>While the key of an alert is live, no run replaces it.\<close>

lemma run_keeps_dedup:
  assumes laws: "ttl_laws (en_redis e)" "scorer_laws e" and x: "x \<noteq> []"
  shows "\<forall>u. now \<le> u \<and> u < until \<longrightarrow> rd_get (en_redis e) s u (dedup_key a) = Some x \<Longrightarrow>
    sorted (now # map fst calls) \<Longrightarrow> \<forall>c \<in> set calls. fst c < until \<Longrightarrow>
    \<forall>u. (case calls of [] \<Rightarrow> now | _ \<Rightarrow> fst (last calls)) \<le> u \<and> u < until \<longrightarrow>
      rd_get (en_redis e) (run_engine e s calls) u (dedup_key a) = Some x"
proof (induction calls arbitrary: s now)
  case (Cons c calls)
  obtain t nid b where c: "c = (t, nid, b)" by (cases c)
  let ?s' = "fst (process e s t nid b)"
  have nt: "now \<le> t" "t < until" using Cons.prems by (auto simp: c)
  have dup: "fst (is_duplicate (en_redis e) s t b)" if "fingerprint b = fingerprint a"
    using Cons.prems(1) nt that x by (auto simp: is_duplicate_def present_def)
  have "\<forall>u. t \<le> u \<and> u < until \<longrightarrow> rd_get (en_redis e) ?s' u (dedup_key a) = Some x"
    using Cons.prems(1) nt dup process_dedup [OF laws] by auto
  from Cons.IH [OF this] Cons.prems show ?case by (cases calls) (auto simp: c)
qed simp

subsection \<open>The incident store under a run\<close>

text \<open>What a run must offer: times do not go back, the ids of new incidents are fresh, and a
  tenant id (a UUID) has no colon.\<close>

fun run_ok :: "'s engine \<Rightarrow> 's \<Rightarrow> nat \<Rightarrow> (nat \<times> string \<times> raw_alert) list \<Rightarrow> bool" where
  "run_ok e s now [] \<longleftrightarrow> True"
| "run_ok e s now ((t, nid, a) # calls) \<longleftrightarrow>
     now \<le> t \<and> fresh_id (en_redis e) s t nid \<and> CHR '':'' \<notin> set (al_tenant_id a)
     \<and> run_ok e (fst (process e s t nid a)) t calls"

lemma register_store_ok:
  assumes "ttl_laws r" "store_ok r s now"
  shows "store_ok r (register r s now a) now"
proof (rule store_okI)
  fix t iid i
  assume t: "now \<le> t" and l: "load_incident r (register r s now a) t iid = Some i"
  then have l': "load_incident r s t iid = Some i"
    using assms(1) by (simp add: load_incident_def register_def rd_get_set)
  then show "incident_ok i \<and> in_id i = iid" using store_okD [OF assms(2) t] by blast
  fix k
  assume "rd_get r (register r s now a) t (CORRELATION_PREFIX @ k) = Some iid"
  then have "rd_get r s t (CORRELATION_PREFIX @ k) = Some iid"
    using assms(1) t by (simp add: register_def rd_get_set)
  with store_okD(3) [OF assms(2) t l'] show "in_tenant_id i = key_tenant k" by blast
qed

lemma register_fresh:
  "ttl_laws r \<Longrightarrow> fresh_id r s now nid \<Longrightarrow> fresh_id r (register r s now a) now nid"
  by (simp add: fresh_id_def register_def rd_get_set)

lemma process_store_ok:
  assumes laws: "ttl_laws (en_redis e)" "codec_laws (en_redis e)" "scorer_laws e"
    and ok: "store_ok (en_redis e) s now" "fresh_id (en_redis e) s now nid" "CHR '':'' \<notin> set (al_tenant_id a)"
  shows "store_ok (en_redis e) (fst (process e s now nid a)) now"
proof (cases "fst (is_duplicate (en_redis e) s now a)")
  case False
  obtain s2 m i where c: "correlate (en_redis e) (register (en_redis e) s now a) now nid a = (s2, m, i)"
    by (cases "correlate (en_redis e) (register (en_redis e) s now a) now nid a") auto
  have "store_ok (en_redis e) s2 now"
    using correlate_ok [OF laws(1,2) register_store_ok [OF laws(1) ok(1)] register_fresh [OF laws(1) ok(2)] ok(3) c]
    by blast
  with False c show ?thesis by (simp add: process_decision(4) [OF laws(3)])
qed (use ok process_decision(4) [OF laws(3)] in simp)

lemma run_store_ok:
  assumes laws: "ttl_laws (en_redis e)" "codec_laws (en_redis e)" "scorer_laws e"
  shows "store_ok (en_redis e) s now \<Longrightarrow> run_ok e s now calls \<Longrightarrow>
    store_ok (en_redis e) (run_engine e s calls) (last (now # map fst calls))"
proof (induction calls arbitrary: s now)
  case (Cons c calls)
  obtain t nid a where c: "c = (t, nid, a)" by (cases c)
  from Cons.prems have t: "now \<le> t" and f: "fresh_id (en_redis e) s t nid" "CHR '':'' \<notin> set (al_tenant_id a)"
    and rest: "run_ok e (fst (process e s t nid a)) t calls" by (auto simp: c)
  have "store_ok (en_redis e) (fst (process e s t nid a)) t"
    using store_ok_later [OF Cons.prems(1) t] f by (intro process_store_ok [OF laws])
  from Cons.IH [OF this rest] show ?case by (simp add: c)
qed simp

lemma run_ok_snoc:
  "run_ok e s now (calls @ [(t, nid, a)]) \<longleftrightarrow> run_ok e s now calls \<and> last (now # map fst calls) \<le> t
     \<and> fresh_id (en_redis e) (run_engine e s calls) t nid \<and> CHR '':'' \<notin> set (al_tenant_id a)"
  by (induction calls arbitrary: s now) auto

subsection \<open>A concrete store\<close>

text \<open>A map with expiry times, and the JSON text of an incident: the parameters can be had.\<close>

definition mem_get :: "(string \<times> string \<times> nat) list \<Rightarrow> nat \<Rightarrow> string \<Rightarrow> string option" where
  "mem_get s t k = (case dict_get s k of None \<Rightarrow> None | Some (v, ex) \<Rightarrow> if t < ex then Some v else None)"

definition mem_set :: "(string \<times> string \<times> nat) list \<Rightarrow> nat \<Rightarrow> string \<Rightarrow> string \<Rightarrow> nat \<Rightarrow> (string \<times> string \<times> nat) list" where
  "mem_set s t k v ttl = dict_set k (v, t + ttl) s"

definition strs :: "string list \<Rightarrow> val" where
  "strs xs = VList (map VStr xs)"

definition incident_json :: "incident \<Rightarrow> string" where
  "incident_json i = json_dumps (VList
    [VStr (in_id i), VStr (in_tenant_id i), VStr (in_title i), VStr (severity_value (in_severity i)),
     VInt (int (in_alert_count i)), strs (in_alert_ids i), strs (in_src_ips i), strs (in_hostnames i),
     strs (in_usernames i), strs (in_mitre_tactics i), strs (in_mitre_techniques i),
     strs (in_correlation_keys i), VInt (int (in_first_seen i)), VInt (int (in_last_seen i))])"

definition incident_of_json :: "string \<Rightarrow> incident option" where
  "incident_of_json s = (if \<exists>i. incident_json i = s then Some (inv incident_json s) else None)"

lemma strs_simps [simp]: "json_ok (strs xs)" "strs xs = strs ys \<longleftrightarrow> xs = ys"
  by (auto simp: strs_def list_all_iff inj_map_eq_map inj_def)

lemma severity_value_inject: "severity_value a = severity_value b \<longleftrightarrow> a = b"
  by (cases a; cases b) simp_all

lemma incident_json_inj: "inj incident_json"
proof (rule injI)
  fix i j
  assume "incident_json i = incident_json j"
  from json_text_inject [OF _ _ _ this [unfolded incident_json_def json_dumps_def]]
  show "i = j"
    by (cases i; cases j) (simp add: severity_value_inject)
qed

definition mem_redis :: "(string \<times> string \<times> nat) list redis" where
  "mem_redis = \<lparr>rd_get = mem_get, rd_set = mem_set, js_dump = incident_json, js_load = incident_of_json\<rparr>"

lemma mem_ttl_laws: "ttl_laws mem_redis"
  by (auto simp: ttl_laws_def mem_redis_def mem_get_def mem_set_def split: option.splits if_splits)

lemma mem_codec_laws: "codec_laws mem_redis"
  using inv_f_f [OF incident_json_inj]
  by (auto simp: codec_laws_def mem_redis_def incident_of_json_def)
    (auto simp: incident_json_def json_dumps_def)

definition demo_engine :: "(string \<times> string \<times> nat) list engine" where
  "demo_engine = \<lparr>en_redis = mem_redis, en_ml_score = (\<lambda>f. f), en_confidence_enabled = True,
     en_vuln_boost_enabled = True, en_entity_risk = None, en_build_narrative = (\<lambda>n. Inl ())\<rparr>"

lemma demo_engine_laws:
  "ttl_laws (en_redis demo_engine)" "codec_laws (en_redis demo_engine)" "scorer_laws demo_engine"
  by (simp_all add: demo_engine_def mem_ttl_laws mem_codec_laws scorer_laws_def)

lemma demo_store_ok: "store_ok (en_redis demo_engine) [] 0"
  by (simp add: store_ok_def load_incident_def demo_engine_def mem_redis_def mem_get_def present_def)

lemma demo_fresh: "fresh_id (en_redis demo_engine) [] t nid"
  by (simp add: fresh_id_def demo_engine_def mem_redis_def mem_get_def)

lemma demo_first: "fu_decision (snd (process demo_engine [] 0 ''i1'' demo_alert)) \<noteq> DUPLICATE"
proof -
  have "is_duplicate (en_redis demo_engine) [] 0 demo_alert = (False, None)"
    by (simp add: is_duplicate_def demo_engine_def mem_redis_def mem_get_def present_def)
  then show ?thesis by (simp add: process_decision(1) [OF demo_engine_laws(3)])
qed

subsection \<open>Properties\<close>

text \<open>
  The fingerprint is the identity of an alert: two alerts have the same fingerprint exactly
  when they agree on tenant, source, title, addresses, host, user, file hash and the sorted list
  of techniques, or their canonical JSON texts are a SHA-256 collision.
\<close>

theorem fingerprint_identity:
  "fingerprint a = fingerprint b \<longleftrightarrow> same_identity a b
     \<or> sha_collision (json_dumps_sorted (fingerprint_fields a)) (json_dumps_sorted (fingerprint_fields b))"
  using fingerprint_eqD same_identity_fingerprint
  by (auto simp: sha_collision_def fingerprint_def)

text \<open>
  C25.  Duplicates are suppressed for exactly the deduplication window, which does not slide:
  after an alert was accepted at a time, whatever other alerts the engine processes in between,
  an alert with the same fingerprint within 300 seconds is a duplicate of the first one, opens no
  incident and changes nothing in the store; and if only repetitions of it arrived in between,
  the first one after the window is accepted again.
\<close>

theorem dedup_window:
  assumes "ttl_laws (en_redis e)" "scorer_laws e" "al_id a \<noteq> []"
    and "fu_decision (snd (process e s t0 nid a)) \<noteq> DUPLICATE"
    and "sorted (t0 # map fst calls @ [t])" "fingerprint b = fingerprint a"
    and "s1 = run_engine e (fst (process e s t0 nid a)) calls"
  shows "(t < t0 + 300 \<longrightarrow> fu_decision (snd (process e s1 t nid' b)) = DUPLICATE
        \<and> fu_duplicate_of (snd (process e s1 t nid' b)) = Some (al_id a)
        \<and> fst (process e s1 t nid' b) = s1)
    \<and> (t0 + 300 \<le> t \<and> (\<forall>c \<in> set calls. fst c < t0 + 300 \<and> fingerprint (snd (snd c)) = fingerprint a)
        \<longrightarrow> fu_decision (snd (process e s1 t nid' b)) \<noteq> DUPLICATE)"
proof -
  let ?s0 = "fst (process e s t0 nid a)"
  have nd: "\<not> fst (is_duplicate (en_redis e) s t0 a)"
    using assms(4) by (auto simp: process_decision(1) [OF assms(2)])
  have g0: "rd_get (en_redis e) ?s0 u (dedup_key a) = (if u < t0 + 300 then Some (al_id a) else None)"
    if "t0 \<le> u" for u
    using process_dedup [OF assms(1,2) that, of s nid a a] nd by (simp add: dedup_window_seconds_def)
  have in_window: "fst (is_duplicate (en_redis e) s1 t b) \<and> snd (is_duplicate (en_redis e) s1 t b) = Some (al_id a)"
    if "t < t0 + 300"
  proof -
    have "\<forall>u. t0 \<le> u \<and> u < t0 + 300 \<longrightarrow> rd_get (en_redis e) ?s0 u (dedup_key a) = Some (al_id a)"
      using g0 by simp
    moreover have "\<forall>c \<in> set calls. fst c < t0 + 300"
      using assms(5) that by (force simp: sorted_append)
    ultimately have "\<forall>u. (case calls of [] \<Rightarrow> t0 | _ \<Rightarrow> fst (last calls)) \<le> u \<and> u < t0 + 300 \<longrightarrow>
      rd_get (en_redis e) s1 u (dedup_key a) = Some (al_id a)"
      unfolding assms(7) using assms(5) by (intro run_keeps_dedup [OF assms(1-3)]) (auto simp: sorted_append)
    moreover have "(case calls of [] \<Rightarrow> t0 | _ \<Rightarrow> fst (last calls)) \<le> t"
      using assms(5) by (auto simp: sorted_append split: list.split)
    ultimately have "rd_get (en_redis e) s1 t (dedup_key a) = Some (al_id a)" using that by blast
    then show ?thesis using assms(3,6) by (simp add: is_duplicate_def present_def)
  qed
  have same: "run_engine e ?s0 calls = ?s0"
    if "\<forall>c \<in> set calls. fst c < t0 + 300 \<and> fingerprint (snd (snd c)) = fingerprint a"
  proof -
    have "cs \<noteq> [] \<longrightarrow> True \<Longrightarrow> set cs \<subseteq> set calls \<Longrightarrow> run_engine e ?s0 cs = ?s0" for cs
    proof (induction cs)
      case (Cons c cs)
      obtain u n x where c: "c = (u, n, x)" by (cases c)
      have "fst c < t0 + 300 \<and> fingerprint (snd (snd c)) = fingerprint a \<and> t0 \<le> fst c"
        using Cons.prems that assms(5) by auto
      then have "fst (is_duplicate (en_redis e) ?s0 u x)"
        using g0 assms(3) by (simp add: c is_duplicate_def present_def)
      then show ?case using Cons by (simp add: c process_decision(4) [OF assms(2)])
    qed simp
    then show ?thesis by blast
  qed
  have after: "\<not> fst (is_duplicate (en_redis e) s1 t b)"
    if "t0 + 300 \<le> t" "\<forall>c \<in> set calls. fst c < t0 + 300 \<and> fingerprint (snd (snd c)) = fingerprint a"
    using g0 [of t] that same assms(6,7) by (simp add: is_duplicate_def present_def)
  show ?thesis
    using in_window after by (auto simp: process_decision [OF assms(2)])
qed

lemma dedup_window_witness:
  "fu_duplicate_of (snd (process demo_engine (fst (process demo_engine [] 0 ''i1'' demo_alert)) 299 ''i2''
     (demo_alert\<lparr>al_id := ''a2'', al_description := ''again''\<rparr>))) = Some ''a1''"
proof -
  note demo_first
  moreover have "fingerprint (demo_alert\<lparr>al_id := ''a2'', al_description := ''again''\<rparr>) = fingerprint demo_alert"
    by (rule same_identity_fingerprint) (simp add: same_identity_def)
  ultimately show ?thesis
    using dedup_window [OF demo_engine_laws(1,3), of demo_alert "[]" 0 "''i1''" "[]" 299 _ _ "''i2''"]
    by (simp add: demo_alert_def)
qed

text \<open>
  C19.  Incidents stay consistent and never mix tenants: along any run of the engine, every stored
  incident counts its alert ids, holds between 1 and 500 of them and lists each entity once; and
  an alert that is not a duplicate ends in an incident of its own tenant that lists the alert and
  its correlation key and is at least as severe as the alert.
\<close>

theorem incidents_consistent:
  assumes "ttl_laws (en_redis e)" "codec_laws (en_redis e)" "scorer_laws e"
    and "store_ok (en_redis e) s t0" "run_ok e s t0 (calls @ [(t, nid, a)])"
    and "s1 = run_engine e s calls"
    and "fu_decision (snd (process e s1 t nid a)) \<noteq> DUPLICATE"
  shows "store_ok (en_redis e) (fst (process e s1 t nid a)) t
    \<and> (\<exists>i. fu_incident_id (snd (process e s1 t nid a)) = Some (in_id i)
        \<and> load_incident (en_redis e) (fst (process e s1 t nid a)) t (in_id i) = Some i
        \<and> incident_ok i \<and> in_tenant_id i = al_tenant_id a \<and> al_id a \<in> set (in_alert_ids i)
        \<and> correlation_key a \<in> set (in_correlation_keys i)
        \<and> SEVERITY_ORDER (al_severity a) \<le> SEVERITY_ORDER (in_severity i))"
proof -
  have run: "run_ok e s t0 calls" "last (t0 # map fst calls) \<le> t" and fresh: "fresh_id (en_redis e) s1 t nid"
    and colon: "CHR '':'' \<notin> set (al_tenant_id a)"
    using assms(5,6) by (simp_all add: run_ok_snoc)
  have ok: "store_ok (en_redis e) s1 t"
    unfolding assms(6) by (rule store_ok_later [OF run_store_ok [OF assms(1-4) run(1)] run(2)])
  have nd: "\<not> fst (is_duplicate (en_redis e) s1 t a)"
    using assms(7) by (auto simp: process_decision(1) [OF assms(3)])
  obtain s2 m i where c: "correlate (en_redis e) (register (en_redis e) s1 t a) t nid a = (s2, m, i)"
    by (cases "correlate (en_redis e) (register (en_redis e) s1 t a) t nid a") auto
  note res = correlate_ok [OF assms(1,2) register_store_ok [OF assms(1) ok]
      register_fresh [OF assms(1) fresh] colon c]
  have "load_incident (en_redis e) s2 t (in_id i) = Some i"
    using c load_save [OF assms(1,2)] load_set_index [OF assms(1)]
    by (auto simp: correlate_def Let_def correlation_window_seconds_def split: option.splits if_splits)
  with res nd c show ?thesis
    by (auto simp: process_decision(3,4) [OF assms(3)])
qed

lemma incidents_consistent_witness:
  "\<exists>i :: incident. fu_incident_id (snd (process demo_engine [] 0 ''i1'' demo_alert)) = Some (in_id i)
     \<and> in_tenant_id i = al_tenant_id demo_alert \<and> al_id demo_alert \<in> set (in_alert_ids i)"
proof -
  have run: "run_ok demo_engine [] 0 ([] @ [(0, ''i1'', demo_alert)])"
    by (simp add: demo_fresh demo_alert_def)
  have "[] = run_engine demo_engine [] []" by simp
  from incidents_consistent [OF demo_engine_laws demo_store_ok run this demo_first]
  show ?thesis by blast
qed

end
