(* ===== verification/Fusion_Narrative.thy ===== *)
theory Fusion_Narrative
  imports Fusion_Engine
begin

text \<open>
  The correlation narrative (\<open>services/fusion/app/services/narrative.py\<close>): a pure function from
  the adapter's inputs to text.  Two characters of the text lie outside Latin-1, the dash and the
  minus sign; they are written as the bytes of their UTF-8 encoding.
\<close>

definition EM_DASH :: string where
  "EM_DASH = [CHR 0xE2, CHR 0x80, CHR 0x94]"

definition MINUS_SIGN :: string where
  "MINUS_SIGN = [CHR 0xE2, CHR 0x88, CHR 0x92]"

definition NL :: string where
  "NL = [CHR 0x0A]"

definition RECOMMENDED_ACTIONS :: "((string \<times> string) \<times> string) list" where
  "RECOMMENDED_ACTIONS = [
     ((''critical'', ''initial-access''), ''Isolate the affected host and revoke the impacted user'' @ [CHR 0x27] @ ''s sessions immediately.''),
     ((''critical'', ''execution''), ''Isolate the host, snapshot volatile memory, and trigger the incident response playbook.''),
     ((''critical'', ''persistence''), ''Isolate the host and rotate any credentials with access to the persistence mechanism.''),
     ((''critical'', ''privilege-escalation''), ''Quarantine the host and audit privileged-group membership changes in the last 24h.''),
     ((''critical'', ''defense-evasion''), ''Isolate the host and validate EDR/AV state on every endpoint sharing the same image.''),
     ((''critical'', ''credential-access''), ''Force a password reset and revoke active sessions for every affected identity.''),
     ((''critical'', ''discovery''), ''Isolate the host and review authentication logs for lateral pivot attempts.''),
     ((''critical'', ''lateral-movement''), ''Quarantine the source and destination hosts; block the SMB/RDP path between them.''),
     ((''critical'', ''collection''), ''Isolate the host, preserve the staged data, and notify Legal/DPO of potential exfil.''),
     ((''critical'', ''exfiltration''), ''Block the destination at the egress firewall, isolate the source, and start IR.''),
     ((''critical'', ''impact''), ''Activate the disaster-recovery runbook and isolate every host in the blast radius.''),
     ((''critical'', ''command-and-control''), ''Block the C2 destination at the firewall and isolate the beaconing host.''),
     ((''high'', ''initial-access''), ''Investigate the auth/login chain; suspend the user pending verification.''),
     ((''high'', ''execution''), ''Triage the process tree and quarantine the binary if it is unsigned or rare.''),
     ((''high'', ''persistence''), ''Inspect autoruns / scheduled tasks on the host and capture the persistence artifact.''),
     ((''high'', ''privilege-escalation''), ''Review the privilege change chain and validate it against the change calendar.''),
     ((''high'', ''defense-evasion''), ''Verify EDR is healthy on the host and compare to a known-good baseline.''),
     ((''high'', ''credential-access''), ''Force a password rotation for the affected identity and review session activity.''),
     ((''high'', ''discovery''), ''Pull recon-related telemetry and check for follow-on lateral movement.''),
     ((''high'', ''lateral-movement''), ''Audit recent authentication on the destination host and block stale credentials.''),
     ((''high'', ''collection''), ''Snapshot the staged artifacts and review who else accessed the same data store.''),
     ((''high'', ''exfiltration''), ''Rate-limit the destination and confirm whether the upload is sanctioned.''),
     ((''high'', ''impact''), ''Verify backup integrity and tighten access to the impacted system.''),
     ((''high'', ''command-and-control''), ''Sinkhole the destination and inspect outbound DNS from the host.''),
     ((''medium'', ''*''), ''Triage the alert in the queue: confirm whether the activity is sanctioned before escalating.''),
     ((''low'', ''*''), ''Acknowledge in the queue; suppress if this is a known benign pattern.''),
     ((''info'', ''*''), ''Informational '' @ EM_DASH @ '' review during the next batch tuning pass.'')
   ]"

definition DEFAULT_ACTION :: string where
  "DEFAULT_ACTION = ''Triage the alert in the queue and validate the supporting evidence before escalating.''"

definition BULLET :: string where
  "BULLET = ''- ''"

definition nf_impact :: "narrative_factor \<Rightarrow> rat" where
  "nf_impact f = nf_contribution f * nf_weight f"

text \<open>\<open>s.capitalize()\<close>, and \<open>f"{x:.0f}"\<close> of a non-negative number.\<close>

definition capitalize :: "string \<Rightarrow> string" where
  "capitalize s = (case s of [] \<Rightarrow> [] | c # cs \<Rightarrow> upper_char c # lower cs)"

definition fmt0 :: "real \<Rightarrow> string" where
  "fmt0 x = (let f = \<lfloor>x\<rfloor>; d = x - of_int f in
     int_str (if d < 1 / 2 then f else if 1 / 2 < d then f + 1 else if even f then f else f + 1))"

definition present_text :: "string option \<Rightarrow> bool" where
  "present_text v \<longleftrightarrow> v \<noteq> None \<and> v \<noteq> Some []"

definition primary_entity :: "narrative_inputs \<Rightarrow> string option" where
  "primary_entity n =
     (case filter present_text [ni_src_ip n, ni_hostname n, ni_username n, ni_domain n, ni_url n, ni_dst_ip n, ni_file_hash n] of
        [] \<Rightarrow> None | v # _ \<Rightarrow> v)"

definition rstrip_dots :: "string \<Rightarrow> string" where
  "rstrip_dots s = rev (dropWhile (\<lambda>c. c = CHR ''.'') (rev s))"

definition summary_block :: "narrative_inputs \<Rightarrow> string" where
  "summary_block n =
     (let severity_word = (if ni_severity n \<noteq> [] then capitalize (ni_severity n) else ''Unknown'');
          pieces = [''**'' @ severity_word @ ''** alert: '' @ strip (ni_title n)]
            @ (case primary_entity n of None \<Rightarrow> [] | Some e \<Rightarrow> [''on **'' @ e @ ''**''])
            @ (case ni_source n of None \<Rightarrow> [] | Some s \<Rightarrow> if s = [] then [] else [''from `'' @ s @ ''`''])
      in rstrip_dots (join_with '' '' pieces) @ ''.'')"

text \<open>The loop that selects at most four factors.\<close>

fun keep_factors :: "narrative_factor list \<Rightarrow> narrative_factor list \<Rightarrow> narrative_factor list" where
  "keep_factors keep [] = keep"
| "keep_factors keep (f # fs) =
     (if 4 \<le> length keep then keep
      else if keep \<noteq> [] \<and> round_half_even (\<bar>nf_impact f\<bar> * 1000) = 0 then keep_factors keep fs
      else keep_factors (keep @ [f]) fs)"

definition kept_factors :: "narrative_factor list \<Rightarrow> narrative_factor list" where
  "kept_factors fs = keep_factors [] (sort_key (\<lambda>f. - \<bar>nf_impact f\<bar>) fs)"

definition factor_line :: "narrative_factor \<Rightarrow> string" where
  "factor_line f = BULLET @ (if 0 \<le> nf_contribution f then ''+'' else MINUS_SIGN) @ '' **'' @ nf_label f @ ''** ''
     @ EM_DASH @ '' '' @ nf_value f"

definition confidence_lines :: "narrative_inputs \<Rightarrow> string list" where
  "confidence_lines n =
     (case (ni_confidence n, ni_confidence_label n) of
        (Some c, Some l) \<Rightarrow> [BULLET @ ''Confidence: **'' @ l @ ''** ('' @ int_str c @ ''/100)'']
      | (Some c, None) \<Rightarrow> [BULLET @ ''Confidence: **'' @ int_str c @ ''/100**'']
      | (None, Some l) \<Rightarrow> [BULLET @ ''Confidence: **'' @ l @ ''**'']
      | (None, None) \<Rightarrow> [])"

definition rationale_block :: "narrative_inputs \<Rightarrow> string option" where
  "rationale_block n =
     (if kept_factors (ni_rationale n) = [] then None
      else Some (join_with NL (''Why we believe it:'' # map factor_line (kept_factors (ni_rationale n)) @ confidence_lines n)))"

definition correlation_pieces :: "narrative_inputs \<Rightarrow> string list" where
  "correlation_pieces n =
     (case ni_incident_alert_count n of
        Some k \<Rightarrow> if ni_correlation_decision n = Some ''correlated'' \<and> 1 < k
            then [''Correlated activity: this alert is part of an incident with **'' @ nat_str k @ ''** related alerts.'']
            else if ni_correlation_decision n = Some ''new_incident''
            then [''Correlated activity: this is the **first** alert on a newly opened incident.''] else []
      | None \<Rightarrow> if ni_correlation_decision n = Some ''new_incident''
            then [''Correlated activity: this is the **first** alert on a newly opened incident.''] else [])
     @ (case (ni_rba_entity n, ni_rba_score n) of
          (Some e, Some x) \<Rightarrow> if e = [] then []
            else [''Risk-based alerting has accumulated **'' @ fmt0 x @ ''** points on `'' @ e @ ''` before this alert fired.'']
        | _ \<Rightarrow> [])
     @ (if ni_exploit_in_wild n
        then [''**Exploit-in-wild**: one of the indicators on this alert matches an asset vulnerability marked as actively exploited.'']
        else [])"

definition correlation_block :: "narrative_inputs \<Rightarrow> string option" where
  "correlation_block n = (if correlation_pieces n = [] then None else Some (join_with '' '' (correlation_pieces n)))"

definition recommended_action :: "narrative_inputs \<Rightarrow> string" where
  "recommended_action n =
     (let severity = (if ni_severity n \<noteq> [] then ni_severity n else ''medium'');
          tactic = (case ni_mitre_tactics n of [] \<Rightarrow> ''*'' | t # _ \<Rightarrow> lower t)
      in case dict_get RECOMMENDED_ACTIONS (severity, tactic) of
           Some action \<Rightarrow> action
         | None \<Rightarrow> (case dict_get RECOMMENDED_ACTIONS (severity, ''*'') of Some action \<Rightarrow> action | None \<Rightarrow> DEFAULT_ACTION))"

definition action_block :: "narrative_inputs \<Rightarrow> string" where
  "action_block n = ''Recommended next step:'' @ NL @ BULLET @ recommended_action n"

definition narrative_blocks :: "narrative_inputs \<Rightarrow> string list" where
  "narrative_blocks n =
     [summary_block n]
     @ (case rationale_block n of None \<Rightarrow> [] | Some b \<Rightarrow> if b = [] then [] else [b])
     @ (case correlation_block n of None \<Rightarrow> [] | Some b \<Rightarrow> if b = [] then [] else [b])
     @ [action_block n]"

definition build_narrative :: "narrative_inputs \<Rightarrow> string" where
  "build_narrative n = join_with (NL @ NL) (narrative_blocks n)"

subsection \<open>Lemmas\<close>

definition negligible :: "narrative_factor \<Rightarrow> bool" where
  "negligible f \<longleftrightarrow> round_half_even (\<bar>nf_impact f\<bar> * 1000) = 0"

lemma keep_factors_props:
  "\<exists>rest. keep_factors keep fs = keep @ rest \<and> subseq rest fs"
proof (induction fs arbitrary: keep)
  case (Cons f fs)
  obtain rest where "keep_factors (keep @ [f]) fs = (keep @ [f]) @ rest" "subseq rest fs" using Cons by blast
  then have "keep_factors (keep @ [f]) fs = keep @ (f # rest) \<and> subseq (f # rest) (f # fs)" by simp
  then have "\<exists>r. keep_factors (keep @ [f]) fs = keep @ r \<and> subseq r (f # fs)" by blast
  moreover have "\<exists>r. keep_factors keep fs = keep @ r \<and> subseq r (f # fs)" using Cons [of keep] by auto
  ultimately show ?case by simp
qed simp

lemma keep_factors_length: "length keep \<le> 4 \<Longrightarrow> length (keep_factors keep fs) \<le> 4"
  by (induction fs arbitrary: keep) auto

lemma keep_factors_dropped:
  "sorted_wrt (\<lambda>f g. \<bar>nf_impact g\<bar> \<le> \<bar>nf_impact f\<bar>) (keep @ fs) \<Longrightarrow> f \<in> set fs \<Longrightarrow> f \<notin> set (keep_factors keep fs) \<Longrightarrow>
   negligible f \<or> 4 \<le> length (keep_factors keep fs) \<and> (\<forall>k \<in> set (keep_factors keep fs). \<bar>nf_impact f\<bar> \<le> \<bar>nf_impact k\<bar>)"
proof (induction fs arbitrary: keep)
  case (Cons g fs)
  show ?case
  proof (cases "4 \<le> length keep")
    case True
    with Cons.prems show ?thesis by (auto simp: sorted_wrt_append)
  next
    case False
    show ?thesis
    proof (cases "keep \<noteq> [] \<and> round_half_even (\<bar>nf_impact g\<bar> * 1000) = 0")
      case True
      have "sorted_wrt (\<lambda>f g. \<bar>nf_impact g\<bar> \<le> \<bar>nf_impact f\<bar>) (keep @ fs)"
        using Cons.prems(1) by (auto simp: sorted_wrt_append)
      with True False Cons.IH [OF this] Cons.prems(2,3) show ?thesis by (auto simp: negligible_def)
    next
      case keepit: False
      have s: "sorted_wrt (\<lambda>f g. \<bar>nf_impact g\<bar> \<le> \<bar>nf_impact f\<bar>) ((keep @ [g]) @ fs)"
        using Cons.prems(1) by simp
      obtain rest where r: "keep_factors (keep @ [g]) fs = (keep @ [g]) @ rest"
        using keep_factors_props by blast
      have k: "keep_factors keep (g # fs) = keep_factors (keep @ [g]) fs" using False keepit by auto
      have "f \<in> set fs" using Cons.prems(2,3) k r by auto
      with Cons.IH [OF s this] Cons.prems(3) k show ?thesis by simp
    qed
  qed
qed simp

lemma kept_sorted: "sorted_wrt (\<lambda>f g. \<bar>nf_impact g\<bar> \<le> \<bar>nf_impact f\<bar>) (sort_key (\<lambda>f. - \<bar>nf_impact f\<bar>) fs)"
  using sorted_sort_key [of "\<lambda>f. - \<bar>nf_impact f\<bar>" fs] by (simp add: sorted_wrt_map)

lemma kept_factors_Nil: "kept_factors fs = [] \<longleftrightarrow> fs = []"
proof (cases "sort_key (\<lambda>f. - \<bar>nf_impact f\<bar>) fs")
  case (Cons g gs)
  then have "fs \<noteq> []" by auto
  moreover have "kept_factors fs \<noteq> []"
    using keep_factors_props [of "[g]" gs] by (auto simp: kept_factors_def Cons)
  ultimately show ?thesis by simp
next
  case Nil
  then have "fs = []" by (metis length_0_conv length_sort)
  then show ?thesis by (simp add: kept_factors_def)
qed

lemma recommended_action_nonempty: "recommended_action n \<noteq> []"
proof -
  have "dict_get RECOMMENDED_ACTIONS k = Some a \<Longrightarrow> a \<noteq> []" for k a
    by (drule dict_get_SomeD) (auto simp: RECOMMENDED_ACTIONS_def)
  moreover have "DEFAULT_ACTION \<noteq> []" by (simp add: DEFAULT_ACTION_def)
  ultimately show ?thesis by (auto simp: recommended_action_def Let_def split: option.split)
qed

lemma rstrip_dots_append:
  assumes "p \<noteq> []" "last p \<noteq> CHR ''.''"
  shows "rstrip_dots (p @ u) = p @ rstrip_dots u"
proof -
  let ?D = "dropWhile (\<lambda>c. c = CHR ''.'')"
  have "?D (rev p) = rev p" using assms by (cases "rev p") (auto simp: hd_rev [symmetric])
  then have "?D (rev u @ rev p) = ?D (rev u) @ rev p" by (induction "rev u" arbitrary: u) (auto simp: dropWhile_append)
  then show ?thesis by (simp add: rstrip_dots_def)
qed

lemma join_with_head: "\<exists>v. join_with sep ((p @ u) # ps) = p @ v"
  by (cases ps) auto

lemma summary_shape: "startswith (summary_block n) ''**'' \<and> last (summary_block n) = CHR ''.''"
proof -
  have "startswith (rstrip_dots (join_with '' '' ((''**'' @ u) # ps)) @ ''.'') ''**''" for u ps
  proof -
    obtain v where "join_with '' '' ((''**'' @ u) # ps) = ''**'' @ v" using join_with_head by blast
    then show ?thesis using rstrip_dots_append [of "''**''" v] by (simp add: startswith_iff)
  qed
  then have "startswith (summary_block n) ''**''"
    unfolding summary_block_def Let_def append.simps .
  moreover have "last (summary_block n) = CHR ''.''"
    unfolding summary_block_def Let_def by (rule last_snoc)
  ultimately show ?thesis ..
qed

lemma correlation_piece_nonempty: "p \<in> set (correlation_pieces n) \<Longrightarrow> p \<noteq> []"
  by (auto simp: correlation_pieces_def split: option.splits if_splits)

lemma join_with_nonempty: "p \<noteq> [] \<Longrightarrow> join_with sep (p # ps) \<noteq> []"
  by (cases ps) auto

subsection \<open>Properties\<close>

text \<open>
  Every narrative has two to four non-empty blocks separated by blank lines, from a bold
  summary sentence to a recommended action; the rationale shows at most four factors, and a factor
  that is left out either rounds to no impact or is outweighed by each of the four that are shown.
\<close>

theorem narrative_shape:
  "build_narrative n = join_with (NL @ NL) (narrative_blocks n)
   \<and> 2 \<le> length (narrative_blocks n) \<and> length (narrative_blocks n) \<le> 4 \<and> [] \<notin> set (narrative_blocks n)
   \<and> startswith (hd (narrative_blocks n)) ''**'' \<and> last (hd (narrative_blocks n)) = CHR ''.''
   \<and> last (narrative_blocks n) = action_block n \<and> recommended_action n \<noteq> []
   \<and> (kept_factors (ni_rationale n) = [] \<longleftrightarrow> ni_rationale n = [])
   \<and> length (kept_factors (ni_rationale n)) \<le> 4
   \<and> (\<forall>f \<in> set (ni_rationale n) - set (kept_factors (ni_rationale n)). negligible f
       \<or> length (kept_factors (ni_rationale n)) = 4 \<and> (\<forall>k \<in> set (kept_factors (ni_rationale n)). \<bar>nf_impact f\<bar> \<le> \<bar>nf_impact k\<bar>))"
proof -
  have ne: "summary_block n \<noteq> []" "action_block n \<noteq> []"
    using summary_shape [of n] by (auto simp: action_block_def startswith_iff)
  have len: "length (kept_factors (ni_rationale n)) \<le> 4"
    unfolding kept_factors_def by (rule keep_factors_length) simp
  have drop: "negligible f \<or> length (kept_factors (ni_rationale n)) = 4
      \<and> (\<forall>k \<in> set (kept_factors (ni_rationale n)). \<bar>nf_impact f\<bar> \<le> \<bar>nf_impact k\<bar>)"
    if "f \<in> set (ni_rationale n) - set (kept_factors (ni_rationale n))" for f
    using keep_factors_dropped [of "[]" "sort_key (\<lambda>f. - \<bar>nf_impact f\<bar>) (ni_rationale n)" f] kept_sorted that len
    by (auto simp: kept_factors_def)
  have blocks: "2 \<le> length (narrative_blocks n) \<and> length (narrative_blocks n) \<le> 4 \<and> [] \<notin> set (narrative_blocks n)
      \<and> hd (narrative_blocks n) = summary_block n \<and> last (narrative_blocks n) = action_block n"
    using ne by (auto simp: narrative_blocks_def split: option.split)
  show ?thesis
    using blocks summary_shape [of n] recommended_action_nonempty [of n] kept_factors_Nil [of "ni_rationale n"] len drop
    unfolding build_narrative_def by simp
qed

lemma narrative_shape_witness:
  "length (narrative_blocks (to_narrative_inputs (new_fused (demo_risk_alert 1) None NEW_INCIDENT None)
     (create_incident ''i1'' (demo_risk_alert 1)) None)) \<le> 4"
  using narrative_shape by blast

text \<open>
  The narrative and the correlation key name the same entity, as the source promises, exactly
  as long as the alert has a source address, a host, a user or a domain; an alert that only has a
  URL, a destination or a file hash is keyed as unknown while its narrative names that entity.
\<close>

theorem narrative_entity_agrees:
  "(\<exists>e. primary_entity (to_narrative_inputs f i p) = Some e
        \<and> (if list_ex present_text [al_src_ip (fu_alert f), al_hostname (fu_alert f), al_username (fu_alert f), al_domain (fu_alert f)]
           then startswith (correlation_key (fu_alert f)) (al_tenant_id (fu_alert f) @ '':'' @ e @ '':'')
           else startswith (correlation_key (fu_alert f)) (al_tenant_id (fu_alert f) @ '':unknown:'')))
   \<longleftrightarrow> list_ex present_text (ioc_fields (fu_alert f))"
proof -
  let ?a = "fu_alert f"
  have some: "present_text v \<longleftrightarrow> (\<exists>s. v = Some s \<and> s \<noteq> [])" for v by (auto simp: present_text_def)
  have hit: "v \<in> set xs \<and> (\<exists>s. v = Some s \<and> s \<noteq> [])" if "filter present_text xs = v # vs" for xs v vs
    using filter_eq_ConsD [OF that] by (auto simp: some)
  have ft: "first_text vs d = (case filter present_text vs of [] \<Rightarrow> d | v # _ \<Rightarrow> the v)" for vs d
    by (induction vs) (auto simp: present_text_def split: option.split)
  let ?four = "[al_src_ip ?a, al_hostname ?a, al_username ?a, al_domain ?a]"
  let ?rest = "[al_url ?a, al_dst_ip ?a, al_file_hash ?a]"
  have pe: "primary_entity (to_narrative_inputs f i p) = (case filter present_text (?four @ ?rest) of [] \<Rightarrow> None | v # _ \<Rightarrow> v)"
    by (simp add: primary_entity_def to_narrative_inputs_def Let_def)
  have ioc: "list_ex present_text (ioc_fields ?a) \<longleftrightarrow> filter present_text (?four @ ?rest) \<noteq> []"
    by (auto simp: ioc_fields_def filter_empty_conv)
  have key: "startswith (correlation_key ?a) (al_tenant_id ?a @ '':'' @ first_text ?four ''unknown'' @ '':'')"
    by (simp add: correlation_key_def Let_def startswith_iff)
  show ?thesis
  proof (cases "filter present_text ?four")
    case (Cons v vs)
    then obtain s where v: "v \<in> set ?four" "v = Some s" "s \<noteq> []" using hit by blast
    have "primary_entity (to_narrative_inputs f i p) = Some s" unfolding pe filter_append Cons by (simp add: v(2))
    moreover have "first_text ?four ''unknown'' = s" unfolding ft Cons by (simp add: v(2))
    moreover have "list_ex present_text ?four" unfolding list_ex_iff using v some by blast
    moreover have "list_ex present_text (ioc_fields ?a)" unfolding ioc filter_append Cons by simp
    ultimately show ?thesis using key by auto
  next
    case Nil
    then have n: "\<not> list_ex present_text ?four" unfolding list_ex_iff filter_empty_conv by blast
    have k: "startswith (correlation_key ?a) (al_tenant_id ?a @ '':unknown:'')" using key unfolding ft Nil by simp
    show ?thesis
    proof (cases "filter present_text ?rest")
      case (Cons v vs)
      then obtain s where v: "v = Some s" using hit by blast
      have "primary_entity (to_narrative_inputs f i p) = Some s" unfolding pe filter_append Nil Cons by (simp add: v)
      then show ?thesis using n k ioc Cons by (simp only: filter_append Nil) auto
    next
      case Nil2: Nil
      then show ?thesis using Nil ioc pe by (simp only: filter_append) simp
    qed
  qed
qed

end
