(* ===== verification/Fusion_Pipeline.thy ===== *)
theory Fusion_Pipeline
  imports Fusion_Narrative
begin

text \<open>
  The fusion service as it runs: the engine of \<open>Fusion_Engine\<close> with the entity risk engine and the
  narrative builder in the place of its parameters.  The state is the store of the deduplicator
  and correlator together with the risk store; a duplicate returns before the risk engine is asked.
\<close>

definition with_services :: "'s engine \<Rightarrow> risk_record list \<Rightarrow> 's engine" where
  "with_services e promoted =
     e\<lparr>en_entity_risk := Some (\<lambda>_. Inr promoted), en_build_narrative := (\<lambda>n. Inr (build_narrative n))\<rparr>"

definition process_alert ::
  "'s engine \<Rightarrow> risk_settings \<Rightarrow> 's \<times> risk_store \<Rightarrow> nat \<Rightarrow> string \<Rightarrow> raw_alert \<Rightarrow> ('s \<times> risk_store) \<times> fused_alert" where
  "process_alert e eng st now new_id a =
     (case st of (s, k) \<Rightarrow>
        if fst (is_duplicate (en_redis e) s now a)
        then (case process e s now new_id a of (s', f) \<Rightarrow> ((s', k), f))
        else (case observe eng now a k of (k', promoted) \<Rightarrow>
               (case process (with_services e promoted) s now new_id a of (s', f) \<Rightarrow> ((s', k'), f))))"

fun run_service :: "'s engine \<Rightarrow> risk_settings \<Rightarrow> 's \<times> risk_store \<Rightarrow> (nat \<times> string \<times> raw_alert) list \<Rightarrow> 's \<times> risk_store" where
  "run_service e eng st [] = st"
| "run_service e eng st ((now, new_id, a) # calls) = run_service e eng (fst (process_alert e eng st now new_id a)) calls"

lemma with_services_simps [simp]:
  "en_redis (with_services e p) = en_redis e" "en_ml_score (with_services e p) = en_ml_score e"
  "scorer_laws (with_services e p) \<longleftrightarrow> scorer_laws e"
  by (simp_all add: with_services_def scorer_laws_def)

lemma process_store_services [simp]:
  "fst (process (with_services e p) s now nid a) = fst (process e s now nid a)"
  by (simp add: process_def Let_def split: prod.split bool.split)

text \<open>The risk engine and the narrative do not influence what is stored about incidents.\<close>

lemma process_alert_store: "fst (fst (process_alert e eng (s, k) now nid a)) = fst (process e s now nid a)"
  by (simp add: process_alert_def split: prod.split)
    (metis fst_conv process_store_services)

lemma run_service_store: "fst (run_service e eng (s, k) calls) = run_engine e s calls"
proof (induction calls arbitrary: s k)
  case (Cons c calls)
  obtain now nid a where c: "c = (now, nid, a)" by (cases c)
  obtain s' k' where p: "fst (process_alert e eng (s, k) now nid a) = (s', k')" by fastforce
  then have "s' = fst (process e s now nid a)" using process_alert_store [of e eng s k now nid a] by simp
  with p Cons.IH [of s' k'] show ?case by (simp add: c)
qed simp

lemma top_record_in: "top_record b ps \<in> set (b # ps)"
  by (induction b ps rule: top_record.induct) auto

lemma top_record_max: "rr_score q \<le> rr_score (top_record b ps)" if "q \<in> set (b # ps)"
  using that
proof (induction b ps arbitrary: q rule: top_record.induct)
  case (2 best p ps)
  let ?m = "if rr_score best < rr_score p \<or> rr_score best = rr_score p \<and> rr_entity_value best < rr_entity_value p then p else best"
  have "rr_score best \<le> rr_score ?m" "rr_score p \<le> rr_score ?m" by auto
  moreover have "rr_score ?m \<le> rr_score (top_record ?m ps)" by (rule 2) simp
  ultimately have "rr_score best \<le> rr_score (top_record ?m ps)" "rr_score p \<le> rr_score (top_record ?m ps)" by linarith+
  with 2 show ?case by auto
qed simp

lemma process_narrative:
  assumes "\<not> fst (is_duplicate (en_redis e) s now a)"
  shows "\<exists>f i. fu_narrative (snd (process (with_services e promoted) s now nid a))
      = Some (build_narrative (to_narrative_inputs f i (top_promotion (with_services e promoted) a)))"
proof -
  obtain s2 m i where c: "correlate (en_redis e) (register (en_redis e) s now a) now nid a = (s2, m, i)"
    by (cases "correlate (en_redis e) (register (en_redis e) s now a) now nid a") auto
  obtain d where "is_duplicate (en_redis e) s now a = (False, d)"
    using assms by (cases "is_duplicate (en_redis e) s now a") auto
  with c show ?thesis
    by (auto simp: process_def Let_def with_services_def intro!: exI)
qed

lemma duplicate_state:
  "fst (is_duplicate (en_redis e) s now a) \<Longrightarrow> fst (process_alert e eng (s, k) now nid a) = (s, k)
     \<and> fu_narrative (snd (process_alert e eng (s, k) now nid a)) = None"
  by (cases "is_duplicate (en_redis e) s now a") (simp add: process_alert_def process_def new_fused_def)

lemma observe_highest:
  "top_promotion (with_services e promoted) a = (case promoted of [] \<Rightarrow> None | p # ps \<Rightarrow> Some (top_record p ps))"
  by (simp add: top_promotion_def with_services_def split: list.split)

lemma composed:
  "fst (run_service e eng (s, k) calls) = run_engine e s calls
   \<and> (if fst (is_duplicate (en_redis e) s now a)
      then fst (process_alert e eng (s, k) now nid a) = (s, k)
        \<and> fu_narrative (snd (process_alert e eng (s, k) now nid a)) = None
      else snd (fst (process_alert e eng (s, k) now nid a)) = fst (observe eng now a k)
        \<and> (\<exists>f i top. fu_narrative (snd (process_alert e eng (s, k) now nid a)) = Some (build_narrative (to_narrative_inputs f i top))
             \<and> (case snd (observe eng now a k) of
                  [] \<Rightarrow> top = None
                | ps \<Rightarrow> \<exists>p \<in> set ps. top = Some p \<and> list_all (\<lambda>q. rr_score q \<le> rr_score p) ps)))"
proof (cases "fst (is_duplicate (en_redis e) s now a)")
  case True
  then show ?thesis using duplicate_state [OF True] run_service_store by auto
next
  case False
  obtain k' ps where o: "observe eng now a k = (k', ps)" by (cases "observe eng now a k") auto
  obtain f i where n: "fu_narrative (snd (process (with_services e ps) s now nid a))
      = Some (build_narrative (to_narrative_inputs f i (top_promotion (with_services e ps) a)))"
    using process_narrative [OF False] by blast
  have pa: "snd (fst (process_alert e eng (s, k) now nid a)) = k'"
    "snd (process_alert e eng (s, k) now nid a) = snd (process (with_services e ps) s now nid a)"
    using False by (simp_all add: process_alert_def o split: prod.split)
  have "case ps of [] \<Rightarrow> top_promotion (with_services e ps) a = None
     | _ \<Rightarrow> \<exists>p \<in> set ps. top_promotion (with_services e ps) a = Some p \<and> list_all (\<lambda>q. rr_score q \<le> rr_score p) ps"
    using top_record_in top_record_max by (auto simp: observe_highest list_all_iff split: list.split)
  with False n pa show ?thesis by (auto simp: o run_service_store split: list.splits)
qed

lemma calls_out:
  assumes "rr_score p = 80" "fmt0 80 = ''80''"
  shows "list_ex (\<lambda>piece. substr_in ''accumulated **80** points'' piece \<and> substr_in ''before this alert fired'' piece)
    (correlation_pieces (to_narrative_inputs f i (Some p)))"
proof -
  let ?e = "rr_entity_type p @ '':'' @ rr_entity_value p"
  let ?piece = "''Risk-based alerting has accumulated **'' @ ''80'' @ ''** points on `'' @ ?e @ ''` before this alert fired.''"
  have "?piece = ''Risk-based alerting has '' @ ''accumulated **80** points'' @ ('' on `'' @ ?e @ ''` before this alert fired.'')"
    "?piece = (''Risk-based alerting has accumulated **80** points on `'' @ ?e @ ''` '') @ ''before this alert fired'' @ ''.''"
    by simp_all
  then have "substr_in ''accumulated **80** points'' ?piece" "substr_in ''before this alert fired'' ?piece"
    unfolding substr_in_iff by blast+
  moreover have "?piece \<in> set (correlation_pieces (to_narrative_inputs f i (Some p)))"
    using assms by (simp add: correlation_pieces_def to_narrative_inputs_def Let_def)
  ultimately show ?thesis unfolding list_ex_iff by blast
qed

subsection \<open>Properties\<close>


text \<open>
  The narrative counts an alert's own points as history: on a risk store that has never seen
  its entities, a critical alert with a vendor risk of one is reported as preceded by 80 points.
\<close>

theorem narrative_counts_own_points:
  assumes "al_severity a = CRITICAL" "1 \<le> al_risk_score a" "build_signals (risk_engine default_settings) a \<noteq> []"
    "\<not> fst (is_duplicate (en_redis e) s now a)"
  shows "\<exists>f i top. fu_narrative (snd (process_alert e (risk_engine default_settings) (s, empty_risk) now nid a))
      = Some (build_narrative (to_narrative_inputs f i (Some top)))
    \<and> rr_score top = 80 \<and> rr_alert_count top = 1
    \<and> list_ex (\<lambda>piece. substr_in ''accumulated **80** points'' piece \<and> substr_in ''before this alert fired'' piece)
        (correlation_pieces (to_narrative_inputs f i (Some top)))"
proof -
  let ?eng = "risk_engine default_settings"
  let ?o = "observe ?eng now a empty_risk"
  note pr = critical_promotes [OF assms(1,2), of now]
  have "snd ?o \<noteq> []" using pr assms(3) by auto
  moreover obtain f i top where t:
    "fu_narrative (snd (process_alert e ?eng (s, empty_risk) now nid a)) = Some (build_narrative (to_narrative_inputs f i top))"
    "case snd ?o of [] \<Rightarrow> top = None | ps \<Rightarrow> \<exists>p \<in> set ps. top = Some p \<and> list_all (\<lambda>q. rr_score q \<le> rr_score p) ps"
    using composed [of e ?eng s empty_risk "[]" now a nid] assms(4) by auto
  ultimately obtain p where p: "p \<in> set (snd ?o)" "top = Some p" by (auto split: list.splits)
  have "(rr_entity_type p, rr_entity_value p, rr_score p, rr_alert_count p)
      \<in> set (map (\<lambda>r. (rr_entity_type r, rr_entity_value r, rr_score r, rr_alert_count r)) (snd ?o))"
    using p(1) by auto
  then have fresh: "rr_score p = 80 \<and> rr_alert_count p = 1" unfolding pr by auto
  have "fmt0 80 = ''80''" by (simp add: fmt0_def int_str_def nat_str.simps digit_char_def) code_simp
  with fresh p(2) t(1) calls_out show ?thesis by blast
qed

lemma narrative_counts_own_points_witness:
  "\<exists>f i top. fu_narrative (snd (process_alert demo_engine (risk_engine default_settings) ([], empty_risk) 0 ''i1''
      (demo_alert\<lparr>al_severity := CRITICAL, al_risk_score := 1, al_hostname := Some ''ws1''\<rparr>)))
      = Some (build_narrative (to_narrative_inputs f i (Some top))) \<and> rr_score top = 80"
proof -
  let ?a = "demo_alert\<lparr>al_severity := CRITICAL, al_risk_score := 1, al_hostname := Some ''ws1''\<rparr>"
  have "\<not> fst (is_duplicate (en_redis demo_engine) [] 0 ?a)"
    by (simp add: is_duplicate_def demo_engine_def mem_redis_def mem_get_def present_def)
  moreover have "build_signals (risk_engine default_settings) ?a \<noteq> []"
    by (simp add: build_signals_def ENTITY_TYPES_def)
  ultimately show ?thesis
    using narrative_counts_own_points [of ?a demo_engine "[]" 0 "''i1''"] by (simp, blast)
qed

end
