(* ===== verification/Sigma_Condition.thy ===== *)
theory Sigma_Condition
  imports Py_Value
begin

text \<open>
  The condition language of the Sigma evaluator (\<open>services/api/app/services/rule_engine.py\<close>,
  \<open>_SigmaConditionParser\<close> and \<open>_eval_condition\<close>): tokenizer, recursive-descent evaluator and
  the fallback.  The recursion of the parser is driven by fuel; \<open>parse_fuel\<close> is always enough
  (lemma \<open>fuel_enough\<close>), so running out is never the result.
\<close>

subsection \<open>Tokens\<close>

datatype parse_error = OutOfFuel | ParseError

definition is_word_start :: "char \<Rightarrow> bool" where
  "is_word_start c \<longleftrightarrow> is_upper c \<or> is_lower c \<or> is_digit c \<or> c = CHR ''_''"

definition is_word_char :: "char \<Rightarrow> bool" where
  "is_word_char c \<longleftrightarrow> is_word_start c \<or> c = CHR ''*''"

function tokenize :: "string \<Rightarrow> parse_error + string list" where
  "tokenize s =
     (case s of
        [] \<Rightarrow> Inr []
      | c # cs \<Rightarrow>
          if is_space c then tokenize cs
          else if c = CHR ''('' then bind_res (tokenize cs) (\<lambda>ts. Inr (''('' # ts))
          else if c = CHR '')'' then bind_res (tokenize cs) (\<lambda>ts. Inr ('')'' # ts))
          else if is_word_start c
          then bind_res (tokenize (dropWhile is_word_char cs)) (\<lambda>ts. Inr ((c # takeWhile is_word_char cs) # ts))
          else Inl ParseError)"
  by pat_completeness auto
termination
  by (relation "measure length") (auto simp: le_imp_less_Suc length_dropWhile_le)

declare tokenize.simps [simp del]

subsection \<open>Quantifiers\<close>

type_synonym selections = "(string \<times> bool) list"

text \<open>The anchored pattern: \<open>.*\<close> does not cross a newline, \<open>$\<close> also matches before a final one.\<close>

fun glob_match :: "string \<Rightarrow> string \<Rightarrow> bool" where
  "glob_match [] s = (s = [] \<or> s = [CHR 0x0A])"
| "glob_match (p # ps) [] = (p = CHR ''*'' \<and> glob_match ps [])"
| "glob_match (p # ps) (c # cs) =
     (if p = CHR ''*'' then glob_match ps (c # cs) \<or> (c \<noteq> CHR 0x0A \<and> glob_match (p # ps) cs)
      else p = c \<and> glob_match ps cs)"

definition evaluate_quantifier :: "selections \<Rightarrow> string \<Rightarrow> string \<Rightarrow> bool" where
  "evaluate_quantifier sels quantifier pattern =
     (let vs = (if pattern = ''them'' then map snd sels
                else if CHR ''*'' \<in> set pattern then map snd (filter (\<lambda>(name, v). glob_match pattern name) sels)
                else [case dict_get sels pattern of None \<Rightarrow> False | Some v \<Rightarrow> v])
      in if vs = [] then False else if quantifier = ''1'' then list_ex id vs else list_all id vs)"

subsection \<open>The grammar\<close>

definition tok_is :: "string \<Rightarrow> string list \<Rightarrow> bool" where
  "tok_is w ts \<longleftrightarrow> ts \<noteq> [] \<and> lower (hd ts) = w"

type_synonym parsed = "parse_error + bool \<times> string list"

text \<open>One constructor per method; the two \<open>while\<close> loops carry their accumulator.\<close>

datatype parser_fun = ParseOr | OrLoop bool | ParseAnd | AndLoop bool | ParseNot | ParseAtom

primrec parse :: "nat \<Rightarrow> selections \<Rightarrow> parser_fun \<Rightarrow> string list \<Rightarrow> parsed" where
  "parse 0 sels m ts = Inl OutOfFuel"
| "parse (Suc n) sels m ts =
     (case m of
        ParseOr \<Rightarrow> bind_res (parse n sels ParseAnd ts) (\<lambda>(left, ts'). parse n sels (OrLoop left) ts')
      | OrLoop left \<Rightarrow>
          if tok_is ''or'' ts
          then bind_res (parse n sels ParseAnd (tl ts)) (\<lambda>(right, ts').
                 parse n sels (OrLoop (left \<or> right)) ts')
          else Inr (left, ts)
      | ParseAnd \<Rightarrow> bind_res (parse n sels ParseNot ts) (\<lambda>(left, ts'). parse n sels (AndLoop left) ts')
      | AndLoop left \<Rightarrow>
          if tok_is ''and'' ts
          then bind_res (parse n sels ParseNot (tl ts)) (\<lambda>(right, ts').
                 parse n sels (AndLoop (left \<and> right)) ts')
          else Inr (left, ts)
      | ParseNot \<Rightarrow>
          if tok_is ''not'' ts
          then bind_res (parse n sels ParseNot (tl ts)) (\<lambda>(v, ts'). Inr (\<not> v, ts'))
          else parse n sels ParseAtom ts
      | ParseAtom \<Rightarrow>
          (case ts of
             [] \<Rightarrow> Inl ParseError
           | tok # rest \<Rightarrow>
               if tok = ''(''
               then bind_res (parse n sels ParseOr rest) (\<lambda>(v, ts').
                      if tok_is '')'' ts' then Inr (v, tl ts') else Inl ParseError)
               else let lowered = lower tok in
                 if (lowered = ''1'' \<or> lowered = ''all'') \<and> tok_is ''of'' rest
                 then (case tl rest of
                     [] \<Rightarrow> Inl ParseError
                   | pattern_tok # ts' \<Rightarrow>
                       if pattern_tok = ''('' \<or> pattern_tok = '')'' then Inl ParseError
                       else Inr (evaluate_quantifier sels lowered pattern_tok, ts'))
                 else if lowered = ''true'' then Inr (True, rest)
                 else if lowered = ''false'' then Inr (False, rest)
                 else Inr (case dict_get sels tok of None \<Rightarrow> False | Some v \<Rightarrow> v, rest)))"

definition parse_fuel :: "string list \<Rightarrow> nat" where
  "parse_fuel ts = 4 * length ts + 4"

definition parse_condition :: "selections \<Rightarrow> string list \<Rightarrow> parse_error + bool" where
  "parse_condition sels ts =
     bind_res (parse (parse_fuel ts) sels ParseOr ts) (\<lambda>(v, ts'). if ts' = [] then Inr v else Inl ParseError)"

definition eval_condition :: "string \<Rightarrow> selections \<Rightarrow> bool" where
  "eval_condition condition sels =
     (case bind_res (tokenize (strip condition)) (parse_condition sels) of
        Inr v \<Rightarrow> v
      | Inl _ \<Rightarrow> (if sels = [] then False else list_all (\<lambda>(name, v). v) sels))"

subsection \<open>Fuel\<close>

lemma tok_is_tl: "tok_is w ts \<Longrightarrow> Suc (length (tl ts)) = length ts"
  by (cases ts) (auto simp: tok_is_def)

text \<open>Success consumes a token (the loops may consume none).\<close>

fun min_consumed :: "parser_fun \<Rightarrow> nat" where
  "min_consumed (OrLoop b) = 0" | "min_consumed (AndLoop b) = 0" | "min_consumed m = 1"

lemma parse_consumes: "parse n sels m ts = Inr (v, r) \<Longrightarrow> length r + min_consumed m \<le> length ts"
proof (induction n arbitrary: m ts v r)
  case (Suc n)
  show ?case
  proof (cases m)
    case ParseOr
    with Suc.prems obtain l ts' where "parse n sels ParseAnd ts = Inr (l, ts')"
      "parse n sels (OrLoop l) ts' = Inr (v, r)" by auto
    then show ?thesis using Suc.IH [of ParseAnd ts l ts'] Suc.IH [of "OrLoop l" ts' v r] ParseOr by simp
  next
    case (OrLoop l)
    show ?thesis
    proof (cases "tok_is ''or'' ts")
      case True
      with Suc.prems OrLoop obtain x ts' where "parse n sels ParseAnd (tl ts) = Inr (x, ts')"
        "parse n sels (OrLoop (l \<or> x)) ts' = Inr (v, r)" by auto
      then show ?thesis using Suc.IH [of ParseAnd "tl ts" x ts'] Suc.IH [of "OrLoop (l \<or> x)" ts' v r] OrLoop by simp
    qed (use Suc.prems OrLoop in simp)
  next
    case ParseAnd
    with Suc.prems obtain l ts' where "parse n sels ParseNot ts = Inr (l, ts')"
      "parse n sels (AndLoop l) ts' = Inr (v, r)" by auto
    then show ?thesis using Suc.IH [of ParseNot ts l ts'] Suc.IH [of "AndLoop l" ts' v r] ParseAnd by simp
  next
    case (AndLoop l)
    show ?thesis
    proof (cases "tok_is ''and'' ts")
      case True
      with Suc.prems AndLoop obtain x ts' where "parse n sels ParseNot (tl ts) = Inr (x, ts')"
        "parse n sels (AndLoop (l \<and> x)) ts' = Inr (v, r)" by auto
      then show ?thesis using Suc.IH [of ParseNot "tl ts" x ts'] Suc.IH [of "AndLoop (l \<and> x)" ts' v r] AndLoop by simp
    qed (use Suc.prems AndLoop in simp)
  next
    case ParseNot
    show ?thesis
    proof (cases "tok_is ''not'' ts")
      case True
      with Suc.prems ParseNot obtain x where "parse n sels ParseNot (tl ts) = Inr (x, r)" by auto
      then show ?thesis using Suc.IH [of ParseNot "tl ts" x r] ParseNot by simp
    next
      case False
      with Suc.prems ParseNot have "parse n sels ParseAtom ts = Inr (v, r)" by simp
      from Suc.IH [OF this] show ?thesis by (simp add: ParseNot)
    qed
  next
    case ParseAtom
    show ?thesis
    proof (cases ts)
      case (Cons tok rest)
      show ?thesis
      proof (cases "tok = ''(''")
        case True
        with Suc.prems ParseAtom Cons obtain ts' where "parse n sels ParseOr rest = Inr (v, ts')" "r = tl ts'"
          by (auto split: if_splits)
        then show ?thesis using Suc.IH [of ParseOr rest v ts'] Cons ParseAtom by simp
      next
        case False
        have "length q \<le> length rest" if "tl rest = x # q" for x q
          using that by (cases rest) auto
        with False show ?thesis using Suc.prems ParseAtom Cons
          by (auto simp: Let_def split: if_splits list.splits)
      qed
    qed (use Suc.prems ParseAtom in simp)
  qed
qed simp

text \<open>The fuel each method needs on its input.\<close>

fun level :: "parser_fun \<Rightarrow> nat" where
  "level ParseOr = 4" | "level ParseAnd = 3" | "level ParseNot = 2" | "level ParseAtom = 1"
| "level (OrLoop b) = 1" | "level (AndLoop b) = 1"

lemma bind_res_fuel:
  "r \<noteq> Inl OutOfFuel \<Longrightarrow> (\<And>a b. r = Inr (a, b) \<Longrightarrow> f a b \<noteq> Inl OutOfFuel) \<Longrightarrow>
   bind_res r (\<lambda>(a, b). f a b) \<noteq> Inl OutOfFuel"
  by (cases r) auto

text \<open>The equations of the six methods.\<close>

lemma parse_or_eq:
  "parse (Suc n) sels ParseOr ts = bind_res (parse n sels ParseAnd ts) (\<lambda>(l, ts'). parse n sels (OrLoop l) ts')"
  by simp

lemma or_loop_eq:
  "parse (Suc n) sels (OrLoop l) ts =
     (if tok_is ''or'' ts
      then bind_res (parse n sels ParseAnd (tl ts)) (\<lambda>(x, ts'). parse n sels (OrLoop (l \<or> x)) ts')
      else Inr (l, ts))"
  by simp

lemma parse_and_eq:
  "parse (Suc n) sels ParseAnd ts = bind_res (parse n sels ParseNot ts) (\<lambda>(l, ts'). parse n sels (AndLoop l) ts')"
  by simp

lemma and_loop_eq:
  "parse (Suc n) sels (AndLoop l) ts =
     (if tok_is ''and'' ts
      then bind_res (parse n sels ParseNot (tl ts)) (\<lambda>(x, ts'). parse n sels (AndLoop (l \<and> x)) ts')
      else Inr (l, ts))"
  by simp

lemma parse_not_eq:
  "parse (Suc n) sels ParseNot ts =
     (if tok_is ''not'' ts then bind_res (parse n sels ParseNot (tl ts)) (\<lambda>(v, ts'). Inr (\<not> v, ts'))
      else parse n sels ParseAtom ts)"
  by simp

text \<open>What an atom is when it does not open a parenthesis.\<close>

definition plain_atom :: "selections \<Rightarrow> string list \<Rightarrow> parsed" where
  "plain_atom sels ts =
     (case ts of [] \<Rightarrow> Inl ParseError
      | tok # rest \<Rightarrow> let lowered = lower tok in
          if (lowered = ''1'' \<or> lowered = ''all'') \<and> tok_is ''of'' rest
          then (case tl rest of [] \<Rightarrow> Inl ParseError
            | pattern_tok # ts' \<Rightarrow> if pattern_tok = ''('' \<or> pattern_tok = '')'' then Inl ParseError
                else Inr (evaluate_quantifier sels lowered pattern_tok, ts'))
          else if lowered = ''true'' then Inr (True, rest)
          else if lowered = ''false'' then Inr (False, rest)
          else Inr (case dict_get sels tok of None \<Rightarrow> False | Some v \<Rightarrow> v, rest))"

lemma parse_atom_eq:
  "parse (Suc n) sels ParseAtom ts =
     (if ts \<noteq> [] \<and> hd ts = ''(''
      then bind_res (parse n sels ParseOr (tl ts)) (\<lambda>(v, ts').
             if tok_is '')'' ts' then Inr (v, tl ts') else Inl ParseError)
      else plain_atom sels ts)"
  by (cases ts) (simp_all add: plain_atom_def)

declare parse.simps(2) [simp del]

lemmas parse_eqs = parse_or_eq or_loop_eq parse_and_eq and_loop_eq parse_not_eq parse_atom_eq

lemma plain_atom_fuel: "plain_atom sels ts \<noteq> Inl OutOfFuel"
  by (auto simp: plain_atom_def Let_def split: list.split)

lemma fuel_enough: "4 * length ts + level m \<le> n \<Longrightarrow> parse n sels m ts \<noteq> Inl OutOfFuel"
proof (induction n arbitrary: m ts)
  case 0
  then show ?case by (cases m) auto
next
  case (Suc n)
  have IH: "parse n sels m' ts' \<noteq> Inl OutOfFuel" if "4 * length ts' + level m' \<le> n" for m' ts'
    using Suc.IH that by blast
  have tl: "4 * length (tl ts) + 4 = 4 * length ts" if "tok_is w ts" for w
    using that by (cases ts) (auto simp: tok_is_def)
  have cons: "length r + min_consumed m' \<le> length ts'" if "parse n sels m' ts' = Inr (v, r)" for m' ts' v r
    using parse_consumes [OF that] .
  show ?case
  proof (cases m)
    case ParseOr
    show ?thesis unfolding ParseOr parse_or_eq
      by (rule bind_res_fuel; rule IH) (use Suc.prems ParseOr in \<open>auto dest!: cons\<close>)
  next
    case (OrLoop l)
    show ?thesis
    proof (cases "tok_is ''or'' ts")
      case True
      show ?thesis unfolding OrLoop or_loop_eq if_P [OF True]
        by (rule bind_res_fuel; rule IH) (use Suc.prems OrLoop tl [OF True] in \<open>auto dest!: cons\<close>)
    qed (simp add: OrLoop or_loop_eq)
  next
    case ParseAnd
    show ?thesis unfolding ParseAnd parse_and_eq
      by (rule bind_res_fuel; rule IH) (use Suc.prems ParseAnd in \<open>auto dest!: cons\<close>)
  next
    case (AndLoop l)
    show ?thesis
    proof (cases "tok_is ''and'' ts")
      case True
      show ?thesis unfolding AndLoop and_loop_eq if_P [OF True]
        by (rule bind_res_fuel; rule IH) (use Suc.prems AndLoop tl [OF True] in \<open>auto dest!: cons\<close>)
    qed (simp add: AndLoop and_loop_eq)
  next
    case ParseNot
    show ?thesis
    proof (cases "tok_is ''not'' ts")
      case True
      show ?thesis unfolding ParseNot parse_not_eq if_P [OF True]
        by (rule bind_res_fuel, rule IH) (use Suc.prems ParseNot tl [OF True] in \<open>auto dest!: cons\<close>)
    next
      case False
      show ?thesis unfolding ParseNot parse_not_eq if_not_P [OF False]
        by (rule IH) (use Suc.prems ParseNot in simp)
    qed
  next
    case ParseAtom
    have "parse n sels ParseOr (tl ts) \<noteq> Inl OutOfFuel" if "ts \<noteq> []"
      using Suc.prems ParseAtom that by (intro IH) (cases ts; simp)
    then show ?thesis unfolding ParseAtom parse_atom_eq
      by (cases "ts \<noteq> [] \<and> hd ts = ''(''"; cases "parse n sels ParseOr (tl ts)") (auto simp: plain_atom_fuel split: if_splits)
  qed
qed

lemma bind_res_more:
  "bind_res r f \<noteq> Inl OutOfFuel \<Longrightarrow> (r \<noteq> Inl OutOfFuel \<Longrightarrow> r' = r) \<Longrightarrow>
   (\<And>x. r = Inr x \<Longrightarrow> f x \<noteq> Inl OutOfFuel \<Longrightarrow> g x = f x) \<Longrightarrow> bind_res r' g = bind_res r f"
  by (cases r) auto

text \<open>More fuel does not change a result.\<close>

lemma fuel_mono: "parse n sels m ts \<noteq> Inl OutOfFuel \<Longrightarrow> parse (Suc n) sels m ts = parse n sels m ts"
proof (induction n arbitrary: m ts)
  case (Suc n)
  show ?case
  proof (cases m)
    case ParseOr
    from Suc.prems show ?thesis unfolding ParseOr parse_or_eq [of "Suc n" sels ts] parse_or_eq [of n sels ts]
      by (rule bind_res_more) (auto simp: Suc.IH)
  next
    case (OrLoop l)
    from Suc.prems show ?thesis unfolding OrLoop or_loop_eq [of "Suc n" sels l ts] or_loop_eq [of n sels l ts]
      by (auto intro!: bind_res_more simp: Suc.IH split: if_splits)
  next
    case ParseAnd
    from Suc.prems show ?thesis unfolding ParseAnd parse_and_eq [of "Suc n" sels ts] parse_and_eq [of n sels ts]
      by (rule bind_res_more) (auto simp: Suc.IH)
  next
    case (AndLoop l)
    from Suc.prems show ?thesis unfolding AndLoop and_loop_eq [of "Suc n" sels l ts] and_loop_eq [of n sels l ts]
      by (auto intro!: bind_res_more simp: Suc.IH split: if_splits)
  next
    case ParseNot
    from Suc.prems show ?thesis unfolding ParseNot parse_not_eq [of "Suc n" sels ts] parse_not_eq [of n sels ts]
      by (auto intro!: bind_res_more simp: Suc.IH split: if_splits)
  next
    case ParseAtom
    from Suc.prems show ?thesis unfolding ParseAtom parse_atom_eq [of "Suc n" sels ts] parse_atom_eq [of n sels ts]
      by (auto intro!: bind_res_more simp: Suc.IH split: if_splits)
  qed
qed simp

lemma fuel_mono_le: "parse n sels m ts \<noteq> Inl OutOfFuel \<Longrightarrow> n \<le> k \<Longrightarrow> parse k sels m ts = parse n sels m ts"
proof (induction k)
  case (Suc k)
  then show ?case by (cases "n = Suc k") (use fuel_mono [of k sels m ts] in auto)
qed simp

subsection \<open>The condition language, abstractly\<close>

datatype cond = CName string | CConst bool | CNot cond | CAnd cond cond | COr cond cond | CQuant bool string

primrec cond_eval :: "selections \<Rightarrow> cond \<Rightarrow> bool" where
  "cond_eval sels (CName n) = (dict_get sels n = Some True)"
| "cond_eval sels (CConst b) = b"
| "cond_eval sels (CNot a) = (\<not> cond_eval sels a)"
| "cond_eval sels (CAnd a b) = (cond_eval sels a \<and> cond_eval sels b)"
| "cond_eval sels (COr a b) = (cond_eval sels a \<or> cond_eval sels b)"
| "cond_eval sels (CQuant every pat) = evaluate_quantifier sels (if every then ''all'' else ''1'') pat"

text \<open>Tokens with the parentheses that precedence needs: 0 for or, 1 for and, 2 for not.\<close>

definition paren :: "bool \<Rightarrow> string list \<Rightarrow> string list" where
  "paren b ts = (if b then ''('' # ts @ ['')''] else ts)"

fun toks :: "nat \<Rightarrow> cond \<Rightarrow> string list" where
  "toks p (CName n) = [n]"
| "toks p (CConst b) = [if b then ''true'' else ''false'']"
| "toks p (CNot a) = ''not'' # toks 2 a"
| "toks p (CAnd a b) = paren (1 < p) (toks 1 a @ ''and'' # toks 2 b)"
| "toks p (COr a b) = paren (0 < p) (toks 0 a @ ''or'' # toks 1 b)"
| "toks p (CQuant every pat) = [if every then ''all'' else ''1'', ''of'', pat]"

definition is_word :: "string \<Rightarrow> bool" where
  "is_word w \<longleftrightarrow> (case w of [] \<Rightarrow> False | c # cs \<Rightarrow> is_word_start c \<and> list_all is_word_char cs)"

primrec wf_cond :: "cond \<Rightarrow> bool" where
  "wf_cond (CName n) = (is_word n \<and> lower n \<notin> {''or'', ''and'', ''not'', ''true'', ''false''})"
| "wf_cond (CConst b) = True"
| "wf_cond (CNot a) = wf_cond a"
| "wf_cond (CAnd a b) = (wf_cond a \<and> wf_cond b)"
| "wf_cond (COr a b) = (wf_cond a \<and> wf_cond b)"
| "wf_cond (CQuant every pat) = is_word pat"

lemma is_word_not_paren: "is_word w \<Longrightarrow> w \<noteq> ''('' \<and> w \<noteq> '')''"
  by (auto simp: is_word_def is_word_start_def is_upper_def is_lower_def is_digit_def char_le_iff)

definition yields :: "selections \<Rightarrow> parser_fun \<Rightarrow> string list \<Rightarrow> bool \<Rightarrow> string list \<Rightarrow> bool" where
  "yields sels m ts v r \<longleftrightarrow> (\<exists>n. parse n sels m ts = Inr (v, r))"

lemma yields_both:
  assumes "yields sels m ts v r" "yields sels m' ts' v' r'"
  obtains n where "parse n sels m ts = Inr (v, r)" "parse n sels m' ts' = Inr (v', r')"
proof -
  from assms obtain i j where "parse i sels m ts = Inr (v, r)" "parse j sels m' ts' = Inr (v', r')"
    by (auto simp: yields_def)
  then have "parse (max i j) sels m ts = Inr (v, r)" "parse (max i j) sels m' ts' = Inr (v', r')"
    using fuel_mono_le [of i sels m ts "max i j"] fuel_mono_le [of j sels m' ts' "max i j"] by auto
  then show thesis by (rule that)
qed

lemma tok_is_words [simp]: "tok_is ''or'' (''or'' # r)" "tok_is ''and'' (''and'' # r)" "tok_is ''not'' (''not'' # r)"
  by (simp_all add: tok_is_def lower_def lower_char_def is_upper_def char_le_iff)

lemma yields_or:
  assumes "yields sels ParseAnd ts l ts'" "yields sels (OrLoop l) ts' v r"
  shows "yields sels ParseOr ts v r"
proof -
  obtain n where "parse n sels ParseAnd ts = Inr (l, ts')" "parse n sels (OrLoop l) ts' = Inr (v, r)"
    using assms by (rule yields_both)
  then have "parse (Suc n) sels ParseOr ts = Inr (v, r)" by (simp add: parse_or_eq)
  then show ?thesis by (auto simp: yields_def)
qed

lemma yields_and:
  assumes "yields sels ParseNot ts l ts'" "yields sels (AndLoop l) ts' v r"
  shows "yields sels ParseAnd ts v r"
proof -
  obtain n where "parse n sels ParseNot ts = Inr (l, ts')" "parse n sels (AndLoop l) ts' = Inr (v, r)"
    using assms by (rule yields_both)
  then have "parse (Suc n) sels ParseAnd ts = Inr (v, r)" by (simp add: parse_and_eq)
  then show ?thesis by (auto simp: yields_def)
qed

lemma yields_or_step:
  assumes "yields sels ParseAnd ts x ts'" "yields sels (OrLoop (l \<or> x)) ts' v r"
  shows "yields sels (OrLoop l) (''or'' # ts) v r"
proof -
  obtain n where "parse n sels ParseAnd ts = Inr (x, ts')" "parse n sels (OrLoop (l \<or> x)) ts' = Inr (v, r)"
    using assms by (rule yields_both)
  then have "parse (Suc n) sels (OrLoop l) (''or'' # ts) = Inr (v, r)" by (simp add: or_loop_eq)
  then show ?thesis by (auto simp: yields_def)
qed

lemma yields_and_step:
  assumes "yields sels ParseNot ts x ts'" "yields sels (AndLoop (l \<and> x)) ts' v r"
  shows "yields sels (AndLoop l) (''and'' # ts) v r"
proof -
  obtain n where "parse n sels ParseNot ts = Inr (x, ts')" "parse n sels (AndLoop (l \<and> x)) ts' = Inr (v, r)"
    using assms by (rule yields_both)
  then have "parse (Suc n) sels (AndLoop l) (''and'' # ts) = Inr (v, r)" by (simp add: and_loop_eq)
  then show ?thesis by (auto simp: yields_def)
qed

lemma yields_or_stop: "\<not> tok_is ''or'' ts \<Longrightarrow> yields sels (OrLoop l) ts l ts"
  by (auto simp: yields_def or_loop_eq intro!: exI [of _ "Suc 0"])

lemma yields_and_stop: "\<not> tok_is ''and'' ts \<Longrightarrow> yields sels (AndLoop l) ts l ts"
  by (auto simp: yields_def and_loop_eq intro!: exI [of _ "Suc 0"])

lemma yields_not_atom: "\<not> tok_is ''not'' ts \<Longrightarrow> yields sels ParseAtom ts v r \<Longrightarrow> yields sels ParseNot ts v r"
  unfolding yields_def by (elim exE, rule_tac x = "Suc n" in exI) (simp add: parse_not_eq)

lemma yields_not: "yields sels ParseNot ts v r \<Longrightarrow> yields sels ParseNot (''not'' # ts) (\<not> v) r"
  unfolding yields_def
  by (elim exE, rule_tac x = "Suc n" in exI)
    (simp add: parse_not_eq tok_is_def lower_def lower_char_def is_upper_def char_le_iff)

lemma yields_paren: "yields sels ParseOr ts v ('')'' # r) \<Longrightarrow> yields sels ParseAtom (''('' # ts) v r"
  unfolding yields_def
  by (elim exE, rule_tac x = "Suc n" in exI)
    (simp add: parse_atom_eq tok_is_def lower_def lower_char_def is_upper_def char_le_iff)

lemma yields_plain: "ts \<noteq> [] \<Longrightarrow> hd ts \<noteq> ''('' \<Longrightarrow> plain_atom sels ts = Inr (v, r) \<Longrightarrow> yields sels ParseAtom ts v r"
  unfolding yields_def by (rule exI [of _ "Suc 0"]) (simp add: parse_atom_eq)

lemma lower_paren [simp]: "tok_is ''or'' ('')'' # r) = False" "tok_is ''and'' ('')'' # r) = False"
  "tok_is ''of'' ('')'' # r) = False" "tok_is ''of'' (''or'' # r) = False" "tok_is ''of'' (''and'' # r) = False"
  "tok_is ''not'' (''('' # r) = False" "tok_is ''and'' (''or'' # r) = False"
  by (simp_all add: tok_is_def lower_def lower_char_def is_upper_def char_le_iff)

text \<open>A term of any level, followed by anything that does not continue it, is read as its value.\<close>

definition not_ok :: "selections \<Rightarrow> cond \<Rightarrow> bool" where
  "not_ok sels c \<longleftrightarrow> (\<forall>r. \<not> tok_is ''of'' r \<longrightarrow> yields sels ParseNot (toks 2 c @ r) (cond_eval sels c) r)"

definition and_ok :: "selections \<Rightarrow> cond \<Rightarrow> bool" where
  "and_ok sels c \<longleftrightarrow> (\<forall>r v q. \<not> tok_is ''of'' r \<longrightarrow> yields sels (AndLoop (cond_eval sels c)) r v q
     \<longrightarrow> yields sels ParseAnd (toks 1 c @ r) v q)"

definition or_ok :: "selections \<Rightarrow> cond \<Rightarrow> bool" where
  "or_ok sels c \<longleftrightarrow> (\<forall>r v q. \<not> tok_is ''of'' r \<longrightarrow> \<not> tok_is ''and'' r \<longrightarrow>
     yields sels (OrLoop (cond_eval sels c)) r v q \<longrightarrow> yields sels ParseOr (toks 0 c @ r) v q)"

lemma and_ok_unary: "not_ok sels c \<Longrightarrow> toks 1 c = toks 2 c \<Longrightarrow> and_ok sels c"
  unfolding and_ok_def not_ok_def using yields_and by metis

lemma or_ok_and: "and_ok sels c \<Longrightarrow> toks 0 c = toks 1 c \<Longrightarrow> or_ok sels c"
  unfolding and_ok_def or_ok_def using yields_or yields_and_stop by metis

lemma not_ok_paren:
  assumes "or_ok sels c" "toks 2 c = ''('' # toks 0 c @ ['')'']"
  shows "not_ok sels c"
  unfolding not_ok_def
proof (intro allI impI)
  fix r
  have "yields sels ParseOr (toks 0 c @ '')'' # r) (cond_eval sels c) ('')'' # r)"
    using assms(1) yields_or_stop [of "'')'' # r" sels "cond_eval sels c"] unfolding or_ok_def by simp
  then have "yields sels ParseAtom (''('' # toks 0 c @ '')'' # r) (cond_eval sels c) r" by (rule yields_paren)
  then show "yields sels ParseNot (toks 2 c @ r) (cond_eval sels c) r"
    by (simp add: assms(2) yields_not_atom)
qed

lemma dict_get_True: "(case dict_get sels n of None \<Rightarrow> False | Some v \<Rightarrow> v) = (dict_get sels n = Some True)"
  by (cases "dict_get sels n") auto

lemma const_lower [simp]: "lower ''true'' = ''true''" "lower ''false'' = ''false''" "lower ''1'' = ''1''"
  "lower ''all'' = ''all''" "lower ''of'' = ''of''"
  by code_simp+

lemma cond_ok: "wf_cond c \<Longrightarrow> not_ok sels c \<and> and_ok sels c \<and> or_ok sels c"
proof (induction c)
  case (CName n)
  have "yields sels ParseNot (toks 2 (CName n) @ r) (cond_eval sels (CName n)) r" if "\<not> tok_is ''of'' r" for r
  proof (rule yields_not_atom)
    show "\<not> tok_is ''not'' (toks 2 (CName n) @ r)" using CName by (simp add: tok_is_def)
    show "yields sels ParseAtom (toks 2 (CName n) @ r) (cond_eval sels (CName n)) r"
      using CName is_word_not_paren [of n] that
      by (intro yields_plain) (auto simp: plain_atom_def Let_def dict_get_True)
  qed
  then have "not_ok sels (CName n)" by (simp add: not_ok_def)
  then show ?case by (simp add: and_ok_unary or_ok_and)
next
  case (CConst b)
  have "yields sels ParseNot (toks 2 (CConst b) @ r) (cond_eval sels (CConst b)) r" for r
    by (intro yields_not_atom yields_plain) (auto simp: plain_atom_def Let_def tok_is_def)
  then have "not_ok sels (CConst b)" by (simp add: not_ok_def)
  then show ?case by (simp add: and_ok_unary or_ok_and)
next
  case (CNot a)
  then have "not_ok sels (CNot a)" by (simp add: not_ok_def yields_not)
  then show ?case by (simp add: and_ok_unary or_ok_and)
next
  case (CQuant every pat)
  have "yields sels ParseNot (toks 2 (CQuant every pat) @ r) (cond_eval sels (CQuant every pat)) r" for r
    using CQuant is_word_not_paren [of pat]
    by (intro yields_not_atom yields_plain) (auto simp: plain_atom_def Let_def tok_is_def)
  then have "not_ok sels (CQuant every pat)" by (simp add: not_ok_def)
  then show ?case by (simp add: and_ok_unary or_ok_and)
next
  case (CAnd a b)
  have a: "and_ok sels (CAnd a b)" unfolding and_ok_def
  proof (intro allI impI)
    fix r v q
    assume r: "\<not> tok_is ''of'' r" "yields sels (AndLoop (cond_eval sels (CAnd a b))) r v q"
    have "yields sels ParseNot (toks 2 b @ r) (cond_eval sels b) r"
      using CAnd r(1) by (simp add: not_ok_def)
    then have "yields sels (AndLoop (cond_eval sels a)) (''and'' # toks 2 b @ r) v q"
      by (rule yields_and_step) (use r(2) in simp)
    then have "yields sels ParseAnd (toks 1 a @ ''and'' # toks 2 b @ r) v q"
      using CAnd by (simp add: and_ok_def)
    then show "yields sels ParseAnd (toks 1 (CAnd a b) @ r) v q" by (simp add: paren_def)
  qed
  moreover have "or_ok sels (CAnd a b)" using a by (rule or_ok_and) (simp add: paren_def)
  ultimately show ?case using not_ok_paren [of sels "CAnd a b"] by (simp add: paren_def)
next
  case (COr a b)
  have a: "or_ok sels (COr a b)" unfolding or_ok_def
  proof (intro allI impI)
    fix r v q
    assume r: "\<not> tok_is ''of'' r" "\<not> tok_is ''and'' r" "yields sels (OrLoop (cond_eval sels (COr a b))) r v q"
    have "yields sels ParseAnd (toks 1 b @ r) (cond_eval sels b) r"
      using COr r(1,2) yields_and_stop by (simp add: and_ok_def)
    then have "yields sels (OrLoop (cond_eval sels a)) (''or'' # toks 1 b @ r) v q"
      by (rule yields_or_step) (use r(3) in simp)
    then have "yields sels ParseOr (toks 0 a @ ''or'' # toks 1 b @ r) v q"
      using COr by (simp add: or_ok_def)
    then show "yields sels ParseOr (toks 0 (COr a b) @ r) v q" by (simp add: paren_def)
  qed
  then have n: "not_ok sels (COr a b)" by (rule not_ok_paren) (simp add: paren_def)
  then have "and_ok sels (COr a b)" by (rule and_ok_unary) (simp add: paren_def)
  with a n show ?case by simp
qed

lemma parse_condition_toks: "wf_cond c \<Longrightarrow> parse_condition sels (toks 0 c) = Inr (cond_eval sels c)"
proof -
  assume "wf_cond c"
  then have "or_ok sels c" using cond_ok by blast
  then have "yields sels ParseOr (toks 0 c) (cond_eval sels c) []"
    using yields_or_stop [of "[]" sels "cond_eval sels c"] by (auto simp: or_ok_def tok_is_def dest: spec [of _ "[]"])
  then obtain n where n: "parse n sels ParseOr (toks 0 c) = Inr (cond_eval sels c, [])" by (auto simp: yields_def)
  have ne: "parse (parse_fuel (toks 0 c)) sels ParseOr (toks 0 c) \<noteq> Inl OutOfFuel"
    by (rule fuel_enough) (simp add: parse_fuel_def)
  let ?k = "max n (parse_fuel (toks 0 c))"
  have "parse ?k sels ParseOr (toks 0 c) = parse n sels ParseOr (toks 0 c)"
    using n by (intro fuel_mono_le) auto
  moreover have "parse ?k sels ParseOr (toks 0 c) = parse (parse_fuel (toks 0 c)) sels ParseOr (toks 0 c)"
    using ne by (intro fuel_mono_le) auto
  ultimately show ?thesis using n by (simp add: parse_condition_def)
qed

subsection \<open>From text to tokens\<close>

definition token_ok :: "string \<Rightarrow> bool" where
  "token_ok t \<longleftrightarrow> t = ''('' \<or> t = '')'' \<or> is_word t"

lemma space_facts [simp]: "is_space CHR '' ''" "\<not> is_space CHR ''(''" "\<not> is_space CHR '')''"
  "\<not> is_word_char CHR '' ''"
  by code_simp+

lemma word_start_facts: "is_word_start c \<Longrightarrow> \<not> is_space c \<and> c \<noteq> CHR ''('' \<and> c \<noteq> CHR '')''"
  by (auto simp: is_word_start_def is_space_def is_upper_def is_lower_def is_digit_def char_le_iff Let_def)

lemma word_char_space: "is_word_char c \<Longrightarrow> \<not> is_space c"
  using word_start_facts [of c] by (auto simp: is_word_char_def is_space_def)

lemma tokenize_space: "is_space c \<Longrightarrow> tokenize (c # s) = tokenize s"
  by (subst tokenize.simps) simp

lemma tokenize_token:
  assumes "token_ok t" "s = [] \<or> hd s = CHR '' ''"
  shows "tokenize (t @ s) = bind_res (tokenize s) (\<lambda>ts. Inr (t # ts))"
proof -
  consider "t = ''(''" | "t = '')''" | c cs where "t = c # cs" "is_word_start c" "list_all is_word_char cs"
    using assms(1) by (auto simp: token_ok_def is_word_def split: list.splits)
  then show ?thesis
  proof cases
    case (3 c cs)
    have tw: "takeWhile is_word_char (cs @ s) = cs \<and> dropWhile is_word_char (cs @ s) = s"
      using 3(3) assms(2) by (cases s) (auto simp: list_all_iff takeWhile_append2 dropWhile_append2)
    show ?thesis
      using 3 word_start_facts [OF 3(2)] tw by (subst tokenize.simps) simp
  qed (subst tokenize.simps; simp)+
qed

lemma tokenize_join: "list_all token_ok ts \<Longrightarrow> tokenize (join_with '' '' ts) = Inr ts"
proof (induction ts rule: induct_list012)
  case 1
  show ?case by (subst tokenize.simps) simp
next
  case (2 t)
  have "tokenize [] = Inr []" by (subst tokenize.simps) simp
  then show ?case using tokenize_token [of t "[]"] 2 by simp
next
  case (3 t u ts)
  then show ?case
    using tokenize_token [of t "'' '' @ join_with '' '' (u # ts)"] by (simp add: tokenize_space)
qed

lemma toks_ok: "wf_cond c \<Longrightarrow> list_all token_ok (toks p c)"
proof (induction c arbitrary: p)
  case (CNot a)
  then show ?case by (simp add: token_ok_def) code_simp
next
  case (CAnd a b)
  have "token_ok ''and''" "token_ok ''(''" "token_ok '')''" by code_simp+
  with CAnd show ?case by (simp add: paren_def)
next
  case (COr a b)
  have "token_ok ''or''" "token_ok ''(''" "token_ok '')''" by code_simp+
  with COr show ?case by (simp add: paren_def)
next
  case (CConst b)
  have "token_ok ''true''" "token_ok ''false''" by code_simp+
  then show ?case by simp
next
  case (CQuant every pat)
  have "token_ok ''all''" "token_ok ''1''" "token_ok ''of''" by code_simp+
  with CQuant show ?case by (simp add: token_ok_def)
qed (simp add: token_ok_def)

lemma toks_nonempty [simp]: "toks p c \<noteq> []"
  by (cases c) (simp_all add: paren_def)

lemma token_ends: "token_ok t \<Longrightarrow> t \<noteq> [] \<and> \<not> is_space (hd t) \<and> \<not> is_space (last t)"
proof -
  assume "token_ok t"
  then consider "t = ''(''" | "t = '')''" | c cs where "t = c # cs" "is_word_start c" "list_all is_word_char cs"
    by (auto simp: token_ok_def is_word_def split: list.splits)
  then show ?thesis
  proof cases
    case (3 c cs)
    then show ?thesis
      using word_char_space word_start_facts [of c] by (cases cs rule: rev_cases) (auto simp: list_all_iff)
  qed simp_all
qed

lemma join_ends:
  "list_all token_ok ts \<Longrightarrow> ts \<noteq> [] \<Longrightarrow> join_with '' '' ts \<noteq> []
     \<and> \<not> is_space (hd (join_with '' '' ts)) \<and> \<not> is_space (last (join_with '' '' ts))"
proof (induction ts rule: induct_list012)
  case (2 t)
  then show ?case using token_ends [of t] by simp
next
  case (3 t u ts)
  then show ?case using token_ends [of t] by (simp add: hd_append)
qed simp

lemma eval_condition_text: "wf_cond c \<Longrightarrow> eval_condition (join_with '' '' (toks 0 c)) sels = cond_eval sels c"
  using join_ends [OF toks_ok toks_nonempty] strip_outer tokenize_join [OF toks_ok] parse_condition_toks
  by (simp add: eval_condition_def)

lemma glob_prefix:
  "CHR ''*'' \<notin> set p \<Longrightarrow> CHR 0x0A \<notin> set s \<Longrightarrow> glob_match (p @ ''*'') s \<longleftrightarrow> prefix p s"
proof (induction p arbitrary: s)
  case Nil
  then show ?case by (induction s) auto
next
  case (Cons a p)
  then show ?case by (cases s) auto
qed

lemma quantifier_prefix:
  assumes "CHR ''*'' \<notin> set p" "\<forall>(name, v) \<in> set sels. CHR 0x0A \<notin> set name"
  shows "evaluate_quantifier sels q (p @ ''*'') \<longleftrightarrow>
    (if q = ''1'' then \<exists>(name, v) \<in> set sels. prefix p name \<and> v
     else (\<exists>(name, v) \<in> set sels. prefix p name) \<and> (\<forall>(name, v) \<in> set sels. prefix p name \<longrightarrow> v))"
proof -
  have "glob_match (p @ ''*'') name = prefix p name" if "(name, v) \<in> set sels" for name v
    using that assms glob_prefix by blast
  then have f: "filter (\<lambda>(name, v). glob_match (p @ ''*'') name) sels = filter (\<lambda>(name, v). prefix p name) sels"
    by (intro filter_cong) auto
  have "p @ ''*'' \<noteq> ''them''"
  proof
    assume "p @ ''*'' = ''them''"
    then have "last (p @ ''*'') = last ''them''" by simp
    then show False by simp
  qed
  then show ?thesis
    unfolding evaluate_quantifier_def Let_def f
    by (force simp: list_ex_iff list_all_iff filter_empty_conv)
qed

subsection \<open>Properties\<close>

text \<open>
  C16.  The condition parser implements the condition language: for every expression over
  selection names, constants, not, and, or and the two quantifiers, printed with only the
  parentheses that precedence asks for, the evaluator returns the expression's truth value
  (unknown names are false); it never falls back and never runs out of fuel.
\<close>

theorem sigma_condition_correct:
  assumes "wf_cond c"
  shows "tokenize (strip (join_with '' '' (toks 0 c))) = Inr (toks 0 c)
    \<and> parse_condition sels (toks 0 c) = Inr (cond_eval sels c)
    \<and> eval_condition (join_with '' '' (toks 0 c)) sels = cond_eval sels c"
  using join_ends [OF toks_ok [OF assms] toks_nonempty] strip_outer tokenize_join [OF toks_ok [OF assms]]
    parse_condition_toks [OF assms] eval_condition_text [OF assms] by simp

lemma sigma_condition_correct_witness:
  "eval_condition ''sel and not ( f1 or f2 ) or 1 of kw*''
     [(''sel'', True), (''f1'', False), (''f2'', True), (''kw1'', False)] = False"
proof -
  let ?c = "COr (CAnd (CName ''sel'') (CNot (COr (CName ''f1'') (CName ''f2'')))) (CQuant False ''kw*'')"
  have "wf_cond ?c" by code_simp
  moreover have "join_with '' '' (toks 0 ?c) = ''sel and not ( f1 or f2 ) or 1 of kw*''" by code_simp
  ultimately show ?thesis
    using sigma_condition_correct [of ?c "[(''sel'', True), (''f1'', False), (''f2'', True), (''kw1'', False)]"]
    by (simp add: evaluate_quantifier_def)
qed

text \<open>
  Evaluation is total and its fallback is the conjunction: on any text at all, parsing with
  the allotted fuel ends in a value or a parse error, and on an error the condition holds exactly
  when there are selections and all of them match.
\<close>

theorem sigma_fallback:
  "(case tokenize (strip s) of
      Inl e \<Rightarrow> eval_condition s sels = (sels \<noteq> [] \<and> (\<forall>p \<in> set sels. snd p))
    | Inr ts \<Rightarrow> parse_condition sels ts \<noteq> Inl OutOfFuel
        \<and> eval_condition s sels = (case parse_condition sels ts of
            Inr v \<Rightarrow> v | Inl e \<Rightarrow> sels \<noteq> [] \<and> (\<forall>p \<in> set sels. snd p)))"
proof -
  have "parse_condition sels ts \<noteq> Inl OutOfFuel" for ts
    using fuel_enough [of ts ParseOr "parse_fuel ts" sels]
    by (cases "parse (parse_fuel ts) sels ParseOr ts")
      (auto simp: parse_condition_def parse_fuel_def split: if_splits)
  then show ?thesis
    by (auto simp: eval_condition_def list_all_iff split: sum.split)
qed

lemma sigma_fallback_witness:
  "eval_condition ''sel | count() > 5'' [(''sel'', True), (''filter'', False)] = False"
proof -
  have "tokenize (strip ''sel | count() > 5'') = Inl ParseError" by code_simp
  with sigma_fallback [of "''sel | count() > 5''" "[(''sel'', True), (''filter'', False)]"]
  show ?thesis by simp
qed

end
