(* ===== verification/Sigma_Rules.thy ===== *)
theory Sigma_Rules
  imports Sigma_Condition Json Sha256
begin

text \<open>
  Rule execution and hunts (\<open>services/api/app/services/rule_engine.py\<close>): flattening of events,
  the Sigma detection block, the KQL matcher, the dispatch over languages and the hunt loop.
  What the code takes from other packages is a parameter: YAML loading, pySigma, YARA and the
  regular-expression engine.  Execution times are not modelled.
\<close>

subsection \<open>Flattening\<close>

definition flat_key :: "string \<Rightarrow> string \<Rightarrow> string" where
  "flat_key pre k = lower (if pre \<noteq> [] then dropWhile (\<lambda>c. c = CHR ''.'') (pre @ ''.'' @ k) else k)"

fun flatten_items :: "string \<Rightarrow> dict \<Rightarrow> dict \<Rightarrow> dict" where
  "flatten_items pre result [] = result"
| "flatten_items pre result ((k, VDict e) # d) =
     flatten_items pre (dict_update result (flatten_items (flat_key pre k) [] e)) d"
| "flatten_items pre result ((k, v) # d) = flatten_items pre (dict_set (flat_key pre k) v result) d"

definition flatten_dict :: "dict \<Rightarrow> dict" where
  "flatten_dict d = flatten_items [] [] d"

subsection \<open>The Sigma detection block\<close>

definition flat_text :: "dict \<Rightarrow> string" where
  "flat_text flat = lower (join_with '' '' (map (\<lambda>(k, v). py_str v) flat))"

definition field_hit :: "dict \<Rightarrow> string \<Rightarrow> val \<Rightarrow> bool" where
  "field_hit flat field_name field_val =
     (let field_lower = takeWhile (\<lambda>c. c \<noteq> CHR ''|'') (lower field_name);
          ev_val = lower (py_str (vget_default flat field_lower (VStr [])))
      in case field_val of
           VList vs \<Rightarrow> list_ex (\<lambda>v. substr_in (lower (py_str v)) ev_val) vs
         | v \<Rightarrow> substr_in (lower (py_str v)) ev_val)"

definition eval_selection :: "dict \<Rightarrow> val \<Rightarrow> bool option" where
  "eval_selection flat sel_def =
     (case sel_def of
        VDict fields \<Rightarrow> Some (list_all (\<lambda>(f, v). field_hit flat f v) fields)
      | VList keywords \<Rightarrow> Some (list_all (\<lambda>kw. substr_in (lower (py_str kw)) (flat_text flat)) keywords)
      | _ \<Rightarrow> None)"

definition eval_selections :: "dict \<Rightarrow> dict \<Rightarrow> selections" where
  "eval_selections flat detection =
     concat (map (\<lambda>(name, sel_def).
       if name = ''condition'' then []
       else case eval_selection flat sel_def of None \<Rightarrow> [] | Some b \<Rightarrow> [(name, b)]) detection)"

definition eval_sigma_detection :: "dict \<Rightarrow> dict \<Rightarrow> py_error + bool" where
  "eval_sigma_detection detection flat =
     (case vget_default detection ''condition'' (VStr ''selection'') of
        VStr condition \<Rightarrow> Inr (eval_condition condition (eval_selections flat detection))
      | _ \<Rightarrow> Inl AttributeError)"

definition filter_events :: "(dict \<Rightarrow> 'e + bool) \<Rightarrow> dict list \<Rightarrow> 'e + dict list" where
  "filter_events p events =
     bind_res (mapM_res (\<lambda>e. bind_res (p e) (\<lambda>b. Inr (e, b))) events)
       (\<lambda>ps. Inr (map fst (filter snd ps)))"

text \<open>\<open>loaded\<close> is the outcome of \<open>yaml.safe_load\<close>; every exception ends in no match.\<close>

definition sigma_fallback_eval :: "unit + val \<Rightarrow> dict list \<Rightarrow> dict list" where
  "sigma_fallback_eval loaded events =
     (case loaded of
        Inr (VDict rule) \<Rightarrow>
          (case vget_default rule ''detection'' (VDict []) of
             VDict detection \<Rightarrow>
               (case filter_events (\<lambda>e. eval_sigma_detection detection (flatten_dict e)) events of
                  Inr matched \<Rightarrow> matched | Inl _ \<Rightarrow> [])
           | _ \<Rightarrow> [])
      | _ \<Rightarrow> [])"

subsection \<open>KQL and Lucene\<close>

definition lucene_match :: "string \<Rightarrow> dict \<Rightarrow> bool" where
  "lucene_match query event =
     substr_in (lower query)
       (lower (join_with '' '' (map (\<lambda>(k, v). k @ '':'' @ py_str v) (flatten_dict event))))"

text \<open>The \<open>field : value\<close> pattern at the start of a query: its two groups.\<close>

definition kql_field_value :: "string \<Rightarrow> (string \<times> string) option" where
  "kql_field_value query =
     (let name = takeWhile is_word_start query;
          r1 = dropWhile is_space (drop (length name) query)
      in case (name, r1) of
           (_ # _, c # r2) \<Rightarrow>
             if c \<noteq> CHR '':'' then None
             else let r3 = dropWhile is_space r2;
                      r4 = (case r3 of q # cs \<Rightarrow> if q = CHR 0x22 then cs else r3 | [] \<Rightarrow> []);
                      text = takeWhile (\<lambda>c. c \<noteq> CHR 0x22 \<and> \<not> is_space c) r4
                  in if text = [] then None else Some (name, text)
         | _ \<Rightarrow> None)"

fun replace_star :: "string \<Rightarrow> string" where
  "replace_star [] = []"
| "replace_star (c # cs) = (if c = CHR ''*'' then ''.*'' else [c]) @ replace_star cs"

text \<open>\<open>re_search\<close> is \<open>re.search\<close>: an error for an invalid pattern, else whether it occurs.\<close>

definition kql_match :: "(string \<Rightarrow> string \<Rightarrow> string + bool) \<Rightarrow> string \<Rightarrow> dict \<Rightarrow> string + bool" where
  "kql_match re_search query flat =
     (case kql_field_value query of
        Some (name, text) \<Rightarrow>
          let v = lower text; ev_val = lower (py_str (vget_default flat (lower name) (VStr [])))
          in if CHR ''*'' \<in> set v then re_search (replace_star v) ev_val else Inr (substr_in v ev_val)
      | None \<Rightarrow> Inr (substr_in (lower query) (flat_text flat)))"

text \<open>An exception keeps what was matched before it.\<close>

fun kql_loop :: "(string \<Rightarrow> string \<Rightarrow> string + bool) \<Rightarrow> string \<Rightarrow> dict list \<Rightarrow> dict list \<times> string option" where
  "kql_loop re_search query [] = ([], None)"
| "kql_loop re_search query (e # es) =
     (case kql_match re_search query (flatten_dict e) of
        Inl msg \<Rightarrow> ([], Some msg)
      | Inr b \<Rightarrow> (case kql_loop re_search query es of (ms, err) \<Rightarrow> (if b then e # ms else ms, err)))"

definition run_kql :: "(string \<Rightarrow> string \<Rightarrow> string + bool) \<Rightarrow> string \<Rightarrow> dict list \<Rightarrow> dict list \<times> string option" where
  "run_kql re_search rule_body events = kql_loop re_search (strip rule_body) events"

subsection \<open>Execution\<close>

text \<open>The packages.  pySigma is absent, fails, or yields its Lucene queries; YARA is absent, rejects
  the source, or yields a matcher that fails or names the rules that match the bytes.\<close>

datatype pysigma = NoPySigma | PySigmaError string | Queries "string list"

datatype yara = NoYara | YaraError string | Compiled "8 word list \<Rightarrow> string + string list"

record packages =
  pk_yaml :: "string \<Rightarrow> unit + val"
  pk_pysigma :: "string \<Rightarrow> pysigma"
  pk_yara :: "string \<Rightarrow> yara"
  pk_re_search :: "string \<Rightarrow> string \<Rightarrow> string + bool"
  pk_re_flags :: "string \<Rightarrow> string + (string \<Rightarrow> bool)"

definition run_sigma :: "packages \<Rightarrow> string \<Rightarrow> dict list \<Rightarrow> dict list \<times> string option" where
  "run_sigma pk rule_body events =
     (case pk_pysigma pk rule_body of
        Queries queries \<Rightarrow> (filter (\<lambda>e. list_ex (\<lambda>q. lucene_match q e) queries) events, None)
      | NoPySigma \<Rightarrow> (sigma_fallback_eval (pk_yaml pk rule_body) events, None)
      | PySigmaError msg \<Rightarrow> (sigma_fallback_eval (pk_yaml pk rule_body) events, Some msg))"

definition event_to_bytes :: "dict \<Rightarrow> 8 word list" where
  "event_to_bytes event =
     (case py_or (vget event ''raw_payload'') (py_or (vget event ''ocsf_json'') (VStr (json_dumps (VDict event)))) of
        VStr s \<Rightarrow> str_bytes s
      | payload \<Rightarrow> str_bytes (json_dumps payload))"

definition yara_event :: "dict \<Rightarrow> string list \<Rightarrow> dict" where
  "yara_event event names = dict_set ''_yara_matches'' (VList (map VStr names)) event"

definition run_yara :: "packages \<Rightarrow> string \<Rightarrow> dict list \<Rightarrow> dict list \<times> string option" where
  "run_yara pk rule_body events =
     (case pk_yara pk rule_body of
        NoYara \<Rightarrow> ([], Some ''yara-python not installed'')
      | YaraError msg \<Rightarrow> ([], Some msg)
      | Compiled scan \<Rightarrow>
          (case mapM_res (\<lambda>e. bind_res (scan (event_to_bytes e)) (\<lambda>names. Inr (e, names))) events of
             Inl msg \<Rightarrow> ([], Some msg)
           | Inr ps \<Rightarrow> (map (\<lambda>(e, names). yara_event e names) (filter (\<lambda>(e, names). names \<noteq> []) ps), None)))"

definition run_regex :: "packages \<Rightarrow> string \<Rightarrow> dict list \<Rightarrow> dict list \<times> string option" where
  "run_regex pk rule_body events =
     (case pk_re_flags pk rule_body of
        Inl msg \<Rightarrow> ([], Some msg)
      | Inr hit \<Rightarrow> (filter (\<lambda>e. hit (json_dumps (VDict e))) events, None))"

definition runner :: "packages \<Rightarrow> string \<Rightarrow> (string \<Rightarrow> dict list \<Rightarrow> dict list \<times> string option) option" where
  "runner pk lang =
     (if lang = ''sigma'' then Some (run_sigma pk)
      else if lang = ''yara'' then Some (run_yara pk)
      else if lang = ''kql'' \<or> lang = ''eql'' then Some (run_kql (pk_re_search pk))
      else if lang = ''lucene'' then Some (\<lambda>body evts. (fst (run_kql (pk_re_search pk) body evts), None))
      else if lang = ''regex'' then Some (run_regex pk)
      else None)"

definition severity_score :: "string \<Rightarrow> rat" where
  "severity_score sev =
     (let s = lower sev in
      if s = ''critical'' then 1 else if s = ''high'' then 8 / 10 else if s = ''medium'' then 5 / 10
      else if s = ''low'' then 2 / 10 else if s = ''info'' then 1 / 10 else 5 / 10)"

record rule_match =
  rm_rule_id :: string
  rm_rule_name :: string
  rm_rule_language :: string
  rm_severity :: string
  rm_matched :: bool
  rm_matched_events :: "dict list"
  rm_score :: rat
  rm_error :: "string option"

definition execute_rule ::
  "packages \<Rightarrow> string \<Rightarrow> string \<Rightarrow> string \<Rightarrow> string \<Rightarrow> string \<Rightarrow> dict list \<Rightarrow> rule_match" where
  "execute_rule pk rule_id rule_name rule_language rule_body severity events =
     (case runner pk (lower rule_language) of
        None \<Rightarrow> \<lparr>rm_rule_id = rule_id, rm_rule_name = rule_name, rm_rule_language = rule_language,
          rm_severity = severity, rm_matched = False, rm_matched_events = [], rm_score = 0,
          rm_error = Some (''Unsupported rule language: '' @ rule_language)\<rparr>
      | Some run \<Rightarrow> (case run rule_body events of (matched, err) \<Rightarrow>
          \<lparr>rm_rule_id = rule_id, rm_rule_name = rule_name, rm_rule_language = rule_language,
           rm_severity = severity, rm_matched = (0 < length matched), rm_matched_events = take 10 matched,
           rm_score = (if matched \<noteq> [] then severity_score severity else 0), rm_error = err\<rparr>))"

subsection \<open>Hunts\<close>

text \<open>A rule as \<open>run_hunt\<close> reads it from its dictionary, with the defaults of \<open>rule.get\<close> applied.\<close>

record hunt_rule =
  hr_id :: string
  hr_name :: string
  hr_language :: string
  hr_body :: string
  hr_severity :: string

record hunt_summary =
  hs_rule_id :: string
  hs_rule_name :: string
  hs_severity :: string
  hs_match_count :: nat
  hs_score :: rat

record hunt_result =
  hx_rules_evaluated :: nat
  hx_rules_matched :: nat
  hx_total_events_scanned :: nat
  hx_matched_events :: "dict list"
  hx_match_summary :: "hunt_summary list"
  hx_errors :: "string list"

definition run_one :: "packages \<Rightarrow> dict list \<Rightarrow> hunt_rule \<Rightarrow> rule_match" where
  "run_one pk events r = execute_rule pk (hr_id r) (hr_name r) (hr_language r) (hr_body r) (hr_severity r) events"

fun hunt_loop ::
  "packages \<Rightarrow> dict list \<Rightarrow> hunt_rule list \<Rightarrow> nat \<Rightarrow> dict list \<Rightarrow> hunt_summary list \<Rightarrow> string list
   \<Rightarrow> nat \<times> dict list \<times> hunt_summary list \<times> string list" where
  "hunt_loop pk events [] n evs summ errs = (n, evs, summ, errs)"
| "hunt_loop pk events (rule # rules) n evs summ errs =
     (let result = run_one pk events rule;
          errs1 = (case rm_error result of None \<Rightarrow> errs
            | Some e \<Rightarrow> if e = [] then errs else errs @ [rm_rule_name result @ '': '' @ e])
      in if rm_matched result
         then hunt_loop pk events rules (n + 1) (evs @ rm_matched_events result)
                (summ @ [\<lparr>hs_rule_id = rm_rule_id result, hs_rule_name = rm_rule_name result,
                   hs_severity = rm_severity result, hs_match_count = length (rm_matched_events result),
                   hs_score = rm_score result\<rparr>]) errs1
         else hunt_loop pk events rules n evs summ errs1)"

definition run_hunt :: "packages \<Rightarrow> hunt_rule list \<Rightarrow> dict list \<Rightarrow> hunt_result" where
  "run_hunt pk rules events =
     (case hunt_loop pk events rules 0 [] [] [] of (n, evs, summ, errs) \<Rightarrow>
        \<lparr>hx_rules_evaluated = length rules, hx_rules_matched = n,
         hx_total_events_scanned = length events, hx_matched_events = take 100 evs,
         hx_match_summary = summ, hx_errors = errs\<rparr>)"

subsection \<open>Lemmas\<close>

lemma set_filter_events: "filter_events p events = Inr ms \<Longrightarrow> set ms \<subseteq> set events"
proof -
  have m: "mapM_res (\<lambda>e. bind_res (p e) (\<lambda>b. Inr (e, b))) es = Inr ps \<Longrightarrow> map fst ps = es" for es ps
    by (induction es arbitrary: ps) auto
  assume "filter_events p events = Inr ms"
  then obtain ps where ps: "mapM_res (\<lambda>e. bind_res (p e) (\<lambda>b. Inr (e, b))) events = Inr ps" "ms = map fst (filter snd ps)"
    unfolding filter_events_def bind_res_eq_Inr by blast
  have "set ms \<subseteq> set (map fst ps)" by (auto simp: ps(2))
  then show ?thesis by (simp only: m [OF ps(1)])
qed

lemma set_kql_loop: "x \<in> set (fst (kql_loop f q es)) \<Longrightarrow> x \<in> set es"
  by (induction es) (auto split: sum.splits prod.splits if_splits)

lemma set_sigma_fallback: "x \<in> set (sigma_fallback_eval l es) \<Longrightarrow> x \<in> set es"
  by (auto simp: sigma_fallback_eval_def split: sum.splits val.splits
      dest: subsetD [OF set_filter_events] subsetD [OF set_filter_events [OF sym]])

definition reported :: "dict list \<Rightarrow> dict set" where
  "reported es = set es \<union> {yara_event e names | e names. e \<in> set es \<and> names \<noteq> []}"

lemma set_run_yara: "x \<in> set (fst (run_yara pk body es)) \<Longrightarrow> x \<in> reported es"
proof -
  have m: "mapM_res (\<lambda>e. bind_res (f e) (\<lambda>b. Inr (e, b))) es = Inr ps \<Longrightarrow> map fst ps = es" for f es ps
    by (induction es arbitrary: ps) auto
  assume x: "x \<in> set (fst (run_yara pk body es))"
  then obtain scan where c: "pk_yara pk body = Compiled scan" by (auto simp: run_yara_def split: yara.splits)
  with x obtain ps where ps: "mapM_res (\<lambda>e. bind_res (scan (event_to_bytes e)) (\<lambda>names. Inr (e, names))) es = Inr ps"
    by (auto simp: run_yara_def split: sum.splits)
  from x obtain e names where "(e, names) \<in> set ps" "names \<noteq> []" "x = yara_event e names"
    by (auto simp: run_yara_def c ps)
  moreover from this(1) have "e \<in> set es" using m [OF ps] by force
  ultimately show ?thesis by (auto simp: reported_def)
qed

lemma runner_subset:
  assumes "runner pk lang = Some f" "x \<in> set (fst (f body es))"
  shows "x \<in> reported es"
proof -
  have sig: "x \<in> set (fst (run_sigma pk body es)) \<Longrightarrow> x \<in> reported es"
    by (auto simp: run_sigma_def reported_def dest: set_sigma_fallback split: pysigma.splits)
  have kql: "x \<in> set (fst (run_kql (pk_re_search pk) body es)) \<Longrightarrow> x \<in> reported es"
    unfolding run_kql_def reported_def by (blast dest: set_kql_loop)
  have reg: "x \<in> set (fst (run_regex pk body es)) \<Longrightarrow> x \<in> reported es"
    by (auto simp: run_regex_def reported_def split: sum.splits)
  show ?thesis
    using assms sig kql reg set_run_yara [of x pk body es] unfolding runner_def
    by (simp split: if_split_asm) (metis fst_conv)+
qed

lemma run_one_subset: "x \<in> set (rm_matched_events (run_one pk es r)) \<Longrightarrow> x \<in> reported es"
proof (cases "runner pk (lower (hr_language r))")
  case None
  moreover assume "x \<in> set (rm_matched_events (run_one pk es r))"
  ultimately show ?thesis by (simp add: run_one_def execute_rule_def)
next
  case (Some f)
  have "rm_matched_events (run_one pk es r) = take 10 (fst (f (hr_body r) es))"
    by (simp add: run_one_def execute_rule_def Some split: prod.split)
  moreover assume "x \<in> set (rm_matched_events (run_one pk es r))"
  ultimately have "x \<in> set (fst (f (hr_body r) es))" by (auto dest: in_set_takeD)
  then show ?thesis by (rule runner_subset [OF Some])
qed

lemma run_one_facts:
  "rm_matched (run_one pk es r) \<longleftrightarrow> rm_matched_events (run_one pk es r) \<noteq> []"
  "length (rm_matched_events (run_one pk es r)) \<le> 10"
  "rm_rule_name (run_one pk es r) = hr_name r" "rm_rule_id (run_one pk es r) = hr_id r"
  by (auto simp: run_one_def execute_rule_def split: option.split prod.split)

lemma hunt_loop_result:
  "hunt_loop pk es rules n evs summ errs = (n', evs', summ', errs') \<Longrightarrow>
   (let hits = filter (\<lambda>r. rm_matched (run_one pk es r)) rules in
    n' = n + length hits
    \<and> evs' = evs @ concat (map (\<lambda>r. rm_matched_events (run_one pk es r)) rules)
    \<and> map hs_rule_id summ' = map hs_rule_id summ @ map hr_id hits
    \<and> map hs_match_count summ' = map hs_match_count summ @ map (\<lambda>r. length (rm_matched_events (run_one pk es r))) hits
    \<and> length errs' = length errs + length (filter (\<lambda>r. rm_error (run_one pk es r) \<notin> {None, Some []}) rules))"
proof (induction rules arbitrary: n evs summ errs)
  case (Cons r rules)
  show ?case
  proof (cases "rm_matched (run_one pk es r)")
    case True
    with Cons.prems show ?thesis
      by (auto simp: Let_def run_one_facts dest!: Cons.IH split: option.splits if_splits)
  next
    case False
    with Cons.prems show ?thesis
      by (auto simp: Let_def run_one_facts dest!: Cons.IH split: option.splits if_splits)
  qed
qed simp

subsection \<open>Properties\<close>

text \<open>
  The hunt report accounts for what happened: it counts the rules that matched and lists
  exactly those in its summary, in order and with their number of (at most ten) events; its
  matched events are the first hundred of all matches, every one of them an event of the hunt, as it is
  or, for a YARA rule, as a copy that also names the rules that matched; and it has one error line per rule that reported an error.
\<close>

theorem hunt_accounting:
  "let x = run_hunt pk rules events; hits = filter (\<lambda>r. rm_matched (run_one pk events r)) rules in
     hx_rules_evaluated x = length rules \<and> hx_rules_matched x = length hits
   \<and> map hs_rule_id (hx_match_summary x) = map hr_id hits
   \<and> map hs_match_count (hx_match_summary x) = map (\<lambda>r. length (rm_matched_events (run_one pk events r))) hits
   \<and> list_all (\<lambda>k. 1 \<le> k \<and> k \<le> 10) (map hs_match_count (hx_match_summary x))
   \<and> length (hx_matched_events x) = min 100 (sum_list (map hs_match_count (hx_match_summary x)))
   \<and> set (hx_matched_events x) \<subseteq> reported events
   \<and> length (hx_errors x) = length (filter (\<lambda>r. rm_error (run_one pk events r) \<notin> {None, Some []}) rules)"
proof -
  obtain n evs summ errs where h: "hunt_loop pk events rules 0 [] [] [] = (n, evs, summ, errs)"
    by (cases "hunt_loop pk events rules 0 [] [] []") auto
  let ?hits = "filter (\<lambda>r. rm_matched (run_one pk events r)) rules"
  let ?evs = "\<lambda>r. rm_matched_events (run_one pk events r)"
  note res = hunt_loop_result [OF h, unfolded Let_def]
  have len: "length (concat (map ?evs rs)) = sum_list (map (\<lambda>r. length (?evs r)) (filter (\<lambda>r. rm_matched (run_one pk events r)) rs))"
    for rs by (induction rs) (auto simp: run_one_facts(1))
  have sub: "set (take 100 (concat (map ?evs rules))) \<subseteq> reported events"
  proof
    fix x
    assume "x \<in> set (take 100 (concat (map ?evs rules)))"
    then have "x \<in> set (concat (map ?evs rules))" by (rule in_set_takeD)
    then obtain r where "x \<in> set (?evs r)" by auto
    then show "x \<in> reported events" by (rule run_one_subset)
  qed
  have cnt: "list_all (\<lambda>k. 1 \<le> k \<and> k \<le> 10) (map (\<lambda>r. length (?evs r)) ?hits)"
    using run_one_facts(1,2) by (auto simp: list_all_iff Suc_le_eq)
  show ?thesis
    using res len [of rules] cnt sub by (auto simp: run_hunt_def h Let_def)
qed

end
