(* ===== verification/Ip_Address.thy ===== *)
theory Ip_Address
  imports "HOL-Library.Word" Py_Text
begin

text \<open>
  Python's \<open>ipaddress\<close> module as far as the source uses it: addresses as machine words, parsing of
  their textual forms, and the address classes.  The networks are those of the 3.11 releases the
  services run on.
\<close>

subsection \<open>Addresses\<close>

datatype ip = V4 "32 word" | V6 "128 word"

text \<open>A network: its address and prefix length; membership compares the leading bits.\<close>

definition in_net :: "'a::len word \<Rightarrow> 'a word \<times> nat \<Rightarrow> bool" where
  "in_net w n = (case n of (a, len) \<Rightarrow> drop_bit (LENGTH('a) - len) w = drop_bit (LENGTH('a) - len) a)"

definition in_nets :: "'a::len word \<Rightarrow> ('a word \<times> nat) list \<Rightarrow> bool" where
  "in_nets w nets = list_ex (in_net w) nets"

definition octets :: "int \<Rightarrow> int \<Rightarrow> int \<Rightarrow> int \<Rightarrow> 32 word" where
  "octets a b c d = word_of_int (((a * 256 + b) * 256 + c) * 256 + d)"

text \<open>The 128-bit address with the given leading groups of 16 bits and zeros after them.\<close>

definition groups :: "int list \<Rightarrow> 128 word" where
  "groups gs = word_of_int (foldl (\<lambda>n g. n * 65536 + g) 0 (gs @ replicate (8 - length gs) 0))"

definition V4_PRIVATE :: "(32 word \<times> nat) list" where
  "V4_PRIVATE =
     [(octets 0 0 0 0, 8), (octets 10 0 0 0, 8), (octets 127 0 0 0, 8), (octets 169 254 0 0, 16),
      (octets 172 16 0 0, 12), (octets 192 0 0 0, 24), (octets 192 0 0 170, 31), (octets 192 0 2 0, 24),
      (octets 192 168 0 0, 16), (octets 198 18 0 0, 15), (octets 198 51 100 0, 24), (octets 203 0 113 0, 24),
      (octets 240 0 0 0, 4), (octets 255 255 255 255, 32)]"

definition V4_PRIVATE_EXCEPTIONS :: "(32 word \<times> nat) list" where
  "V4_PRIVATE_EXCEPTIONS = [(octets 192 0 0 9, 32), (octets 192 0 0 10, 32)]"

definition V6_PRIVATE :: "(128 word \<times> nat) list" where
  "V6_PRIVATE =
     [(1, 128), (0, 128), (groups [0, 0, 0, 0, 0, 65535], 96), (groups [0x64, 0xFF9B, 1], 48),
      (groups [0x100], 64), (groups [0x2001], 23), (groups [0x2001, 0xDB8], 32), (groups [0x2002], 16),
      (groups [0xFC00], 7), (groups [0xFE80], 10)]"

definition V6_PRIVATE_EXCEPTIONS :: "(128 word \<times> nat) list" where
  "V6_PRIVATE_EXCEPTIONS =
     [(groups [0x2001, 1, 0, 0, 0, 0, 0, 1], 128), (groups [0x2001, 1, 0, 0, 0, 0, 0, 2], 128),
      (groups [0x2001, 3], 32), (groups [0x2001, 4, 0x112], 48), (groups [0x2001, 0x20], 28), (groups [0x2001, 0x30], 28)]"

definition V6_RESERVED :: "(128 word \<times> nat) list" where
  "V6_RESERVED =
     [(groups [0], 8), (groups [0x100], 8), (groups [0x200], 7), (groups [0x400], 6), (groups [0x800], 5),
      (groups [0x1000], 4), (groups [0x4000], 3), (groups [0x6000], 3), (groups [0x8000], 3), (groups [0xA000], 3),
      (groups [0xC000], 3), (groups [0xE000], 4), (groups [0xF000], 5), (groups [0xF800], 6), (groups [0xFE00], 9)]"

fun is_loopback :: "ip \<Rightarrow> bool" where
  "is_loopback (V4 w) = in_net w (octets 127 0 0 0, 8)"
| "is_loopback (V6 w) = (w = 1)"

fun is_link_local :: "ip \<Rightarrow> bool" where
  "is_link_local (V4 w) = in_net w (octets 169 254 0 0, 16)"
| "is_link_local (V6 w) = in_net w (groups [0xFE80], 10)"

fun is_unspecified :: "ip \<Rightarrow> bool" where
  "is_unspecified (V4 w) = (w = 0)"
| "is_unspecified (V6 w) = (w = 0)"

fun is_multicast :: "ip \<Rightarrow> bool" where
  "is_multicast (V4 w) = in_net w (octets 224 0 0 0, 4)"
| "is_multicast (V6 w) = in_net w (groups [0xFF00], 8)"

fun is_reserved :: "ip \<Rightarrow> bool" where
  "is_reserved (V4 w) = in_net w (octets 240 0 0 0, 4)"
| "is_reserved (V6 w) = in_nets w V6_RESERVED"

fun ipv4_mapped :: "ip \<Rightarrow> ip option" where
  "ipv4_mapped (V4 w) = None"
| "ipv4_mapped (V6 w) = (if drop_bit 32 w = 0xFFFF then Some (V4 (ucast w)) else None)"

definition v4_private :: "32 word \<Rightarrow> bool" where
  "v4_private w \<longleftrightarrow> in_nets w V4_PRIVATE \<and> \<not> in_nets w V4_PRIVATE_EXCEPTIONS"

fun is_private :: "ip \<Rightarrow> bool" where
  "is_private (V4 w) = v4_private w"
| "is_private (V6 w) =
     (case ipv4_mapped (V6 w) of
        Some (V4 u) \<Rightarrow> v4_private u
      | _ \<Rightarrow> in_nets w V6_PRIVATE \<and> \<not> in_nets w V6_PRIVATE_EXCEPTIONS)"

subsection \<open>Text\<close>

definition parse_octet :: "string \<Rightarrow> int option" where
  "parse_octet s =
     (if s \<noteq> [] \<and> list_all is_digit s \<and> length s \<le> 3 \<and> \<not> (s \<noteq> ''0'' \<and> hd s = CHR ''0'') \<and> digits_val s \<le> 255
      then Some (int (digits_val s)) else None)"

definition parse_v4 :: "string \<Rightarrow> 32 word option" where
  "parse_v4 s =
     (case map parse_octet (split_on (CHR ''.'') s) of
        [Some a, Some b, Some c, Some d] \<Rightarrow> Some (octets a b c d)
      | _ \<Rightarrow> None)"

definition parse_hextet :: "string \<Rightarrow> int option" where
  "parse_hextet s =
     (if s = [] \<or> 4 < length s then None
      else foldl (\<lambda>acc c. case (acc, hex_code c) of (Some n, Some d) \<Rightarrow> Some (n * 16 + int d) | _ \<Rightarrow> None) (Some 0) s)"

fun all_some :: "'a option list \<Rightarrow> 'a list option" where
  "all_some [] = Some []"
| "all_some (None # xs) = None"
| "all_some (Some x # xs) = map_option ((#) x) (all_some xs)"

text \<open>A trailing dotted quad stands for two groups; the hextets it is turned into are at most four
  digits, so they are kept as numbers.  A part is then a number, an empty text or invalid.\<close>

datatype v6_part = Empty | Group int | Bad

definition v6_part_of :: "string \<Rightarrow> v6_part" where
  "v6_part_of s = (if s = [] then Empty else case parse_hextet s of None \<Rightarrow> Bad | Some n \<Rightarrow> Group n)"

definition v6_parts :: "string list \<Rightarrow> v6_part list option" where
  "v6_parts parts =
     (if CHR ''.'' \<in> set (last parts)
      then (case parse_v4 (last parts) of
              None \<Rightarrow> None
            | Some w \<Rightarrow> Some (map v6_part_of (butlast parts) @ [Group (uint (drop_bit 16 w)), Group (uint (take_bit 16 w))]))
      else Some (map v6_part_of parts))"

definition groups_value :: "v6_part list \<Rightarrow> int option" where
  "groups_value ps = map_option (foldl (\<lambda>n g. n * 65536 + g) 0)
     (all_some (map (\<lambda>p. case p of Group n \<Rightarrow> Some n | _ \<Rightarrow> None) ps))"

text \<open>The inner empty parts mark the run of zeroes; at most one may occur, and an empty end must touch it.\<close>

definition v6_value :: "v6_part list \<Rightarrow> int option" where
  "v6_value ps =
     (case filter (\<lambda>i. ps ! i = Empty) [1..<length ps - 1] of
        [] \<Rightarrow> if length ps = 8 then groups_value ps else None
      | [i] \<Rightarrow>
          (let hi = (if hd ps = Empty then i - 1 else i);
               lo = (if last ps = Empty then length ps - i - 2 else length ps - i - 1)
           in if hd ps = Empty \<and> hi \<noteq> 0 \<or> last ps = Empty \<and> lo \<noteq> 0 \<or> 7 < hi + lo then None
              else groups_value (take hi ps @ replicate (8 - (hi + lo)) (Group 0) @ drop (length ps - lo) ps))
      | _ \<Rightarrow> None)"

text \<open>A zone identifier follows a percent sign; it is kept by Python but does not enter the classes.\<close>

definition strip_scope :: "string \<Rightarrow> string option" where
  "strip_scope s =
     (case split_on (CHR 0x25) s of
        [a] \<Rightarrow> Some a
      | [a, z] \<Rightarrow> if z = [] then None else Some a
      | _ \<Rightarrow> None)"

definition parse_v6 :: "string \<Rightarrow> 128 word option" where
  "parse_v6 s =
     (if CHR ''/'' \<in> set s then None
      else case strip_scope s of
        None \<Rightarrow> None
      | Some a \<Rightarrow>
          (let parts = split_on (CHR '':'') a in
           if length parts < 3 then None
           else case v6_parts parts of
             None \<Rightarrow> None
           | Some ps \<Rightarrow> if 9 < length ps then None else map_option word_of_int (v6_value ps)))"

text \<open>\<open>ipaddress.ip_address(s)\<close>.\<close>

definition ip_address :: "string \<Rightarrow> ip option" where
  "ip_address s =
     (case parse_v4 s of
        Some w \<Rightarrow> Some (V4 w)
      | None \<Rightarrow> map_option V6 (parse_v6 s))"

subsection \<open>Printing\<close>

definition octet_text :: "32 word \<Rightarrow> nat \<Rightarrow> string" where
  "octet_text w k = int_str (uint (take_bit 8 (drop_bit k w)))"

definition hextet_text :: "int \<Rightarrow> string" where
  "hextet_text n =
     (let ds = dropWhile (\<lambda>d. d = 0) [n div 4096, n div 256 mod 16, n div 16 mod 16, n mod 16]
      in map (\<lambda>d. hex_digit (nat d)) (if ds = [] then [0] else ds))"

definition v6_groups :: "128 word \<Rightarrow> int list" where
  "v6_groups w = map (\<lambda>k. uint (take_bit 16 (drop_bit (16 * k) w))) [7, 6, 5, 4, 3, 2, 1, 0]"

text \<open>\<open>_compress_hextets\<close>: the first of the longest runs of zero groups, if longer than one.\<close>

definition zero_run :: "int list \<Rightarrow> nat \<Rightarrow> nat" where
  "zero_run gs i = length (takeWhile (\<lambda>g. g = 0) (drop i gs))"

definition best_run :: "int list \<Rightarrow> nat \<times> nat" where
  "best_run gs = foldl (\<lambda>(i, n) j. if n < zero_run gs j then (j, zero_run gs j) else (i, n)) (0, 0) [0..<length gs]"

definition compress_hextets :: "int list \<Rightarrow> string list" where
  "compress_hextets gs =
     (case best_run gs of (i, n) \<Rightarrow>
        if 1 < n
        then (if i = 0 then [[]] else []) @ map hextet_text (take i gs) @ [[]] @ map hextet_text (drop (i + n) gs)
             @ (if i + n = length gs then [[]] else [])
        else map hextet_text gs)"

fun ip_text :: "ip \<Rightarrow> string" where
  "ip_text (V4 w) = join_with ''.'' (map (octet_text w) [24, 16, 8, 0])"
| "ip_text (V6 w) = join_with '':'' (compress_hextets (v6_groups w))"

lemma ip_text_examples:
  "ip_text (V4 (octets 192 168 0 1)) = ''192.168.0.1''"
  "ip_text (V6 1) = ''::1''" "ip_text (V6 (groups [0xFE80])) = ''fe80::''" "ip_text (V6 0) = ''::''"
  "ip_text (V6 (groups [0x2001, 0xDB8, 0, 0, 1, 0, 0, 1])) = ''2001:db8::1:0:0:1''"
  by code_simp+

lemma ip_address_examples:
  "ip_address ''169.254.169.254'' = Some (V4 (octets 169 254 169 254))"
  "ip_address ''1.2.3'' = None" "ip_address ''01.2.3.4'' = None" "ip_address ''256.2.3.4'' = None"
  "ip_address ''::1'' = Some (V6 1)" "ip_address ''::'' = Some (V6 0)"
  "ip_address ''fe80::1'' = Some (V6 (groups [0xFE80, 0, 0, 0, 0, 0, 0, 1]))"
  "ip_address ''::ffff:10.0.0.1'' = Some (V6 (groups [0, 0, 0, 0, 0, 65535, 2560, 1]))"
  "ip_address ''1::2::3'' = None" "ip_address ''1:2:3:4:5:6:7:8:9'' = None" "ip_address '':1::'' = None"
  "ip_address ''2001:db8::'' = Some (V6 (groups [0x2001, 0xDB8]))"
  "ip_address ''example.com'' = None" "ip_address ''12345::'' = None"
  by code_simp+

subsection \<open>The classes as ranges\<close>

lemma div_eq_range: "n div P = q \<longleftrightarrow> q * P \<le> n \<and> n < q * P + P" if "0 < P" for n P q :: int
proof
  assume q: "n div P = q"
  have "n = P * q + n mod P" using mult_div_mod_eq [of P n] q by simp
  moreover have "0 \<le> n mod P" "n mod P < P" using that by simp_all
  ultimately show "q * P \<le> n \<and> n < q * P + P" by (simp add: mult.commute)
next
  assume "q * P \<le> n \<and> n < q * P + P"
  then show "n div P = q" by (intro int_div_pos_eq [of n P q "n - P * q"]) (auto simp: mult.commute)
qed

lemma uint_take_full: "take_bit LENGTH('a) (uint (w :: 'a::len word)) = uint w"
  by (simp add: take_bit_int_eq_self uint_lt2p)

lemma le_div_range: "0 < P \<Longrightarrow> q \<le> n div P \<longleftrightarrow> q * P \<le> n" for n P q :: int
proof -
  assume P: "0 < P"
  have d: "n div P * P + n mod P = n" "0 \<le> n mod P" "n mod P < P" using P by simp_all
  have "q * P \<le> n" if "q \<le> n div P"
    using mult_right_mono [OF that, of P] P d by linarith
  moreover have "n < q * P" if "n div P < q"
  proof -
    have "(n div P + 1) * P \<le> q * P" using that P by (intro mult_right_mono) auto
    then have "n div P * P + P \<le> q * P" by (simp only: distrib_right mult_1)
    with d show ?thesis by linarith
  qed
  ultimately show ?thesis by (meson not_less)
qed

lemma in_net_range:
  fixes w a :: "'a::len word"
  assumes "uint a = lo" "lo mod 2 ^ (LENGTH('a) - k) = 0"
  shows "in_net w (a, k) \<longleftrightarrow> lo \<le> uint w \<and> uint w < lo + 2 ^ (LENGTH('a) - k)"
proof -
  define P :: int where "P = 2 ^ (LENGTH('a) - k)"
  have "in_net w (a, k) \<longleftrightarrow> uint w div P = lo div P"
    unfolding in_net_def P_def assms(1) [symmetric]
    unfolding word_uint_eq_iff prod.case unsigned_drop_bit_eq by (simp add: drop_bit_eq_div uint_take_full)
  also have "\<dots> \<longleftrightarrow> lo div P * P \<le> uint w \<and> uint w < lo div P * P + P"
    by (rule div_eq_range) (simp add: P_def)
  also have "lo div P * P = lo" using assms(2) by (simp add: P_def flip: minus_mod_eq_div_mult)
  finally show ?thesis by (simp add: P_def)
qed

lemma uint_V4: "0 \<le> uint (w::32 word) \<and> uint w < 4294967296"
  using uint_lt2p [of w] by simp

definition in_ranges :: "int \<Rightarrow> (int \<times> int) list \<Rightarrow> bool" where
  "in_ranges n ranges = list_ex (\<lambda>(lo, hi). lo \<le> n \<and> n < hi) ranges"

definition NEVER_V4 :: "(int \<times> int) list" where
  "NEVER_V4 = [(0, 1), (0x7F000000, 0x80000000), (0xA9FE0000, 0xA9FF0000), (0xE0000000, 0x100000000)]"

definition INTERNAL_V4 :: "(int \<times> int) list" where
  "INTERNAL_V4 =
     [(0, 0x01000000), (0x0A000000, 0x0B000000), (0x7F000000, 0x80000000), (0xA9FE0000, 0xA9FF0000),
      (0xAC100000, 0xAC200000), (0xC0000000, 0xC0000100), (0xC00000AA, 0xC00000AC), (0xC0000200, 0xC0000300),
      (0xC0A80000, 0xC0A90000), (0xC6120000, 0xC6140000), (0xC6336400, 0xC6336500), (0xCB007100, 0xCB007200),
      (0xF0000000, 0x100000000), (0xFFFFFFFF, 0x100000000)]"

lemma octets_uint: "uint (octets a b c d) = (((a * 256 + b) * 256 + c) * 256 + d) mod 4294967296"
  unfolding octets_def uint_word_of_int by simp

lemma v4_nets:
  fixes w :: "32 word"
  defines "n \<equiv> uint w"
  shows "in_net w (octets 127 0 0 0, 8) \<longleftrightarrow> 0x7F000000 \<le> n \<and> n < 0x80000000"
    "in_net w (octets 169 254 0 0, 16) \<longleftrightarrow> 0xA9FE0000 \<le> n \<and> n < 0xA9FF0000"
    "in_net w (octets 224 0 0 0, 4) \<longleftrightarrow> 0xE0000000 \<le> n \<and> n < 0xF0000000"
    "in_net w (octets 240 0 0 0, 4) \<longleftrightarrow> 0xF0000000 \<le> n \<and> n < 0x100000000"
    "in_net w (octets 0 0 0 0, 8) \<longleftrightarrow> 0 \<le> n \<and> n < 0x1000000"
    "in_net w (octets 10 0 0 0, 8) \<longleftrightarrow> 0x0A000000 \<le> n \<and> n < 0x0B000000"
    "in_net w (octets 172 16 0 0, 12) \<longleftrightarrow> 0xAC100000 \<le> n \<and> n < 0xAC200000"
    "in_net w (octets 192 0 0 0, 24) \<longleftrightarrow> 0xC0000000 \<le> n \<and> n < 0xC0000100"
    "in_net w (octets 192 0 0 170, 31) \<longleftrightarrow> 0xC00000AA \<le> n \<and> n < 0xC00000AC"
    "in_net w (octets 192 0 2 0, 24) \<longleftrightarrow> 0xC0000200 \<le> n \<and> n < 0xC0000300"
    "in_net w (octets 192 168 0 0, 16) \<longleftrightarrow> 0xC0A80000 \<le> n \<and> n < 0xC0A90000"
    "in_net w (octets 198 18 0 0, 15) \<longleftrightarrow> 0xC6120000 \<le> n \<and> n < 0xC6140000"
    "in_net w (octets 198 51 100 0, 24) \<longleftrightarrow> 0xC6336400 \<le> n \<and> n < 0xC6336500"
    "in_net w (octets 203 0 113 0, 24) \<longleftrightarrow> 0xCB007100 \<le> n \<and> n < 0xCB007200"
    "in_net w (octets 255 255 255 255, 32) \<longleftrightarrow> 0xFFFFFFFF \<le> n \<and> n < 0x100000000"
    "in_net w (octets 192 0 0 9, 32) \<longleftrightarrow> n = 0xC0000009"
    "in_net w (octets 192 0 0 10, 32) \<longleftrightarrow> n = 0xC000000A"
  using uint_V4 [of w] unfolding n_def by (auto simp: octets_uint in_net_range)

lemma v4_private_iff:
  "v4_private w \<longleftrightarrow> in_ranges (uint w) INTERNAL_V4 \<and> uint w \<notin> {0xC0000009, 0xC000000A}"
  unfolding v4_private_def in_nets_def V4_PRIVATE_def V4_PRIVATE_EXCEPTIONS_def INTERNAL_V4_def in_ranges_def
    list_ex_Cons_iff list_ex_Nil_iff prod.case v4_nets
  by simp

lemma v4_never_iff:
  "is_loopback (V4 w) \<or> is_link_local (V4 w) \<or> is_unspecified (V4 w) \<or> is_multicast (V4 w) \<or> is_reserved (V4 w)
     \<longleftrightarrow> in_ranges (uint w) NEVER_V4"
proof -
  have z: "w = 0 \<longleftrightarrow> 0 \<le> uint w \<and> uint w < 1"
    using uint_V4 [of w] uint_0_iff [of w] by linarith
  have u: "0xE0000000 \<le> uint w \<and> uint w < 0x100000000 \<longleftrightarrow>
      0xE0000000 \<le> uint w \<and> uint w < 0xF0000000 \<or> 0xF0000000 \<le> uint w \<and> uint w < 0x100000000"
    by auto
  show ?thesis
    unfolding is_loopback.simps is_link_local.simps is_unspecified.simps is_multicast.simps is_reserved.simps
      v4_nets NEVER_V4_def in_ranges_def list_ex_Cons_iff list_ex_Nil_iff prod.case u z
    by blast
qed

text \<open>An IPv6 address is decided on its first group alone as long as private addresses are allowed.\<close>

lemma uint_groups1:
  assumes "0 \<le> g" "g < 65536"
  shows "uint (groups [g]) = g * 2 ^ 112"
  using assms unfolding groups_def uint_word_of_int by (simp add: eval_nat_numeral(2,3))

definition first_group :: "128 word \<Rightarrow> int" where
  "first_group w = uint w div 2 ^ 112"

lemma v6_net16:
  fixes w :: "128 word"
  assumes "0 \<le> g" "g < 65536" "k \<le> 16" "g mod 2 ^ (16 - k) = 0"
  shows "in_net w (groups [g], k) \<longleftrightarrow> g \<le> first_group w \<and> first_group w < g + 2 ^ (16 - k)"
proof -
  define P :: int where "P = 2 ^ 112"
  have "128 - k = (16 - k) + 112" using assms(3) by simp
  then have e: "(2::int) ^ (128 - k) = 2 ^ (16 - k) * P" by (metis P_def power_add)
  have a: "uint (groups [g]) = g * P" using uint_groups1 [OF assms(1,2)] by (simp add: P_def)
  have m: "g * P mod 2 ^ (LENGTH(128) - k) = 0"
    using assms(4) by (simp add: e mod_mult_mult2)
  have P: "0 < P" by (simp add: P_def)
  have "in_net w (groups [g], k) \<longleftrightarrow> g * P \<le> uint w \<and> uint w < (g + 2 ^ (16 - k)) * P"
    using in_net_range [OF a m, of w] by (simp add: e distrib_right)
  also have "\<dots> \<longleftrightarrow> g \<le> uint w div P \<and> uint w div P < g + 2 ^ (16 - k)"
    using le_div_range [OF P] by (metis not_le)
  finally show ?thesis by (simp add: P_def first_group_def)
qed

lemma first_group_bounds: "0 \<le> first_group w \<and> first_group w < 65536"
proof -
  have "0 \<le> uint w" "\<not> 65536 * 2 ^ 112 \<le> uint w" using uint_lt2p [of w] by simp_all
  then show ?thesis
    using le_div_range [of "2 ^ 112" 65536 "uint w"] le_div_range [of "2 ^ 112" 0 "uint w"] unfolding first_group_def by simp
qed

lemma in_ranges_simps [simp]:
  "\<not> in_ranges n []" "in_ranges n ((a, b) # rs) \<longleftrightarrow> a \<le> n \<and> n < b \<or> in_ranges n rs"
  by (simp_all add: in_ranges_def)

lemma in_ranges_merge: "a \<le> b \<Longrightarrow> b \<le> c \<Longrightarrow> in_ranges n ((a, b) # (b, c) # rs) \<longleftrightarrow> in_ranges n ((a, c) # rs)"
  "a \<le> b \<Longrightarrow> b \<le> c \<Longrightarrow> in_ranges n (r # (a, b) # (b, c) # rs) \<longleftrightarrow> in_ranges n (r # (a, c) # rs)"
  by (cases r; auto)+

definition ROUTED_V6 :: "(int \<times> int) list" where
  "ROUTED_V6 = [(0x2000, 0x4000), (0xFC00, 0xFE00), (0xFEC0, 0xFF00)]"

lemma v6_reserved_iff:
  "is_reserved (V6 w) \<longleftrightarrow> in_ranges (first_group w) [(0, 0x2000), (0x4000, 0xFC00), (0xFE00, 0xFE80)]"
proof -
  have "is_reserved (V6 w) \<longleftrightarrow> in_ranges (first_group w)
      [(0, 0x100), (0x100, 0x200), (0x200, 0x400), (0x400, 0x800), (0x800, 0x1000), (0x1000, 0x2000), (0x4000, 0x6000),
       (0x6000, 0x8000), (0x8000, 0xA000), (0xA000, 0xC000), (0xC000, 0xE000), (0xE000, 0xF000), (0xF000, 0xF800),
       (0xF800, 0xFC00), (0xFE00, 0xFE80)]"
    by (simp add: in_nets_def V6_RESERVED_def v6_net16)
  also have "\<dots> \<longleftrightarrow> in_ranges (first_group w) [(0, 0x2000), (0x4000, 0xFC00), (0xFE00, 0xFE80)]"
    by (simp add: in_ranges_merge del: in_ranges_simps)
  finally show ?thesis .
qed

lemma v6_never_iff:
  "is_loopback (V6 w) \<or> is_link_local (V6 w) \<or> is_unspecified (V6 w) \<or> is_multicast (V6 w) \<or> is_reserved (V6 w)
     \<longleftrightarrow> \<not> in_ranges (first_group w) ROUTED_V6"
proof -
  have low: "first_group w = 0" if "w = 0 \<or> w = 1" using that by (auto simp: first_group_def)
  have m: "is_link_local (V6 w) \<longleftrightarrow> 0xFE80 \<le> first_group w \<and> first_group w < 0xFEC0"
    "is_multicast (V6 w) \<longleftrightarrow> 0xFF00 \<le> first_group w \<and> first_group w < 0x10000"
    by (simp_all add: v6_net16)
  show ?thesis
  proof (cases "w = 0 \<or> w = 1")
    case True
    then show ?thesis using low by (auto simp: ROUTED_V6_def)
  next
    case False
    then show ?thesis
      unfolding m v6_reserved_iff ROUTED_V6_def is_loopback.simps is_unspecified.simps
      using first_group_bounds [of w] by auto
  qed
qed

lemma first_group_drop: "first_group w = uint (drop_bit 112 w)"
  unfolding first_group_def unsigned_drop_bit_eq by (simp only: uint_take_full drop_bit_eq_div)

lemma in_net_first_group: "in_net w (a, k) \<Longrightarrow> 16 \<le> k \<Longrightarrow> k \<le> 128 \<Longrightarrow> first_group w = first_group a"
proof -
  assume "in_net w (a, k)" "16 \<le> k" "k \<le> 128"
  then have "drop_bit (k - 16) (drop_bit (128 - k) w) = drop_bit (k - 16) (drop_bit (128 - k) a)"
    by (simp add: in_net_def)
  with \<open>16 \<le> k\<close> \<open>k \<le> 128\<close> show ?thesis by (simp add: first_group_drop drop_bit_drop_bit)
qed

lemma mapped_first_group: "drop_bit 32 w = 0xFFFF \<Longrightarrow> first_group w = 0"
proof -
  assume "drop_bit 32 w = 0xFFFF"
  then have "drop_bit 80 (drop_bit 32 w) = drop_bit 80 0xFFFF" by simp
  then show ?thesis by (simp add: first_group_drop drop_bit_drop_bit)
qed

lemma exceptions_first_group: "in_nets w V6_PRIVATE_EXCEPTIONS \<Longrightarrow> first_group w = 0x2001"
proof -
  have "first_group (groups [0x2001, 1, 0, 0, 0, 0, 0, 1]) = 0x2001" "first_group (groups [0x2001, 1, 0, 0, 0, 0, 0, 2]) = 0x2001"
    "first_group (groups [0x2001, 3]) = 0x2001" "first_group (groups [0x2001, 4, 0x112]) = 0x2001"
    "first_group (groups [0x2001, 0x20]) = 0x2001" "first_group (groups [0x2001, 0x30]) = 0x2001"
    unfolding first_group_def groups_def uint_word_of_int by (simp_all add: eval_nat_numeral(2,3))
  then show "in_nets w V6_PRIVATE_EXCEPTIONS \<Longrightarrow> first_group w = 0x2001"
    by (auto simp: in_nets_def V6_PRIVATE_EXCEPTIONS_def dest!: in_net_first_group)
qed

end
