(* ===== verification/Playbook_Model.thy ===== *)
theory Playbook_Model
  imports Py_Text
begin

text \<open>
  Playbook steps and their runtime bounds (\<open>services/agents/app/playbook/models.py\<close>,
  \<open>bounds.py\<close>).  The two environment variables are arguments of the functions that read them.
  \<open>valid_step\<close> is what the field constraints of \<open>PlaybookStep\<close> demand of a parsed step.
\<close>

subsection \<open>Bounds\<close>

definition MIN_TIMEOUT_SECONDS :: int where "MIN_TIMEOUT_SECONDS = 1"
definition ABSOLUTE_MAX_TIMEOUT_SECONDS :: int where "ABSOLUTE_MAX_TIMEOUT_SECONDS = 3600"
definition ABSOLUTE_MAX_PARAM_TIMEOUT_SECONDS :: int where "ABSOLUTE_MAX_PARAM_TIMEOUT_SECONDS = 900"
definition ABSOLUTE_MAX_RETRIES :: int where "ABSOLUTE_MAX_RETRIES = 25"
definition DEFAULT_MAX_TIMEOUT_SECONDS :: int where "DEFAULT_MAX_TIMEOUT_SECONDS = 300"
definition DEFAULT_MAX_RETRIES :: int where "DEFAULT_MAX_RETRIES = 10"

lemmas bounds_defs = MIN_TIMEOUT_SECONDS_def ABSOLUTE_MAX_TIMEOUT_SECONDS_def
  ABSOLUTE_MAX_PARAM_TIMEOUT_SECONDS_def ABSOLUTE_MAX_RETRIES_def DEFAULT_MAX_TIMEOUT_SECONDS_def
  DEFAULT_MAX_RETRIES_def

definition clamp_int :: "int \<Rightarrow> int \<Rightarrow> int \<Rightarrow> int" where
  "clamp_int n lo hi = (if n < lo then lo else if hi < n then hi else n)"

definition env_int :: "string option \<Rightarrow> int \<Rightarrow> int \<Rightarrow> int \<Rightarrow> int" where
  "env_int raw default_value lo hi =
     (case raw of
        None \<Rightarrow> default_value
      | Some s \<Rightarrow> if s = [] then default_value
                 else (case py_int s of None \<Rightarrow> default_value | Some parsed \<Rightarrow> clamp_int parsed lo hi))"

definition max_timeout_seconds :: "string option \<Rightarrow> int" where
  "max_timeout_seconds raw =
     env_int raw DEFAULT_MAX_TIMEOUT_SECONDS MIN_TIMEOUT_SECONDS ABSOLUTE_MAX_PARAM_TIMEOUT_SECONDS"

definition max_retries :: "string option \<Rightarrow> int" where
  "max_retries raw = env_int raw DEFAULT_MAX_RETRIES 0 ABSOLUTE_MAX_RETRIES"

definition candidate_int :: "val \<Rightarrow> int \<Rightarrow> int" where
  "candidate_int v fallback =
     (case v of
        VNone \<Rightarrow> fallback
      | VBool b \<Rightarrow> fallback
      | _ \<Rightarrow> (case int_of_val v of None \<Rightarrow> fallback | Some i \<Rightarrow> i))"

definition clamp_timeout :: "string option \<Rightarrow> val \<Rightarrow> int option \<Rightarrow> int" where
  "clamp_timeout raw v default_value =
     clamp_int (candidate_int v (case default_value of None \<Rightarrow> 30 | Some d \<Rightarrow> d))
       MIN_TIMEOUT_SECONDS (max_timeout_seconds raw)"

definition clamp_retries :: "string option \<Rightarrow> val \<Rightarrow> int \<Rightarrow> int" where
  "clamp_retries raw v default_value = clamp_int (candidate_int v default_value) 0 (max_retries raw)"

subsection \<open>Models\<close>

datatype step_type =
    ENRICH | INVESTIGATE | NOTIFY | BLOCK_IP | BLOCK_IOC | ISOLATE_HOST | CREATE_TICKET | CLOSE_CASE
  | HTTP | CONDITION | OSQUERY_LIVE_QUERY | APPROVAL | DISABLE_USER | RESET_PASSWORD | REVOKE_SESSION
  | FORCE_MFA | KILL_PROCESS | QUARANTINE_FILE | RUN_AV_SCAN | RUN_SCRIPT | SEARCH_SIEM
  | CREATE_NOTABLE_EVENT

fun step_type_name :: "step_type \<Rightarrow> string" where
  "step_type_name ENRICH = ''ENRICH''"
| "step_type_name INVESTIGATE = ''INVESTIGATE''"
| "step_type_name NOTIFY = ''NOTIFY''"
| "step_type_name BLOCK_IP = ''BLOCK_IP''"
| "step_type_name BLOCK_IOC = ''BLOCK_IOC''"
| "step_type_name ISOLATE_HOST = ''ISOLATE_HOST''"
| "step_type_name CREATE_TICKET = ''CREATE_TICKET''"
| "step_type_name CLOSE_CASE = ''CLOSE_CASE''"
| "step_type_name HTTP = ''HTTP''"
| "step_type_name CONDITION = ''CONDITION''"
| "step_type_name OSQUERY_LIVE_QUERY = ''OSQUERY_LIVE_QUERY''"
| "step_type_name APPROVAL = ''APPROVAL''"
| "step_type_name DISABLE_USER = ''DISABLE_USER''"
| "step_type_name RESET_PASSWORD = ''RESET_PASSWORD''"
| "step_type_name REVOKE_SESSION = ''REVOKE_SESSION''"
| "step_type_name FORCE_MFA = ''FORCE_MFA''"
| "step_type_name KILL_PROCESS = ''KILL_PROCESS''"
| "step_type_name QUARANTINE_FILE = ''QUARANTINE_FILE''"
| "step_type_name RUN_AV_SCAN = ''RUN_AV_SCAN''"
| "step_type_name RUN_SCRIPT = ''RUN_SCRIPT''"
| "step_type_name SEARCH_SIEM = ''SEARCH_SIEM''"
| "step_type_name CREATE_NOTABLE_EVENT = ''CREATE_NOTABLE_EVENT''"

text \<open>The values of the enumeration, and \<open>format(t)\<close>, which for this kind of enumeration names the member.\<close>

definition step_type_value :: "step_type \<Rightarrow> string" where
  "step_type_value t = lower (step_type_name t)"

definition step_type_format :: "step_type \<Rightarrow> string" where
  "step_type_format t = ''StepType.'' @ step_type_name t"

datatype operator = OpEq | OpNe | OpGt | OpLt | OpContains | OpExists

datatype on_failure = Abort | Continue | Retry

record step_condition =
  sc_field :: string
  sc_operator :: operator
  sc_value :: val
  sc_expression :: "string option"

text \<open>A condition given as text becomes one with only its expression set.\<close>

definition expression_condition :: "string \<Rightarrow> step_condition" where
  "expression_condition e = \<lparr>sc_field = [], sc_operator = OpEq, sc_value = VNone, sc_expression = Some e\<rparr>"

record playbook_step =
  ps_id :: string
  ps_name :: string
  ps_type :: step_type
  ps_params :: dict
  ps_condition :: "step_condition option"
  ps_on_failure :: on_failure
  ps_retry_max :: nat
  ps_timeout_seconds :: int
  ps_next_true :: "string option"
  ps_next_false :: "string option"

definition new_step :: "string \<Rightarrow> string \<Rightarrow> step_type \<Rightarrow> dict \<Rightarrow> playbook_step" where
  "new_step i name t params =
     \<lparr>ps_id = i, ps_name = name, ps_type = t, ps_params = params, ps_condition = None,
      ps_on_failure = Abort, ps_retry_max = 0, ps_timeout_seconds = 30,
      ps_next_true = None, ps_next_false = None\<rparr>"

definition valid_step :: "playbook_step \<Rightarrow> bool" where
  "valid_step s \<longleftrightarrow> int (ps_retry_max s) \<le> ABSOLUTE_MAX_RETRIES
     \<and> MIN_TIMEOUT_SECONDS \<le> ps_timeout_seconds s \<and> ps_timeout_seconds s \<le> ABSOLUTE_MAX_TIMEOUT_SECONDS"

record playbook =
  pb_id :: string
  pb_name :: string
  pb_steps :: "playbook_step list"

subsection \<open>Lemmas\<close>

lemma clamp_int_range: "lo \<le> hi \<Longrightarrow> lo \<le> clamp_int n lo hi \<and> clamp_int n lo hi \<le> hi"
  by (simp add: clamp_int_def)

lemma clamp_int_id: "lo \<le> n \<Longrightarrow> n \<le> hi \<Longrightarrow> clamp_int n lo hi = n"
  by (simp add: clamp_int_def)

lemma env_int_range: "lo \<le> hi \<Longrightarrow> lo \<le> d \<Longrightarrow> d \<le> hi \<Longrightarrow> lo \<le> env_int raw d lo hi \<and> env_int raw d lo hi \<le> hi"
  by (auto simp: env_int_def clamp_int_range split: option.split)

lemma max_timeout_range: "1 \<le> max_timeout_seconds raw \<and> max_timeout_seconds raw \<le> 900"
  unfolding max_timeout_seconds_def bounds_defs by (rule env_int_range) auto

lemma max_retries_range: "0 \<le> max_retries raw \<and> max_retries raw \<le> 25"
  unfolding max_retries_def bounds_defs by (rule env_int_range) auto

subsection \<open>Properties\<close>

text \<open>
  Whatever a playbook puts into its parameters and an operator into the environment, the
  timeout a handler uses lies between one second and the effective ceiling, which itself is at most
  fifteen minutes, and the number of retries is at most 25; an integer inside the range is used as
  it is, and a boolean is never read as a number but replaced by the default.
\<close>

theorem bounds_enforced:
  "1 \<le> clamp_timeout raw v d \<and> clamp_timeout raw v d \<le> max_timeout_seconds raw
   \<and> max_timeout_seconds raw \<le> 900
   \<and> 0 \<le> clamp_retries raw' w r \<and> clamp_retries raw' w r \<le> max_retries raw' \<and> max_retries raw' \<le> 25
   \<and> max_timeout_seconds (Some (int_str n)) = clamp_int n 1 900
   \<and> clamp_timeout raw (VInt i) d = clamp_int i 1 (max_timeout_seconds raw)
   \<and> clamp_timeout raw (VStr (int_str i)) d = clamp_timeout raw (VInt i) d
   \<and> clamp_timeout raw (VBool b) d = clamp_timeout raw VNone d"
proof -
  have str: "int_str n \<noteq> []" for n by (simp add: int_str_def)
  have rng: "1 \<le> max_timeout_seconds raw" "0 \<le> max_retries raw'" using max_timeout_range max_retries_range by auto
  have t: "1 \<le> clamp_timeout raw v d \<and> clamp_timeout raw v d \<le> max_timeout_seconds raw"
    unfolding clamp_timeout_def bounds_defs by (rule clamp_int_range [OF rng(1)])
  have r: "0 \<le> clamp_retries raw' w r \<and> clamp_retries raw' w r \<le> max_retries raw'"
    unfolding clamp_retries_def by (rule clamp_int_range [OF rng(2)])
  show ?thesis
    using t r max_timeout_range [of raw] max_retries_range [of raw'] str
    by (simp add: max_timeout_seconds_def [of "Some (int_str n)"] env_int_def py_int_int_str bounds_defs clamp_timeout_def
        candidate_int_def int_of_val_def)
qed

end
