(* ===== verification/Playbook_Condition.thy ===== *)
theory Playbook_Condition
  imports Playbook_Model
begin

text \<open>
  Condition gates of playbook steps (\<open>services/agents/app/playbook/engine.py\<close>,
  \<open>_resolve_field\<close> to \<open>_evaluate_expression\<close>): paths into the run context, the structured form
  and the expression form of a condition.  Floats are exact rationals.
\<close>

subsection \<open>Paths\<close>

definition index_list :: "'a list \<Rightarrow> int \<Rightarrow> 'a option" where
  "index_list xs i =
     (let n = int (length xs) in
      if - n \<le> i \<and> i < n then Some (xs ! nat (if i < 0 then i + n else i)) else None)"

fun resolve_parts :: "val \<Rightarrow> string list \<Rightarrow> val" where
  "resolve_parts cur [] = cur"
| "resolve_parts cur (part # parts) =
     (case cur of
        VDict d \<Rightarrow> resolve_parts (vget d part) parts
      | VList xs \<Rightarrow>
          (case py_int part of
             None \<Rightarrow> VNone
           | Some i \<Rightarrow> (case index_list xs i of None \<Rightarrow> VNone | Some v \<Rightarrow> resolve_parts v parts))
      | _ \<Rightarrow> VNone)"

definition resolve_field :: "dict \<Rightarrow> string \<Rightarrow> val" where
  "resolve_field context field =
     (if field = [] then VNone else resolve_parts (VDict context) (split_on (CHR ''.'') field))"

definition to_float :: "val \<Rightarrow> rat option" where
  "to_float v =
     (case v of
        VNone \<Rightarrow> Some 0
      | VBool b \<Rightarrow> Some (if b then 1 else 0)
      | VInt i \<Rightarrow> Some (of_int i)
      | VFloat r s \<Rightarrow> Some r
      | VStr s \<Rightarrow> if s = [] then Some 0 else py_float s
      | _ \<Rightarrow> None)"

text \<open>A comparison of two values through their floats.\<close>

definition compare_floats :: "(rat \<Rightarrow> rat \<Rightarrow> bool) \<Rightarrow> val \<Rightarrow> val \<Rightarrow> bool" where
  "compare_floats cmp a b =
     (case (to_float a, to_float b) of (Some x, Some y) \<Rightarrow> cmp x y | _ \<Rightarrow> False)"

definition contained_in :: "val \<Rightarrow> val \<Rightarrow> bool" where
  "contained_in x container =
     (case container of VList ys \<Rightarrow> py_in x ys | _ \<Rightarrow> substr_in (py_str x) (py_str container))"

subsection \<open>Expressions\<close>

datatype expr_op = EEq | ENe | EGte | ELte | EGt | ELt | ENotIn | EIn

definition EXPR_OPERATORS :: "(string \<times> expr_op) list" where
  "EXPR_OPERATORS =
     [(''=='', EEq), (''!='', ENe), (''>='', EGte), (''<='', ELte), (''>'', EGt), (''<'', ELt),
      ('' not in '', ENotIn), ('' in '', EIn)]"

text \<open>The body of a token between its first and last character.\<close>

definition inner_text :: "string \<Rightarrow> string" where
  "inner_text t = butlast (tl t)"

definition parse_number :: "string \<Rightarrow> val option" where
  "parse_number token =
     (if CHR ''.'' \<in> set token then float_val token
      else map_option VInt (py_int token))"

lemma length_strip: "length (strip s) \<le> length s"
proof -
  have "length (strip s) \<le> length (rev (dropWhile is_space s))"
    unfolding strip_def lstrip_def rstrip_def length_rev [of "dropWhile is_space (rev (dropWhile is_space s))"]
    by (rule length_dropWhile_le)
  also have "\<dots> \<le> length s" by (simp add: length_dropWhile_le)
  finally show ?thesis .
qed

lemma length_split_on: "p \<in> set (split_on c s) \<Longrightarrow> length p \<le> length s"
proof (induction s arbitrary: p)
  case (Cons x s)
  then show ?case by (fastforce split: if_splits list.splits simp: le_SucI)
qed simp

function parse_literal :: "string \<Rightarrow> dict \<Rightarrow> val" where
  "parse_literal raw context =
     (let token = strip raw in
      if token = [] then VNone
      else if token = ''null'' \<or> token = ''None'' then VNone
      else if token = ''true'' \<or> token = ''True'' then VBool True
      else if token = ''false'' \<or> token = ''False'' then VBool False
      else if 2 \<le> length token \<and> hd token = last token \<and> (hd token = CHR 0x27 \<or> hd token = CHR 0x22)
        then VStr (inner_text token)
      else if startswith token ''['' \<and> endswith token '']''
        then (let inner = strip (inner_text token) in
              if inner = [] then VList []
              else VList (map (\<lambda>piece. parse_literal piece context) (split_on (CHR '','') inner)))
      else (case parse_number token of Some v \<Rightarrow> v | None \<Rightarrow> resolve_field context token))"
  by pat_completeness auto
termination
proof (relation "measure (\<lambda>(raw, context). length raw)", simp, goal_cases)
  case (1 raw ctxt token inner piece)
  have "length piece \<le> length inner" using 1 by (auto dest: length_split_on)
  also have "\<dots> \<le> length (inner_text token)" using 1 length_strip by auto
  also have "\<dots> < length token" using 1 by (cases token) (auto simp: inner_text_def)
  also have "\<dots> \<le> length raw" using 1 length_strip by auto
  finally show ?case by simp
qed

declare parse_literal.simps [simp del]

definition apply_op :: "expr_op \<Rightarrow> val \<Rightarrow> val \<Rightarrow> bool" where
  "apply_op oper lhs rhs =
     (case oper of
        EEq \<Rightarrow> py_eq lhs rhs
      | ENe \<Rightarrow> \<not> py_eq lhs rhs
      | EGt \<Rightarrow> compare_floats (>) lhs rhs
      | ELt \<Rightarrow> compare_floats (<) lhs rhs
      | EGte \<Rightarrow> compare_floats (\<ge>) lhs rhs
      | ELte \<Rightarrow> compare_floats (\<le>) lhs rhs
      | EIn \<Rightarrow> if rhs = VNone then False else contained_in lhs rhs
      | ENotIn \<Rightarrow> if rhs = VNone then True else \<not> contained_in lhs rhs)"

text \<open>The loop over the operators: the first one that occurs anywhere in the text splits it.\<close>

fun try_operators :: "(string \<times> expr_op) list \<Rightarrow> string \<Rightarrow> dict \<Rightarrow> bool" where
  "try_operators [] expr context = False"
| "try_operators ((needle, oper) # ops) expr context =
     (case find_sub needle (if oper = EIn \<or> oper = ENotIn then lower expr else expr) of
        None \<Rightarrow> try_operators ops expr context
      | Some idx \<Rightarrow> apply_op oper (parse_literal (take idx expr) context)
          (parse_literal (drop (idx + length needle) expr) context))"

definition drop_end :: "string \<Rightarrow> string \<Rightarrow> string" where
  "drop_end expr suf = strip (take (length expr - length suf) expr)"

definition evaluate_expression :: "string \<Rightarrow> dict \<Rightarrow> bool" where
  "evaluate_expression expression context =
     (if expression = [] then False
      else let expr = strip expression; lowered = lower expr in
        if endswith lowered '' is not null'' then resolve_field context (drop_end expr '' is not null'') \<noteq> VNone
        else if endswith lowered '' != null'' then resolve_field context (drop_end expr '' != null'') \<noteq> VNone
        else if endswith lowered '' is null'' then resolve_field context (drop_end expr '' is null'') = VNone
        else if endswith lowered '' == null'' then resolve_field context (drop_end expr '' == null'') = VNone
        else try_operators EXPR_OPERATORS expr context)"

definition evaluate_condition :: "step_condition \<Rightarrow> dict \<Rightarrow> bool" where
  "evaluate_condition c context =
     (case sc_expression c of
        Some (x # xs) \<Rightarrow> evaluate_expression (x # xs) context
      | _ \<Rightarrow>
          if sc_field c = [] then True
          else let v = resolve_field context (sc_field c); expected = sc_value c in
            (case sc_operator c of
               OpExists \<Rightarrow> v \<noteq> VNone
             | OpEq \<Rightarrow> py_eq v expected
             | OpNe \<Rightarrow> \<not> py_eq v expected
             | OpContains \<Rightarrow>
                 if v = VNone then False
                 else (case expected of VList ys \<Rightarrow> py_in v ys | _ \<Rightarrow> substr_in (py_str expected) (py_str v))
             | OpGt \<Rightarrow> compare_floats (>) v expected
             | OpLt \<Rightarrow> compare_floats (<) v expected))"

subsection \<open>The two forms of a condition\<close>

definition reserved_words :: "string list" where
  "reserved_words = [''null'', ''None'', ''true'', ''True'', ''false'', ''False'']"

definition letter :: "char \<Rightarrow> bool" where
  "letter c \<longleftrightarrow> is_upper c \<or> is_lower c \<or> c = CHR ''_''"

text \<open>A dotted path that starts like an identifier.\<close>

definition path_ok :: "string \<Rightarrow> bool" where
  "path_ok f \<longleftrightarrow> f \<noteq> [] \<and> letter (hd f) \<and> list_all (\<lambda>c. letter c \<or> is_digit c \<or> c = CHR ''.'') f
     \<and> f \<notin> set reserved_words"

definition quoted :: "string \<Rightarrow> string" where
  "quoted s = CHR 0x27 # s @ [CHR 0x27]"

lemma path_char_facts:
  assumes "letter c \<or> is_digit c \<or> c = CHR ''.''"
  shows "\<not> is_space c" "c \<notin> set ''=!<>[''" "c \<noteq> CHR 0x27" "c \<noteq> CHR 0x22"
  using assms
  by (auto simp: letter_def is_space_def is_upper_def is_lower_def is_digit_def char_le_iff Let_def)

lemma letter_facts: "letter c \<Longrightarrow> \<not> is_digit c \<and> c \<notin> set ''+-.''"
  by (auto simp: letter_def is_upper_def is_lower_def is_digit_def char_le_iff)

lemma path_no_number: "path_ok f \<Longrightarrow> parse_number f = None"
proof -
  assume a: "path_ok f"
  then obtain c cs where f: "f = c # cs" "letter c" by (cases f) (auto simp: path_ok_def)
  have d: "\<not> is_digit c" "c \<noteq> CHR ''+''" "c \<noteq> CHR ''-''" "c \<noteq> CHR ''.''" using letter_facts [OF f(2)] by auto
  have st: "strip f = f" using a path_char_facts(1) by (intro strip_id) (auto simp: path_ok_def list_all_iff)
  have "py_int f = None" using st d f by (auto simp: py_int_def Let_def dest: digits_ok_hd)
  moreover have "py_float f = None"
    using st d f by (auto simp: py_float_def strip_sign_def Let_def dest: digits_ok_hd)
  ultimately show ?thesis by (simp add: parse_number_def float_val_def)
qed

lemma parse_path:
  assumes "path_ok f"
  shows "parse_literal (f @ '' '') context = resolve_field context f"
proof -
  obtain c cs where f: "f = c # cs" using assms by (cases f) (auto simp: path_ok_def)
  have st: "strip f = f" using assms path_char_facts(1) by (intro strip_id) (auto simp: path_ok_def list_all_iff)
  have sp: "is_space CHR '' ''" by code_simp
  have t: "strip (f @ '' '') = f" using strip_space_snoc [OF sp, of f] st by simp
  have c: "c \<noteq> CHR 0x27" "c \<noteq> CHR 0x22" "c \<noteq> CHR ''[''"
    using assms f path_char_facts [of c] by (auto simp: path_ok_def)
  have r: "f \<notin> set reserved_words" using assms by (simp add: path_ok_def)
  show ?thesis
    unfolding parse_literal.simps [of "f @ '' ''"] t Let_def path_no_number [OF assms]
    using r c f by (auto simp: reserved_words_def startswith_iff)
qed

lemma parse_quoted: "parse_literal ('' '' @ quoted s) context = VStr s"
proof -
  have sp: "is_space CHR '' ''" "\<not> is_space CHR 0x27" by code_simp+
  have q: "strip (quoted s) = quoted s" by (rule strip_outer) (auto simp: quoted_def sp)
  have t: "strip ('' '' @ quoted s) = quoted s" using sp by (simp add: q)
  have h: "quoted s \<noteq> []" "2 \<le> length (quoted s)" "hd (quoted s) = CHR 0x27" "last (quoted s) = CHR 0x27"
    "inner_text (quoted s) = s" by (auto simp: quoted_def inner_text_def)
  have r: "quoted s \<notin> set reserved_words" by (simp add: quoted_def reserved_words_def)
  show ?thesis
    unfolding parse_literal.simps [of "'' '' @ quoted s"] t Let_def
    using r h by (simp add: reserved_words_def)
qed

lemma substr_skip: "n \<noteq> [] \<Longrightarrow> hd n \<notin> set u \<Longrightarrow> substr_in n (u @ v) \<longleftrightarrow> substr_in n v"
proof (induction u)
  case (Cons c u)
  then show ?case by (cases n) auto
qed simp

lemma substr_snoc:
  assumes "n \<noteq> []" "last n \<noteq> c"
  shows "substr_in n (s @ [c]) \<longleftrightarrow> substr_in n s"
proof
  assume "substr_in n (s @ [c])"
  then obtain a b where ab: "s @ [c] = a @ n @ b" unfolding substr_in_iff by blast
  have "b \<noteq> []" using ab assms by (metis append_is_Nil_conv append_self_conv last_append last_snoc)
  then obtain b' where "b = b' @ [c]" using ab by (metis append_assoc append_is_Nil_conv last_appendR last_snoc snoc_eq_iff_butlast)
  with ab show "substr_in n s" unfolding substr_in_iff by auto
next
  assume "substr_in n s"
  then show "substr_in n (s @ [c])" unfolding substr_in_iff by (metis append_assoc)
qed

definition cmp_text :: "string \<Rightarrow> string \<Rightarrow> string \<Rightarrow> string" where
  "cmp_text f needle s = f @ '' '' @ needle @ '' '' @ quoted s"

lemma cmp_text_ops:
  assumes "path_ok f" "EXPR_OPERATORS = pre @ (needle, oper) # post" "oper \<noteq> EIn" "oper \<noteq> ENotIn"
    "list_all (\<lambda>(n, x). \<not> substr_in n s) pre"
  shows "find_sub needle (cmp_text f needle s) = Some (Suc (length f))
    \<and> list_all (\<lambda>(n, x). x \<noteq> EIn \<and> x \<noteq> ENotIn \<and> find_sub n (cmp_text f needle s) = None) pre"
proof -
  have f: "c \<notin> set (f @ '' '')" if "c \<in> set ''=!<>''" for c
    using assms(1) that path_char_facts(2) by (auto simp: path_ok_def list_all_iff)
  have fs: "find_sub needle (cmp_text f needle s) = Some (Suc (length f))" if "needle \<noteq> []" "hd needle \<in> set ''=!<>''"
    using find_sub_append [of needle "f @ '' ''" "'' '' @ quoted s", OF that(1) f [OF that(2)]]
    by (simp add: cmp_text_def)
  have sk: "find_sub n (cmp_text f needle s) = None \<longleftrightarrow> \<not> substr_in n (needle @ '' '' @ quoted s)"
    if "n \<noteq> []" "hd n \<in> set ''=!<>''" for n
    using substr_skip [OF that(1) f [OF that(2)], of "needle @ '' '' @ quoted s"]
    by (simp add: find_sub_None_iff cmp_text_def)
  have sn: "substr_in n (s @ [CHR 0x27]) \<longleftrightarrow> substr_in n s" if "n \<noteq> []" "last n \<in> set ''=!<>''" for n
    using that by (intro substr_snoc) auto
  show ?thesis
    using assms(2-5) fs sk sn
    by (auto simp: EXPR_OPERATORS_def Cons_eq_append_conv quoted_def)
qed

lemma try_operators_hit:
  "list_all (\<lambda>(n, x). x \<noteq> EIn \<and> x \<noteq> ENotIn \<and> find_sub n t = None) pre \<Longrightarrow> oper \<noteq> EIn \<Longrightarrow> oper \<noteq> ENotIn \<Longrightarrow>
   find_sub needle t = Some i \<Longrightarrow>
   try_operators (pre @ (needle, oper) # post) t context =
     apply_op oper (parse_literal (take i t) context) (parse_literal (drop (i + length needle) t) context)"
  by (induction pre) auto

lemma endswith_last: "suf \<noteq> [] \<Longrightarrow> t \<noteq> [] \<Longrightarrow> last suf \<noteq> last t \<Longrightarrow> \<not> endswith t suf"
  by (auto simp: endswith_def suffix_def)

lemma lower_last: "t \<noteq> [] \<Longrightarrow> last (lower t) = lower_char (last t)"
  by (simp add: lower_def last_map)

lemma evaluate_cmp_text:
  assumes "path_ok f" "EXPR_OPERATORS = pre @ (needle, oper) # post" "oper \<noteq> EIn" "oper \<noteq> ENotIn"
    "list_all (\<lambda>(n, x). \<not> substr_in n s) pre"
  shows "evaluate_expression (cmp_text f needle s) context = apply_op oper (resolve_field context f) (VStr s)"
proof -
  let ?t = "cmp_text f needle s"
  obtain c cs where f: "f = c # cs" "\<not> is_space c"
    using assms(1) path_char_facts(1) by (cases f) (auto simp: path_ok_def)
  have ne: "?t \<noteq> []" "hd ?t = c" "last ?t = CHR 0x27" by (auto simp: cmp_text_def quoted_def f)
  have st: "strip ?t = ?t"
    using ne f(2) by (intro strip_outer) (auto simp: is_space_def)
  have lq: "lower_char (CHR 0x27) = CHR 0x27" by code_simp
  have ll: "lower ?t \<noteq> []" "last (lower ?t) = CHR 0x27" using ne lq lower_last [OF ne(1)] by (simp_all add: lower_def)
  have e: "\<not> endswith (lower ?t) suf" if "suf \<noteq> []" "last suf \<noteq> CHR 0x27" for suf
    using endswith_last [OF that(1) ll(1)] ll(2) that(2) by simp
  have tk: "take (Suc (length f)) ?t = f @ '' ''" "drop (Suc (length f) + length needle) ?t = '' '' @ quoted s"
    by (auto simp: cmp_text_def)
  note h = cmp_text_ops [OF assms]
  have "try_operators EXPR_OPERATORS ?t context = apply_op oper (resolve_field context f) (VStr s)"
    unfolding assms(2) using try_operators_hit [OF conjunct2 [OF h] assms(3,4) conjunct1 [OF h], of post "context"]
    unfolding tk parse_path [OF assms(1)] parse_quoted .
  then show ?thesis using ne(1) e by (simp add: evaluate_expression_def st Let_def)
qed

lemma strip_fixed_hd: "strip t = t \<Longrightarrow> t \<noteq> [] \<Longrightarrow> \<not> is_space (hd t)"
proof
  assume t: "strip t = t" "t \<noteq> []" "is_space (hd t)"
  then obtain c cs where c: "t = c # cs" "is_space c" by (cases t) auto
  then have "strip t = strip cs" by simp
  with t c have "length t \<le> length cs" using length_strip [of cs] by simp
  with c show False by simp
qed

lemma evaluate_is_null:
  assumes "strip t = t" "t \<noteq> []"
  shows "evaluate_expression (t @ '' is null'') context \<longleftrightarrow> resolve_field context t = VNone"
proof -
  let ?e = "t @ '' is null''"
  have st: "strip ?e = ?e"
    using strip_fixed_hd [OF assms] assms(2) by (intro strip_outer) (auto simp: is_space_def)
  have lw: "lower ?e = lower t @ '' is null''" unfolding lower_def map_append by simp code_simp
  have "\<not> endswith (lower ?e) '' is not null''" "\<not> endswith (lower ?e) '' != null''" "endswith (lower ?e) '' is null''"
    unfolding lw by (auto simp: endswith_def suffix_def dest!: arg_cong [where f = rev])
  moreover have "drop_end ?e '' is null'' = t" by (simp add: drop_end_def assms(1))
  ultimately show ?thesis by (simp add: evaluate_expression_def st Let_def)
qed

subsection \<open>Properties\<close>

definition struct_op :: "expr_op \<Rightarrow> operator option" where
  "struct_op oper = (case oper of EEq \<Rightarrow> Some OpEq | ENe \<Rightarrow> Some OpNe | EGt \<Rightarrow> Some OpGt | ELt \<Rightarrow> Some OpLt | _ \<Rightarrow> None)"

text \<open>
  The expression form of a condition means what its structured form means: a path compared
  with a quoted text by one of the comparison operators evaluates like the structured condition on
  that field, operator and text, provided no operator of the table that is tried before occurs
  inside the quotes; the text is otherwise arbitrary.
\<close>

theorem condition_forms_agree:
  assumes "path_ok f" "EXPR_OPERATORS = pre @ (needle, oper) # post" "struct_op oper = Some sop"
    "list_all (\<lambda>(n, x). \<not> substr_in n s) pre"
  shows "evaluate_condition (expression_condition (cmp_text f needle s)) context
    = evaluate_condition \<lparr>sc_field = f, sc_operator = sop, sc_value = VStr s, sc_expression = None\<rparr> context"
proof -
  have op: "oper \<noteq> EIn" "oper \<noteq> ENotIn" using assms(3) by (auto simp: struct_op_def)
  have "cmp_text f needle s \<noteq> []" "f \<noteq> []" using assms(1) by (auto simp: cmp_text_def path_ok_def)
  then show ?thesis
    using evaluate_cmp_text [OF assms(1,2) op assms(4), of "context"] assms(3)
    by (auto simp: evaluate_condition_def expression_condition_def neq_Nil_conv Let_def apply_op_def struct_op_def
        split: expr_op.splits)
qed

lemma condition_forms_agree_witness:
  "evaluate_condition (expression_condition (cmp_text ''alert.severity'' ''!='' ''low > none''))
     [(''alert'', VDict [(''severity'', VStr ''high'')])] = True"
proof -
  have p: "path_ok ''alert.severity''" "list_all (\<lambda>(n, x). \<not> substr_in n ''low > none'') [(''=='', EEq)]"
    "struct_op ENe = Some OpNe" by code_simp+
  have o: "EXPR_OPERATORS = [(''=='', EEq)] @ (''!='', ENe) # drop 2 EXPR_OPERATORS"
    by (simp add: EXPR_OPERATORS_def)
  show ?thesis
    unfolding condition_forms_agree [OF p(1) o p(3) p(2)] by code_simp
qed

text \<open>
  A malformed or unresolvable null test passes instead of failing: when the text before
  the words is null, taken as one path, leads nowhere, the condition holds, also when that text is itself
  a compound condition; and an inequality on a path that leads nowhere holds for every text.
\<close>

theorem unresolved_condition_passes:
  assumes "strip t = t" "t \<noteq> []" "resolve_field context t = VNone"
    "path_ok f" "resolve_field context f = VNone" "\<not> substr_in ''=='' s"
  shows "evaluate_condition (expression_condition (t @ '' is null'')) context
    \<and> evaluate_condition (expression_condition (cmp_text f ''!='' s)) context"
proof -
  have o: "EXPR_OPERATORS = [(''=='', EEq)] @ (''!='', ENe) # drop 2 EXPR_OPERATORS"
    by (simp add: EXPR_OPERATORS_def)
  have "evaluate_expression (cmp_text f ''!='' s) context"
    using evaluate_cmp_text [OF assms(4) o] assms(5,6) by (simp add: apply_op_def)
  moreover have "cmp_text f ''!='' s \<noteq> []" by (simp add: cmp_text_def)
  ultimately show ?thesis
    using evaluate_is_null [OF assms(1,2)] assms(2,3)
    by (auto simp: evaluate_condition_def expression_condition_def neq_Nil_conv)
qed

lemma unresolved_condition_passes_witness:
  "evaluate_condition (expression_condition (''verdict == 1 and owner is null''))
     [(''verdict'', VInt 0), (''owner'', VStr ''ann'')] = True"
proof -
  have "strip ''verdict == 1 and owner'' = ''verdict == 1 and owner''" "path_ok ''host''"
    "resolve_field [(''verdict'', VInt 0), (''owner'', VStr ''ann'')] ''verdict == 1 and owner'' = VNone"
    "resolve_field [(''verdict'', VInt 0), (''owner'', VStr ''ann'')] ''host'' = VNone" "\<not> substr_in ''=='' ''dc''"
    by code_simp+
  with unresolved_condition_passes [of "''verdict == 1 and owner''" "[(''verdict'', VInt 0), (''owner'', VStr ''ann'')]" "''host''" "''dc''"]
  show ?thesis by simp
qed

end
