(* ===== verification/Playbook_Handlers.thy ===== *)
theory Playbook_Handlers
  imports Playbook_Condition
begin

text \<open>
  The step handlers of the playbook engine (\<open>services/agents/app/playbook/engine.py\<close>,
  \<open>_handle_enrich\<close> to \<open>_HANDLERS\<close>).  A handler is a state transformer on the outside world
  \<open>'w\<close> that ends in an exception, given by its text, or in a value.  The HTTP client, the check of
  outbound URLs and the osquery clients are the fields of \<open>services\<close>.
\<close>

subsection \<open>Calls to the outside\<close>

type_synonym ('w, 'a) io = "'w \<Rightarrow> (string + 'a) \<times> 'w"

definition ret :: "'a \<Rightarrow> ('w, 'a) io" where
  "ret a w = (Inr a, w)"

definition fail :: "string \<Rightarrow> ('w, 'a) io" where
  "fail e w = (Inl e, w)"

definition bind_io :: "('w, 'a) io \<Rightarrow> ('a \<Rightarrow> ('w, 'b) io) \<Rightarrow> ('w, 'b) io" where
  "bind_io m f w = (case m w of (Inl e, w') \<Rightarrow> (Inl e, w') | (Inr a, w') \<Rightarrow> f a w')"

definition lift :: "string + 'a \<Rightarrow> ('w, 'a) io" where
  "lift r w = (r, w)"

record http_request =
  rq_method :: string
  rq_url :: val
  rq_json :: val
  rq_headers :: val
  rq_timeout :: int

record http_response =
  rp_status :: int
  rp_json :: "string + val"
  rp_text :: string
  rp_error :: string  \<comment> \<open>the text of the exception of \<open>raise_for_status\<close>\<close>

datatype osquery_client =
    Osctrl val val val val       \<comment> \<open>base URL, environment, token, TLS verification\<close>
  | FleetDM val val val val val  \<comment> \<open>base URL, token, user, password, TLS verification\<close>
  | AiSOCDirect val val          \<comment> \<open>base URL, token\<close>

datatype query_error = AllowlistError string | NotImplementedError string | QueryError string

record 'w services =
  sv_api_url :: string
  sv_max_timeout :: "string option"
  sv_http :: "http_request \<Rightarrow> ('w, http_response) io"
  sv_validate_url :: "val \<Rightarrow> string option"  \<comment> \<open>the text of the SSRFError\<close>
  sv_live_query :: "osquery_client \<Rightarrow> val \<Rightarrow> val \<Rightarrow> val \<Rightarrow> int \<Rightarrow> 'w \<Rightarrow> (query_error + val) \<times> 'w"

text \<open>\<open>raise_for_status\<close> passes exactly the 2xx codes; then \<open>r.json()\<close>.\<close>

definition raise_for_status :: "http_response \<Rightarrow> string + unit" where
  "raise_for_status r = (if 200 \<le> rp_status r \<and> rp_status r < 300 then Inr () else Inl (rp_error r))"

definition checked_json :: "http_response \<Rightarrow> string + val" where
  "checked_json r = bind_res (raise_for_status r) (\<lambda>_. rp_json r)"

definition api_request :: "'w services \<Rightarrow> string \<Rightarrow> string \<Rightarrow> dict \<Rightarrow> playbook_step \<Rightarrow> http_request" where
  "api_request sv verb path body step =
     \<lparr>rq_method = verb, rq_url = VStr (sv_api_url sv @ path), rq_json = VDict body,
      rq_headers = VDict [], rq_timeout = ps_timeout_seconds step\<rparr>"

subsection \<open>Handlers\<close>

type_synonym 'w handler = "playbook_step \<Rightarrow> dict \<Rightarrow> ('w, val) io"

definition handle_enrich :: "'w services \<Rightarrow> 'w handler" where
  "handle_enrich sv step context =
     (let ioc = py_or (vget (ps_params step) ''ioc'')
                  (py_or (vget context ''ioc'') (vget_default context ''src_ip'' (VStr [])));
          ioc_type = vget_default (ps_params step) ''ioc_type'' (VStr ''ip'')
      in bind_io (sv_http sv (api_request sv ''POST'' ''/api/v1/enrichment/lookup''
             [(''ioc'', ioc), (''ioc_type'', ioc_type)] step))
           (\<lambda>r. lift (checked_json r)))"

definition case_id_of :: "playbook_step \<Rightarrow> dict \<Rightarrow> val" where
  "case_id_of step context =
     py_or (vget (ps_params step) ''case_id'') (py_or (vget context ''case_id'') (vget context ''id''))"

definition skipped_result :: "string \<Rightarrow> val" where
  "skipped_result reason = VDict [(''skipped'', VBool True), (''reason'', VStr reason)]"

definition handle_investigate :: "'w services \<Rightarrow> 'w handler" where
  "handle_investigate sv step context =
     (let case_id = case_id_of step context in
      if \<not> truthy case_id then ret (skipped_result ''no case_id in context'')
      else bind_io (sv_http sv (api_request sv ''POST'' (''/api/v1/cases/'' @ py_str case_id @ ''/investigate'')
               [(''dry_run'', vget_default (ps_params step) ''dry_run'' (VBool False))] step))
             (\<lambda>r. lift (checked_json r)))"

text \<open>The template loop; a message that is not a string fails at the first key.\<close>

fun substitute_keys :: "dict \<Rightarrow> val \<Rightarrow> string + val" where
  "substitute_keys [] message = Inr message"
| "substitute_keys ((k, v) # context) message =
     (case message of
        VStr m \<Rightarrow> substitute_keys context (VStr (replace_sub (''{{'' @ k @ ''}}'') (py_str v) m))
      | _ \<Rightarrow> Inl (no_attribute message ''replace''))"

definition guarded_url :: "'w services \<Rightarrow> string \<Rightarrow> val \<Rightarrow> string + unit" where
  "guarded_url sv what url =
     (case sv_validate_url sv url of None \<Rightarrow> Inr () | Some msg \<Rightarrow> Inl (what @ '' step rejected: '' @ msg))"

definition handle_notify :: "'w services \<Rightarrow> 'w handler" where
  "handle_notify sv step context =
     (let channel = vget_default (ps_params step) ''channel'' (VStr ''webhook'');
          url = vget_default (ps_params step) ''url'' (VStr []);
          message0 = vget_default (ps_params step) ''message'' (VStr ''AiSOC playbook notification'')
      in bind_io (lift (substitute_keys context message0)) (\<lambda>message.
           if channel = VStr ''webhook'' \<and> truthy url
           then bind_io (lift (guarded_url sv ''notify'' url)) (\<lambda>_.
                bind_io (sv_http sv \<lparr>rq_method = ''POST'', rq_url = url, rq_json = VDict [(''text'', message)],
                    rq_headers = VDict [], rq_timeout = ps_timeout_seconds step\<rparr>) (\<lambda>r.
                ret (VDict [(''status'', VInt (rp_status r))])))
           else ret (VDict [(''channel'', channel), (''message'', message), (''delivered'', VBool False),
                  (''reason'', VStr ''no url'')])))"

definition handle_http :: "'w services \<Rightarrow> 'w handler" where
  "handle_http sv step context =
     (let verb = vget_default (ps_params step) ''method'' (VStr ''POST'');
          url = vget_default (ps_params step) ''url'' (VStr []);
          body = vget_default (ps_params step) ''body'' (VDict []);
          headers = vget_default (ps_params step) ''headers'' (VDict [])
      in case verb of
           VStr m \<Rightarrow>
             bind_io (lift (guarded_url sv ''http'' url)) (\<lambda>_.
             bind_io (sv_http sv \<lparr>rq_method = upper m, rq_url = url, rq_json = body,
                 rq_headers = headers, rq_timeout = ps_timeout_seconds step\<rparr>) (\<lambda>r.
             ret (VDict [(''status'', VInt (rp_status r)), (''body'', VStr (take 500 (rp_text r)))])))
         | _ \<Rightarrow> fail (no_attribute verb ''upper''))"

definition handle_block_ip :: "'w handler" where
  "handle_block_ip step context =
     ret (VDict [(''action'', VStr ''block_ip''),
       (''ip'', py_or (vget (ps_params step) ''ip'') (vget_default context ''src_ip'' (VStr []))),
       (''simulated'', VBool True)])"

definition handle_isolate_host :: "'w handler" where
  "handle_isolate_host step context =
     ret (VDict [(''action'', VStr ''isolate_host''),
       (''host'', py_or (vget (ps_params step) ''host'') (vget_default context ''host'' (VStr []))),
       (''simulated'', VBool True)])"

definition handle_create_ticket :: "'w handler" where
  "handle_create_ticket step context =
     ret (VDict [(''action'', VStr ''create_ticket''), (''params'', VDict (ps_params step)), (''simulated'', VBool True)])"

definition handle_close_case :: "'w services \<Rightarrow> 'w handler" where
  "handle_close_case sv step context =
     (let case_id = case_id_of step context in
      if \<not> truthy case_id then ret (skipped_result ''no case_id'')
      else bind_io (sv_http sv (api_request sv ''PATCH'' (''/api/v1/cases/'' @ py_str case_id)
               [(''status'', VStr ''closed'')] step)) (\<lambda>r.
           bind_io (lift (raise_for_status r)) (\<lambda>_.
           ret (VDict [(''case_id'', case_id), (''status'', VStr ''closed'')]))))"

text \<open>The credentials of a connector instance: every exception on the way leaves them empty.\<close>

definition fetch_creds :: "'w services \<Rightarrow> val \<Rightarrow> 'w \<Rightarrow> val \<times> 'w" where
  "fetch_creds sv instance_id w =
     (if \<not> truthy instance_id then (VDict [], w)
      else case sv_http sv \<lparr>rq_method = ''GET'',
               rq_url = VStr (sv_api_url sv @ ''/api/v1/connectors/instances/'' @ py_str instance_id),
               rq_json = VNone, rq_headers = VDict [], rq_timeout = 10\<rparr> w of
        (Inl e, w') \<Rightarrow> (VDict [], w')
      | (Inr r, w') \<Rightarrow>
          (case (rp_status r = 200, rp_json r) of
             (True, Inr (VDict d)) \<Rightarrow> (py_or (vget d ''auth_config'') (VDict []), w')
           | _ \<Rightarrow> (VDict [], w')))"

text \<open>The client for a backend; \<open>creds\<close> is read only when the backend is known.\<close>

definition osquery_client_for :: "val \<Rightarrow> dict \<Rightarrow> val \<Rightarrow> string + osquery_client option" where
  "osquery_client_for backend params creds =
     (let known = list_ex (\<lambda>b. backend = VStr b) [''osctrl'', ''fleetdm'', ''aisoc_direct''] in
      if \<not> known then Inr None
      else case creds of
        VDict c \<Rightarrow>
          let cred = (\<lambda>k dflt. py_or (vget c k) (vget_default params k dflt));
              base = cred ''base_url'' (VStr []); tls = vget_default params ''verify_tls'' (VBool True)
          in Inr (Some
             (if backend = VStr ''osctrl'' then Osctrl base (cred ''environment'' (VStr ''default'')) (cred ''api_token'' (VStr [])) tls
              else if backend = VStr ''fleetdm''
                then FleetDM base (py_or (cred ''api_token'' VNone) VNone) (py_or (cred ''username'' VNone) VNone)
                       (py_or (cred ''password'' VNone) VNone) tls
              else AiSOCDirect base (cred ''api_token'' (VStr []))))
      | _ \<Rightarrow> Inl (no_attribute creds ''get''))"

definition error_partial :: "string \<Rightarrow> dict" where
  "error_partial msg = [(''error'', VStr msg), (''partial'', VBool True)]"

definition handle_osquery_live_query :: "'w services \<Rightarrow> 'w handler" where
  "handle_osquery_live_query sv step context w =
     (let params = ps_params step;
          backend = vget_default params ''backend'' (VStr ''osctrl'');
          target_hosts = py_or (vget params ''target_hosts'')
            (VList [py_or (vget context ''host_id'') (vget_default context ''host'' (VStr []))]);
          template = vget_default params ''template'' (VStr []);
          template_params = py_or (vget params ''template_params'') (VDict []);
          timeout_seconds = clamp_timeout (sv_max_timeout sv) (vget_default params ''timeout_seconds'' (VInt 60)) (Some 60);
          instance_id = py_or (vget params ''instance_id'') (vget_default context ''connector_instance_id'' (VStr []))
      in if \<not> truthy template
         then ret (VDict (error_partial (''osquery_live_query: '' @ [CHR 0x27] @ ''template'' @ [CHR 0x27] @ '' param is required''))) w
         else case fetch_creds sv instance_id w of (creds, w1) \<Rightarrow>
           (case osquery_client_for backend params creds of
              Inl e \<Rightarrow> (Inl e, w1)
            | Inr None \<Rightarrow> ret (VDict (error_partial (''Unknown osquery backend: '' @ py_repr backend))) w1
            | Inr (Some client) \<Rightarrow>
                (case sv_live_query sv client target_hosts template template_params timeout_seconds w1 of
                   (Inr v, w2) \<Rightarrow> ret v w2
                 | (Inl (AllowlistError msg), w2) \<Rightarrow> ret (VDict (error_partial (''osquery allowlist violation: '' @ msg))) w2
                 | (Inl (NotImplementedError msg), w2) \<Rightarrow> ret (VDict (error_partial msg @ [(''stub'', VBool True)])) w2
                 | (Inl (QueryError msg), w2) \<Rightarrow> fail msg w2)))"

definition HANDLERS :: "'w services \<Rightarrow> step_type \<Rightarrow> 'w handler option" where
  "HANDLERS sv t =
     (case t of
        ENRICH \<Rightarrow> Some (handle_enrich sv)
      | INVESTIGATE \<Rightarrow> Some (handle_investigate sv)
      | NOTIFY \<Rightarrow> Some (handle_notify sv)
      | HTTP \<Rightarrow> Some (handle_http sv)
      | BLOCK_IP \<Rightarrow> Some handle_block_ip
      | ISOLATE_HOST \<Rightarrow> Some handle_isolate_host
      | CREATE_TICKET \<Rightarrow> Some handle_create_ticket
      | CLOSE_CASE \<Rightarrow> Some (handle_close_case sv)
      | OSQUERY_LIVE_QUERY \<Rightarrow> Some (handle_osquery_live_query sv)
      | _ \<Rightarrow> None)"

subsection \<open>Properties\<close>

text \<open>
  No rejected destination is contacted: when the URL check rejects the author-controlled URL
  of a notify or http step, the handler raises without touching the outside world, unless it is a
  notify step that would not have sent anything (and then it touches nothing either).
\<close>

theorem rejected_url_not_contacted:
  assumes "ps_type step = HTTP \<or> ps_type step = NOTIFY"
    "sv_validate_url sv (vget_default (ps_params step) ''url'' (VStr [])) = Some msg"
    "HANDLERS sv (ps_type step) = Some h"
  shows "snd (h step context w) = w
    \<and> (ps_type step = HTTP \<longrightarrow> (\<exists>e. fst (h step context w) = Inl e))"
  using assms
  by (auto simp: HANDLERS_def handle_http_def handle_notify_def bind_io_def lift_def guarded_url_def ret_def fail_def
      Let_def split: sum.splits val.splits)

definition demo_services :: "http_request list services" where
  "demo_services =
     \<lparr>sv_api_url = ''http://api:8000'', sv_max_timeout = None,
      sv_http = (\<lambda>rq w. (Inr \<lparr>rp_status = 200, rp_json = Inr (VDict [(''ok'', VBool True)]), rp_text = ''ok'', rp_error = []\<rparr>, w @ [rq])),
      sv_validate_url = (\<lambda>u. if u = VStr ''http://169.254.169.254/'' then Some ''link-local'' else None),
      sv_live_query = (\<lambda>c hosts t p s w. (Inl (NotImplementedError ''stub''), w))\<rparr>"

lemma rejected_url_not_contacted_witness:
  "snd (handle_http demo_services (new_step ''s1'' ''probe'' HTTP [(''url'', VStr ''http://169.254.169.254/'')]) [] []) = []"
proof -
  let ?s = "new_step ''s1'' ''probe'' HTTP [(''url'', VStr ''http://169.254.169.254/'')]"
  have t: "ps_type ?s = HTTP" by (simp add: new_step_def)
  have "vget_default (ps_params ?s) ''url'' (VStr []) = VStr ''http://169.254.169.254/''"
    by (simp add: new_step_def vget_default_def)
  then have "sv_validate_url demo_services (vget_default (ps_params ?s) ''url'' (VStr [])) = Some ''link-local''"
    by (simp add: demo_services_def)
  moreover have "HANDLERS demo_services (ps_type ?s) = Some (handle_http demo_services)"
    by (simp add: t HANDLERS_def)
  ultimately show ?thesis
    using rejected_url_not_contacted [of ?s demo_services "''link-local''" "handle_http demo_services" "[]" "[]"] t by simp
qed

end
