(* ===== verification/Playbook_Engine.thy ===== *)
theory Playbook_Engine
  imports Playbook_Handlers
begin

text \<open>
  The playbook engine (\<open>services/agents/app/playbook/engine.py\<close>, \<open>PlaybookRun\<close> and
  \<open>PlaybookEngine.run\<close>): the step loop with its condition gates, branches, retries and failure
  policies, threading the outside world \<open>'w\<close>.  Elapsed times are read from an argument; the
  realtime events are the trace of the run, interleaved with the pauses between attempts.
\<close>

datatype run_status = RunPending | RunRunning | RunCompleted | RunFailed | RunCancelled

datatype step_status = StepPending | StepSkipped | StepRunning | StepSuccess | StepFailed

record step_result =
  sr_step_id :: string
  sr_name :: string
  sr_status :: step_status
  sr_branch :: "string option"  \<comment> \<open>condition steps\<close>
  sr_result :: "dict option"    \<comment> \<open>executed steps\<close>

text \<open>\<open>run.done\<close> carries the run itself; its status and error stand for it.\<close>

datatype event =
    EvRunStarted string bool
  | EvStepStarted string step_type
  | EvSlept nat
  | EvStepDone string step_status "string list"
  | EvRunDone run_status "string option"

record playbook_run =
  pr_playbook_id :: string
  pr_playbook_name :: string
  pr_status :: run_status
  pr_context :: dict
  pr_step_results :: "step_result list"
  pr_error :: "string option"
  pr_events :: "event list"

definition new_run :: "playbook \<Rightarrow> dict \<Rightarrow> playbook_run" where
  "new_run pb trigger_context =
     \<lparr>pr_playbook_id = pb_id pb, pr_playbook_name = pb_name pb, pr_status = RunPending,
      pr_context = trigger_context, pr_step_results = [], pr_error = None, pr_events = []\<rparr>"

record 'w engine =
  en_handlers :: "step_type \<Rightarrow> 'w handler option"
  en_elapsed_ms :: "string \<Rightarrow> nat \<Rightarrow> int"  \<comment> \<open>of an attempt of a step\<close>
  en_dry_run :: bool

subsection \<open>One step\<close>

definition attempt_once :: "'w engine \<Rightarrow> playbook_step \<Rightarrow> dict \<Rightarrow> ('w, val) io" where
  "attempt_once en step context =
     (if en_dry_run en then ret (VDict [(''dry_run'', VBool True), (''step'', VStr (ps_name step))])
      else case en_handlers en (ps_type step) of
        Some h \<Rightarrow> h step context
      | None \<Rightarrow> ret (skipped_result (''no handler for '' @ step_type_format (ps_type step))))"

text \<open>Storing the elapsed time into the result is part of the guarded block.\<close>

definition stamp :: "int \<Rightarrow> val \<Rightarrow> string + dict" where
  "stamp ms v =
     (case v of VDict d \<Rightarrow> Inr (dict_set ''_elapsed_ms'' (VInt ms) d) | _ \<Rightarrow> Inl (no_item_assignment v))"

text \<open>The \<open>while True\<close> loop; \<open>left\<close> retries remain after this attempt.\<close>

fun attempts ::
  "'w engine \<Rightarrow> playbook_step \<Rightarrow> dict \<Rightarrow> nat \<Rightarrow> nat \<Rightarrow> 'w \<Rightarrow> step_status \<times> dict \<times> event list \<times> 'w" where
  "attempts en step context left attempt w =
     (case bind_io (attempt_once en step context) (\<lambda>v. lift (stamp (en_elapsed_ms en (ps_id step) attempt) v)) w of
        (Inr result, w') \<Rightarrow> (StepSuccess, result, [], w')
      | (Inl msg, w') \<Rightarrow>
          (case left of
             Suc left' \<Rightarrow>
               (case attempts en step context left' (attempt + 1) w' of
                  (st, result, evs, w'') \<Rightarrow> (st, result, EvSlept (min (2 ^ attempt) 30) # evs, w''))
           | 0 \<Rightarrow> (StepFailed,
                [(''error'', VStr msg), (''_elapsed_ms'', VInt (en_elapsed_ms en (ps_id step) attempt))], [], w')))"

declare attempts.simps [simp del]

definition flatten_result :: "dict \<Rightarrow> dict \<Rightarrow> dict" where
  "flatten_result context result =
     foldl (\<lambda>ctx (k, v). if startswith k ''_'' then ctx else dict_set k v ctx) context result"

definition merge_result :: "dict \<Rightarrow> string \<Rightarrow> dict \<Rightarrow> dict" where
  "merge_result context step_id result =
     flatten_result (dict_set (''_step_'' @ step_id) (VDict result) context) result"

subsection \<open>The loop\<close>

text \<open>The index of branch targets: the last step with that id.\<close>

fun step_index_from :: "nat \<Rightarrow> playbook_step list \<Rightarrow> string \<Rightarrow> nat option" where
  "step_index_from i [] k = None"
| "step_index_from i (s # ss) k =
     (case step_index_from (Suc i) ss k of
        Some j \<Rightarrow> Some j
      | None \<Rightarrow> if ps_id s = k then Some i else None)"

definition step_index :: "playbook_step list \<Rightarrow> string \<Rightarrow> nat option" where
  "step_index steps k = step_index_from 0 steps k"

definition next_idx :: "playbook_step list \<Rightarrow> string option \<Rightarrow> nat \<Rightarrow> nat" where
  "next_idx steps target current_idx =
     (case target of
        None \<Rightarrow> current_idx + 1
      | Some t \<Rightarrow> if t = [] then current_idx + 1
                 else (case step_index steps t of Some i \<Rightarrow> i | None \<Rightarrow> current_idx + 1))"

definition add_result :: "step_result \<Rightarrow> playbook_run \<Rightarrow> playbook_run" where
  "add_result r pr = pr\<lparr>pr_step_results := pr_step_results pr @ [r]\<rparr>"

definition fail_run :: "string \<Rightarrow> playbook_run \<Rightarrow> playbook_run" where
  "fail_run msg pr = pr\<lparr>pr_status := RunFailed, pr_error := Some msg\<rparr>"

definition condition_passed :: "playbook_step \<Rightarrow> dict \<Rightarrow> bool" where
  "condition_passed step context =
     (case ps_condition step of None \<Rightarrow> True | Some c \<Rightarrow> evaluate_condition c context)"

text \<open>An executed step: the run with its result merged, its status, and the world.\<close>

definition execute_step :: "'w engine \<Rightarrow> playbook_step \<Rightarrow> playbook_run \<Rightarrow> 'w \<Rightarrow> playbook_run \<times> step_status \<times> 'w" where
  "execute_step en step pr w =
     (case attempts en step (pr_context pr) (ps_retry_max step) 1 w of
        (st, result, evs, w') \<Rightarrow>
          (add_result \<lparr>sr_step_id = ps_id step, sr_name = ps_name step, sr_status = st, sr_branch = None, sr_result = Some result\<rparr>
             (pr\<lparr>pr_context := merge_result (pr_context pr) (ps_id step) result,
                 pr_events := pr_events pr @ EvStepStarted (ps_name step) (ps_type step) # evs
                   @ [EvStepDone (ps_name step) st (map fst result)]\<rparr>),
           st, w'))"

definition skip_step :: "playbook_step \<Rightarrow> playbook_run \<Rightarrow> playbook_run" where
  "skip_step step pr =
     add_result \<lparr>sr_step_id = ps_id step, sr_name = ps_name step, sr_status = StepSkipped, sr_branch = None, sr_result = None\<rparr> pr"

definition branch_step :: "playbook_step \<Rightarrow> playbook_run \<Rightarrow> playbook_run" where
  "branch_step step pr =
     add_result \<lparr>sr_step_id = ps_id step, sr_name = ps_name step, sr_status = StepSuccess,
       sr_branch = ps_next_true step, sr_result = None\<rparr> pr"

definition step_failed_text :: "playbook_step \<Rightarrow> string" where
  "step_failed_text step = ''step '' @ [CHR 0x27] @ ps_name step @ [CHR 0x27] @ '' failed''"

lemma card_unvisited:
  "i < length steps \<Longrightarrow> ps_id (steps ! i) \<notin> set visited \<Longrightarrow>
   card (ps_id ` set steps - insert (ps_id (steps ! i)) (set visited)) < card (ps_id ` set steps - set visited)"
  by (intro psubset_card_mono) auto

function run_loop ::
  "'w engine \<Rightarrow> playbook_step list \<Rightarrow> nat \<Rightarrow> string list \<Rightarrow> playbook_run \<Rightarrow> 'w \<Rightarrow> playbook_run \<times> 'w" where
  "run_loop en steps current_idx visited pr w =
     (if length steps \<le> current_idx then (pr, w)
      else let step = steps ! current_idx in
        if ps_id step \<in> set visited then (fail_run (''cycle at step '' @ ps_id step) pr, w)
        else let visited' = ps_id step # visited in
          if \<not> condition_passed step (pr_context pr)
          then run_loop en steps (next_idx steps (ps_next_false step) current_idx) visited' (skip_step step pr) w
          else if ps_type step = CONDITION
          then run_loop en steps (next_idx steps (ps_next_true step) current_idx) visited' (branch_step step pr) w
          else (case execute_step en step pr w of (pr', st, w') \<Rightarrow>
            if st = StepFailed \<and> ps_on_failure step = Abort
            then (fail_run (step_failed_text step) pr', w')
            else if st = StepSuccess
            then run_loop en steps (next_idx steps (ps_next_true step) current_idx) visited' pr' w'
            else run_loop en steps (current_idx + 1) visited' pr' w'))"
  by pat_completeness auto
termination
  by (relation "measure (\<lambda>(en, steps, i, visited, pr, w). card (ps_id ` set steps - set visited))")
    (auto simp: card_unvisited simp del: card_Diff_insert)

declare run_loop.simps [simp del]

definition start_run :: "'w engine \<Rightarrow> playbook \<Rightarrow> dict \<Rightarrow> playbook_run" where
  "start_run en pb trigger_context =
     (new_run pb trigger_context)\<lparr>pr_status := RunRunning, pr_events := [EvRunStarted (pb_name pb) (en_dry_run en)]\<rparr>"

definition finish_run :: "playbook_run \<Rightarrow> playbook_run" where
  "finish_run pr =
     (let pr' = (if pr_status pr = RunRunning then pr\<lparr>pr_status := RunCompleted\<rparr> else pr)
      in pr'\<lparr>pr_events := pr_events pr' @ [EvRunDone (pr_status pr') (pr_error pr')]\<rparr>)"

definition run_playbook :: "'w engine \<Rightarrow> playbook \<Rightarrow> dict \<Rightarrow> 'w \<Rightarrow> playbook_run \<times> 'w" where
  "run_playbook en pb trigger_context w =
     (case run_loop en (pb_steps pb) 0 [] (start_run en pb trigger_context) w of
        (pr, w') \<Rightarrow> (finish_run pr, w'))"

subsection \<open>The rule for invariants of the loop\<close>

lemma run_loop_rule:
  assumes skip: "\<And>step visited pr w. I visited pr w \<Longrightarrow> step \<in> set steps \<Longrightarrow> ps_id step \<notin> set visited \<Longrightarrow>
      I (ps_id step # visited) (skip_step step pr) w"
    and branch: "\<And>step visited pr w. I visited pr w \<Longrightarrow> step \<in> set steps \<Longrightarrow> ps_id step \<notin> set visited \<Longrightarrow>
      I (ps_id step # visited) (branch_step step pr) w"
    and exec: "\<And>step visited pr w pr' st w'. I visited pr w \<Longrightarrow> step \<in> set steps \<Longrightarrow> ps_id step \<notin> set visited \<Longrightarrow>
      execute_step en step pr w = (pr', st, w') \<Longrightarrow>
      I (ps_id step # visited) pr' w' \<and> (st = StepFailed \<longrightarrow> Q (fail_run (step_failed_text step) pr') w')"
    and cycle: "\<And>k visited pr w. I visited pr w \<Longrightarrow> Q (fail_run (''cycle at step '' @ k) pr) w"
    and finish: "\<And>visited pr w. I visited pr w \<Longrightarrow> Q pr w"
    and start: "I visited pr w"
  shows "Q (fst (run_loop en steps i visited pr w)) (snd (run_loop en steps i visited pr w))"
  using assms
proof (induction en steps i visited pr w rule: run_loop.induct)
  case (1 en steps i visited pr w)
  note skip = 1(5) and branch = 1(6) and exec = 1(7) and cycle = 1(8) and finish = 1(9) and start = 1(10)
  show ?case
  proof (cases "length steps \<le> i")
    case True
    then show ?thesis using finish [OF start] by (simp add: run_loop.simps [of en steps i])
  next
    case False
    let ?s = "steps ! i"
    have s: "?s \<in> set steps" using False by simp
    show ?thesis
    proof (cases "ps_id ?s \<in> set visited")
      case True
      then show ?thesis using cycle [OF start] False by (simp add: run_loop.simps [of en steps i] Let_def)
    next
      case nv: False
      note prem = False refl nv refl
      note all = skip branch exec cycle finish
      consider "\<not> condition_passed ?s (pr_context pr)"
        | "condition_passed ?s (pr_context pr)" "ps_type ?s = CONDITION"
        | "condition_passed ?s (pr_context pr)" "ps_type ?s \<noteq> CONDITION" by blast
      then show ?thesis
      proof cases
        case 1
        then show ?thesis
          using "1.IH"(1) [OF prem 1 all skip [OF start s nv]] False nv
          by (simp add: run_loop.simps [of en steps i] Let_def)
      next
        case 2
        then show ?thesis
          using "1.IH"(2) [OF prem _ 2(2) all branch [OF start s nv]] False nv
          by (simp add: run_loop.simps [of en steps i] Let_def)
      next
        case 3
        obtain pr' st w' where x: "execute_step en ?s pr w = (pr', st, w')" by (cases "execute_step en ?s pr w") auto
        note e = exec [OF start s nv x]
        consider (abort) "st = StepFailed" "ps_on_failure ?s = Abort" | (ok) "st = StepSuccess"
          | (on) "st \<noteq> StepSuccess" "\<not> (st = StepFailed \<and> ps_on_failure ?s = Abort)" by blast
        then show ?thesis
        proof cases
          case abort
          then show ?thesis using e x 3 nv False by (simp add: run_loop.simps [of en steps i] Let_def)
        next
          case ok
          then have na: "\<not> (st = StepFailed \<and> ps_on_failure ?s = Abort)" by simp
          show ?thesis
            using "1.IH"(3) [OF prem _ 3(2) x [symmetric] refl na ok all conjunct1 [OF e]] x ok 3 nv False
            by (simp add: run_loop.simps [of en steps i] Let_def)
        next
          case on
          have "Q (fst (run_loop en steps (i + 1) (ps_id ?s # visited) pr' w'))
              (snd (run_loop en steps (i + 1) (ps_id ?s # visited) pr' w'))"
            by (rule "1.IH"(4) [OF prem _ 3(2) x [symmetric] refl on(2,1)])
              (use 3(1) in simp, fact skip, fact branch, fact exec, fact cycle, fact finish, rule conjunct1 [OF e])
          then show ?thesis
            using x on 3 nv False unfolding run_loop.simps [of en steps i] Let_def by auto
        qed
      qed
    qed
  qed
qed

subsection \<open>Facts about one step\<close>

lemma execute_step_facts:
  "execute_step en step pr w = (pr', st, w') \<Longrightarrow>
     pr_status pr' = pr_status pr \<and> pr_error pr' = pr_error pr
   \<and> map sr_step_id (pr_step_results pr') = map sr_step_id (pr_step_results pr) @ [ps_id step]
   \<and> w' = snd (snd (snd (attempts en step (pr_context pr) (ps_retry_max step) 1 w)))
   \<and> st = fst (attempts en step (pr_context pr) (ps_retry_max step) 1 w)"
  by (auto simp: execute_step_def add_result_def split: prod.splits)

lemma run_fields [simp]:
  "pr_status (skip_step s pr) = pr_status pr" "pr_error (skip_step s pr) = pr_error pr"
  "pr_status (branch_step s pr) = pr_status pr" "pr_error (branch_step s pr) = pr_error pr"
  "map sr_step_id (pr_step_results (skip_step s pr)) = map sr_step_id (pr_step_results pr) @ [ps_id s]"
  "map sr_step_id (pr_step_results (branch_step s pr)) = map sr_step_id (pr_step_results pr) @ [ps_id s]"
  "pr_status (fail_run m pr) = RunFailed" "pr_error (fail_run m pr) = Some m"
  "pr_step_results (fail_run m pr) = pr_step_results pr"
  by (simp_all add: skip_step_def branch_step_def add_result_def fail_run_def)

lemma finish_fields [simp]:
  "pr_step_results (finish_run pr) = pr_step_results pr" "pr_error (finish_run pr) = pr_error pr"
  "pr_status (finish_run pr) = (if pr_status pr = RunRunning then RunCompleted else pr_status pr)"
  "last (pr_events (finish_run pr)) = EvRunDone (pr_status (finish_run pr)) (pr_error pr)"
  by (simp_all add: finish_run_def Let_def)

lemma run_playbook_eq:
  "run_playbook en pb ctx w =
     (finish_run (fst (run_loop en (pb_steps pb) 0 [] (start_run en pb ctx) w)),
      snd (run_loop en (pb_steps pb) 0 [] (start_run en pb ctx) w))"
  by (simp add: run_playbook_def split: prod.split)

lemma attempts_cost:
  assumes "\<forall>t h s c w. en_handlers en t = Some h \<longrightarrow> cost (snd (h s c w)) \<le> cost w + (1::nat)"
  shows "cost (snd (snd (snd (attempts en step ctx left n w)))) \<le> cost w + left + 1"
proof (induction left arbitrary: n w)
  have once: "cost (snd (attempt_once en step ctx w)) \<le> cost w + 1" for w
    using assms by (auto simp: attempt_once_def ret_def split: option.split)
  have bind: "snd (bind_io m (\<lambda>v. lift (f v)) w) = snd (m w)" for m :: "('w, val) io" and f w
    by (auto simp: bind_io_def lift_def split: prod.split sum.split)
  let ?b = "\<lambda>n. bind_io (attempt_once en step ctx) (\<lambda>v. lift (stamp (en_elapsed_ms en (ps_id step) n) v))"
  {
    case 0
    show ?case using once [of w] bind [of "attempt_once en step ctx" "stamp (en_elapsed_ms en (ps_id step) n)" w]
      by (auto simp: attempts.simps [of en step ctx 0] split: prod.split sum.split)
  next
    case (Suc left)
    show ?case
    proof (cases "?b n w")
      case (Pair r w1)
      then have "cost w1 \<le> cost w + 1"
        using once [of w] bind [of "attempt_once en step ctx" "stamp (en_elapsed_ms en (ps_id step) n)" w] by simp
      then show ?thesis
        using Suc.IH [of "n + 1" w1] Pair
        by (auto simp: attempts.simps [of en step ctx "Suc left"] split: prod.split sum.split)
    qed
  }
qed

text \<open>An invariant of the world that every handler call keeps is kept by the attempts and by the run.\<close>

lemma attempts_keep:
  assumes "\<And>h c w. en_handlers en (ps_type step) = Some h \<Longrightarrow> P w \<Longrightarrow> P (snd (h step c w))"
  shows "P w \<Longrightarrow> P (snd (snd (snd (attempts en step ctx left n w))))"
proof (induction left arbitrary: n w)
  have once: "P w \<Longrightarrow> P (snd (attempt_once en step ctx w))" for w
    using assms by (auto simp: attempt_once_def ret_def split: option.split)
  have bind: "snd (bind_io m (\<lambda>v. lift (f v)) w) = snd (m w)" for m :: "('a, val) io" and f w
    by (auto simp: bind_io_def lift_def split: prod.split sum.split)
  let ?b = "\<lambda>n. bind_io (attempt_once en step ctx) (\<lambda>v. lift (stamp (en_elapsed_ms en (ps_id step) n) v))"
  {
    case 0
    show ?case using once [OF 0] bind [of "attempt_once en step ctx" "stamp (en_elapsed_ms en (ps_id step) n)" w]
      by (auto simp: attempts.simps [of en step ctx 0] split: prod.split sum.split)
  next
    case (Suc left)
    show ?case
    proof (cases "?b n w")
      case (Pair r w1)
      then have "P w1"
        using once [OF Suc.prems] bind [of "attempt_once en step ctx" "stamp (en_elapsed_ms en (ps_id step) n)" w] by simp
      then show ?thesis
        using Suc.IH [of w1 "n + 1"] Pair
        by (auto simp: attempts.simps [of en step ctx "Suc left"] split: prod.split sum.split)
    qed
  }
qed

lemma run_keeps:
  assumes handlers: "\<And>s h c w. en_handlers en (ps_type s) = Some h \<Longrightarrow> P w \<Longrightarrow> P (snd (h s c w))" and start: "P w"
  shows "P (snd (run_playbook en pb ctx w))"
proof -
  have exec: "P w''" if "execute_step en s pr w' = (pr', st, w'')" "P w'" for s pr w' pr' st w''
  proof -
    have "P (snd (snd (snd (attempts en s (pr_context pr) (ps_retry_max s) 1 w'))))"
      by (rule attempts_keep [of en s P]) (use handlers that(2) in blast)+
    then show ?thesis using execute_step_facts [OF that(1)] by simp
  qed
  have "P (snd (run_loop en (pb_steps pb) 0 [] (start_run en pb ctx) w))"
  proof (rule run_loop_rule [where I = "\<lambda>_ _. P" and Q = "\<lambda>_. P"])
    fix s visited pr w' pr' st w''
    assume "P w'" "execute_step en s pr w' = (pr', st, w'')"
    then show "P w'' \<and> (st = StepFailed \<longrightarrow> P w'')" using exec by blast
  qed (use start in simp_all)
  then show ?thesis by (simp add: run_playbook_eq)
qed

lemma attempts_dry: "en_dry_run en \<Longrightarrow> attempts en step ctx left n w
    = (StepSuccess, [(''dry_run'', VBool True), (''step'', VStr (ps_name step)),
        (''_elapsed_ms'', VInt (en_elapsed_ms en (ps_id step) n))], [], w)"
  by (simp add: attempts.simps [of en step ctx left] attempt_once_def bind_io_def ret_def lift_def stamp_def)

lemma sum_list_le_steps:
  assumes "distinct (map ps_id xs)" "set xs \<subseteq> set steps"
  shows "sum_list (map f xs) \<le> (sum_list (map f steps) :: nat)"
proof -
  have "sum_list (map f xs) = sum f (set xs)" using assms(1) by (intro sum_list_distinct_conv_sum_set) (simp add: distinct_map)
  also have "\<dots> \<le> sum f (set steps)" using assms(2) by (intro sum_mono2) auto
  also have "\<dots> \<le> sum_list (map f steps)"
  proof (induction steps)
    case (Cons s ss)
    then show ?case by (cases "s \<in> set ss") (auto simp: insert_absorb)
  qed simp
  finally show ?thesis .
qed

lemma valid_steps_effort: "list_all valid_step ss \<Longrightarrow> sum_list (map (\<lambda>s. ps_retry_max s + 1) ss) \<le> 26 * length ss"
  by (induction ss) (auto simp: valid_step_def bounds_defs)

subsection \<open>Properties\<close>

text \<open>
  C23.  A run always ends and executes every step at most once: the reported steps are distinct
  steps of the playbook, at most as many as it has, the final status is completed without an error
  or failed with one, and the last event announces exactly that.
\<close>

theorem run_steps_once:
  "let pr = fst (run_playbook en pb ctx w); ids = map sr_step_id (pr_step_results pr) in
     distinct ids \<and> set ids \<subseteq> ps_id ` set (pb_steps pb) \<and> length ids \<le> length (pb_steps pb)
   \<and> (pr_status pr = RunCompleted \<and> pr_error pr = None \<or> pr_status pr = RunFailed \<and> pr_error pr \<noteq> None)
   \<and> last (pr_events pr) = EvRunDone (pr_status pr) (pr_error pr)"
proof -
  let ?ids = "\<lambda>pr. map sr_step_id (pr_step_results pr)"
  let ?I = "\<lambda>visited pr (w :: 'a). ?ids pr = rev visited \<and> distinct visited \<and> set visited \<subseteq> ps_id ` set (pb_steps pb)
     \<and> pr_status pr = RunRunning \<and> pr_error pr = None"
  let ?Q = "\<lambda>pr (w :: 'a). distinct (?ids pr) \<and> set (?ids pr) \<subseteq> ps_id ` set (pb_steps pb)
     \<and> (pr_status pr = RunRunning \<and> pr_error pr = None \<or> pr_status pr = RunFailed \<and> pr_error pr \<noteq> None)"
  let ?r = "run_loop en (pb_steps pb) 0 [] (start_run en pb ctx) w"
  have q: "?Q (fst ?r) (snd ?r)"
    by (rule run_loop_rule [where I = ?I and Q = ?Q])
      (auto simp: start_run_def new_run_def simp del: set_map dest!: execute_step_facts)
  have "length (?ids (fst ?r)) \<le> length (pb_steps pb)"
  proof -
    have "length (?ids (fst ?r)) = card (set (?ids (fst ?r)))" using q distinct_card by metis
    also have "\<dots> \<le> card (ps_id ` set (pb_steps pb))" using q by (intro card_mono) auto
    also have "\<dots> \<le> length (pb_steps pb)" using card_image_le card_length le_trans by (metis List.finite_set)
    finally show ?thesis .
  qed
  with q show ?thesis by (auto simp: run_playbook_eq Let_def)
qed

text \<open>
  C30.  The effort of a run is bounded by its definition: if no handler call raises a cost measure
  by more than one, a run of a valid playbook raises it by at most 26 per step, whatever fails,
  is retried or branches.
\<close>

theorem run_effort_bounded:
  assumes "\<forall>t h s c w. en_handlers en t = Some h \<longrightarrow> cost (snd (h s c w)) \<le> cost w + (1::nat)"
    "list_all valid_step (pb_steps pb)"
  shows "cost (snd (run_playbook en pb ctx w)) \<le> cost w + 26 * length (pb_steps pb)"
proof -
  let ?steps = "pb_steps pb" and ?f = "\<lambda>s. ps_retry_max s + 1"
  let ?I = "\<lambda>visited (pr :: playbook_run) w'. \<exists>xs. map ps_id xs = visited \<and> distinct visited \<and> set xs \<subseteq> set ?steps
     \<and> cost w' \<le> cost w + sum_list (map ?f xs)"
  let ?Q = "\<lambda>(pr :: playbook_run) w'. cost w' \<le> cost w + sum_list (map ?f ?steps)"
  have IQ: "?Q pr w'" if "?I visited pr w'" for visited and pr :: playbook_run and w'
  proof -
    obtain xs where xs: "distinct (map ps_id xs)" "set xs \<subseteq> set ?steps" "cost w' \<le> cost w + sum_list (map ?f xs)"
      using \<open>?I visited pr w'\<close> by blast
    then show ?thesis using sum_list_le_steps [OF xs(1,2), of ?f] by simp
  qed
  have step: "\<exists>xs. map ps_id xs = ps_id s # visited \<and> distinct (ps_id s # visited) \<and> set xs \<subseteq> set ?steps
      \<and> cost w'' \<le> cost w + sum_list (map ?f xs)"
    if "?I visited pr w'" "s \<in> set ?steps" "ps_id s \<notin> set visited" "cost w'' \<le> cost w' + ps_retry_max s + 1"
    for visited and pr :: playbook_run and w' s w''
  proof -
    obtain xs where "map ps_id xs = visited" "distinct visited" "set xs \<subseteq> set ?steps"
      "cost w' \<le> cost w + sum_list (map ?f xs)" using \<open>?I visited pr w'\<close> by blast
    with that(2-4) show ?thesis by (intro exI [of _ "s # xs"]) auto
  qed
  have exec: "cost w'' \<le> cost w' + ps_retry_max s + 1" if "execute_step en s pr w' = (pr', st, w'')" for s pr w' pr' st w''
    using execute_step_facts [OF that] attempts_cost [OF assms(1)] by simp
  have "?Q (fst (run_loop en ?steps 0 [] (start_run en pb ctx) w)) (snd (run_loop en ?steps 0 [] (start_run en pb ctx) w))"
  proof (rule run_loop_rule [where I = ?I and Q = ?Q])
    fix s visited pr w'
    assume "?I visited pr w'" "s \<in> set ?steps" "ps_id s \<notin> set visited"
    then show "?I (ps_id s # visited) (skip_step s pr) w'" "?I (ps_id s # visited) (branch_step s pr) w'"
      using step by simp_all
  next
    fix s visited pr w' pr' st w''
    assume a: "?I visited pr w'" "s \<in> set ?steps" "ps_id s \<notin> set visited" "execute_step en s pr w' = (pr', st, w'')"
    have i: "?I (ps_id s # visited) pr' w''" by (rule step [OF a(1-3) exec [OF a(4)]])
    show "?I (ps_id s # visited) pr' w'' \<and> (st = StepFailed \<longrightarrow> ?Q (fail_run (step_failed_text s) pr') w'')"
      by (rule conjI, rule i, rule impI, rule IQ [OF i])
  next
    show "?I [] (start_run en pb ctx) w" by simp
  qed (erule IQ)+
  moreover have "sum_list (map ?f ?steps) \<le> 26 * length ?steps"
    by (rule valid_steps_effort [OF assms(2)])
  ultimately show ?thesis unfolding run_playbook_eq snd_conv by (rule order_trans [OF _ add_left_mono])
qed

definition demo_engine :: "http_request list engine" where
  "demo_engine = \<lparr>en_handlers = HANDLERS demo_services, en_elapsed_ms = (\<lambda>s n. 0), en_dry_run = False\<rparr>"

lemma demo_http: "sv_http demo_services rq w =
    (Inr \<lparr>rp_status = 200, rp_json = Inr (VDict [(''ok'', VBool True)]), rp_text = ''ok'', rp_error = []\<rparr>, w @ [rq])"
  by (simp add: demo_services_def)

lemma demo_creds_cost: "fetch_creds demo_services i w = (c, w') \<Longrightarrow> length w' \<le> length w + 1"
  by (auto simp: fetch_creds_def demo_http split: if_splits)

lemma demo_query: "sv_live_query demo_services c hs t p n w = (Inl (NotImplementedError ''stub''), w)"
  by (simp add: demo_services_def)

lemma demo_engine_cost:
  "\<forall>t h s c w. en_handlers demo_engine t = Some h \<longrightarrow> length (snd (h s c w)) \<le> length w + (1::nat)"
proof (intro allI impI)
  fix t h s c w
  assume h: "en_handlers demo_engine t = Some h"
  have os: "length (snd (handle_osquery_live_query demo_services s c w)) \<le> length w + 1"
    by (auto simp: handle_osquery_live_query_def Let_def ret_def fail_def demo_query
        split: prod.split sum.split option.split dest!: demo_creds_cost)
  show "length (snd (h s c w)) \<le> length w + 1"
    using h os
    by (cases t) (auto simp: demo_engine_def HANDLERS_def handle_enrich_def handle_investigate_def handle_notify_def
        handle_http_def handle_block_ip_def handle_isolate_host_def handle_create_ticket_def handle_close_case_def
        bind_io_def lift_def ret_def fail_def demo_http Let_def split: sum.split val.split)
qed

lemma run_effort_bounded_witness:
  "length (snd (run_playbook demo_engine
     \<lparr>pb_id = ''p'', pb_name = ''p'', pb_steps = [new_step ''a'' ''call'' HTTP [(''url'', VStr ''http://x/'')]]\<rparr> [] [])) \<le> 26"
proof -
  let ?pb = "\<lparr>pb_id = ''p'', pb_name = ''p'', pb_steps = [new_step ''a'' ''call'' HTTP [(''url'', VStr ''http://x/'')]]\<rparr>"
  have "list_all valid_step (pb_steps ?pb)" by (simp add: valid_step_def new_step_def bounds_defs)
  from run_effort_bounded [OF demo_engine_cost this, of "[]" "[]"] show ?thesis by simp
qed



text \<open>
  An approval step does not wait for an approval: no handler exists for it (nor for the
  identity, endpoint and SIEM responses), so a run that reaches it records a success and goes on to
  the next step with the outside world untouched.
\<close>

theorem approval_not_awaited:
  assumes "HANDLERS sv (ps_type a) = None" "ps_type a \<noteq> CONDITION" "ps_condition a = None" "ps_next_true a = None"
    "pb_steps pb = a # rest" "en_handlers en = HANDLERS sv"
  shows "\<exists>pr. run_playbook en pb ctx w
      = (let (pr', w') = run_loop en (pb_steps pb) 1 [ps_id a] pr w in (finish_run pr', w'))
    \<and> map sr_status (pr_step_results pr) = [StepSuccess] \<and> pr_status pr = RunRunning
    \<and> list_all (\<lambda>t. HANDLERS sv t = None) [APPROVAL, BLOCK_IOC, DISABLE_USER, RESET_PASSWORD, REVOKE_SESSION,
         FORCE_MFA, KILL_PROCESS, QUARANTINE_FILE, RUN_AV_SCAN, RUN_SCRIPT, SEARCH_SIEM, CREATE_NOTABLE_EVENT]"
proof -
  let ?s = "start_run en pb ctx"
  have "\<exists>d. attempts en a (pr_context ?s) (ps_retry_max a) 1 w = (StepSuccess, d, [], w)"
    using assms(1,6)
    by (simp add: attempts.simps [of en a] attempt_once_def bind_io_def ret_def lift_def stamp_def skipped_result_def)
  then obtain d where d: "attempts en a (pr_context ?s) (ps_retry_max a) 1 w = (StepSuccess, d, [], w)" ..
  obtain pr where pr: "execute_step en a ?s w = (pr, StepSuccess, w)" "map sr_status (pr_step_results pr) = [StepSuccess]"
    "pr_status pr = RunRunning"
    using d by (auto simp: execute_step_def add_result_def start_run_def new_run_def)
  have "run_loop en (pb_steps pb) 0 [] ?s w = run_loop en (pb_steps pb) 1 [ps_id a] pr w"
    using assms(2-5) pr(1)
    by (simp add: run_loop.simps [of en "a # rest" 0] condition_passed_def next_idx_def)
  then have r: "run_playbook en pb ctx w = (let (pr', w') = run_loop en (pb_steps pb) 1 [ps_id a] pr w in (finish_run pr', w'))"
    by (simp add: run_playbook_def)
  have u: "list_all (\<lambda>t. HANDLERS sv t = None) [APPROVAL, BLOCK_IOC, DISABLE_USER, RESET_PASSWORD, REVOKE_SESSION,
         FORCE_MFA, KILL_PROCESS, QUARANTINE_FILE, RUN_AV_SCAN, RUN_SCRIPT, SEARCH_SIEM, CREATE_NOTABLE_EVENT]"
    by (simp add: HANDLERS_def)
  show ?thesis by (rule exI [of _ pr], intro conjI, rule r, rule pr(2), rule pr(3), rule u)
qed

lemma approval_not_awaited_witness:
  "\<exists>pr. run_playbook demo_engine
      \<lparr>pb_id = ''p'', pb_name = ''p'', pb_steps = [new_step ''a'' ''ask'' APPROVAL [], new_step ''b'' ''close'' CLOSE_CASE []]\<rparr> [] []
    = (let (pr', w') = run_loop demo_engine [new_step ''a'' ''ask'' APPROVAL [], new_step ''b'' ''close'' CLOSE_CASE []] 1 [''a''] pr []
       in (finish_run pr', w')) \<and> map sr_status (pr_step_results pr) = [StepSuccess]"
  using approval_not_awaited [of demo_services "new_step ''a'' ''ask'' APPROVAL []"
      "\<lparr>pb_id = ''p'', pb_name = ''p'', pb_steps = [new_step ''a'' ''ask'' APPROVAL [], new_step ''b'' ''close'' CLOSE_CASE []]\<rparr>"
      "[new_step ''b'' ''close'' CLOSE_CASE []]" demo_engine "[]" "[]"]
  by (auto simp: new_step_def HANDLERS_def demo_engine_def)

subsection \<open>Playbooks without branches\<close>

definition no_branch :: "string option \<Rightarrow> bool" where
  "no_branch t \<longleftrightarrow> t = None \<or> t = Some []"

definition linear_step :: "playbook_step \<Rightarrow> bool" where
  "linear_step s \<longleftrightarrow> no_branch (ps_next_true s) \<and> no_branch (ps_next_false s) \<and> ps_on_failure s \<noteq> Abort"

lemma next_idx_linear: "no_branch t \<Longrightarrow> next_idx steps t i = i + 1"
  by (auto simp: no_branch_def next_idx_def)

lemma linear_loop:
  assumes lin: "list_all linear_step steps" and dist: "distinct (map ps_id steps)"
  shows "i + n = length steps \<Longrightarrow> set visited = ps_id ` set (take i steps) \<Longrightarrow> pr_status pr = RunRunning \<Longrightarrow>
    map sr_step_id (pr_step_results (fst (run_loop en steps i visited pr w)))
      = map sr_step_id (pr_step_results pr) @ map ps_id (drop i steps)
    \<and> pr_status (fst (run_loop en steps i visited pr w)) = RunRunning"
proof (induction n arbitrary: i visited pr w)
  case 0
  then show ?case by (simp add: run_loop.simps [of en steps "length steps"])
next
  case (Suc n)
  let ?s = "steps ! i"
  have i: "i < length steps" using Suc.prems by simp
  have l: "linear_step ?s" using lin i by (simp add: list_all_length)
  have d: "drop i steps = ?s # drop (Suc i) steps" using i by (simp add: Cons_nth_drop_Suc)
  have nv: "ps_id ?s \<notin> set visited"
  proof
    assume "ps_id ?s \<in> set visited"
    then obtain j where "j < i" "ps_id ?s = ps_id (steps ! j)"
      using Suc.prems(2) i by (auto simp: in_set_conv_nth)
    with dist i show False by (auto simp: distinct_conv_nth)
  qed
  have v: "set (ps_id ?s # visited) = ps_id ` set (take (Suc i) steps)"
    using Suc.prems(2) i by (simp add: take_Suc_conv_app_nth)
  note IH = Suc.IH [of "Suc i" "ps_id ?s # visited", OF _ v]
  have nx: "next_idx steps (ps_next_true ?s) i = Suc i" "next_idx steps (ps_next_false ?s) i = Suc i"
    using l next_idx_linear by (auto simp: linear_step_def)
  have na: "ps_on_failure ?s \<noteq> Abort" using l by (simp add: linear_step_def)
  obtain pr' st w' where x: "execute_step en ?s pr w = (pr', st, w')" by (cases "execute_step en ?s pr w") auto
  note f = execute_step_facts [OF x]
  have "run_loop en steps i visited pr w =
      (if \<not> condition_passed ?s (pr_context pr) then run_loop en steps (Suc i) (ps_id ?s # visited) (skip_step ?s pr) w
       else if ps_type ?s = CONDITION then run_loop en steps (Suc i) (ps_id ?s # visited) (branch_step ?s pr) w
       else run_loop en steps (Suc i) (ps_id ?s # visited) pr' w')"
    using i nv na nx by (simp add: run_loop.simps [of en steps i] Let_def x)
  then show ?case
    using IH [of "skip_step ?s pr" w] IH [of "branch_step ?s pr" w] IH [of pr' w'] f Suc.prems(1,3) d by auto
qed

text \<open>
  A playbook without branches whose steps have distinct ids and do not abort runs to its end:
  every step is reported, in the order of the playbook, and the run is completed whatever the
  conditions and the handlers do.
\<close>

theorem linear_run_complete:
  assumes "list_all linear_step (pb_steps pb)" "distinct (map ps_id (pb_steps pb))"
  shows "map sr_step_id (pr_step_results (fst (run_playbook en pb ctx w))) = map ps_id (pb_steps pb)
    \<and> pr_status (fst (run_playbook en pb ctx w)) = RunCompleted"
  using linear_loop [OF assms, of 0 "length (pb_steps pb)" "[]" "start_run en pb ctx" en w]
  by (simp add: run_playbook_eq start_run_def new_run_def)

lemma linear_run_complete_witness:
  "pr_status (fst (run_playbook demo_engine
     \<lparr>pb_id = ''p'', pb_name = ''p'',
      pb_steps = [(new_step ''a'' ''call'' HTTP [(''url'', VStr ''http://169.254.169.254/'')])\<lparr>ps_on_failure := Continue\<rparr>,
                  (new_step ''b'' ''close'' CLOSE_CASE [])\<lparr>ps_on_failure := Retry\<rparr>]\<rparr> [] [])) = RunCompleted"
  using linear_run_complete [of "\<lparr>pb_id = ''p'', pb_name = ''p'',
      pb_steps = [(new_step ''a'' ''call'' HTTP [(''url'', VStr ''http://169.254.169.254/'')])\<lparr>ps_on_failure := Continue\<rparr>,
                  (new_step ''b'' ''close'' CLOSE_CASE [])\<lparr>ps_on_failure := Retry\<rparr>]\<rparr>" demo_engine "[]" "[]"]
  by (simp add: linear_step_def no_branch_def new_step_def)

end
