(* ===== verification/Ssrf_Guard.thy ===== *)
theory Ssrf_Guard
  imports Ip_Address Playbook_Engine
begin

text \<open>
  The guard of outbound URLs (\<open>services/agents/app/playbook/ssrf_guard.py\<close>).  The environment is a
  partial function, the system's resolver (\<open>socket.getaddrinfo\<close>) a function from host names to the
  address texts it reports or the text of its OSError.  \<open>urlsplit\<close> is the one of Python 3.11, on
  ASCII text, as far as the scheme and the authority go.
\<close>

subsection \<open>Splitting URLs\<close>

definition nonempty_text :: "string option \<Rightarrow> bool" where
  "nonempty_text v \<longleftrightarrow> v \<noteq> None \<and> v \<noteq> Some []"

record split_url =
  su_scheme :: string
  su_netloc :: string

definition is_alpha :: "char \<Rightarrow> bool" where
  "is_alpha c \<longleftrightarrow> is_upper c \<or> is_lower c"

definition scheme_char :: "char \<Rightarrow> bool" where
  "scheme_char c \<longleftrightarrow> is_alpha c \<or> is_digit c \<or> c \<in> {CHR ''+'', CHR ''-'', CHR ''.''}"

text \<open>\<open>s.partition(c)\<close> without the separator, and whether it occurs; the part after the last one.\<close>

definition before :: "char \<Rightarrow> string \<Rightarrow> string" where
  "before c s = takeWhile (\<lambda>x. x \<noteq> c) s"

definition after :: "char \<Rightarrow> string \<Rightarrow> string" where
  "after c s = drop 1 (dropWhile (\<lambda>x. x \<noteq> c) s)"

definition after_last :: "char \<Rightarrow> string \<Rightarrow> string" where
  "after_last c s = rev (before c (rev s))"

definition before_last :: "char \<Rightarrow> string \<Rightarrow> string" where
  "before_last c s = rev (after c (rev s))"

definition LBR :: char where "LBR = CHR ''[''"
definition RBR :: char where "RBR = CHR '']''"

definition ipv_future :: "string \<Rightarrow> bool" where
  "ipv_future s =
     (let hex = takeWhile (\<lambda>c. hex_code c \<noteq> None) (drop 1 s); rest = drop (Suc (length hex)) s
      in hex \<noteq> [] \<and> 2 \<le> length rest \<and> hd rest = CHR ''.'' \<and> CHR 0x0A \<notin> set (tl rest))"

definition check_bracketed_host :: "string \<Rightarrow> string option" where
  "check_bracketed_host h =
     (if startswith h ''v'' then (if ipv_future h then None else Some ''IPvFuture address is invalid'')
      else case ip_address h of
        None \<Rightarrow> Some (repr_str h @ '' does not appear to be an IPv4 or IPv6 address'')
      | Some (V4 w) \<Rightarrow> Some ''An IPv4 address cannot be in brackets''
      | Some (V6 w) \<Rightarrow> None)"

definition split_scheme :: "string \<Rightarrow> string \<times> string" where
  "split_scheme u =
     (let s = before (CHR '':'') u in
      if CHR '':'' \<in> set u \<and> s \<noteq> [] \<and> is_alpha (hd u) \<and> list_all scheme_char s
      then (lower s, after (CHR '':'') u) else ([], u))"

definition urlsplit :: "string \<Rightarrow> string + split_url" where
  "urlsplit url =
     (let u = filter (\<lambda>c. c \<notin> {CHR 0x09, CHR 0x0A, CHR 0x0D}) (dropWhile (\<lambda>c. (of_char c :: nat) \<le> 32) url)
      in case split_scheme u of (s, rest) \<Rightarrow>
        if \<not> startswith rest ''//'' then Inr \<lparr>su_scheme = s, su_netloc = []\<rparr>
        else (let net = takeWhile (\<lambda>c. c \<notin> {CHR ''/'', CHR ''?'', CHR ''#''}) (drop 2 rest) in
          if (LBR \<in> set net) \<noteq> (RBR \<in> set net) then Inl ''Invalid IPv6 URL''
          else if LBR \<in> set net
          then (case check_bracketed_host (before RBR (after LBR net)) of
                  Some e \<Rightarrow> Inl e | None \<Rightarrow> Inr \<lparr>su_scheme = s, su_netloc = net\<rparr>)
          else Inr \<lparr>su_scheme = s, su_netloc = net\<rparr>))"

text \<open>The properties \<open>username\<close>, \<open>password\<close> and \<open>hostname\<close> of the result.\<close>

definition username :: "split_url \<Rightarrow> string option" where
  "username p = (if CHR ''@'' \<in> set (su_netloc p) then Some (before (CHR '':'') (before_last (CHR ''@'') (su_netloc p))) else None)"

definition password :: "split_url \<Rightarrow> string option" where
  "password p =
     (if CHR ''@'' \<in> set (su_netloc p) \<and> CHR '':'' \<in> set (before_last (CHR ''@'') (su_netloc p))
      then Some (after (CHR '':'') (before_last (CHR ''@'') (su_netloc p))) else None)"

definition hostname :: "split_url \<Rightarrow> string" where
  "hostname p =
     (let info = after_last (CHR ''@'') (su_netloc p);
          h = (if LBR \<in> set info then before RBR (after LBR info) else before (CHR '':'') info);
          name = before (CHR 0x25) h
      in lower name @ drop (length name) h)"

subsection \<open>Configuration\<close>

type_synonym environ = "string \<Rightarrow> string option"

definition getenv :: "environ \<Rightarrow> string \<Rightarrow> string" where
  "getenv env name = (case env name of None \<Rightarrow> [] | Some v \<Rightarrow> v)"

definition DEFAULT_BLOCKED_HOSTS :: "string list" where
  "DEFAULT_BLOCKED_HOSTS =
     [''169.254.169.254'', ''metadata.google.internal'', ''metadata'', ''metadata.azure.com'', ''100.100.100.200'',
      ''169.254.169.254.nip.io'']"

definition DEFAULT_ALLOWED_SCHEMES :: "string list" where
  "DEFAULT_ALLOWED_SCHEMES = [''http'', ''https'']"

text \<open>A frozenset is the sorted list of its elements.\<close>

definition env_set :: "environ \<Rightarrow> string \<Rightarrow> string list" where
  "env_set env name =
     sorted_set (map (\<lambda>part. lower (strip part)) (filter (\<lambda>part. strip part \<noteq> []) (split_on (CHR '','') (getenv env name))))"

definition allowed_schemes :: "environ \<Rightarrow> string list" where
  "allowed_schemes env =
     (let extra = env_set env ''AISOC_SSRF_ALLOWED_SCHEMES'' in if extra = [] then DEFAULT_ALLOWED_SCHEMES else extra)"

definition blocked_hosts :: "environ \<Rightarrow> string list" where
  "blocked_hosts env = DEFAULT_BLOCKED_HOSTS @ env_set env ''AISOC_SSRF_EXTRA_BLOCKED_HOSTS''"

definition allow_private_by_default :: "environ \<Rightarrow> bool" where
  "allow_private_by_default env \<longleftrightarrow> lower (strip (getenv env ''AISOC_SSRF_ALLOW_PRIVATE'')) \<in> {''1'', ''true'', ''yes''}"

subsection \<open>Addresses\<close>

text \<open>\<open>_is_disallowed_address\<close>: the reason, if the address is blocked.  A mapped address is IPv4, so
  the recursion is one step deep.\<close>

definition disallowed_with :: "(ip \<Rightarrow> string option) \<Rightarrow> bool \<Rightarrow> ip \<Rightarrow> string option" where
  "disallowed_with mapped_check allow_private a =
     (if is_loopback a then Some ''loopback address''
      else if is_link_local a then Some ''link-local address (cloud metadata range)''
      else if is_unspecified a then Some ''unspecified address''
      else if is_multicast a then Some ''multicast address''
      else if is_reserved a then Some ''reserved address''
      else case ipv4_mapped a of
        Some m \<Rightarrow> mapped_check m
      | None \<Rightarrow> if \<not> allow_private \<and> is_private a then Some ''private/RFC1918 address'' else None)"

definition is_disallowed_address :: "bool \<Rightarrow> ip \<Rightarrow> string option" where
  "is_disallowed_address allow_private = disallowed_with (disallowed_with (\<lambda>_. None) allow_private) allow_private"

type_synonym resolver = "string \<Rightarrow> string + string option list"

datatype ssrf_error =
    EmptyUrl
  | BadUrl string
  | SchemeNotAllowed string "string list"
  | UserInfo
  | NoHost
  | Blocklisted string
  | LiteralBlocked string string
  | Unresolved string string
  | NoAddresses string
  | ResolvedBlocked string ip string

text \<open>The loop over the answers; \<open>None\<close> is an entry with an empty socket address.\<close>

fun usable :: "string list \<Rightarrow> string option list \<Rightarrow> ip list" where
  "usable seen [] = []"
| "usable seen (info # infos) =
     (let s = (case info of None \<Rightarrow> [] | Some a \<Rightarrow> before (CHR 0x25) a) in
      if s = [] \<or> s \<in> set seen then usable seen infos
      else (case ip_address s of
              Some a \<Rightarrow> a # usable (s # seen) infos
            | None \<Rightarrow> usable (s # seen) infos))"

definition resolve_host_addresses :: "resolver \<Rightarrow> string \<Rightarrow> ssrf_error + ip list" where
  "resolve_host_addresses dns host =
     (case dns host of
        Inl e \<Rightarrow> Inl (Unresolved host e)
      | Inr infos \<Rightarrow> (let addrs = usable [] infos in if addrs = [] then Inl (NoAddresses host) else Inr addrs))"

fun check_addresses :: "bool \<Rightarrow> string \<Rightarrow> ip list \<Rightarrow> ssrf_error + unit" where
  "check_addresses private host [] = Inr ()"
| "check_addresses private host (a # as) =
     (case is_disallowed_address private a of
        Some reason \<Rightarrow> Inl (ResolvedBlocked host a reason)
      | None \<Rightarrow> check_addresses private host as)"

subsection \<open>The guard\<close>

definition check_host :: "environ \<Rightarrow> resolver \<Rightarrow> bool option \<Rightarrow> string \<Rightarrow> ssrf_error + unit" where
  "check_host env dns allow_private host =
     (if host = [] then Inl NoHost
      else if host \<in> set (blocked_hosts env) then Inl (Blocklisted host)
      else let private = (case allow_private of None \<Rightarrow> allow_private_by_default env | Some b \<Rightarrow> b) in
        case ip_address host of
          Some a \<Rightarrow>
            (case is_disallowed_address private a of
               Some reason \<Rightarrow> Inl (LiteralBlocked host reason) | None \<Rightarrow> Inr ())
        | None \<Rightarrow> bind_res (resolve_host_addresses dns host) (check_addresses private host))"

definition validate_outbound_url :: "environ \<Rightarrow> resolver \<Rightarrow> bool option \<Rightarrow> val \<Rightarrow> ssrf_error + val" where
  "validate_outbound_url env dns allow_private url =
     (case url of
        VStr u \<Rightarrow>
          if strip u = [] then Inl EmptyUrl
          else (case urlsplit (strip u) of
            Inl e \<Rightarrow> Inl (BadUrl e)
          | Inr parts \<Rightarrow>
              (let scheme = lower (su_scheme parts) in
               if scheme \<notin> set (allowed_schemes env) then Inl (SchemeNotAllowed scheme (allowed_schemes env))
               else if nonempty_text (username parts) \<or> nonempty_text (password parts) then Inl UserInfo
               else bind_res (check_host env dns allow_private (lower (strip (hostname parts)))) (\<lambda>_. Inr url)))
      | _ \<Rightarrow> Inl EmptyUrl)"

fun ssrf_text :: "ssrf_error \<Rightarrow> string" where
  "ssrf_text EmptyUrl = ''URL is empty''"
| "ssrf_text (BadUrl e) = ''could not parse URL: '' @ e"
| "ssrf_text (SchemeNotAllowed s ss) =
     ''scheme '' @ repr_str s @ '' is not allowed (must be one of '' @ py_repr (VList (map VStr ss)) @ '')''"
| "ssrf_text UserInfo = ''URL must not include userinfo (user:password@host)''"
| "ssrf_text NoHost = ''URL has no hostname''"
| "ssrf_text (Blocklisted h) = ''hostname '' @ repr_str h @ '' is on the SSRF blocklist (cloud metadata or operator-blocked)''"
| "ssrf_text (LiteralBlocked h r) = ''host '' @ repr_str h @ '' is blocked: '' @ r"
| "ssrf_text (Unresolved h e) = ''could not resolve hostname '' @ repr_str h @ '': '' @ e"
| "ssrf_text (NoAddresses h) = ''hostname '' @ repr_str h @ '' resolved to no usable addresses''"
| "ssrf_text (ResolvedBlocked h a r) =
     ''hostname '' @ repr_str h @ '' resolves to a blocked address '' @ ip_text a @ '' ('' @ r @ '')''"

subsection \<open>Which addresses pass\<close>

lemma v4_accepted_iff:
  "is_disallowed_address private (V4 w) = None \<longleftrightarrow>
     \<not> in_ranges (uint w) NEVER_V4
     \<and> (private \<or> \<not> in_ranges (uint w) INTERNAL_V4 \<or> uint w \<in> {0xC0000009, 0xC000000A})"
  unfolding is_disallowed_address_def disallowed_with_def is_private.simps v4_private_iff
  by (simp add: v4_never_iff [symmetric] del: is_loopback.simps is_link_local.simps is_unspecified.simps is_multicast.simps is_reserved.simps)

lemma v6_accepted:
  assumes "is_disallowed_address private (V6 w) = None"
  shows "in_ranges (first_group w) ROUTED_V6 \<and> (private \<or> \<not> in_ranges (first_group w) [(0xFC00, 0xFE00)])"
proof -
  have r: "in_ranges (first_group w) ROUTED_V6"
    using assms v6_never_iff [of w] by (auto simp: is_disallowed_address_def disallowed_with_def
      simp del: is_loopback.simps is_link_local.simps is_unspecified.simps is_multicast.simps is_reserved.simps split: if_splits)
  have "private" if h: "0xFC00 \<le> first_group w" "first_group w < 0xFE00"
  proof (rule ccontr)
    assume np: "\<not> private"
    have m: "ipv4_mapped (V6 w) = None" using mapped_first_group [of w] h by auto
    have "\<not> is_private (V6 w)"
      using assms np m by (auto simp: is_disallowed_address_def disallowed_with_def
        simp del: is_loopback.simps is_link_local.simps is_unspecified.simps is_multicast.simps is_reserved.simps is_private.simps
          ipv4_mapped.simps split: if_splits)
    then have "\<not> in_nets w V6_PRIVATE" using m exceptions_first_group [of w] h by auto
    then have "\<not> in_net w (groups [0xFC00], 7)" by (simp add: in_nets_def V6_PRIVATE_def)
    with h show False by (simp add: v6_net16)
  qed
  with r show ?thesis by auto
qed

text \<open>What an accepted address may be, in numbers: \<open>private\<close> tells whether internal ranges are allowed.\<close>

fun outbound_address :: "bool \<Rightarrow> ip \<Rightarrow> bool" where
  "outbound_address private (V4 w) \<longleftrightarrow>
     \<not> in_ranges (uint w) NEVER_V4
     \<and> (private \<or> \<not> in_ranges (uint w) INTERNAL_V4 \<or> uint w \<in> {0xC0000009, 0xC000000A})"
| "outbound_address private (V6 w) \<longleftrightarrow>
     in_ranges (first_group w) ROUTED_V6 \<and> (private \<or> \<not> in_ranges (first_group w) [(0xFC00, 0xFE00)])"

lemma accepted_outbound: "is_disallowed_address private a = None \<Longrightarrow> outbound_address private a"
  using v4_accepted_iff v6_accepted by (cases a) (auto simp del: in_ranges_simps)

lemma check_addresses_ok: "check_addresses private host as = Inr u \<longleftrightarrow> list_all (\<lambda>a. is_disallowed_address private a = None) as"
  by (induction as) (auto split: option.split)

definition answer_address :: "string option \<Rightarrow> ip option" where
  "answer_address t = (case t of None \<Rightarrow> None | Some a \<Rightarrow> ip_address (before (CHR 0x25) a))"

lemma ip_address_Nil: "ip_address [] = None"
  by code_simp

text \<open>Every answer is checked; a repeated text was checked at its first occurrence.\<close>

lemma usable_complete:
  "t \<in> set infos \<Longrightarrow> answer_address t = Some a \<Longrightarrow> before (CHR 0x25) (the t) \<notin> set seen \<Longrightarrow> a \<in> set (usable seen infos)"
proof (induction seen infos rule: usable.induct)
  case (2 seen info infos)
  let ?s = "case info of None \<Rightarrow> [] | Some a \<Rightarrow> before (CHR 0x25) a"
  let ?t = "before (CHR 0x25) (the t)"
  obtain u where t: "t = Some u" "ip_address ?t = Some a" using "2.prems"(2) by (cases t) (auto simp: answer_address_def)
  then have ne: "?t \<noteq> []" using ip_address_Nil by auto
  show ?case
  proof (cases "?t = ?s")
    case True
    then show ?thesis using t ne "2.prems"(3) by (simp add: Let_def split: option.splits)
  next
    case False
    then have "t \<in> set infos" using "2.prems"(1) t by auto
    then show ?thesis using "2.IH" "2.prems"(2,3) False by (auto simp: Let_def split: option.splits)
  qed
qed simp

subsection \<open>Properties\<close>

text \<open>What it takes for a destination to be contacted: the scheme is allowed, no credentials, the host is
  not on the blocklist, and it is an address outside the blocked ranges or a name all of whose answers are.\<close>

definition outbound_host :: "environ \<Rightarrow> resolver \<Rightarrow> bool \<Rightarrow> string \<Rightarrow> bool" where
  "outbound_host env dns private host \<longleftrightarrow>
     host \<noteq> [] \<and> host \<notin> set (blocked_hosts env)
     \<and> (case ip_address host of
          Some a \<Rightarrow> outbound_address private a
        | None \<Rightarrow> \<exists>infos. dns host = Inr infos
            \<and> (\<exists>t \<in> set infos. answer_address t \<noteq> None)
            \<and> (\<forall>t \<in> set infos. \<forall>a. answer_address t = Some a \<longrightarrow> outbound_address private a))"

definition outbound_url :: "environ \<Rightarrow> resolver \<Rightarrow> bool \<Rightarrow> val \<Rightarrow> bool" where
  "outbound_url env dns private url \<longleftrightarrow>
     (\<exists>u p. url = VStr u \<and> urlsplit (strip u) = Inr p \<and> lower (su_scheme p) \<in> set (allowed_schemes env)
        \<and> username p \<in> {None, Some []} \<and> password p \<in> {None, Some []}
        \<and> outbound_host env dns private (lower (strip (hostname p))))"

lemma usable_sound: "a \<in> set (usable seen infos) \<Longrightarrow> \<exists>t \<in> set infos. answer_address t = Some a"
proof (induction infos arbitrary: seen)
  case (Cons info infos)
  from Cons.prems consider "answer_address info = Some a" | s where "a \<in> set (usable s infos)"
    by (auto simp: Let_def answer_address_def split: option.splits if_splits)
  then show ?case using Cons.IH by cases auto
qed simp

lemma check_host_outbound:
  assumes "check_host env dns allow_private host = Inr u"
  defines "private \<equiv> (case allow_private of None \<Rightarrow> allow_private_by_default env | Some b \<Rightarrow> b)"
  shows "outbound_host env dns private host"
proof (cases "ip_address host")
  case (Some a)
  then show ?thesis
    using assms by (auto simp: check_host_def outbound_host_def Let_def intro: accepted_outbound split: if_splits option.splits)
next
  case None
  obtain infos where i: "dns host = Inr infos" "usable [] infos \<noteq> []"
    "list_all (\<lambda>a. is_disallowed_address private a = None) (usable [] infos)"
    using assms None by (auto simp: check_host_def resolve_host_addresses_def Let_def check_addresses_ok split: if_splits sum.splits)
  have "outbound_address private a" if "t \<in> set infos" "answer_address t = Some a" for t a
    using usable_complete [OF that] i(3) accepted_outbound by (auto simp: list_all_iff)
  moreover obtain t where "t \<in> set infos" "answer_address t \<noteq> None"
    using i(2) usable_sound [of "hd (usable [] infos)" "[]" infos] by auto
  ultimately show ?thesis
    using assms(1) None i(1) by (auto simp: check_host_def outbound_host_def split: if_splits)
qed

lemma validate_outbound:
  assumes "validate_outbound_url env dns allow_private url = Inr r"
  shows "r = url \<and> outbound_url env dns (case allow_private of None \<Rightarrow> allow_private_by_default env | Some b \<Rightarrow> b) url"
  using assms
  by (auto simp: validate_outbound_url_def outbound_url_def nonempty_text_def Let_def intro: check_host_outbound
      split: val.splits sum.splits if_splits)

text \<open>
  C17.  A URL that passes the guard is returned as it was given, has an allowed scheme, no user name
  or password and a host off the blocklist, and its host is either an address literal outside the
  loopback, link-local, multicast, reserved and (unless configured) internal ranges, or a name all
  of whose answers with a usable address, of which there is one, lie outside them.
\<close>

theorem ssrf_safe:
  assumes "validate_outbound_url env dns allow_private url = Inr r"
  shows "r = url \<and> outbound_url env dns (case allow_private of None \<Rightarrow> allow_private_by_default env | Some b \<Rightarrow> b) url"
  using assms by (rule validate_outbound)

definition demo_dns :: resolver where
  "demo_dns host = (if host = ''intern.example'' then Inr [Some ''93.184.216.34'', Some ''10.0.0.5'']
     else if host = ''a.example'' then Inr [Some ''100.100.100.200'']
     else if host = ''hooks.example'' then Inr [Some ''93.184.216.34'', None, Some ''2606:2800:220:1::1'']
     else Inl ''Name or service not known'')"

lemma demo_accepted:
  "validate_outbound_url (\<lambda>_. None) demo_dns None (VStr ''https://Hooks.example:8443/x?y'') = Inr (VStr ''https://Hooks.example:8443/x?y'')"
  by code_simp

lemma ssrf_safe_witness:
  "outbound_url (\<lambda>_. None) demo_dns False (VStr ''https://Hooks.example:8443/x?y'')"
  using ssrf_safe [OF demo_accepted] by (simp add: allow_private_by_default_def getenv_def strip_def lstrip_def rstrip_def lower_def)

lemma guard_examples:
  "validate_outbound_url (\<lambda>_. None) demo_dns None (VStr ''http://intern.example/'')
     = Inl (ResolvedBlocked ''intern.example'' (V4 (octets 10 0 0 5)) ''private/RFC1918 address'')"
  "validate_outbound_url (\<lambda>_. None) demo_dns (Some True) (VStr ''http://intern.example/'') = Inr (VStr ''http://intern.example/'')"
  "validate_outbound_url (\<lambda>_. None) demo_dns (Some True) (VStr ''http://127.0.0.1/'') = Inl (LiteralBlocked ''127.0.0.1'' ''loopback address'')"
  "validate_outbound_url (\<lambda>_. None) demo_dns None (VStr ''http://user:pw@hooks.example/'') = Inl UserInfo"
  "validate_outbound_url (\<lambda>_. None) demo_dns None (VStr ''file:///etc/passwd'') = Inl (SchemeNotAllowed ''file'' [''http'', ''https''])"
  "validate_outbound_url (\<lambda>_. None) demo_dns None (VStr ''http://[::1]:80/'') = Inl (LiteralBlocked ''::1'' ''loopback address'')"
  "validate_outbound_url (\<lambda>_. None) demo_dns None (VStr ''http:///x'') = Inl NoHost"
  "validate_outbound_url (\<lambda>_. None) demo_dns None VNone = Inl EmptyUrl"
  by code_simp+

text \<open>
  The blocklist is a check of names only: Alibaba's metadata address 100.100.100.200 is refused
  as a literal, but every name that resolves to it, or to any address of the shared range
  100.64.0.0/10 it lies in, passes in every configuration, as that range is not private to Python.
\<close>

theorem ssrf_shared_range_gap:
  assumes "host \<noteq> []" "host \<notin> set (blocked_hosts env)" "ip_address host = None"
    "dns host = Inr [Some t]" "ip_address (before (CHR 0x25) t) = Some (V4 w)"
    "0x64400000 \<le> uint w" "uint w < 0x64800000"
  shows "check_host env dns allow_private host = Inr ()
    \<and> check_host env dns allow_private ''100.100.100.200'' = Inl (Blocklisted ''100.100.100.200'')"
proof -
  have "before (CHR 0x25) t \<noteq> []" using assms(5) ip_address_Nil by auto
  then have u: "usable [] [Some t] = [V4 w]" using assms(5) by (simp add: Let_def)
  have "is_disallowed_address p (V4 w) = None" for p
    using assms(6,7) by (simp add: v4_accepted_iff NEVER_V4_def INTERNAL_V4_def)
  then have "check_host env dns allow_private host = Inr ()"
    using assms(1-4) u by (simp add: check_host_def resolve_host_addresses_def del: usable.simps)
  moreover have "''100.100.100.200'' \<in> set (blocked_hosts env)" by (simp add: blocked_hosts_def DEFAULT_BLOCKED_HOSTS_def)
  ultimately show ?thesis by (simp add: check_host_def)
qed

lemma ssrf_shared_range_gap_witness:
  "check_host (\<lambda>_. None) demo_dns None ''a.example'' = Inr ()"
proof -
  have a: "ip_address (before (CHR 0x25) ''100.100.100.200'') = Some (V4 (octets 100 100 100 200))"
    "ip_address ''a.example'' = None" "''a.example'' \<notin> set (blocked_hosts (\<lambda>_. None))"
    by code_simp+
  have d: "demo_dns ''a.example'' = Inr [Some ''100.100.100.200'']" by (simp add: demo_dns_def)
  show ?thesis
    using ssrf_shared_range_gap [where host = "''a.example''" and env = "\<lambda>_. None" and dns = demo_dns
        and t = "''100.100.100.200''" and w = "octets 100 100 100 200" and allow_private = None] a d
    by (simp add: octets_uint)
qed

subsection \<open>Playbook runs behind the guard\<close>

text \<open>The services with this guard in the place of the URL check; the engine calls it without an override.\<close>

definition guarded_services :: "environ \<Rightarrow> resolver \<Rightarrow> 'w services \<Rightarrow> 'w services" where
  "guarded_services env dns sv = sv\<lparr>sv_validate_url := (\<lambda>url.
     case validate_outbound_url env dns None url of Inl e \<Rightarrow> Some (ssrf_text e) | Inr _ \<Rightarrow> None)\<rparr>"

definition allowed_request :: "environ \<Rightarrow> resolver \<Rightarrow> string \<Rightarrow> http_request \<Rightarrow> bool" where
  "allowed_request env dns api rq \<longleftrightarrow>
     (\<exists>path. rq_url rq = VStr (api @ path)) \<or> outbound_url env dns (allow_private_by_default env) (rq_url rq)"

lemma guarded_fields [simp]:
  "sv_http (guarded_services env dns sv) = sv_http sv" "sv_api_url (guarded_services env dns sv) = sv_api_url sv"
  "sv_live_query (guarded_services env dns sv) = sv_live_query sv"
  by (simp_all add: guarded_services_def)

lemma guarded_url_pass: "guarded_url (guarded_services env dns sv) what url = Inr u
    \<Longrightarrow> outbound_url env dns (allow_private_by_default env) url"
  by (auto simp: guarded_url_def guarded_services_def split: sum.splits dest!: validate_outbound)

text \<open>A client that records the requests it is given, whatever it answers.\<close>

definition recording :: "http_request list services \<Rightarrow> bool" where
  "recording sv \<longleftrightarrow> (\<forall>rq w. snd (sv_http sv rq w) = w @ [rq])
     \<and> (\<forall>c hosts t p n w. snd (sv_live_query sv c hosts t p n w) = w)"

lemma recording_http: "recording sv \<Longrightarrow> sv_http sv rq w = (r, w') \<Longrightarrow> w' = w @ [rq]"
  by (metis recording_def snd_conv)

lemma recording_query: "recording sv \<Longrightarrow> sv_live_query sv c hs t p n w = (r, w') \<Longrightarrow> w' = w"
  by (metis recording_def snd_conv)

lemma recording_bind:
  "recording sv \<Longrightarrow> snd (bind_io (sv_http sv rq) (\<lambda>r. lift (f r)) w) = w @ [rq]"
  by (auto simp: bind_io_def lift_def split: prod.split sum.split dest: recording_http)

lemma allowed_api [simp]: "allowed_request env dns (sv_api_url sv) (api_request sv verb path body step)"
  by (simp add: allowed_request_def api_request_def)

lemma allowed_path: "rq_url rq = VStr (api @ path) \<Longrightarrow> allowed_request env dns api rq"
  by (auto simp: allowed_request_def)

lemma fetch_creds_allowed:
  assumes "recording sv" "fetch_creds sv i w = (c, w')" "list_all (allowed_request env dns (sv_api_url sv)) w"
  shows "list_all (allowed_request env dns (sv_api_url sv)) w'"
proof -
  define rq where "rq = \<lparr>rq_method = ''GET'', rq_url = VStr (sv_api_url sv @ ''/api/v1/connectors/instances/'' @ py_str i),
     rq_json = VNone, rq_headers = VDict [], rq_timeout = 10\<rparr>"
  have "w' = w \<or> w' = snd (sv_http sv rq w)"
    using assms(2) unfolding fetch_creds_def rq_def [symmetric]
    by (auto split: if_splits prod.splits sum.splits bool.splits val.splits)
  then have "w' = w \<or> w' = w @ [rq]" using assms(1) by (simp add: recording_def)
  moreover have "allowed_request env dns (sv_api_url sv) rq"
    by (rule allowed_path [of _ _ "''/api/v1/connectors/instances/'' @ py_str i"]) (simp add: rq_def)
  ultimately show ?thesis using assms(3) by auto
qed

lemma osquery_allowed:
  assumes "recording sv" "list_all (allowed_request env dns (sv_api_url sv)) w"
  shows "list_all (allowed_request env dns (sv_api_url sv)) (snd (handle_osquery_live_query sv s c w))"
  by (auto simp: handle_osquery_live_query_def Let_def ret_def fail_def assms(2)
      split: prod.split sum.split option.split query_error.split dest!: recording_query [OF assms(1)]
      intro: fetch_creds_allowed [OF assms(1) _ assms(2)])

lemma notify_allowed:
  assumes "recording sv" "list_all (allowed_request env dns (sv_api_url sv)) w"
  shows "list_all (allowed_request env dns (sv_api_url sv)) (snd (handle_notify (guarded_services env dns sv) s c w))"
  using assms(2)
  by (auto simp: handle_notify_def Let_def bind_io_def lift_def ret_def allowed_request_def
      split: prod.split sum.split dest!: recording_http [OF assms(1)] guarded_url_pass)

lemma http_allowed:
  assumes "recording sv" "list_all (allowed_request env dns (sv_api_url sv)) w"
  shows "list_all (allowed_request env dns (sv_api_url sv)) (snd (handle_http (guarded_services env dns sv) s c w))"
  using assms(2)
  by (auto simp: handle_http_def Let_def bind_io_def lift_def ret_def fail_def allowed_request_def
      split: prod.split sum.split val.split dest!: recording_http [OF assms(1)] guarded_url_pass)

lemma handlers_allowed:
  assumes "recording sv" "HANDLERS (guarded_services env dns sv) t = Some h"
    "list_all (allowed_request env dns (sv_api_url sv)) w"
  shows "list_all (allowed_request env dns (sv_api_url sv)) (snd (h s c w))"
proof -
  let ?g = "guarded_services env dns sv"
  have g: "recording ?g" using assms(1) by (simp add: recording_def)
  have api: "allowed_request env dns (sv_api_url sv) (api_request ?g verb path body step)" for verb path body step
    by (simp add: allowed_request_def api_request_def)
  note o = osquery_allowed [of ?g env dns, unfolded guarded_fields, OF g assms(3)]
  have e: "list_all (allowed_request env dns (sv_api_url sv)) (snd (handle_enrich ?g s c w))"
    using assms(3) api by (simp add: handle_enrich_def Let_def recording_bind [OF assms(1)])
  have i: "list_all (allowed_request env dns (sv_api_url sv)) (snd (handle_investigate ?g s c w))"
    using assms(3) api by (simp add: handle_investigate_def Let_def recording_bind [OF assms(1)] ret_def)
  have cl: "list_all (allowed_request env dns (sv_api_url sv)) (snd (handle_close_case ?g s c w))"
    using assms(3) api by (auto simp: handle_close_case_def Let_def bind_io_def lift_def ret_def
        split: prod.split sum.split dest!: recording_http [OF assms(1)])
  show ?thesis
    using assms(2) o e i cl assms(3) notify_allowed [OF assms(1,3)] http_allowed [OF assms(1,3)]
    by (cases t) (auto simp: HANDLERS_def handle_block_ip_def handle_isolate_host_def handle_create_ticket_def ret_def)
qed





end
