(* ===== verification/Json_Parse.thy ===== *)
theory Json_Parse
  imports Json Py_Text "HOL-Library.Multiset"
begin

text \<open>
  \<open>json.loads\<close> of the standard library, and the proof that it reads back what \<open>json.dumps\<close> writes.
  Characters outside Latin-1 and the literals \<open>NaN\<close> and \<open>Infinity\<close> are outside the model and count
  as malformed.  \<open>None\<close> is the ValueError.
\<close>

subsection \<open>The decoder\<close>

definition json_space :: "char \<Rightarrow> bool" where
  "json_space c \<longleftrightarrow> c \<in> {CHR 0x20, CHR 0x09, CHR 0x0A, CHR 0x0D}"

definition skip_ws :: "string \<Rightarrow> string" where
  "skip_ws s = dropWhile json_space s"

text \<open>The character after a backslash, with what follows.\<close>

definition escape :: "string \<Rightarrow> (char \<times> string) option" where
  "escape s =
     (case s of
        [] \<Rightarrow> None
      | d # ds \<Rightarrow>
          if d \<in> {CHR 0x22, CHR 0x5C, CHR ''/''} then Some (d, ds)
          else if d = CHR ''b'' then Some (CHR 0x08, ds)
          else if d = CHR ''f'' then Some (CHR 0x0C, ds)
          else if d = CHR ''n'' then Some (CHR 0x0A, ds)
          else if d = CHR ''r'' then Some (CHR 0x0D, ds)
          else if d = CHR ''t'' then Some (CHR 0x09, ds)
          else if d = CHR ''u'' then
            (case map hex_code (take 4 ds) of
               [Some a, Some b, Some c, Some e] \<Rightarrow>
                 if a = 0 \<and> b = 0 then Some (char_of (16 * c + e), drop 4 ds) else None
             | _ \<Rightarrow> None)
          else None)"

lemma escape_shorter: "escape s = Some (c, r) \<Longrightarrow> length r < length s"
  by (cases s) (auto simp: escape_def split: if_splits list.splits option.splits)

text \<open>The text of a string after its opening quote.\<close>

function scan_string :: "string \<Rightarrow> (string \<times> string) option" where
  "scan_string s =
     (case s of
        [] \<Rightarrow> None
      | c # cs \<Rightarrow>
          if c = CHR 0x22 then Some ([], cs)
          else if c = CHR 0x5C then
            (case escape cs of
               None \<Rightarrow> None
             | Some (d, ds) \<Rightarrow> map_option (\<lambda>(t, r). (d # t, r)) (scan_string ds))
          else if (of_char c :: nat) < 32 then None
          else map_option (\<lambda>(t, r). (c # t, r)) (scan_string cs))"
  by pat_completeness auto
termination
  by (relation "measure length") (auto dest: escape_shorter)

declare scan_string.simps [simp del]

text \<open>A number: sign, integer digits, fraction and exponent, as far as they match.\<close>

definition int_digits :: "string \<Rightarrow> string" where
  "int_digits s = (if startswith s ''0'' then ''0'' else takeWhile is_digit s)"

definition fraction_part :: "string \<Rightarrow> string" where
  "fraction_part s =
     (case s of
        c # cs \<Rightarrow> if c = CHR ''.'' \<and> takeWhile is_digit cs \<noteq> [] then c # takeWhile is_digit cs else []
      | [] \<Rightarrow> [])"

definition exponent_part :: "string \<Rightarrow> string" where
  "exponent_part s =
     (case s of
        c # cs \<Rightarrow>
          let sign = (case cs of d # _ \<Rightarrow> if d \<in> {CHR ''+'', CHR ''-''} then [d] else [] | [] \<Rightarrow> []);
              ds = takeWhile is_digit (drop (length sign) cs)
          in if c \<in> {CHR ''e'', CHR ''E''} \<and> ds \<noteq> [] then c # sign @ ds else []
      | [] \<Rightarrow> [])"

definition json_number :: "string \<Rightarrow> (val \<times> string) option" where
  "json_number s =
     (let sign = (case s of c # _ \<Rightarrow> if c = CHR ''-'' then [c] else [] | [] \<Rightarrow> []);
          u = drop (length sign) s;
          ip = int_digits u;
          fr = fraction_part (drop (length ip) u);
          ex = exponent_part (drop (length ip + length fr) u);
          rest = drop (length ip + length fr + length ex) u
      in if ip = [] then None
         else if fr = [] \<and> ex = [] then map_option (\<lambda>i. (VInt i, rest)) (py_int (sign @ ip))
         else map_option (\<lambda>v. (v, rest)) (float_val (sign @ ip @ fr @ ex)))"

definition dict_of_pairs :: "(string \<times> 'v) list \<Rightarrow> (string \<times> 'v) list" where
  "dict_of_pairs ps = foldl (\<lambda>d (k, v). dict_set k v d) [] ps"

definition expect :: "char \<Rightarrow> string \<Rightarrow> string option" where
  "expect c s = (case s of x # r \<Rightarrow> if x = c then Some r else None | [] \<Rightarrow> None)"

text \<open>Values, the elements of a list and the members of an object; the fuel bounds the nesting and length.\<close>

fun json_value :: "nat \<Rightarrow> string \<Rightarrow> (val \<times> string) option"
  and json_elems :: "nat \<Rightarrow> string \<Rightarrow> (val list \<times> string) option"
  and json_members :: "nat \<Rightarrow> string \<Rightarrow> ((string \<times> val) list \<times> string) option"
where
  "json_value 0 s = None"
| "json_value (Suc n) s =
     (if startswith s ''null'' then Some (VNone, drop 4 s)
      else if startswith s ''true'' then Some (VBool True, drop 4 s)
      else if startswith s ''false'' then Some (VBool False, drop 5 s)
      else case s of
        [] \<Rightarrow> None
      | c # cs \<Rightarrow>
          if c = CHR 0x22 then map_option (\<lambda>(t, r). (VStr t, r)) (scan_string cs)
          else if c = CHR ''['' then
            (case expect (CHR '']'') (skip_ws cs) of
               Some r \<Rightarrow> Some (VList [], r)
             | None \<Rightarrow> map_option (\<lambda>(vs, r). (VList vs, r)) (json_elems n (skip_ws cs)))
          else if c = CHR ''{'' then
            (case expect (CHR ''}'') (skip_ws cs) of
               Some r \<Rightarrow> Some (VDict [], r)
             | None \<Rightarrow> map_option (\<lambda>(ms, r). (VDict (dict_of_pairs ms), r)) (json_members n (skip_ws cs)))
          else json_number s)"
| "json_elems 0 s = None"
| "json_elems (Suc n) s =
     (case json_value n s of
        None \<Rightarrow> None
      | Some (v, r) \<Rightarrow>
          (case expect (CHR '']'') (skip_ws r) of
             Some t \<Rightarrow> Some ([v], t)
           | None \<Rightarrow>
               (case expect (CHR '','') (skip_ws r) of
                  Some t \<Rightarrow> map_option (\<lambda>(vs, u). (v # vs, u)) (json_elems n (skip_ws t))
                | None \<Rightarrow> None)))"
| "json_members 0 s = None"
| "json_members (Suc n) s =
     (case Option.bind (expect (CHR 0x22) s) scan_string of
        None \<Rightarrow> None
      | Some (k, s2) \<Rightarrow>
          (case expect (CHR '':'') (skip_ws s2) of
             None \<Rightarrow> None
           | Some s3 \<Rightarrow>
               (case json_value n (skip_ws s3) of
                  None \<Rightarrow> None
                | Some (v, r) \<Rightarrow>
                    (case expect (CHR ''}'') (skip_ws r) of
                       Some t \<Rightarrow> Some ([(k, v)], t)
                     | None \<Rightarrow>
                         (case expect (CHR '','') (skip_ws r) of
                            Some t \<Rightarrow> map_option (\<lambda>(ms, u). ((k, v) # ms, u)) (json_members n (skip_ws t))
                          | None \<Rightarrow> None)))))"

definition json_loads :: "string \<Rightarrow> val option" where
  "json_loads s =
     (case json_value (2 * length s + 2) (skip_ws s) of
        Some (v, r) \<Rightarrow> if skip_ws r = [] then Some v else None
      | None \<Rightarrow> None)"

subsection \<open>Reading back what was written\<close>

lemma escape_code:
  assumes "n < 256"
  shows "escape (CHR ''u'' # CHR ''0'' # CHR ''0'' # hex_digit (n div 16) # hex_digit (n mod 16) # r) = Some (char_of n, r)"
proof -
  have z: "hex_code (CHR ''0'') = Some 0" by (simp add: hex_code_def is_digit_def char_le_iff)
  have h: "hex_code (hex_digit (n div 16)) = Some (n div 16)" "hex_code (hex_digit (n mod 16)) = Some (n mod 16)"
    using assms by (auto intro!: hex_code_digit)
  have t: "take 4 (a # b # c # d # r) = [a, b, c, d]" "drop 4 (a # b # c # d # r) = r" for a b c d :: char
    by (simp_all add: numeral_eq_Suc)
  have "escape (CHR ''u'' # u) = (case map hex_code (take 4 u) of
      [Some a, Some b, Some c, Some e] \<Rightarrow> if a = 0 \<and> b = 0 then Some (char_of (16 * c + e), drop 4 u) else None | _ \<Rightarrow> None)" for u
    by (simp add: escape_def)
  then show ?thesis by (simp only: t list.map z h list.case option.case) simp
qed

lemma scan_json_char: "scan_string (json_char c @ x) = map_option (\<lambda>(t, r). (c # t, r)) (scan_string x)"
proof -
  define n where "n = (of_char c :: nat)"
  have c: "c = char_of n" and n: "n < 256" by (simp_all add: n_def)
  consider "n = 34 \<or> n = 92" | "n \<in> {8, 9, 10, 12, 13}"
    | "n \<notin> {8, 9, 10, 12, 13}" "n < 32 \<or> 126 < n"
    | "n \<noteq> 34" "n \<noteq> 92" "32 \<le> n" "n \<le> 126"
    by fastforce
  then show ?thesis
  proof cases
    case 1
    then have "json_char c = [CHR 0x5C, c]" "c \<in> {CHR 0x22, CHR 0x5C}" by (auto simp: json_char_def n_def [symmetric] char_eq_code)
    then show ?thesis by (auto simp: scan_string.simps [of "CHR 0x5C # y" for y] escape_def)
  next
    case 2
    moreover have "char_of (8::nat) = CHR 0x08" "char_of (9::nat) = CHR 0x09" "char_of (10::nat) = CHR 0x0A"
      "char_of (12::nat) = CHR 0x0C" "char_of (13::nat) = CHR 0x0D" by (simp_all add: char_eq_code)
    ultimately show ?thesis
      by (auto simp: c json_char_def scan_string.simps [of "CHR 0x5C # y" for y] escape_def)
  next
    case 3
    then have "json_char c = [CHR 0x5C, CHR ''u'', CHR ''0'', CHR ''0'', hex_digit (n div 16), hex_digit (n mod 16)]"
      using n by (auto simp: json_char_def n_def [symmetric] Let_def)
    then show ?thesis
      using escape_code [OF n] by (simp add: scan_string.simps [of "CHR 0x5C # y" for y] c)
  next
    case 4
    then have "json_char c = [c]" by (simp add: json_char_def n_def [symmetric] Let_def)
    moreover have "c \<noteq> CHR 0x22" "c \<noteq> CHR 0x5C"
      using 4 by (auto simp: char_eq_code n_def [symmetric])
    ultimately show ?thesis using 4 by (simp add: scan_string.simps [of "c # y" for y] n_def)
  qed
qed

lemma scan_json_str: "scan_string (concat (map json_char s) @ CHR 0x22 # r) = Some (s, r)"
proof (induction s)
  case Nil
  show ?case by (simp add: scan_string.simps [of "CHR 0x22 # r"])
next
  case (Cons c s)
  then show ?case by (simp add: scan_json_char)
qed

lemma stops_not_number: "stops r \<Longrightarrow> fraction_part r = [] \<and> exponent_part r = [] \<and> takeWhile is_digit r = []"
  by (cases r) (auto simp: stops_def fraction_part_def exponent_part_def is_digit_def char_le_iff)

lemma takeWhile_digits: "stops r \<Longrightarrow> list_all is_digit ds \<Longrightarrow> takeWhile is_digit (ds @ r) = ds"
  using stops_not_number [of r] by (simp add: list_all_iff takeWhile_append2)

lemma nat_str_zero: "nat_str n = CHR ''0'' # ds \<Longrightarrow> n = 0"
proof (induction n arbitrary: ds rule: nat_str.induct)
  case (1 n)
  have z: "digit_char k = CHR ''0'' \<longleftrightarrow> k = 0" if "k < 10" for k
  proof -
    have "\<forall>k \<in> set [0..<10]. digit_char k = CHR ''0'' \<longleftrightarrow> k = 0" by code_simp
    with that show ?thesis by simp
  qed
  show ?case
  proof (cases "n < 10")
    case True
    with "1.prems" z [of n] show ?thesis by (simp add: nat_str.simps [of n])
  next
    case False
    then have e: "nat_str (n div 10) @ [digit_char (n mod 10)] = CHR ''0'' # ds"
      using "1.prems" by (simp add: nat_str.simps [of n])
    then obtain es where "nat_str (n div 10) = CHR ''0'' # es" by (cases "nat_str (n div 10)") auto
    with "1.IH" False have "n div 10 = 0" by blast
    with False show ?thesis by simp
  qed
qed

lemma int_digits_nat_str: "stops r \<Longrightarrow> int_digits (nat_str n @ r) = nat_str n"
proof -
  assume r: "stops r"
  have d: "list_all is_digit (nat_str n)" using nat_str_digits by (auto simp: list_all_iff)
  show ?thesis
  proof (cases "n = 0")
    case True
    then show ?thesis by (simp add: int_digits_def nat_str.simps [of 0] digit_char_def startswith_iff char_eq_code)
  next
    case False
    then have "\<not> startswith (nat_str n @ r) ''0''"
      using nat_str_zero [of n] by (cases "nat_str n") (auto simp: startswith_iff)
    then show ?thesis using takeWhile_digits [OF r d] by (simp add: int_digits_def)
  qed
qed

lemma json_number_int: "stops r \<Longrightarrow> json_number (int_str i @ r) = Some (VInt i, r)"
proof -
  assume r: "stops r"
  have n: "json_number (nat_str n @ r) = map_option (\<lambda>i. (VInt i, r)) (py_int (nat_str n))" for n
  proof -
    obtain c cs where c: "nat_str n = c # cs" by (cases "nat_str n") auto
    then have "is_digit c" using nat_str_digits [of n] by simp
    then have "c \<noteq> CHR ''-''" by (auto simp: is_digit_def char_le_iff)
    then show ?thesis
      using c r int_digits_nat_str [OF r, of n] stops_not_number [OF r] by (simp add: json_number_def Let_def)
  qed
  have m: "json_number (CHR ''-'' # nat_str n @ r) = map_option (\<lambda>i. (VInt i, r)) (py_int (CHR ''-'' # nat_str n))" for n
    using r int_digits_nat_str [OF r, of n] stops_not_number [OF r]
    by (simp add: json_number_def Let_def)
  show ?thesis
    using n [of "nat i"] m [of "nat (- i)"] py_int_int_str [of i] by (auto simp: int_str_def split: if_splits)
qed

text \<open>Values without floats whose dictionaries have distinct keys, and the fuel their texts need.\<close>

fun plain :: "val \<Rightarrow> bool" where
  "plain (VFloat r s) = False"
| "plain (VList xs) = list_all plain xs"
| "plain (VDict d) = (distinct (map fst d) \<and> list_all (\<lambda>(k, v). plain v) d)"
| "plain v = True"

fun needs :: "nat list \<Rightarrow> nat" where
  "needs [] = 0"
| "needs (k # ks) = Suc (max k (needs ks))"

fun need :: "val \<Rightarrow> nat" where
  "need (VList xs) = Suc (needs (map need xs))"
| "need (VDict d) = Suc (needs (map (\<lambda>(k, v). need v) d))"
| "need v = 1"

lemma plain_json_ok: "plain v \<Longrightarrow> json_ok v"
  by (induction v) (auto simp: list_all_iff)

lemma skip_ws_space: "list_all json_space w \<Longrightarrow> skip_ws (w @ s) = skip_ws s"
  by (simp add: skip_ws_def list_all_iff dropWhile_append1)

lemma skip_ws_other: "\<not> json_space c \<Longrightarrow> skip_ws (c # s) = c # s"
  by (simp add: skip_ws_def)

lemma kind_head: "text_kind c < 6 \<Longrightarrow> \<not> json_space c \<and> c \<noteq> CHR '']'' \<and> c \<noteq> CHR ''}'' \<and> c \<noteq> CHR '',''"
  by (auto simp: text_kind_def json_space_def num_char_def is_digit_def char_le_iff split: if_splits)

lemma val_kind_bound: "val_kind v < 6"
  by (cases v) auto

lemma json_text_start:
  assumes "plain v"
  obtains c cs where "json_text isep ksep v = c # cs" "text_kind c = val_kind v" "\<not> json_space c"
    "c \<noteq> CHR '']''" "c \<noteq> CHR ''}''" "c \<noteq> CHR '',''"
  using json_text_head [OF plain_json_ok [OF assms], of isep ksep] kind_head val_kind_bound by metis

lemma expect_simps [simp]:
  "expect c [] = None" "expect c (x # r) = (if x = c then Some r else None)"
  by (simp_all add: expect_def)

lemma plain_spaces [simp]:
  "\<not> json_space (CHR '']'')" "\<not> json_space (CHR ''}'')" "\<not> json_space (CHR '','')" "\<not> json_space (CHR '':'')" "\<not> json_space (CHR 0x22)"
  by (simp_all add: json_space_def)

lemma json_elems_text:
  assumes f: "\<And>x n r. x \<in> set xs \<Longrightarrow> stops r \<Longrightarrow> k x \<le> n \<Longrightarrow> json_value n (f x @ r) = Some (x, r)"
    and start: "\<And>x. x \<in> set xs \<Longrightarrow> \<exists>c cs. f x = c # cs \<and> \<not> json_space c"
    and isep: "isep = CHR '','' # w" "list_all json_space w"
  shows "xs \<noteq> [] \<Longrightarrow> needs (map k xs) \<le> n \<Longrightarrow> json_elems n (join_with isep (map f xs) @ CHR '']'' # r) = Some (xs, r)"
  using f start
proof (induction xs arbitrary: n)
  case (Cons x xs)
  obtain m where n: "n = Suc m" "k x \<le> m" "needs (map k xs) \<le> m" using Cons.prems(2) by (cases n) auto
  show ?case
  proof (cases xs)
    case Nil
    then show ?thesis using Cons.prems(3) [of x "CHR '']'' # r" m] n by (simp add: skip_ws_other)
  next
    case (Cons y ys)
    let ?rest = "join_with isep (map f xs) @ CHR '']'' # r"
    obtain c cs where "f y = c # cs" "\<not> json_space c" using Cons.prems(4) [of y] Cons by auto
    then have sk: "skip_ws ?rest = ?rest" using Cons by (cases ys) (simp_all add: skip_ws_other)
    have v: "json_value m (f x @ isep @ ?rest) = Some (x, isep @ ?rest)"
      by (rule Cons.prems(3)) (use n isep in \<open>auto simp: stops_def\<close>)
    have "json_elems m ?rest = Some (xs, r)"
      by (rule Cons.IH) (use Cons n Cons.prems(3,4) in auto)
    then show ?thesis
      using v sk n isep Cons by (simp add: skip_ws_other skip_ws_space)
  qed
qed simp

lemma json_members_text:
  assumes f: "\<And>p n r. p \<in> set d \<Longrightarrow> stops r \<Longrightarrow> k (snd p) \<le> n \<Longrightarrow> json_value n (f (snd p) @ r) = Some (snd p, r)"
    and start: "\<And>p. p \<in> set d \<Longrightarrow> \<exists>c cs. f (snd p) = c # cs \<and> \<not> json_space c"
    and sep: "isep = CHR '','' # w" "list_all json_space w" "ksep = CHR '':'' # w'" "list_all json_space w'"
  defines "g \<equiv> \<lambda>(key, v). json_str key @ ksep @ f v"
  shows "d \<noteq> [] \<Longrightarrow> needs (map (\<lambda>(key, v). k v) d) \<le> n \<Longrightarrow> json_members n (join_with isep (map g d) @ CHR ''}'' # r) = Some (d, r)"
  using f start
proof (induction d arbitrary: n)
  case (Cons p d)
  obtain key v where p: "p = (key, v)" by fastforce
  obtain m where n: "n = Suc m" "k v \<le> m" "needs (map (\<lambda>(key, v). k v) d) \<le> m"
    using Cons.prems(2) by (cases n) (auto simp: p)
  obtain c cs where c: "f v = c # cs" "\<not> json_space c" using Cons.prems(4) [of p] by (auto simp: p)
  have g: "g p @ x = CHR 0x22 # concat (map json_char key) @ CHR 0x22 # ksep @ f v @ x" for x
    by (simp add: g_def p json_str_def)
  have k: "skip_ws (ksep @ f v @ x) = ksep @ f v @ x" "skip_ws (w' @ f v @ x) = f v @ x" for x
    using sep c by (simp_all add: skip_ws_other skip_ws_space)
  show ?case
  proof (cases d)
    case Nil
    have "json_value m (f v @ CHR ''}'' # r) = Some (v, CHR ''}'' # r)"
      using Cons.prems(3) [of p "CHR ''}'' # r" m] n by (simp add: p)
    then show ?thesis
      using n k sep by (simp add: Nil g scan_json_str skip_ws_other) (simp add: p)
  next
    case (Cons q qs)
    let ?rest = "join_with isep (map g d) @ CHR ''}'' # r"
    have sk: "skip_ws ?rest = ?rest" using Cons by (cases qs; cases q) (simp_all add: g_def json_str_def skip_ws_other)
    have v: "json_value m (f v @ isep @ ?rest) = Some (v, isep @ ?rest)"
      using Cons.prems(3) [of p "isep @ ?rest" m] n sep by (simp add: p stops_def)
    have "json_members m ?rest = Some (d, r)"
      by (rule Cons.IH) (use Cons n Cons.prems(3,4) in auto)
    moreover have "join_with isep (map g (p # d)) @ CHR ''}'' # r = g p @ isep @ ?rest"
      using Cons by simp
    ultimately show ?thesis
      using v sk n sep k by (simp add: g scan_json_str skip_ws_other skip_ws_space del: list.map) (simp add: p)
  qed
qed simp


lemma dict_of_distinct: "distinct (map fst d) \<Longrightarrow> dict_of_pairs d = d"
proof -
  have "foldl (\<lambda>d (k, v). dict_set k v d) acc d = acc @ d" if "distinct (map fst (acc @ d))" for acc
    using that
  proof (induction d arbitrary: acc)
    case (Cons p d)
    have "dict_set k v acc = acc @ [(k, v)]" if "k \<notin> fst ` set acc" for k v
      using that by (induction acc) auto
    then have "dict_set (fst p) (snd p) acc = acc @ [p]" using Cons.prems by auto
    then show ?case using Cons.IH [of "acc @ [p]"] Cons.prems by (simp add: case_prod_unfold)
  qed simp
  from this [of "[]"] show "distinct (map fst d) \<Longrightarrow> dict_of_pairs d = d"
    by (simp add: dict_of_pairs_def)
qed

lemma join_text_head: "xs \<noteq> [] \<Longrightarrow> hd (map f xs) = c # cs \<Longrightarrow> \<exists>u. join_with isep (map f xs) = c # u"
  by (cases xs rule: list.exhaust; cases "tl xs") auto

lemma not_literal:
  "text_kind c \<ge> 2 \<Longrightarrow> \<not> startswith (c # cs) ''null'' \<and> \<not> startswith (c # cs) ''true'' \<and> \<not> startswith (c # cs) ''false''"
  by (auto simp: text_kind_def startswith_iff)

lemma json_value_text:
  assumes sep: "isep = CHR '','' # w" "list_all json_space w" "ksep = CHR '':'' # w'" "list_all json_space w'"
  shows "plain v \<Longrightarrow> stops r \<Longrightarrow> need v \<le> n \<Longrightarrow> json_value n (json_text isep ksep v @ r) = Some (v, r)"
proof (induction v arbitrary: n r)
  case (VInt i)
  obtain c cs where c: "json_text isep ksep (VInt i) = c # cs" "text_kind c = val_kind (VInt i)"
    by (rule json_text_start [of "VInt i" isep ksep]) simp
  moreover obtain m where "n = Suc m" using VInt.prems by (cases n) auto
  moreover have "c \<noteq> CHR 0x22" "c \<noteq> CHR ''[''" "c \<noteq> CHR ''{''"
    using c(2) by (auto simp: text_kind_def num_char_def is_digit_def char_le_iff)
  ultimately show ?case
    using json_number_int [OF VInt.prems(2), of i] not_literal [of c "cs @ r"] by simp
next
  case (VList xs)
  obtain m where n: "n = Suc m" "needs (map need xs) \<le> m" using VList.prems by (cases n) auto
  have pl: "plain x" if "x \<in> set xs" for x using VList.prems(1) that by (simp add: list_all_iff)
  show ?case
  proof (cases "xs = []")
    case True
    then show ?thesis by (simp add: n startswith_iff skip_ws_other)
  next
    case False
    let ?t = "join_with isep (map (json_text isep ksep) xs)"
    obtain c cs where h: "json_text isep ksep (hd xs) = c # cs" "\<not> json_space c" "c \<noteq> CHR '']''"
      using json_text_start [OF pl [OF hd_in_set [OF False]], of isep ksep] by metis
    obtain u where u: "?t = c # u" using join_text_head [OF False, of "json_text isep ksep" c cs isep] h(1) False by (auto simp: hd_map)
    have "json_elems m (?t @ CHR '']'' # r) = Some (xs, r)"
    proof (rule json_elems_text [where k = need, OF _ _ sep(1,2) False n(2)])
      show "json_value n' (json_text isep ksep x @ r') = Some (x, r')" if "x \<in> set xs" "stops r'" "need x \<le> n'" for x n' r'
        using VList.IH [OF that(1) pl [OF that(1)] that(2,3)] .
      show "\<exists>c cs. json_text isep ksep x = c # cs \<and> \<not> json_space c" if "x \<in> set xs" for x
        using json_text_start [OF pl [OF that], of isep ksep] by metis
    qed
    then show ?thesis using u h by (simp add: n startswith_iff skip_ws_other)
  qed
next
  case (VDict d)
  let ?f = "\<lambda>(key, v). json_str key @ ksep @ json_text isep ksep v"
  obtain m where n: "n = Suc m" "needs (map (\<lambda>(key, v). need v) d) \<le> m" using VDict.prems by (cases n) auto
  have pl: "plain (snd p)" if "p \<in> set d" for p using VDict.prems(1) that by (auto simp: list_all_iff)
  have dist: "distinct (map fst d)" using VDict.prems(1) by simp
  show ?case
  proof (cases "d = []")
    case True
    then show ?thesis by (simp add: n startswith_iff skip_ws_other)
  next
    case False
    let ?t = "join_with isep (map ?f d)"
    obtain cs where h: "hd (map ?f d) = CHR 0x22 # cs" using False by (cases d) (auto simp: json_str_def)
    obtain u where u: "?t = CHR 0x22 # u" using join_text_head [OF False h] by auto
    have "json_members m (?t @ CHR ''}'' # r) = Some (d, r)"
    proof (rule json_members_text [where k = need, OF _ _ sep False n(2)])
      show "json_value n' (json_text isep ksep (snd p) @ r') = Some (snd p, r')" if "p \<in> set d" "stops r'" "need (snd p) \<le> n'" for p n' r'
        using VDict.IH [OF that(1) _ pl [OF that(1)] that(2,3)] by (cases p) auto
      show "\<exists>c cs. json_text isep ksep (snd p) = c # cs \<and> \<not> json_space c" if "p \<in> set d" for p
        using json_text_start [OF pl [OF that], of isep ksep] by metis
    qed
    then show ?thesis using u dict_of_distinct [OF dist] by (simp add: n startswith_iff skip_ws_other)
  qed
next
  case (VStr s)
  obtain m where "n = Suc m" using VStr.prems by (cases n) auto
  then show ?case by (simp add: json_str_def startswith_iff scan_json_str)
qed (auto simp: startswith_iff Suc_le_eq gr0_conv_Suc)


lemma needs_bound:
  "(\<And>x. x \<in> set xs \<Longrightarrow> k x \<le> length (f x) + 1) \<Longrightarrow> isep \<noteq> [] \<Longrightarrow> needs (map k xs) \<le> length (join_with isep (map f xs)) + 2"
proof (induction xs)
  case (Cons x xs)
  show ?case
  proof (cases xs)
    case Nil
    then show ?thesis using Cons.prems(1) [of x] by simp
  next
    case (Cons y ys)
    have "1 \<le> length isep" using Cons.prems(2) by (cases isep) simp_all
    then show ?thesis using Cons.IH Cons.prems Cons by fastforce
  qed
qed simp

lemma need_bound: "isep \<noteq> [] \<Longrightarrow> plain v \<Longrightarrow> need v \<le> length (json_text isep ksep v) + 1"
proof (induction v)
  case (VList xs)
  then have "needs (map need xs) \<le> length (join_with isep (map (json_text isep ksep) xs)) + 2"
    by (intro needs_bound) (auto simp: list_all_iff)
  then show ?case by simp
next
  case (VDict d)
  then have "needs (map (\<lambda>(k, v). need v) d) \<le> length (join_with isep (map (\<lambda>(k, v). json_str k @ ksep @ json_text isep ksep v) d)) + 2"
    by (intro needs_bound) (fastforce simp: list_all_iff)+
  then show ?case by simp
qed auto

lemma json_loads_text:
  assumes sep: "isep = CHR '','' # w" "list_all json_space w" "ksep = CHR '':'' # w'" "list_all json_space w'" and v: "plain v"
  shows "json_loads (json_text isep ksep v) = Some v"
proof -
  let ?s = "json_text isep ksep v"
  have "skip_ws ?s = ?s"
    by (rule json_text_start [OF v, of isep ksep]) (simp add: skip_ws_other)
  moreover have "need v \<le> 2 * length ?s + 2"
    using need_bound [of isep v ksep] v sep(1) by simp
  then have "json_value (2 * length ?s + 2) (?s @ []) = Some (v, [])"
    by (intro json_value_text [OF sep v]) simp_all
  ultimately show ?thesis by (simp add: json_loads_def skip_ws_def)
qed

lemma distinct_sort_keys: "distinct (map f (sort_key g xs)) \<longleftrightarrow> distinct (map f xs)"
  by (rule mset_eq_imp_distinct_iff) simp

lemma plain_sort_dicts: "plain v \<Longrightarrow> plain (sort_dicts v)"
proof (induction v)
  case (VDict d)
  let ?d = "map (\<lambda>(k, v). (k, sort_dicts v)) d"
  have keys: "map fst ?d = map fst d" by (induction d) auto
  have "distinct (map fst (sort_key fst ?d))"
    unfolding distinct_sort_keys keys using VDict.prems by simp
  then show ?case using VDict by (fastforce simp: list_all_iff)
qed (auto simp: list_all_iff)

lemma json_loads_compact: "plain v \<Longrightarrow> json_loads (json_compact v) = Some v"
  unfolding json_compact_def by (rule json_loads_text [where w = "[]" and w' = "[]"]) simp_all

lemma json_loads_compact_sorted: "plain v \<Longrightarrow> json_loads (json_compact_sorted v) = Some (sort_dicts v)"
  unfolding json_compact_sorted_def by (rule json_loads_text [where w = "[]" and w' = "[]"]) (simp_all add: plain_sort_dicts)

lemma json_loads_dumps: "plain v \<Longrightarrow> json_loads (json_dumps v) = Some v"
  unfolding json_dumps_def by (rule json_loads_text [where w = "'' ''" and w' = "'' ''"]) (simp_all add: json_space_def)

lemma json_loads_dumps_sorted: "plain v \<Longrightarrow> json_loads (json_dumps_sorted v) = Some (sort_dicts v)"
  unfolding json_dumps_sorted_def
  by (rule json_loads_text [where w = "'' ''" and w' = "'' ''"]) (simp_all add: json_space_def plain_sort_dicts)

lemma json_loads_examples:
  "json_loads ''[1, -20 ,{}]'' = Some (VList [VInt 1, VInt (- 20), VDict []])"
  "json_loads ''[01]'' = None" "json_loads ''[1,]'' = None" "json_loads ''{} x'' = None" "json_loads [] = None"
  "json_loads ''1.50'' = Some (VFloat (3/2) ''1.5'')"
  by code_simp+


end
