(* ===== verification/Codec.thy ===== *)
theory Codec
  imports Py_Prelude
begin

text \<open>
  The interface of an encoding that can be read back: on the values of its domain, decoding inverts
  encoding.  Two codecs whose domains fit form one again, and a decoder that undoes an encoder makes
  it injective; the token and payload formats of the services rest on these facts.
\<close>

locale codec =
  fixes enc :: "'a \<Rightarrow> 'b" and dec :: "'b \<Rightarrow> 'a option" and dom :: "'a \<Rightarrow> bool"
  assumes dec_enc: "dom x \<Longrightarrow> dec (enc x) = Some x"
begin

lemma enc_inject: "dom x \<Longrightarrow> dom y \<Longrightarrow> enc x = enc y \<longleftrightarrow> x = y"
  using dec_enc by (metis option.inject)

lemma dec_image: "dom x \<Longrightarrow> t = enc x \<Longrightarrow> dec t = Some y \<Longrightarrow> y = x"
  using dec_enc by simp

lemma inj_on_dom: "inj_on enc {x. dom x}"
  by (rule inj_onI) (simp add: enc_inject)

end

locale codec_chain = inner: codec enc1 dec1 dom1 + outer: codec enc2 dec2 dom2
  for enc1 :: "'a \<Rightarrow> 'b" and dec1 dom1 and enc2 :: "'b \<Rightarrow> 'c" and dec2 dom2 +
  assumes fits: "dom1 x \<Longrightarrow> dom2 (enc1 x)"

sublocale codec_chain \<subseteq> chain: codec "\<lambda>x. enc2 (enc1 x)" "\<lambda>t. Option.bind (dec2 t) dec1" dom1
  by unfold_locales (simp add: fits inner.dec_enc outer.dec_enc)

end
