(* ===== verification/Base64.thy ===== *)
theory Base64
  imports Codec Py_Text
begin

text \<open>
  \<open>base64.urlsafe_b64encode\<close> without padding and \<open>base64.urlsafe_b64decode\<close> of the standard library.
  Byte strings are Latin-1 texts.  The decoder is the lenient one of \<open>binascii.a2b_base64\<close>: characters
  outside the alphabet are skipped, and a padding that completes a quadruple ends the input.
\<close>

subsection \<open>Encoding\<close>

text \<open>The alphabet \<open>A-Z a-z 0-9 - _\<close> in this order.\<close>

definition b64_char :: "nat \<Rightarrow> char" where
  "b64_char n =
     (if n < 26 then char_of (n + 65) else if n < 52 then char_of (n + 71) else if n < 62 then char_of (n - 4)
      else if n = 62 then CHR ''-'' else CHR ''_'')"

fun sextets :: "nat list \<Rightarrow> nat list" where
  "sextets [] = []"
| "sextets [a] = [a div 4, a mod 4 * 16]"
| "sextets [a, b] = [a div 4, a mod 4 * 16 + b div 16, b mod 16 * 4]"
| "sextets (a # b # c # r) = a div 4 # (a mod 4 * 16 + b div 16) # (b mod 16 * 4 + c div 64) # c mod 64 # sextets r"

definition bytes_of :: "string \<Rightarrow> nat list" where
  "bytes_of s = map of_char s"

definition b64url_encode :: "string \<Rightarrow> string" where
  "b64url_encode raw = map b64_char (sextets (bytes_of raw))"

subsection \<open>Decoding\<close>

text \<open>The value of a character after the translation of the URL-safe alphabet, which keeps \<open>+\<close> and \<open>/\<close>.\<close>

definition b64_val :: "char \<Rightarrow> nat option" where
  "b64_val c =
     (let n = (of_char c :: nat) in
      if 65 \<le> n \<and> n \<le> 90 then Some (n - 65)
      else if 97 \<le> n \<and> n \<le> 122 then Some (n - 71)
      else if 48 \<le> n \<and> n \<le> 57 then Some (n + 4)
      else if n = 45 \<or> n = 43 then Some 62
      else if n = 95 \<or> n = 47 then Some 63 else None)"

text \<open>The state: position in the quadruple, bits left over, padding characters seen.\<close>

fun a2b :: "nat \<Rightarrow> nat \<Rightarrow> nat \<Rightarrow> string \<Rightarrow> nat list option" where
  "a2b q left pads [] = (if q = 0 then Some [] else None)"
| "a2b q left pads (c # cs) =
     (if c = CHR ''='' then
        (if 2 \<le> q \<and> 4 \<le> q + (pads + 1) then Some []
         else a2b q left (if 2 \<le> q then pads + 1 else pads) cs)
      else case b64_val c of
        None \<Rightarrow> a2b q left pads cs
      | Some v \<Rightarrow>
          if q = 0 then a2b 1 v 0 cs
          else if q = 1 then map_option ((#) (left * 4 + v div 16)) (a2b 2 (v mod 16) 0 cs)
          else if q = 2 then map_option ((#) (left * 16 + v div 4)) (a2b 3 (v mod 4) 0 cs)
          else map_option ((#) (left * 64 + v)) (a2b 0 0 0 cs))"

text \<open>\<open>None\<close> is the ValueError, of the ASCII check or of the decoder.\<close>

definition is_ascii :: "string \<Rightarrow> bool" where
  "is_ascii s = list_all (\<lambda>c. (of_char c :: nat) < 128) s"

definition b64url_decode :: "string \<Rightarrow> string option" where
  "b64url_decode s =
     (if \<not> is_ascii s then None
      else map_option (map char_of) (a2b 0 0 0 (s @ replicate ((4 - length s mod 4) mod 4) (CHR ''=''))))"

subsection \<open>Round trip\<close>

lemma b64_char_code: "n < 64 \<Longrightarrow> (of_char (b64_char n) :: nat) =
    (if n < 26 then n + 65 else if n < 52 then n + 71 else if n < 62 then n - 4 else if n = 62 then 45 else 95)"
  by (simp add: b64_char_def of_char_of)

lemma char_code_eq: "c = d \<longleftrightarrow> (of_char c :: nat) = of_char d"
  by (rule inj_eq [OF inj_of_char, symmetric])

lemma b64_char_val: "n < 64 \<Longrightarrow> b64_val (b64_char n) = Some n \<and> b64_char n \<noteq> CHR ''='' \<and> (of_char (b64_char n) :: nat) < 128"
proof -
  assume n: "n < 64"
  have eq: "b64_char n = CHR ''='' \<longleftrightarrow> of_char (b64_char n) = (61 :: nat)"
    by (simp add: char_code_eq)
  consider "n < 26" | "26 \<le> n" "n < 52" | "52 \<le> n" "n < 62" | "n = 62" | "n = 63" using n by linarith
  then show ?thesis
    by cases (use b64_char_code [OF n] in \<open>auto simp: b64_val_def Let_def eq\<close>)
qed

lemma split16: "k < 16 \<Longrightarrow> (m * 16 + k) div 16 = m \<and> (m * 16 + k) mod 16 = (k::nat)"
  by simp

lemma split4: "k < 4 \<Longrightarrow> (m * 4 + k) div 4 = m \<and> (m * 4 + k) mod 4 = (k::nat)"
  by simp

lemma sextet_facts:
  fixes a b c :: nat
  assumes "a < 256" "b < 256" "c < 256"
  shows "a div 4 < 64" "a mod 4 * 16 + b div 16 < 64" "b mod 16 * 4 + c div 64 < 64" "c mod 64 < 64"
    "a mod 4 * 16 < 64" "b mod 16 * 4 < 64"
    "(a mod 4 * 16 + b div 16) div 16 = a mod 4" "(a mod 4 * 16 + b div 16) mod 16 = b div 16"
    "(b mod 16 * 4 + c div 64) div 4 = b mod 16" "(b mod 16 * 4 + c div 64) mod 4 = c div 64"
proof -
  have d: "a div 4 < 64" "b div 16 < 16" "c div 64 < 4" using assms by (simp_all add: less_mult_imp_div_less)
  moreover have m: "a mod 4 < 4" "b mod 16 < 16" "c mod 64 < 64" by simp_all
  ultimately show "a div 4 < 64" "a mod 4 * 16 + b div 16 < 64" "b mod 16 * 4 + c div 64 < 64" "c mod 64 < 64"
    "a mod 4 * 16 < 64" "b mod 16 * 4 < 64" by linarith+
  show "(a mod 4 * 16 + b div 16) div 16 = a mod 4" "(a mod 4 * 16 + b div 16) mod 16 = b div 16"
    using split16 [OF d(2)] by blast+
  show "(b mod 16 * 4 + c div 64) div 4 = b mod 16" "(b mod 16 * 4 + c div 64) mod 4 = c div 64"
    using split4 [OF d(3)] by blast+
qed

lemma sextets_bound: "list_all (\<lambda>b. b < 256) bs \<Longrightarrow> list_all (\<lambda>n. n < 64) (sextets bs)"
proof (induction bs rule: sextets.induct)
  case (2 a)
  then show ?case using sextet_facts [of a 0 0] by simp
next
  case (3 a b)
  then show ?case using sextet_facts [of a b 0] by simp
next
  case (4 a b c r)
  then show ?case using sextet_facts [of a b c] by simp
qed simp

lemma a2b_step:
  assumes "x < 64" "y < 64" "z < 64" "w < 64"
  shows "a2b 0 0 0 (b64_char x # b64_char y # b64_char z # b64_char w # s)
     = map_option (\<lambda>r. (x * 4 + y div 16) # (y mod 16 * 16 + z div 4) # (z mod 4 * 64 + w) # r) (a2b 0 0 0 s)"
    "a2b 0 0 0 (b64_char x # b64_char y # ''=='' @ s) = Some [x * 4 + y div 16]"
    "a2b 0 0 0 (b64_char x # b64_char y # b64_char z # ''='' @ s) = Some [x * 4 + y div 16, y mod 16 * 16 + z div 4]"
  using assms by (simp_all add: b64_char_val option.map_comp comp_def)

abbreviation padding :: "nat \<Rightarrow> string" where
  "padding n \<equiv> replicate ((4 - n mod 4) mod 4) (CHR ''='')"

lemma padding_simps: "padding (length [x, y]) = ''==''" "padding (length [x, y, z]) = ''=''"
  "padding (Suc (Suc (Suc (Suc n)))) = padding n"
proof -
  show "padding (length [x, y]) = ''==''" "padding (length [x, y, z]) = ''=''" by (simp_all add: numeral_2_eq_2)
  have "Suc (Suc (Suc (Suc n))) = n + 4" by simp
  then show "padding (Suc (Suc (Suc (Suc n)))) = padding n" by (simp only: mod_add_self2)
qed

lemma a2b_sextets:
  "list_all (\<lambda>b. b < 256) bs \<Longrightarrow> a2b 0 0 0 (map b64_char (sextets bs) @ padding (length (sextets bs))) = Some bs"
proof (induction bs rule: sextets.induct)
  case (2 a)
  then have a: "a < 256" by simp
  have "a mod 4 * 16 div 16 = a mod 4" by simp
  then have "a div 4 * 4 + a mod 4 * 16 div 16 = a" by (simp only: div_mult_mod_eq)
  then show ?case
    using a2b_step(2) [of "a div 4" "a mod 4 * 16" 0 0 "[]"] sextet_facts(1,5) [of a 0 0] a
    unfolding sextets.simps padding_simps(1) list.map append.simps append_Nil2 by simp
next
  case (3 a b)
  then have ab: "a < 256" "b < 256" by simp_all
  have "b mod 16 * 4 div 4 = b mod 16" by simp
  then have "a div 4 * 4 + (a mod 4 * 16 + b div 16) div 16 = a"
    "(a mod 4 * 16 + b div 16) mod 16 * 16 + b mod 16 * 4 div 4 = b"
    using sextet_facts(7,8) [of a b 0] ab by (simp_all only: div_mult_mod_eq)
  then show ?case
    using a2b_step(3) [of "a div 4" "a mod 4 * 16 + b div 16" "b mod 16 * 4" 0 "[]"] sextet_facts(1,2,6) [of a b 0] ab
    unfolding sextets.simps padding_simps(2) list.map append.simps append_Nil2 by simp
next
  case (4 a b c r)
  then have abc: "a < 256" "b < 256" "c < 256" by simp_all
  note f = sextet_facts [OF abc]
  have e: "a div 4 * 4 + (a mod 4 * 16 + b div 16) div 16 = a"
    "(a mod 4 * 16 + b div 16) mod 16 * 16 + (b mod 16 * 4 + c div 64) div 4 = b"
    "(b mod 16 * 4 + c div 64) mod 4 * 64 + c mod 64 = c"
    by (simp_all only: f(7-10) div_mult_mod_eq)
  have IH: "a2b 0 0 0 (map b64_char (sextets r) @ padding (length (sextets r))) = Some r" using 4 by simp
  show ?case
    using a2b_step(1) [OF f(1-4), of "map b64_char (sextets r) @ padding (length (sextets r))"]
    unfolding sextets.simps list.size list.map append.simps IH e padding_simps(3) add_0_right add_Suc_right option.map by (simp only: padding_simps(3) IH e option.map)
qed simp

lemma b64url_ascii: "is_ascii (b64url_encode s)"
  using sextets_bound [of "bytes_of s"]
  by (auto simp: b64url_encode_def is_ascii_def bytes_of_def list_all_iff b64_char_val)

lemma b64url_decode_encode: "b64url_decode (b64url_encode s) = Some s"
proof -
  have b: "list_all (\<lambda>b. b < 256) (bytes_of s)" by (simp add: bytes_of_def list_all_iff)
  have "map char_of (bytes_of s) = s" by (simp add: bytes_of_def comp_def)
  then show ?thesis
    using a2b_sextets [OF b] b64url_ascii [of s] by (simp add: b64url_decode_def) (simp add: b64url_encode_def)
qed

interpretation b64: codec b64url_encode b64url_decode "\<lambda>_. True"
  by unfold_locales (rule b64url_decode_encode)

lemma b64url_chars: "c \<in> set (b64url_encode s) \<Longrightarrow> c \<noteq> CHR ''.'' \<and> c \<noteq> CHR ''=''"
proof -
  assume "c \<in> set (b64url_encode s)"
  then obtain n where n: "c = b64_char n" "n < 64"
    using sextets_bound [of "bytes_of s"] by (auto simp: b64url_encode_def bytes_of_def list_all_iff)
  have "(of_char (CHR ''.'') :: nat) = 46" by simp
  then show ?thesis using b64_char_val [OF n(2)] b64_char_code [OF n(2)] n by (auto split: if_splits)
qed

end
