(* ===== verification/Uuid.thy ===== *)
theory Uuid
  imports Codec Py_Text
begin

text \<open>
  \<open>uuid.UUID(text)\<close> followed by \<open>str\<close>: a UUID is carried by its canonical text, 32 lower-case digits
  in five groups.  The parser is as lenient as Python's: prefixes, braces and hyphens are dropped,
  and the rest is read by \<open>int(text, 16)\<close>.
\<close>

fun hexn :: "nat \<Rightarrow> int \<Rightarrow> string" where
  "hexn 0 n = []"
| "hexn (Suc k) n = hexn k (n div 16) @ [hex_digit (nat (n mod 16))]"

definition uuid_str :: "int \<Rightarrow> string" where
  "uuid_str n =
     (let h = hexn 32 n
      in take 8 h @ ''-'' @ take 4 (drop 8 h) @ ''-'' @ take 4 (drop 12 h) @ ''-'' @ take 4 (drop 16 h) @ ''-'' @ drop 20 h)"

fun hexes_ok :: "string \<Rightarrow> bool" where
  "hexes_ok [] = False"
| "hexes_ok (c # cs) = (hex_code c \<noteq> None
     \<and> (cs = [] \<or> hexes_ok (if hd cs = CHR ''_'' then tl cs else cs)))"

definition hex_value :: "string \<Rightarrow> int" where
  "hex_value s = foldl (\<lambda>acc c. 16 * acc + (case hex_code c of None \<Rightarrow> 0 | Some d \<Rightarrow> int d)) 0 (filter (\<lambda>c. c \<noteq> CHR ''_'') s)"

text \<open>\<open>int(s, 16)\<close>: surrounding blanks, a sign, a prefix, and single underscores between digits.\<close>

definition py_int16 :: "string \<Rightarrow> int option" where
  "py_int16 s =
     (case strip_sign (strip s) of (neg, u) \<Rightarrow>
        let v = (if startswith (lower u) ''0x'' then (if startswith (drop 2 u) ''_'' then drop 3 u else drop 2 u) else u)
        in if hexes_ok v then Some (if neg then - hex_value v else hex_value v) else None)"

definition strip_braces :: "string \<Rightarrow> string" where
  "strip_braces s =
     (let b = (\<lambda>c. c = CHR ''{'' \<or> c = CHR ''}'') in rev (dropWhile b (rev (dropWhile b s))))"

text \<open>\<open>str(UUID(s))\<close>; \<open>None\<close> is the ValueError.\<close>

definition uuid_parse :: "string \<Rightarrow> string option" where
  "uuid_parse s =
     (let h = filter (\<lambda>c. c \<noteq> CHR ''-'') (strip_braces (replace_sub ''uuid:'' [] (replace_sub ''urn:'' [] s)))
      in if length h \<noteq> 32 then None
         else case py_int16 h of
           None \<Rightarrow> None
         | Some n \<Rightarrow> if n < 0 then None else Some (uuid_str n))"

definition is_uuid :: "string \<Rightarrow> bool" where
  "is_uuid s \<longleftrightarrow> (\<exists>n. 0 \<le> n \<and> n < 2 ^ 128 \<and> s = uuid_str n)"

lemma hexn_length [simp]: "length (hexn k n) = k"
  by (induction k arbitrary: n) simp_all

lemma hexn_digits: "c \<in> set (hexn k n) \<Longrightarrow> \<exists>d < 16. c = hex_digit d"
proof (induction k arbitrary: n)
  case (Suc k)
  have "nat (n mod 16) < 16" by simp
  with Suc show ?case by auto
qed simp

lemma hex_digit_code: "d < 16 \<Longrightarrow> (of_char (hex_digit d) :: nat) = (if d < 10 then 48 + d else 87 + d)"
  by (simp add: hex_digit_def of_char_of)

lemma hexn_chars:
  assumes "c \<in> set (hexn k n)"
  shows "hex_code c \<noteq> None" "\<not> is_space c" "c \<notin> {CHR ''-'', CHR ''+'', CHR ''_'', CHR ''{'', CHR ''}'', CHR ''u'', CHR ''x'', CHR ''X''}"
    "lower_char c \<noteq> CHR ''x''"
proof -
  obtain d where d: "d < 16" "c = hex_digit d" using hexn_digits [OF assms] by blast
  note code = hex_digit_code [OF d(1), folded d(2)]
  have eq: "c = e \<longleftrightarrow> (of_char c :: nat) = of_char e" for e by (rule inj_eq [OF inj_of_char, symmetric])
  show "hex_code c \<noteq> None" using hex_code_digit [OF d(1)] d(2) by simp
  show "\<not> is_space c" using d(1) by (simp add: is_space_def Let_def code)
  show "c \<notin> {CHR ''-'', CHR ''+'', CHR ''_'', CHR ''{'', CHR ''}'', CHR ''u'', CHR ''x'', CHR ''X''}"
    using d(1) by (simp add: eq code)
  have "\<not> is_upper c" using d(1) by (simp add: is_upper_def char_le_iff code)
  then show "lower_char c \<noteq> CHR ''x''" using d(1) by (simp add: lower_char_def eq code)
qed

lemma hexes_ok_hexn: "list_all (\<lambda>c. hex_code c \<noteq> None \<and> c \<noteq> CHR ''_'') s \<Longrightarrow> s \<noteq> [] \<Longrightarrow> hexes_ok s"
proof (induction s)
  case (Cons c s)
  then show ?case by (cases s) simp_all
qed simp

lemma hex_value_hexn: "0 \<le> n \<Longrightarrow> n < 16 ^ k \<Longrightarrow> hex_value (hexn k n) = n"
proof -
  have u: "filter (\<lambda>c. c \<noteq> CHR ''_'') (hexn k n) = hexn k n" for k n
    using hexn_chars(3) by (auto intro!: filter_True)
  have "foldl (\<lambda>acc c. 16 * acc + (case hex_code c of None \<Rightarrow> 0 | Some d \<Rightarrow> int d)) 0 (hexn k n) = n"
    if "0 \<le> n" "n < 16 ^ k" for k n
    using that
  proof (induction k arbitrary: n)
    case (Suc k)
    have "n div 16 < 16 ^ k" using Suc.prems(2) by (simp add: div_less_iff_less_mult mult.commute)
    then have "foldl (\<lambda>acc c. 16 * acc + (case hex_code c of None \<Rightarrow> 0 | Some d \<Rightarrow> int d)) 0 (hexn k (n div 16)) = n div 16"
      using Suc.prems(1) by (intro Suc.IH) simp_all
    moreover have "nat (n mod 16) < 16" by simp
    ultimately show ?case by (simp add: hex_code_digit)
  qed simp
  then show "0 \<le> n \<Longrightarrow> n < 16 ^ k \<Longrightarrow> hex_value (hexn k n) = n" by (simp add: hex_value_def u)
qed

lemma replace_sub_absent: "p \<noteq> [] \<Longrightarrow> hd p \<notin> set s \<Longrightarrow> replace_sub p r s = s"
proof (induction s)
  case Nil
  then show ?case by (simp add: replace_sub.simps [of p r "[]"])
next
  case (Cons c s)
  then have "\<not> startswith (c # s) p" by (cases p) (auto simp: startswith_iff)
  with Cons show ?case by (simp add: replace_sub.simps [of p r "c # s"])
qed

lemma uuid_str_filter: "filter (\<lambda>c. c \<noteq> CHR ''-'') (uuid_str n) = hexn 32 n"
proof -
  have f: "filter (\<lambda>c. c \<noteq> CHR ''-'') u = u" if "set u \<subseteq> set (hexn 32 n)" for u
    using that hexn_chars(3) by (auto intro!: filter_True)
  have s: "set (take i (drop j (hexn 32 n))) \<subseteq> set (hexn 32 n)" "set (take i (hexn 32 n)) \<subseteq> set (hexn 32 n)" "set (drop j (hexn 32 n)) \<subseteq> set (hexn 32 n)" for i j
    by (auto dest: in_set_takeD in_set_dropD)
  have c: "take 8 h @ take 4 (drop 8 h) @ take 4 (drop 12 h) @ take 4 (drop 16 h) @ drop 20 h = h" for h :: string
  proof -
    have t: "take 4 (drop i h) @ drop (i + 4) h = drop i h" for i by (metis append_take_drop_id drop_drop add.commute)
    show ?thesis using t [of 16] t [of 12] t [of 8] by simp
  qed
  show ?thesis by (simp add: uuid_str_def Let_def f s c)
qed

lemma uuid_str_chars: "c \<in> set (uuid_str n) \<Longrightarrow> c = CHR ''-'' \<or> c \<in> set (hexn 32 n)"
  by (auto simp: uuid_str_def Let_def dest: in_set_takeD in_set_dropD)

lemma uuid_parse_str:
  assumes "0 \<le> n" "n < 2 ^ 128"
  shows "uuid_parse (uuid_str n) = Some (uuid_str n)"
proof -
  have no: "CHR ''u'' \<notin> set (uuid_str n)" "CHR ''{'' \<notin> set (uuid_str n)" "CHR ''}'' \<notin> set (uuid_str n)"
    using uuid_str_chars [of _ n] hexn_chars(3) by fastforce+
  then have r: "replace_sub ''uuid:'' [] (replace_sub ''urn:'' [] (uuid_str n)) = uuid_str n"
    by (simp add: replace_sub_absent)
  have id: "dropWhile P s = s" if "\<And>c. c \<in> set s \<Longrightarrow> \<not> P c" for P and s :: string
    using that by (cases s) auto
  have b: "strip_braces (uuid_str n) = uuid_str n"
  proof -
    let ?b = "\<lambda>c. c = CHR ''{'' \<or> c = CHR ''}''"
    have "dropWhile ?b (uuid_str n) = uuid_str n" by (rule id) (use no in auto)
    moreover have "dropWhile ?b (rev (uuid_str n)) = rev (uuid_str n)" by (rule id) (use no in auto)
    ultimately show ?thesis unfolding strip_braces_def Let_def by simp
  qed
  let ?h = "hexn 32 n"
  have ne: "?h \<noteq> []" by (metis hexn_length length_0_conv zero_neq_numeral)
  have sp: "strip ?h = ?h" using hexn_chars(2) by (auto intro: strip_id)
  obtain c d cs where h: "?h = c # d # cs"
    using hexn_length [of 32 n] by (cases ?h; cases "tl ?h") auto
  have "c \<notin> {CHR ''-'', CHR ''+''}" using hexn_chars(3) [of c 32 n] h by auto
  then have sg: "strip_sign ?h = (False, ?h)" using h by (simp add: strip_sign_def)
  have px: "\<not> startswith (lower ?h) ''0x''"
    using hexn_chars(4) [of d 32 n] h by (auto simp: startswith_iff lower_def)
  have ok: "hexes_ok ?h" by (rule hexes_ok_hexn [OF _ ne]) (use hexn_chars(1,3) [of _ 32 n] in \<open>auto simp: list_all_iff\<close>)
  have v: "hex_value ?h = n" using assms by (intro hex_value_hexn) simp_all
  have "py_int16 ?h = Some n" by (simp add: py_int16_def sp sg px ok v)
  then show ?thesis using assms(1) by (simp add: uuid_parse_def r b uuid_str_filter)
qed

interpretation uuid: codec id uuid_parse is_uuid
  by unfold_locales (auto simp: is_uuid_def uuid_parse_str)

lemma uuid_parse_canonical: "is_uuid s \<Longrightarrow> uuid_parse s = Some s"
  using uuid.dec_enc by simp

end
