(* ===== verification/Token_Payload.thy ===== *)
theory Token_Payload
  imports Json_Parse Base64 Uuid Sha256
begin

text \<open>
  What the signed tokens of the actions service and of the approval mails have in common: a JSON object
  in URL-safe base64 (\<open>json.loads(_b64url_decode(...))\<close> of \<open>chatops_token.py\<close> and
  \<open>email_approval.py\<close>) and the text of an HMAC.
\<close>

text \<open>\<open>json.loads\<close> of the decoded bytes; \<open>None\<close> is the ValueError of either.\<close>

definition ascii_loads :: "string \<Rightarrow> val option" where
  "ascii_loads raw = (if is_ascii raw then json_loads raw else None)"

definition decode_body :: "string \<Rightarrow> val option" where
  "decode_body payload_b64 =
     Option.bind (b64url_decode payload_b64) ascii_loads"

subsection \<open>The payload codec\<close>

lemma ascii_append [simp]: "is_ascii (s @ t) \<longleftrightarrow> is_ascii s \<and> is_ascii t" "is_ascii []" "is_ascii (c # s) \<longleftrightarrow> (of_char c :: nat) < 128 \<and> is_ascii s"
  by (simp_all add: is_ascii_def)

lemma ascii_concat: "list_all is_ascii ss \<Longrightarrow> is_ascii (concat ss)"
  by (induction ss) simp_all

lemma ascii_join: "is_ascii sep \<Longrightarrow> list_all is_ascii ss \<Longrightarrow> is_ascii (join_with sep ss)"
  by (induction sep ss rule: join_with.induct) simp_all

lemma json_char_ascii: "is_ascii (json_char c)"
proof -
  define n where "n = (of_char c :: nat)"
  have n: "n < 256" by (simp add: n_def)
  have h: "(of_char (hex_digit d) :: nat) < 128" if "d < 16" for d using hex_digit_code [OF that] that by simp
  have d: "n div 16 < 16" "n mod 16 < 16" using n by auto
  show ?thesis
    using h [OF d(1)] h [OF d(2)] by (auto simp: json_char_def n_def [symmetric] Let_def)
qed

lemma json_str_ascii: "is_ascii (json_str s)"
  by (auto simp: json_str_def list_all_iff json_char_ascii intro!: ascii_concat)

lemma num_char_ascii: "list_all num_char s \<Longrightarrow> is_ascii s"
  by (auto simp: is_ascii_def list_all_iff num_char_def is_digit_def char_le_iff)

lemma json_text_ascii: "is_ascii isep \<Longrightarrow> is_ascii ksep \<Longrightarrow> json_ok v \<Longrightarrow> is_ascii (json_text isep ksep v)"
proof (induction v)
  case (VInt i)
  then show ?case using num_char_ascii [OF int_str_chars(1)] by simp
next
  case (VFloat r s)
  then show ?case using num_char_ascii by (simp add: float_text_def)
next
  case (VList xs)
  then show ?case by (auto simp: list_all_iff intro!: ascii_join)
next
  case (VDict d)
  then show ?case by (fastforce simp: list_all_iff json_str_ascii intro!: ascii_join)
qed (simp_all add: json_str_ascii)

definition sorted_plain :: "val \<Rightarrow> bool" where
  "sorted_plain v \<longleftrightarrow> plain v \<and> sort_dicts v = v"

lemma compact_sorted_ascii: "plain v \<Longrightarrow> is_ascii (json_compact_sorted v)"
  unfolding json_compact_sorted_def
  by (intro json_text_ascii json_ok_sort_dicts plain_json_ok) (simp_all add: is_ascii_def)

interpretation payload: codec_chain json_compact_sorted ascii_loads sorted_plain b64url_encode b64url_decode "\<lambda>_. True"
  by unfold_locales (auto simp: sorted_plain_def ascii_loads_def json_loads_compact_sorted compact_sorted_ascii b64url_decode_encode)

lemma decode_encoded: "sorted_plain v \<Longrightarrow> decode_body (b64url_encode (json_compact_sorted v)) = Some v"
  using payload.chain.dec_enc [of v] by (simp add: decode_body_def)

lemma hmac_plain: "CHR ''.'' \<notin> set (hmac_sha256 k m)" "is_ascii (hmac_sha256 k m)"
proof -
  have "\<forall>c \<in> hex_alphabet. c \<noteq> CHR ''.'' \<and> (of_char c :: nat) < 128" by (simp add: hex_alphabet_def)
  then show "CHR ''.'' \<notin> set (hmac_sha256 k m)" "is_ascii (hmac_sha256 k m)"
    using hmac_sha256_chars [of k m] by (auto simp: is_ascii_def list_all_iff)
qed

end
