(* ===== verification/Chatops_Token.thy ===== *)
theory Chatops_Token
  imports Action_Router Token_Payload
begin

text \<open>
  The signed tokens of the ChatOps callbacks (\<open>services/actions/app/security/chatops_token.py\<close>) and
  the endpoint that verifies them before it answers (\<open>chatops_callback\<close> in
  \<open>services/actions/app/api/router.py\<close>).  Texts are ASCII; the clock is an argument.
\<close>

subsection \<open>Minting\<close>

definition TOKEN_VERSION :: string where
  "TOKEN_VERSION = ''v1''"

text \<open>A ChatOpsTokenError with its reason, or an exception of another class with its name.\<close>

datatype token_error = Rejected string | Crashed string

definition sign :: "string \<Rightarrow> string \<Rightarrow> token_error + string" where
  "sign payload_b64 secret =
     (if is_ascii payload_b64 then Inr (hmac_sha256 secret payload_b64) else Inl (Crashed ''UnicodeEncodeError''))"

definition CHOICES :: "string list" where
  "CHOICES = [''acknowledge'', ''deny'', ''escalate'']"

definition token_body :: "string \<Rightarrow> string \<Rightarrow> string \<Rightarrow> string \<Rightarrow> string \<Rightarrow> int \<Rightarrow> int \<Rightarrow> dict" where
  "token_body action_id case_id tenant_id choice user_ref now ttl_seconds =
     [(''v'', VStr TOKEN_VERSION), (''aid'', VStr action_id), (''cid'', VStr case_id), (''tid'', VStr tenant_id),
      (''ch'', VStr choice), (''ur'', VStr user_ref), (''iat'', VInt now), (''exp'', VInt (now + max ttl_seconds 1))]"

definition encode_body :: "dict \<Rightarrow> string" where
  "encode_body body = b64url_encode (json_compact_sorted (VDict body))"

definition mint_token ::
  "string \<Rightarrow> string \<Rightarrow> string \<Rightarrow> string \<Rightarrow> string \<Rightarrow> string \<Rightarrow> int \<Rightarrow> int \<Rightarrow> token_error + string" where
  "mint_token action_id case_id tenant_id choice user_ref secret ttl_seconds now =
     (if secret = [] then Inl (Rejected ''AISOC_CHATOPS_RESPONSE_SECRET is required to mint tokens'')
      else if choice \<notin> set CHOICES then Inl (Rejected (''unsupported choice: '' @ repr_str choice))
      else let payload_b64 = encode_body (token_body action_id case_id tenant_id choice user_ref now ttl_seconds)
           in bind_res (sign payload_b64 secret) (\<lambda>sig. Inr (payload_b64 @ ''.'' @ sig)))"

subsection \<open>Verifying\<close>

definition required :: "dict \<Rightarrow> string \<Rightarrow> token_error + val" where
  "required body k = (case dict_get body k of None \<Rightarrow> Inl (Rejected ''malformed'') | Some v \<Rightarrow> Inr v)"

definition uuid_claim :: "val \<Rightarrow> token_error + string" where
  "uuid_claim v =
     (case v of
        VStr s \<Rightarrow> (case uuid_parse s of None \<Rightarrow> Inl (Rejected ''malformed'') | Some u \<Rightarrow> Inr u)
      | VNone \<Rightarrow> Inl (Crashed ''TypeError'')
      | _ \<Rightarrow> Inl (Crashed ''AttributeError''))"

definition int_claim :: "val \<Rightarrow> token_error + int" where
  "int_claim v =
     (case int_of_val v of
        Some i \<Rightarrow> Inr i
      | None \<Rightarrow> (case v of VStr s \<Rightarrow> Inl (Rejected ''malformed'') | _ \<Rightarrow> Inl (Crashed ''TypeError'')))"

definition claims_of :: "dict \<Rightarrow> token_error + chatops_claims" where
  "claims_of body =
     bind_res (bind_res (required body ''aid'') uuid_claim) (\<lambda>aid.
     bind_res (bind_res (required body ''cid'') uuid_claim) (\<lambda>cid.
     bind_res (bind_res (required body ''tid'') uuid_claim) (\<lambda>tid.
     bind_res (required body ''ch'') (\<lambda>ch.
     let ur = vget_default body ''ur'' (VStr []) in
     bind_res (bind_res (required body ''iat'') int_claim) (\<lambda>iat.
     bind_res (bind_res (required body ''exp'') int_claim) (\<lambda>exp.
     Inr \<lparr>cl_action_id = aid, cl_case_id = cid, cl_tenant_id = tid, cl_choice = py_str ch, cl_user_ref = py_str ur,
          cl_issued_at = iat, cl_expires_at = exp\<rparr>))))))"

definition parse_payload :: "string \<Rightarrow> token_error + chatops_claims" where
  "parse_payload payload_b64 =
     (case decode_body payload_b64 of
        None \<Rightarrow> Inl (Rejected ''malformed'')
      | Some (VDict body) \<Rightarrow>
          if py_eq (vget body ''v'') (VStr TOKEN_VERSION) then claims_of body else Inl (Rejected ''malformed'')
      | Some _ \<Rightarrow> Inl (Crashed ''AttributeError''))"

definition verify_token :: "string \<Rightarrow> string \<Rightarrow> int \<Rightarrow> token_error + chatops_claims" where
  "verify_token token secret now =
     (if secret = [] then Inl (Rejected ''AISOC_CHATOPS_RESPONSE_SECRET is required to verify tokens'')
      else if length (filter (\<lambda>c. c = CHR ''.'') token) \<noteq> 1 then Inl (Rejected ''malformed'')
      else let payload_b64 = takeWhile (\<lambda>c. c \<noteq> CHR ''.'') token; sig = drop (Suc (length payload_b64)) token in
        bind_res (sign payload_b64 secret) (\<lambda>expected.
          if \<not> is_ascii sig then Inl (Crashed ''TypeError'')
          else if expected \<noteq> sig then Inl (Rejected ''invalid_signature'')
          else bind_res (parse_payload payload_b64) (\<lambda>claims.
            if cl_expires_at claims \<le> now then Inl (Rejected ''expired'') else Inr claims)))"

subsection \<open>The endpoint\<close>

text \<open>The query parameter needs eight characters; any other exception than a rejection is a 500.\<close>

definition callback_endpoint ::
  "service \<Rightarrow> string \<Rightarrow> string \<Rightarrow> int \<Rightarrow> string option \<Rightarrow> string \<Rightarrow> service \<times> nat \<times> page option" where
  "callback_endpoint sv secret token now warning responded_at =
     (if length token < 8 then (sv, 422, None)
      else case verify_token token secret now of
        Inl (Crashed e) \<Rightarrow> (sv, 500, None)
      | Inl (Rejected reason) \<Rightarrow>
          (case chatops_callback sv (Inl reason) warning responded_at of (sv', st, pg) \<Rightarrow> (sv', st, Some pg))
      | Inr claims \<Rightarrow>
          (case chatops_callback sv (Inr claims) warning responded_at of (sv', st, pg) \<Rightarrow> (sv', st, Some pg)))"

subsection \<open>The body of a token\<close>

definition sorted_body :: "string \<Rightarrow> string \<Rightarrow> string \<Rightarrow> string \<Rightarrow> string \<Rightarrow> int \<Rightarrow> int \<Rightarrow> dict" where
  "sorted_body action_id case_id tenant_id choice user_ref now ttl_seconds =
     [(''aid'', VStr action_id), (''ch'', VStr choice), (''cid'', VStr case_id), (''exp'', VInt (now + max ttl_seconds 1)),
      (''iat'', VInt now), (''tid'', VStr tenant_id), (''ur'', VStr user_ref), (''v'', VStr TOKEN_VERSION)]"

lemma sort_token_body: "sort_dicts (VDict (token_body a c t ch u now ttl)) = VDict (sorted_body a c t ch u now ttl)"
  "sort_dicts (VDict (sorted_body a c t ch u now ttl)) = VDict (sorted_body a c t ch u now ttl)"
  by (simp_all add: token_body_def sorted_body_def)

lemma decode_token_body: "decode_body (encode_body (token_body a c t ch u now ttl)) = Some (VDict (sorted_body a c t ch u now ttl))"
proof -
  let ?v = "VDict (sorted_body a c t ch u now ttl)"
  have "json_compact_sorted (VDict (token_body a c t ch u now ttl)) = json_compact_sorted ?v"
    unfolding json_compact_sorted_def sort_token_body ..
  moreover have "sorted_plain ?v" using sort_token_body(2) by (simp add: sorted_plain_def sorted_body_def)
  ultimately show ?thesis using decode_encoded by (simp add: encode_body_def)
qed

lemma claims_of_body:
  assumes "is_uuid a" "is_uuid c" "is_uuid t"
  shows "claims_of (sorted_body a c t ch u now ttl) = Inr \<lparr>cl_action_id = a, cl_case_id = c, cl_tenant_id = t,
     cl_choice = ch, cl_user_ref = u, cl_issued_at = now, cl_expires_at = now + max ttl 1\<rparr>"
  using assms
  by (simp add: claims_of_def required_def sorted_body_def uuid_claim_def uuid_parse_canonical int_claim_def int_of_val_def
      vget_default_def py_str_def Let_def)


subsection \<open>Properties\<close>

definition token_of :: "string \<Rightarrow> dict \<Rightarrow> string" where
  "token_of secret body = encode_body body @ ''.'' @ hmac_sha256 secret (encode_body body)"

lemma mint_token_eq:
  "secret \<noteq> [] \<Longrightarrow> ch \<in> set CHOICES \<Longrightarrow> mint_token a c t ch u secret ttl now = Inr (token_of secret (token_body a c t ch u now ttl))"
  by (simp add: mint_token_def token_of_def Let_def sign_def encode_body_def b64url_ascii)

lemma takeWhile_before: "c \<notin> set p \<Longrightarrow> takeWhile (\<lambda>x. x \<noteq> c) (p @ c # s) = p"
  by (induction p) auto

lemma split_token:
  assumes "CHR ''.'' \<notin> set p" "CHR ''.'' \<notin> set s"
  shows "length (filter (\<lambda>c. c = CHR ''.'') (p @ ''.'' @ s)) = 1" "takeWhile (\<lambda>c. c \<noteq> CHR ''.'') (p @ ''.'' @ s) = p"
    "drop (Suc (length p)) (p @ ''.'' @ s) = s"
proof -
  have "filter (\<lambda>c. c = CHR ''.'') p = []" "filter (\<lambda>c. c = CHR ''.'') s = []" using assms by (auto simp: filter_empty_conv)
  then show "length (filter (\<lambda>c. c = CHR ''.'') (p @ ''.'' @ s)) = 1" by simp
  show "takeWhile (\<lambda>c. c \<noteq> CHR ''.'') (p @ ''.'' @ s) = p" using takeWhile_before [OF assms(1)] by simp
  show "drop (Suc (length p)) (p @ ''.'' @ s) = s" by simp
qed

lemma verify_token_of:
  "secret \<noteq> [] \<Longrightarrow> verify_token (token_of secret body) secret now =
     bind_res (parse_payload (encode_body body)) (\<lambda>claims. if cl_expires_at claims \<le> now then Inl (Rejected ''expired'') else Inr claims)"
proof -
  assume s: "secret \<noteq> []"
  let ?p = "encode_body body" and ?s = "hmac_sha256 secret (encode_body body)"
  have p: "CHR ''.'' \<notin> set ?p" "is_ascii ?p" using b64url_chars b64url_ascii by (auto simp: encode_body_def)
  show ?thesis
    using s p(2) hmac_plain(2) [of secret ?p]
    by (simp only: verify_token_def token_of_def split_token [OF p(1) hmac_plain(1)] Let_def) (simp add: sign_def)
qed

lemma minted_verifies:
  assumes "secret \<noteq> []" "ch \<in> set CHOICES" "is_uuid a" "is_uuid c" "is_uuid t"
  shows "\<exists>tok. mint_token a c t ch u secret ttl now = Inr tok \<and> 64 < length tok
     \<and> (\<forall>later. verify_token tok secret later =
          (if later < now + max ttl 1
           then Inr \<lparr>cl_action_id = a, cl_case_id = c, cl_tenant_id = t, cl_choice = ch, cl_user_ref = u,
                     cl_issued_at = now, cl_expires_at = now + max ttl 1\<rparr>
           else Inl (Rejected ''expired'')))"
proof -
  have "vget (sorted_body a c t ch u now ttl) ''v'' = VStr TOKEN_VERSION" by (simp add: sorted_body_def vget_def)
  then have "parse_payload (encode_body (token_body a c t ch u now ttl)) = Inr \<lparr>cl_action_id = a, cl_case_id = c, cl_tenant_id = t,
      cl_choice = ch, cl_user_ref = u, cl_issued_at = now, cl_expires_at = now + max ttl 1\<rparr>"
    by (simp add: parse_payload_def decode_token_body claims_of_body [OF assms(3-5)] TOKEN_VERSION_def)
  then have "\<forall>later. verify_token (token_of secret (token_body a c t ch u now ttl)) secret later =
          (if later < now + max ttl 1
           then Inr \<lparr>cl_action_id = a, cl_case_id = c, cl_tenant_id = t, cl_choice = ch, cl_user_ref = u,
                     cl_issued_at = now, cl_expires_at = now + max ttl 1\<rparr>
           else Inl (Rejected ''expired''))"
    by (simp add: verify_token_of [OF assms(1)] not_less)
  moreover have "64 < length (token_of secret (token_body a c t ch u now ttl))"
    by (simp add: token_of_def hmac_sha256_length)
  ultimately show ?thesis using mint_token_eq [OF assms(1,2)] by blast
qed

text \<open>
  C2.  Round trip: every token that is minted for well-formed ids and a known choice verifies under
  the same secret with exactly the claims it was minted for, at every time before its expiry, and
  is rejected as expired from then on; its lifetime is at least one second.
\<close>

theorem token_round_trip:
  assumes "secret \<noteq> []" "ch \<in> set CHOICES" "is_uuid a" "is_uuid c" "is_uuid t"
  shows "\<exists>tok. mint_token a c t ch u secret ttl now = Inr tok
     \<and> (\<forall>later. verify_token tok secret later =
          (if later < now + max ttl 1
           then Inr \<lparr>cl_action_id = a, cl_case_id = c, cl_tenant_id = t, cl_choice = ch, cl_user_ref = u,
                     cl_issued_at = now, cl_expires_at = now + max ttl 1\<rparr>
           else Inl (Rejected ''expired'')))"
  using minted_verifies [OF assms] by blast

lemma demo_uuid: "is_uuid (uuid_str 7)" "is_uuid (uuid_str 8)" "is_uuid (uuid_str 9)"
  unfolding is_uuid_def by (rule exI [of _ 7], simp) (rule exI [of _ 8], simp, rule exI [of _ 9], simp)

lemma token_round_trip_witness:
  "\<exists>tok. mint_token (uuid_str 7) (uuid_str 8) (uuid_str 9) ''deny'' ''ann'' ''k'' 900 1000 = Inr tok
     \<and> verify_token tok ''k'' 2000 = Inl (Rejected ''expired'')"
  using token_round_trip [of "''k''" "''deny''", OF _ _ demo_uuid, of "''ann''" 900 1000]
  by (auto simp: CHOICES_def)

lemma verify_token_accepts:
  assumes "verify_token tok secret now = Inr claims"
  shows "secret \<noteq> [] \<and> (\<exists>p. tok = p @ ''.'' @ hmac_sha256 secret p \<and> parse_payload p = Inr claims \<and> now < cl_expires_at claims)"
proof -
  let ?p = "takeWhile (\<lambda>c. c \<noteq> CHR ''.'') tok"
  have s: "secret \<noteq> []" "length (filter (\<lambda>c. c = CHR ''.'') tok) = 1"
    "drop (Suc (length ?p)) tok = hmac_sha256 secret ?p" "parse_payload ?p = Inr claims" "now < cl_expires_at claims"
    using assms by (auto simp: verify_token_def sign_def Let_def split: if_splits)
  have "filter (\<lambda>c. c = CHR ''.'') tok \<noteq> []" using s(2) by auto
  then have "CHR ''.'' \<in> set tok" unfolding filter_empty_conv by blast
  then obtain ys zs where tok: "tok = ys @ CHR ''.'' # zs" "CHR ''.'' \<notin> set ys" using split_list_first by fastforce
  then have "?p = ys" using takeWhile_before by simp
  then have "tok = ?p @ ''.'' @ hmac_sha256 secret ?p" using s(3) tok(1) by simp
  then show ?thesis using s by blast
qed

lemma callback_change:
  assumes "fst (chatops_callback sv v w ts) \<noteq> sv"
  shows "\<exists>claims. v = Inr claims \<and> cl_action_id claims \<notin> set (sv_replied sv)
    \<and> sv_timeline (fst (chatops_callback sv v w ts)) = sv_timeline sv @ [cl_action_id claims]
    \<and> set (sv_replied (fst (chatops_callback sv v w ts))) = insert (cl_action_id claims) (set (sv_replied sv))"
  using assms
  by (auto simp: chatops_callback_def callback_begin_def callback_end_def upd_record_def Let_def split: sum.splits option.splits if_splits)

text \<open>
  C3.  Authenticity: a callback changes the service only if its token is a payload followed by the
  payload's own signature under the configured secret, the payload parses to claims that have not
  expired and whose action was not answered before, and then exactly that answer is recorded.
\<close>

theorem callback_authentic:
  assumes "fst (callback_endpoint sv secret tok now w ts) \<noteq> sv"
  shows "secret \<noteq> [] \<and> (\<exists>p claims. tok = p @ ''.'' @ hmac_sha256 secret p \<and> parse_payload p = Inr claims
      \<and> now < cl_expires_at claims \<and> cl_action_id claims \<notin> set (sv_replied sv)
      \<and> sv_timeline (fst (callback_endpoint sv secret tok now w ts)) = sv_timeline sv @ [cl_action_id claims]
      \<and> set (sv_replied (fst (callback_endpoint sv secret tok now w ts))) = insert (cl_action_id claims) (set (sv_replied sv)))"
proof -
  define v where "v = (case verify_token tok secret now of Inl (Rejected r) \<Rightarrow> Inl r | Inl (Crashed e) \<Rightarrow> Inl e | Inr c \<Rightarrow> Inr c)"
  have e: "fst (callback_endpoint sv secret tok now w ts) = fst (chatops_callback sv v w ts)"
    using assms by (auto simp: callback_endpoint_def v_def split: sum.splits token_error.splits prod.splits if_splits)
  obtain claims where c: "v = Inr claims" "cl_action_id claims \<notin> set (sv_replied sv)"
    "sv_timeline (fst (chatops_callback sv v w ts)) = sv_timeline sv @ [cl_action_id claims]"
    "set (sv_replied (fst (chatops_callback sv v w ts))) = insert (cl_action_id claims) (set (sv_replied sv))"
    using callback_change [of sv v w ts] assms unfolding e by blast
  have "verify_token tok secret now = Inr claims" using c(1) by (auto simp: v_def split: sum.splits token_error.splits)
  from verify_token_accepts [OF this] c(2-4) show ?thesis unfolding e by blast
qed

lemma demo_minted:
  "\<exists>tok1 tok2. mint_token (uuid_str 7) (uuid_str 8) (uuid_str 9) ''deny'' ''ann'' ''k'' 900 1000 = Inr tok1
     \<and> mint_token (uuid_str 7) (uuid_str 8) (uuid_str 9) ''acknowledge'' ''ann'' ''k'' 900 1000 = Inr tok2"
  by (simp add: mint_token_eq CHOICES_def)

lemma callback_authentic_witness:
  "\<exists>tok p. tok = p @ ''.'' @ hmac_sha256 ''k'' p \<and> fst (callback_endpoint init_service ''k'' tok 1500 None ''t'') \<noteq> init_service"
proof -
  obtain tok where tok: "mint_token (uuid_str 7) (uuid_str 8) (uuid_str 9) ''deny'' ''ann'' ''k'' 900 1000 = Inr tok" "64 < length tok"
    "verify_token tok ''k'' 1500 = Inr \<lparr>cl_action_id = uuid_str 7, cl_case_id = uuid_str 8, cl_tenant_id = uuid_str 9,
       cl_choice = ''deny'', cl_user_ref = ''ann'', cl_issued_at = 1000, cl_expires_at = 1900\<rparr>"
    using minted_verifies [of "''k''" "''deny''", OF _ _ demo_uuid, of "''ann''" 900 1000] by (auto simp: CHOICES_def)
  have c: "fst (callback_endpoint init_service ''k'' tok 1500 None ''t'') \<noteq> init_service"
    using tok(2,3) by (simp add: callback_endpoint_def chatops_callback_def callback_begin_def callback_end_def init_service_def
        find_record_def Let_def)
  from callback_authentic [OF this] c show ?thesis by blast
qed

text \<open>
  One answer per prompt: of the links of a prompt, minted for the same action with any choices,
  the first that is followed in time records its choice and posts it to the timeline once, and every
  later one, whichever it is, changes nothing and reports that a response is already recorded.
\<close>

theorem first_click_wins:
  assumes "secret \<noteq> []" "ch1 \<in> set CHOICES" "ch2 \<in> set CHOICES" "is_uuid a" "is_uuid c" "is_uuid t"
    and "mint_token a c t ch1 u secret ttl now = Inr tok1" "mint_token a c t ch2 u secret ttl now = Inr tok2"
    and "at1 < now + max ttl 1" "at2 < now + max ttl 1" "a \<notin> set (sv_replied sv)"
  shows "snd (callback_endpoint sv secret tok1 at1 w1 r1) = (200, Some (Recorded ch1))
    \<and> sv_timeline (fst (callback_endpoint sv secret tok1 at1 w1 r1)) = sv_timeline sv @ [a]
    \<and> callback_endpoint (fst (callback_endpoint sv secret tok1 at1 w1 r1)) secret tok2 at2 w2 r2
        = (fst (callback_endpoint sv secret tok1 at1 w1 r1), 200, Some AlreadyRecorded)"
proof -
  let ?cl = "\<lambda>ch. \<lparr>cl_action_id = a, cl_case_id = c, cl_tenant_id = t, cl_choice = ch, cl_user_ref = u,
     cl_issued_at = now, cl_expires_at = now + max ttl 1\<rparr>"
  have v1: "verify_token tok1 secret at1 = Inr (?cl ch1)" "64 < length tok1"
    using minted_verifies [OF assms(1,2,4-6), of u ttl now] assms(7,9) by auto
  have v2: "verify_token tok2 secret at2 = Inr (?cl ch2)" "64 < length tok2"
    using minted_verifies [OF assms(1,3-6), of u ttl now] assms(8,10) by auto
  let ?sv1 = "fst (chatops_callback sv (Inr (?cl ch1)) w1 r1)"
  have e1: "callback_endpoint sv secret tok1 at1 w1 r1 = (?sv1, 200, Some (Recorded ch1))"
    using v1 assms(2,11)
    by (simp add: callback_endpoint_def chatops_callback_def callback_begin_def callback_end_def choice_page_def CHOICES_def Let_def
        split: prod.split)
  have ch: "?sv1 \<noteq> sv"
  proof
    assume "?sv1 = sv"
    then have "sv_timeline ?sv1 = sv_timeline sv" by simp
    then show False using assms(11)
      by (auto simp: chatops_callback_def callback_begin_def callback_end_def upd_record_def Let_def split: option.splits if_splits)
  qed
  note f = callback_change [OF ch]
  then have r: "a \<in> set (sv_replied ?sv1)" "sv_timeline ?sv1 = sv_timeline sv @ [a]" by auto
  have e2: "callback_endpoint ?sv1 secret tok2 at2 w2 r2 = (?sv1, 200, Some AlreadyRecorded)"
    using v2 r(1) by (simp add: callback_endpoint_def chatops_callback_def callback_begin_def)
  show ?thesis using e1 e2 r(2) by simp
qed

lemma first_click_wins_witness:
  "\<exists>tok1 tok2. callback_endpoint (fst (callback_endpoint init_service ''k'' tok1 1500 None ''t'')) ''k'' tok2 1501 None ''t''
      = (fst (callback_endpoint init_service ''k'' tok1 1500 None ''t''), 200, Some AlreadyRecorded)"
proof -
  obtain tok1 tok2 where
    "mint_token (uuid_str 7) (uuid_str 8) (uuid_str 9) ''deny'' ''ann'' ''k'' 900 1000 = Inr tok1"
    "mint_token (uuid_str 7) (uuid_str 8) (uuid_str 9) ''acknowledge'' ''ann'' ''k'' 900 1000 = Inr tok2"
    using demo_minted by blast
  then show ?thesis
    using first_click_wins [of "''k''" "''deny''" "''acknowledge''", OF _ _ _ demo_uuid, of "''ann''" 900 1000 tok1 tok2 1500 1501 init_service None "''t''" None "''t''"]
    by (auto simp: CHOICES_def init_service_def)
qed

end
