(* ===== verification/Fnmatch.thy ===== *)
theory Fnmatch
  imports Py_Prelude
begin

text \<open>
  \<open>fnmatch.fnmatchcase\<close> of the Python 3.11 standard library, which the permission resolver uses to
  match ARNs, actions and condition values: \<open>*\<close> and \<open>?\<close>, and character classes with ranges, whose
  empty ranges are removed the way \<open>fnmatch.translate\<close> removes them.
\<close>

datatype glob = Star | AnyOne | Lit char | OneOf bool "string list"

subsection \<open>Character classes\<close>

text \<open>The text of a class after its opening bracket, and what follows the closing one.\<close>

definition class_span :: "string \<Rightarrow> (string \<times> string) option" where
  "class_span r =
     (let neg = (if take 1 r = ''!'' then 1 else 0);
          first = (if take 1 (drop neg r) = '']'' then 1 else 0);
          n = neg + first + length (takeWhile (\<lambda>c. c \<noteq> CHR '']'') (drop (neg + first) r))
      in if n < length r then Some (take n r, drop (Suc n) r) else None)"

text \<open>The pieces between the hyphens that make ranges; \<open>k\<close> characters of the piece are not searched.\<close>

function chunks :: "nat \<Rightarrow> string \<Rightarrow> string list" where
  "chunks k s =
     (let piece = take k s @ takeWhile (\<lambda>c. c \<noteq> CHR ''-'') (drop k s) in
      if length piece < length s then piece # chunks 2 (drop (Suc (length piece)) s) else [s])"
  by pat_completeness auto
termination by (relation "measure (\<lambda>(k, s). length s)") auto

declare chunks.simps [simp del]

definition close_chunks :: "string list \<Rightarrow> string list" where
  "close_chunks cs = (if last cs = [] then butlast (butlast cs) @ [last (butlast cs) @ ''-''] else cs)"

text \<open>Empty ranges are dropped from the right.\<close>

fun drop_empty :: "string list \<Rightarrow> string list" where
  "drop_empty (p # cs) =
     (case drop_empty cs of
        [] \<Rightarrow> [p]
      | q # ds \<Rightarrow> if q \<noteq> [] \<and> p \<noteq> [] \<and> hd q < last p then (butlast p @ tl q) # ds else p # q # ds)"
| "drop_empty [] = []"

definition class_chunks :: "string \<Rightarrow> string list" where
  "class_chunks stuff =
     (if CHR ''-'' \<notin> set stuff then [stuff]
      else drop_empty (close_chunks (chunks (if take 1 stuff = ''!'' then 2 else 1) stuff)))"

definition class_glob :: "string \<Rightarrow> glob" where
  "class_glob stuff =
     (case class_chunks stuff of
        [[]] \<Rightarrow> OneOf False []
      | cs \<Rightarrow> if cs = [''!''] then AnyOne
              else if take 1 (hd cs) = ''!'' then OneOf True (tl (hd cs) # tl cs) else OneOf False cs)"

fun in_chunks :: "char \<Rightarrow> string list \<Rightarrow> bool" where
  "in_chunks c (p # q # ds) \<longleftrightarrow> c \<in> set p \<or> (last p \<le> c \<and> c \<le> hd q) \<or> in_chunks c (q # ds)"
| "in_chunks c [p] \<longleftrightarrow> c \<in> set p"
| "in_chunks c [] \<longleftrightarrow> False"

subsection \<open>Patterns\<close>

function globs :: "string \<Rightarrow> glob list" where
  "globs [] = []"
| "globs (c # r) =
     (if c = CHR ''*'' then Star # globs r
      else if c = CHR ''?'' then AnyOne # globs r
      else if c = CHR ''['' then
        (case class_span r of None \<Rightarrow> Lit c # globs r | Some (stuff, r') \<Rightarrow> if length r' < length r then class_glob stuff # globs r' else [])
      else Lit c # globs r)"
  by pat_completeness auto
termination by (relation "measure length") auto

lemma class_span_shorter: "class_span r = Some (stuff, r') \<Longrightarrow> length r' < length r"
  by (auto simp: class_span_def Let_def split: if_splits)

fun one_matches :: "glob \<Rightarrow> char \<Rightarrow> bool" where
  "one_matches (Lit d) c \<longleftrightarrow> c = d"
| "one_matches AnyOne c \<longleftrightarrow> True"
| "one_matches (OneOf neg cs) c \<longleftrightarrow> in_chunks c cs \<noteq> neg"
| "one_matches Star c \<longleftrightarrow> False"

function glob_match :: "glob list \<Rightarrow> string \<Rightarrow> bool" where
  "glob_match [] s \<longleftrightarrow> s = []"
| "glob_match (g # gs) [] \<longleftrightarrow> g = Star \<and> glob_match gs []"
| "glob_match (g # gs) (c # s) \<longleftrightarrow>
     (if g = Star then glob_match gs (c # s) \<or> glob_match (g # gs) s else one_matches g c \<and> glob_match gs s)"
  by pat_completeness auto
termination by (relation "measure (\<lambda>(gs, s). length gs + length s)") auto

definition fnmatchcase :: "string \<Rightarrow> string \<Rightarrow> bool" where
  "fnmatchcase name pat = glob_match (globs pat) name"

subsection \<open>What patterns mean\<close>

lemma glob_match_star_Nil: "glob_match [Star] s"
  by (induction s) auto

lemma fnmatchcase_star [simp]: "fnmatchcase s ''*''"
  by (simp add: fnmatchcase_def glob_match_star_Nil)

definition plain_pattern :: "string \<Rightarrow> bool" where
  "plain_pattern p \<longleftrightarrow> CHR ''*'' \<notin> set p \<and> CHR ''?'' \<notin> set p \<and> CHR ''['' \<notin> set p"

lemma globs_plain: "plain_pattern p \<Longrightarrow> globs (p @ q) = map Lit p @ globs q"
  by (induction p) (auto simp: plain_pattern_def)

lemma match_lits: "glob_match (map Lit p @ gs) s \<longleftrightarrow> (\<exists>u. s = p @ u \<and> glob_match gs u)"
proof (induction p arbitrary: s)
  case (Cons c p)
  then show ?case by (cases s) auto
qed simp

text \<open>A pattern without wildcards matches itself only; one that ends in a star, its extensions.\<close>

lemma fnmatchcase_plain: "plain_pattern p \<Longrightarrow> fnmatchcase s p \<longleftrightarrow> s = p"
  using match_lits [of p "[]" s] globs_plain [of p "[]"] by (simp add: fnmatchcase_def)

lemma fnmatchcase_prefix: "plain_pattern p \<Longrightarrow> fnmatchcase s (p @ ''*'') \<longleftrightarrow> startswith s p"
  using match_lits [of p "[Star]" s] globs_plain [of p "''*''"]
  by (auto simp: fnmatchcase_def glob_match_star_Nil startswith_def prefix_def)

lemma fnmatchcase_examples:
  "fnmatchcase ''s3:GetObject'' ''s3:Get*''" "\<not> fnmatchcase ''s3:PutObject'' ''s3:Get*''"
  "fnmatchcase ''a-c'' ''?[!a-]c'' = False" "fnmatchcase ''axc'' ''a[x-z]c''" "\<not> fnmatchcase ''axc'' ''a[z-x]c''"
  "fnmatchcase ''a]c'' ''a[]]c''" "fnmatchcase ''a[c'' ''a[c''" "fnmatchcase ''a-'' ''a[a-]''"
  "fnmatchcase ''ab'' ''a[z-a!]''" "fnmatchcase ''ac'' ''a[!x-z]''" "\<not> fnmatchcase ''ay'' ''a[!x-z]''"
  by code_simp+

end
