(* ===== verification/Effective_Permissions.thy ===== *)
theory Effective_Permissions
  imports Py_Value Fnmatch
begin

text \<open>
  The AWS resolver of effective permissions
  (\<open>services/api/app/services/effective_permissions/aws.py\<close>, \<open>base.py\<close>): policy statements, the
  partition of the actions of one resource, and the walk over a snapshot.  The snapshot has the
  documented shape (ids, ARNs and policy names are texts); the policy documents and the condition
  contexts are arbitrary JSON values, with the exceptions that malformed ones raise.
\<close>

subsection \<open>Results\<close>

datatype effect = Allow | Deny

record chain_step =
  cs_kind :: string
  cs_id :: string
  cs_name :: string
  cs_effect :: effect
  cs_via :: "string option"

record resolved_permission =
  rp_principal_id :: string
  rp_resource_id :: string
  rp_actions :: "string list"
  rp_deny_actions :: "string list"
  rp_policy_chain :: "chain_step list"
  rp_resource_kind :: "string option"
  rp_resource_arn :: "string option"

record resolver_result =
  rr_provider :: string
  rr_principal_id :: string
  rr_coverage :: string
  rr_last_resolved :: int
  rr_decisions :: "resolved_permission list"
  rr_notes :: "string list"

definition total_actions :: "resolver_result \<Rightarrow> nat" where
  "total_actions r = sum_list (map (\<lambda>d. length (rp_actions d)) (rr_decisions r))"

definition chain_ids :: "chain_step list \<Rightarrow> string list" where
  "chain_ids steps = map cs_id steps"

datatype resolver_exn = Py py_error | ResolverError string | NotImplementedError string

subsection \<open>Statement elements\<close>

definition as_list :: "val \<Rightarrow> val list" where
  "as_list v = (case v of VNone \<Rightarrow> [] | VList xs \<Rightarrow> xs | _ \<Rightarrow> [v])"

definition entry_matches :: "string \<Rightarrow> val \<Rightarrow> bool" where
  "entry_matches name v = (case v of VStr p \<Rightarrow> p = ''*'' \<or> p = name \<or> fnmatchcase name p | _ \<Rightarrow> False)"

definition principal_matches :: "val \<Rightarrow> string \<Rightarrow> bool" where
  "principal_matches statement_principal principal_arn =
     (case statement_principal of
        VStr s \<Rightarrow> s = ''*''
      | VDict d \<Rightarrow> list_ex (entry_matches principal_arn) (as_list (vget d ''AWS''))
      | _ \<Rightarrow> False)"

definition resource_matches :: "val \<Rightarrow> string \<Rightarrow> bool" where
  "resource_matches statement_resource resource_arn =
     list_ex (\<lambda>v. case v of VStr p \<Rightarrow> p = ''*'' \<or> fnmatchcase resource_arn p | _ \<Rightarrow> False) (as_list statement_resource)"

text \<open>\<open>fnmatchcase\<close> on values: anything but two texts is a TypeError.\<close>

definition val_fnmatch :: "val \<Rightarrow> val \<Rightarrow> resolver_exn + bool" where
  "val_fnmatch name pat =
     (case (name, pat) of (VStr s, VStr p) \<Rightarrow> Inr (fnmatchcase s p) | _ \<Rightarrow> Inl (Py TypeError))"

fun any_fnmatch :: "val \<Rightarrow> val list \<Rightarrow> resolver_exn + bool" where
  "any_fnmatch name [] = Inr False"
| "any_fnmatch name (p # ps) = bind_res (val_fnmatch name p) (\<lambda>b. if b then Inr True else any_fnmatch name ps)"

definition string_equals :: "dict \<Rightarrow> string \<Rightarrow> val \<Rightarrow> resolver_exn + bool" where
  "string_equals context_values key expected =
     (let supplied = vget context_values key in
      if supplied = VNone then Inr False
      else case expected of VList es \<Rightarrow> Inr (py_in supplied es) | _ \<Rightarrow> Inr (py_eq supplied expected))"

definition string_like :: "dict \<Rightarrow> string \<Rightarrow> val \<Rightarrow> resolver_exn + bool" where
  "string_like context_values key pattern =
     (let supplied = vget context_values key in
      if supplied = VNone then Inr False
      else any_fnmatch supplied (case pattern of VList ps \<Rightarrow> ps | _ \<Rightarrow> [pattern]))"

text \<open>A loop that returns False at the first failing item.\<close>

fun all_items :: "(string \<Rightarrow> val \<Rightarrow> resolver_exn + bool) \<Rightarrow> dict \<Rightarrow> resolver_exn + bool" where
  "all_items f [] = Inr True"
| "all_items f ((k, v) # kvs) = bind_res (f k v) (\<lambda>b. if b then all_items f kvs else Inr False)"

definition operator_matches :: "dict \<Rightarrow> string \<Rightarrow> val \<Rightarrow> resolver_exn + bool" where
  "operator_matches context_values operator kv =
     (case kv of
        VDict kvs \<Rightarrow>
          if operator = ''StringEquals'' then all_items (string_equals context_values) kvs
          else if operator = ''StringLike'' then all_items (string_like context_values) kvs
          else Inr False
      | _ \<Rightarrow> Inr True)"

definition condition_matches :: "val \<Rightarrow> dict \<Rightarrow> resolver_exn + bool" where
  "condition_matches condition context_values =
     (if \<not> truthy condition then Inr True
      else case condition of
        VDict ops \<Rightarrow> all_items (operator_matches context_values) ops
      | _ \<Rightarrow> Inl (Py AttributeError))"

text \<open>\<open>_expand_actions\<close>.  A value that is not a text raises TypeError, unless it is a container that
  holds a star and there is no known action to match it with.\<close>

definition expand_action :: "string list \<Rightarrow> val \<Rightarrow> resolver_exn + string set" where
  "expand_action catalogue action =
     (case action of
        VStr a \<Rightarrow> Inr (if CHR ''*'' \<notin> set a then {a} else set (filter (\<lambda>known. fnmatchcase known a) catalogue))
      | VList xs \<Rightarrow> if py_in (VStr ''*'') xs \<and> catalogue = [] then Inr {} else Inl (Py TypeError)
      | VDict d \<Rightarrow> if ''*'' \<in> set (map fst d) \<and> catalogue = [] then Inr {} else Inl (Py TypeError)
      | _ \<Rightarrow> Inl (Py TypeError))"

fun expand_actions :: "string list \<Rightarrow> val list \<Rightarrow> resolver_exn + string set" where
  "expand_actions catalogue [] = Inr {}"
| "expand_actions catalogue (a # as) =
     bind_res (expand_action catalogue a) (\<lambda>A. bind_res (expand_actions catalogue as) (\<lambda>B. Inr (A \<union> B)))"

subsection \<open>One policy\<close>

record policy =
  po_name :: "string option"
  po_document :: val

record request_ctx =
  rq_principal_arn :: string
  rq_resource_arn :: string
  rq_context :: dict
  rq_catalogue :: "string list"

definition statement_applies :: "request_ctx \<Rightarrow> bool \<Rightarrow> dict \<Rightarrow> resolver_exn + bool" where
  "statement_applies rq principal_match_required statement =
     (if principal_match_required \<and> \<not> principal_matches (vget statement ''Principal'') (rq_principal_arn rq) then Inr False
      else if \<not> resource_matches (vget_default statement ''Resource'' (VStr ''*'')) (rq_resource_arn rq) then Inr False
      else condition_matches (vget statement ''Condition'') (rq_context rq))"

definition statement_effect :: "dict \<Rightarrow> val" where
  "statement_effect statement = vget_default statement ''Effect'' (VStr ''Allow'')"

text \<open>What one statement adds to the allowed and to the denied actions.\<close>

definition eval_statement :: "request_ctx \<Rightarrow> bool \<Rightarrow> val \<Rightarrow> resolver_exn + string set \<times> string set" where
  "eval_statement rq required statement =
     (case statement of
        VDict st \<Rightarrow>
          bind_res (statement_applies rq required st) (\<lambda>b.
            if \<not> b then Inr ({}, {})
            else bind_res (expand_actions (rq_catalogue rq) (as_list (vget st ''Action''))) (\<lambda>actions.
              Inr (if statement_effect st = VStr ''Allow'' then (actions, {})
                   else if statement_effect st = VStr ''Deny'' then ({}, actions) else ({}, {}))))
      | _ \<Rightarrow> Inr ({}, {}))"

fun eval_statements :: "request_ctx \<Rightarrow> bool \<Rightarrow> val list \<Rightarrow> resolver_exn + string set \<times> string set" where
  "eval_statements rq required [] = Inr ({}, {})"
| "eval_statements rq required (st # sts) =
     bind_res (eval_statement rq required st) (\<lambda>(A, D).
     bind_res (eval_statements rq required sts) (\<lambda>(A', D'). Inr (A \<union> A', D \<union> D')))"

definition statements_of :: "policy \<Rightarrow> resolver_exn + val list" where
  "statements_of p =
     (case py_or (po_document p) (VDict []) of
        VDict d \<Rightarrow> Inr (as_list (vget d ''Statement''))
      | _ \<Rightarrow> Inl (Py AttributeError))"

definition evaluate_policy :: "request_ctx \<Rightarrow> bool \<Rightarrow> policy \<Rightarrow> resolver_exn + string set \<times> string set" where
  "evaluate_policy rq required p = bind_res (statements_of p) (eval_statements rq required)"

subsection \<open>The snapshot\<close>

record principal_doc =
  pr_id :: string
  pr_arn :: "string option"
  pr_inline_policies :: "string list"
  pr_attached_policies :: "string list"
  pr_groups :: "string list"
  pr_permissions_boundary :: val

record group_doc =
  gr_id :: string
  gr_inline_policies :: "string list"
  gr_attached_policies :: "string list"

record resource_doc =
  rd_id :: string
  rd_arn :: string
  rd_kind :: "string option"
  rd_service :: "string option"
  rd_service_actions :: "string list"
  rd_context :: dict
  rd_resource_policy_id :: "string option"

record snapshot =
  sn_principals :: "principal_doc list"
  sn_groups :: "group_doc list"
  sn_policies :: "(string \<times> policy) list"
  sn_resources :: "resource_doc list"
  sn_scps :: "string list"
  sn_action_catalogue :: "(string \<times> string list) list"

text \<open>A dictionary built from pairs: the last entry of a key wins.\<close>

definition dict_of_pairs :: "('k \<times> 'v) list \<Rightarrow> ('k \<times> 'v) list" where
  "dict_of_pairs kvs = fold (\<lambda>(k, v). dict_set k v) kvs []"

definition principals_by_id :: "snapshot \<Rightarrow> (string \<times> principal_doc) list" where
  "principals_by_id snap = dict_of_pairs (map (\<lambda>p. (pr_id p, p)) (sn_principals snap))"

definition principals_by_arn :: "snapshot \<Rightarrow> (string \<times> principal_doc) list" where
  "principals_by_arn snap =
     dict_of_pairs (List.map_filter (\<lambda>p. map_option (\<lambda>a. (a, p)) (pr_arn p)) (sn_principals snap))"

definition find_principal :: "snapshot \<Rightarrow> string \<Rightarrow> principal_doc option" where
  "find_principal snap principal_id =
     (case dict_get (principals_by_id snap) principal_id of
        Some p \<Rightarrow> Some p
      | None \<Rightarrow> dict_get (principals_by_arn snap) principal_id)"

definition collect_identity_policies :: "principal_doc \<Rightarrow> (string \<times> group_doc) list \<Rightarrow> (string \<times> string option) list" where
  "collect_identity_policies prin groups_by_id =
     map (\<lambda>i. (i, None)) (pr_inline_policies prin @ pr_attached_policies prin)
     @ concat (map (\<lambda>g. case dict_get groups_by_id g of
                None \<Rightarrow> []
              | Some gr \<Rightarrow> map (\<lambda>i. (i, Some g)) (gr_inline_policies gr @ gr_attached_policies gr))
            (pr_groups prin))"

subsection \<open>One resource\<close>

definition policy_name :: "policy \<Rightarrow> string \<Rightarrow> string" where
  "policy_name p policy_id = (case po_name p of None \<Rightarrow> policy_id | Some n \<Rightarrow> n)"

definition chain_effect :: "string set \<Rightarrow> string set \<Rightarrow> effect" where
  "chain_effect A D = (if D \<noteq> {} \<and> A = {} then Deny else Allow)"

text \<open>\<open>principal["arn"]\<close> is read when a policy is evaluated; its absence is a KeyError.\<close>

definition request_of :: "principal_doc \<Rightarrow> resource_doc \<Rightarrow> string list \<Rightarrow> resolver_exn + request_ctx" where
  "request_of prin resource catalogue =
     (case pr_arn prin of
        None \<Rightarrow> Inl (Py KeyError)
      | Some arn \<Rightarrow> Inr \<lparr>rq_principal_arn = arn, rq_resource_arn = rd_arn resource,
                         rq_context = rd_context resource, rq_catalogue = catalogue\<rparr>)"

definition evaluate_for ::
  "principal_doc \<Rightarrow> resource_doc \<Rightarrow> string list \<Rightarrow> bool \<Rightarrow> policy \<Rightarrow> resolver_exn + string set \<times> string set" where
  "evaluate_for prin resource catalogue required p =
     bind_res (request_of prin resource catalogue) (\<lambda>rq. evaluate_policy rq required p)"

definition arn_service :: "string \<Rightarrow> resolver_exn + string" where
  "arn_service arn =
     (let parts = split_on (CHR '':'') arn in if length parts < 3 then Inl (Py IndexError) else Inr (parts ! 2))"

definition service_catalogue :: "resource_doc \<Rightarrow> (string \<times> string list) list \<Rightarrow> resolver_exn + string list" where
  "service_catalogue resource action_catalogue =
     bind_res (case rd_service resource of Some s \<Rightarrow> if s \<noteq> [] then Inr s else arn_service (rd_arn resource)
               | None \<Rightarrow> arn_service (rd_arn resource))
       (\<lambda>service. Inr (if rd_service_actions resource \<noteq> [] then rd_service_actions resource
          else case dict_get action_catalogue service of None \<Rightarrow> [] | Some xs \<Rightarrow> xs))"

fun identity_loop ::
  "(policy \<Rightarrow> resolver_exn + string set \<times> string set) \<Rightarrow> (string \<times> policy) list \<Rightarrow> (string \<times> string option) list
    \<Rightarrow> resolver_exn + string set \<times> string set \<times> chain_step list" where
  "identity_loop eval policies [] = Inr ({}, {}, [])"
| "identity_loop eval policies ((policy_id, via) # refs) =
     (case dict_get policies policy_id of
        None \<Rightarrow> identity_loop eval policies refs
      | Some p \<Rightarrow>
          bind_res (eval p) (\<lambda>(A, D).
          bind_res (identity_loop eval policies refs) (\<lambda>(A', D', chain).
            Inr (A \<union> A', D \<union> D',
                 (if A \<noteq> {} \<or> D \<noteq> {}
                  then [\<lparr>cs_kind = ''policy'', cs_id = policy_id, cs_name = policy_name p policy_id,
                         cs_effect = chain_effect A D, cs_via = via\<rparr>] else []) @ chain))))"

definition resource_part ::
  "(policy \<Rightarrow> resolver_exn + string set \<times> string set) \<Rightarrow> (string \<times> policy) list \<Rightarrow> string option
    \<Rightarrow> resolver_exn + string set \<times> string set \<times> chain_step list" where
  "resource_part eval policies resource_policy_id =
     (case resource_policy_id of
        None \<Rightarrow> Inr ({}, {}, [])
      | Some i \<Rightarrow>
          if i = [] then Inr ({}, {}, [])
          else case dict_get policies i of
            None \<Rightarrow> Inr ({}, {}, [])
          | Some p \<Rightarrow> bind_res (eval p) (\<lambda>(A, D). Inr (A, D,
              if A \<noteq> {} \<or> D \<noteq> {}
              then [\<lparr>cs_kind = ''policy'', cs_id = i, cs_name = policy_name p i, cs_effect = chain_effect A D, cs_via = None\<rparr>]
              else [])))"

text \<open>The service control policies: what they allow, what they deny, and their steps.\<close>

fun scp_loop ::
  "(policy \<Rightarrow> resolver_exn + string set \<times> string set) \<Rightarrow> (string \<times> policy) list \<Rightarrow> string list
    \<Rightarrow> resolver_exn + string set \<times> string set \<times> chain_step list" where
  "scp_loop eval policies [] = Inr ({}, {}, [])"
| "scp_loop eval policies (scp_id # ids) =
     (case dict_get policies scp_id of
        None \<Rightarrow> scp_loop eval policies ids
      | Some p \<Rightarrow>
          bind_res (eval p) (\<lambda>(A, D).
          bind_res (scp_loop eval policies ids) (\<lambda>(A', D', chain).
            let scp_step = (\<lambda>e. \<lparr>cs_kind = ''scp'', cs_id = scp_id, cs_name = policy_name p scp_id, cs_effect = e, cs_via = None\<rparr>)
            in Inr (A \<union> A', D \<union> D',
                 (if A \<noteq> {} then [scp_step Allow] else []) @ (if D \<noteq> {} then [scp_step Deny] else []) @ chain))))"

definition sorted_actions :: "string set \<Rightarrow> string list" where
  "sorted_actions A = sorted_list_of_set A"

text \<open>The final sets: what the policies grant and deny, cut down by the service control policies.\<close>

definition decide ::
  "principal_doc \<Rightarrow> resource_doc \<Rightarrow> string list \<Rightarrow> string set \<Rightarrow> string set \<Rightarrow> string set \<Rightarrow> chain_step list
    \<Rightarrow> resolved_permission option" where
  "decide prin resource scp_ids pre_scp_allow candidate_deny scp_allowed chain =
     (let scp_blocked = (if scp_ids \<noteq> [] then pre_scp_allow - scp_allowed else {});
          candidate_allow = (if scp_ids \<noteq> [] then pre_scp_allow \<inter> scp_allowed else pre_scp_allow);
          final_actions = candidate_allow - candidate_deny;
          shadowed_denies = (pre_scp_allow \<inter> candidate_deny) \<union> scp_blocked
      in if final_actions = {} \<and> shadowed_denies = {} then None
         else Some \<lparr>rp_principal_id = pr_id prin, rp_resource_id = rd_id resource,
                rp_actions = sorted_actions final_actions, rp_deny_actions = sorted_actions shadowed_denies,
                rp_policy_chain = chain, rp_resource_kind = rd_kind resource, rp_resource_arn = Some (rd_arn resource)\<rparr>)"

definition resolve_resource ::
  "principal_doc \<Rightarrow> resource_doc \<Rightarrow> (string \<times> string option) list \<Rightarrow> (string \<times> policy) list \<Rightarrow> string list
    \<Rightarrow> (string \<times> string list) list \<Rightarrow> resolver_exn + resolved_permission option" where
  "resolve_resource prin resource identity_policy_refs policies scp_ids action_catalogue =
     bind_res (service_catalogue resource action_catalogue) (\<lambda>catalogue.
     bind_res (identity_loop (evaluate_for prin resource catalogue False) policies identity_policy_refs)
       (\<lambda>(identity_allow, identity_deny, chain1).
     bind_res (resource_part (evaluate_for prin resource catalogue True) policies (rd_resource_policy_id resource))
       (\<lambda>(resource_allow, resource_deny, chain2).
     bind_res (scp_loop (evaluate_for prin resource catalogue False) policies scp_ids)
       (\<lambda>(scp_allowed, scp_denied, chain3).
       Inr (decide prin resource scp_ids (identity_allow \<union> resource_allow) (identity_deny \<union> resource_deny \<union> scp_denied)
              scp_allowed (chain1 @ chain2 @ chain3))))))"

subsection \<open>The snapshot walk\<close>

fun resource_loop :: "(resource_doc \<Rightarrow> resolver_exn + resolved_permission option) \<Rightarrow> resource_doc list
    \<Rightarrow> resolver_exn + resolved_permission list" where
  "resource_loop f [] = Inr []"
| "resource_loop f (r # rs) =
     bind_res (f r) (\<lambda>d. bind_res (resource_loop f rs) (\<lambda>ds. Inr (case d of None \<Rightarrow> ds | Some x \<Rightarrow> x # ds)))"

definition resolve_decisions :: "snapshot \<Rightarrow> principal_doc \<Rightarrow> resolver_exn + resolved_permission list" where
  "resolve_decisions snap prin =
     (let groups_by_id = dict_of_pairs (map (\<lambda>g. (gr_id g, g)) (sn_groups snap)) in
      resource_loop (\<lambda>resource. resolve_resource prin resource (collect_identity_policies prin groups_by_id)
          (dict_of_pairs (sn_policies snap)) (sn_scps snap) (sn_action_catalogue snap))
        (sn_resources snap))"

definition BOUNDARY_NOTE :: string where
  "BOUNDARY_NOTE = ''permissions-boundary present on principal - not modelled; deny-side may over-permit''"

definition aws_resolve :: "snapshot option \<Rightarrow> string \<Rightarrow> int \<Rightarrow> resolver_exn + resolver_result" where
  "aws_resolve snap_opt principal_id now =
     (case snap_opt of
        None \<Rightarrow> Inl (ResolverError ''AwsIamResolver.resolve called without a snapshot'')
      | Some snap \<Rightarrow>
          (case find_principal snap principal_id of
             None \<Rightarrow> Inl (ResolverError (''principal '' @ repr_str principal_id @ '' not present in snapshot''))
           | Some prin \<Rightarrow>
               bind_res (resolve_decisions snap prin) (\<lambda>decisions.
                 Inr \<lparr>rr_provider = ''aws'', rr_principal_id = principal_id, rr_coverage = ''full'',
                      rr_last_resolved = now, rr_decisions = decisions,
                      rr_notes = (if truthy (pr_permissions_boundary prin) then [BOUNDARY_NOTE] else [])\<rparr>)))"

subsection \<open>The dispatcher and its cache\<close>

text \<open>\<open>service.py\<close>: the providers other than AWS are scaffolds that raise.\<close>

definition SUPPORTED_PROVIDERS :: "string list" where
  "SUPPORTED_PROVIDERS = [''aws'', ''azure'', ''gcp'', ''okta'', ''gws'']"

definition empty_snapshot :: snapshot where
  "empty_snapshot = \<lparr>sn_principals = [], sn_groups = [], sn_policies = [], sn_resources = [], sn_scps = [],
     sn_action_catalogue = []\<rparr>"

definition default_snapshot_loader :: "string \<Rightarrow> snapshot" where
  "default_snapshot_loader provider = empty_snapshot"

definition resolve_effective_permissions ::
  "string \<Rightarrow> string \<Rightarrow> snapshot option \<Rightarrow> (string \<Rightarrow> snapshot) option \<Rightarrow> int \<Rightarrow> resolver_exn + resolver_result" where
  "resolve_effective_permissions provider principal_id snap_opt snapshot_loader now =
     (if provider \<notin> set SUPPORTED_PROVIDERS then Inl (Py ValueError)
      else let snap = (case snap_opt of Some s \<Rightarrow> s
                       | None \<Rightarrow> (case snapshot_loader of Some l \<Rightarrow> l | None \<Rightarrow> default_snapshot_loader) provider)
           in if provider = ''aws'' then aws_resolve (Some snap) principal_id now
              else Inl (NotImplementedError provider))"

text \<open>An edge of the graph: its key and what the last write put on it.\<close>

record permission_edge =
  pe_actions :: "string list"
  pe_deny_actions :: "string list"
  pe_policy_chain_ids :: "string list"
  pe_last_resolved :: int

type_synonym edges = "string \<times> string \<times> string \<rightharpoonup> permission_edge"

definition edge_of :: "int \<Rightarrow> resolved_permission \<Rightarrow> permission_edge" where
  "edge_of last_resolved d = \<lparr>pe_actions = rp_actions d, pe_deny_actions = rp_deny_actions d,
     pe_policy_chain_ids = chain_ids (rp_policy_chain d), pe_last_resolved = last_resolved\<rparr>"

text \<open>\<open>run\<close> tells whether the session accepts the write for a decision or raises; the writes before an
  exception stay.\<close>

fun write_edges :: "(resolved_permission \<Rightarrow> bool) \<Rightarrow> string \<Rightarrow> int \<Rightarrow> resolved_permission list \<Rightarrow> edges \<Rightarrow> nat
    \<Rightarrow> edges \<times> nat option" where
  "write_edges run provider last_resolved [] g written = (g, Some written)"
| "write_edges run provider last_resolved (d # ds) g written =
     (if run d
      then write_edges run provider last_resolved ds
             (g((rp_principal_id d, rp_resource_id d, provider) \<mapsto> edge_of last_resolved d)) (Suc written)
      else (g, None))"

definition cache_result_into_neo4j :: "(resolved_permission \<Rightarrow> bool) \<Rightarrow> resolver_result \<Rightarrow> edges \<Rightarrow> edges \<times> nat" where
  "cache_result_into_neo4j run result g =
     (case write_edges run (rr_provider result) (rr_last_resolved result) (rr_decisions result) g 0 of
        (g', None) \<Rightarrow> (g', 0)
      | (g', Some written) \<Rightarrow> (g', written))"


subsection \<open>The endpoint\<close>

text \<open>\<open>get_effective_permissions\<close> of \<open>api/v1/endpoints/effective_permissions.py\<close>.  \<open>inline\<close> is the decoded
  query parameter: absent, not decodable, or a snapshot.  The cache is written after the response.\<close>

definition exn_status :: "resolver_exn \<Rightarrow> nat" where
  "exn_status e =
     (case e of NotImplementedError p \<Rightarrow> 501 | ResolverError m \<Rightarrow> 412 | Py ValueError \<Rightarrow> 400 | Py x \<Rightarrow> 500)"

definition get_effective_permissions ::
  "bool \<Rightarrow> (resolved_permission \<Rightarrow> bool) \<Rightarrow> string \<Rightarrow> string \<Rightarrow> snapshot option option \<Rightarrow> int \<Rightarrow> edges
    \<Rightarrow> edges \<times> nat \<times> resolver_result option" where
  "get_effective_permissions inline_allowed run principal_id provider inline now g =
     (if provider \<notin> set SUPPORTED_PROVIDERS then (g, 400, None)
      else if inline \<noteq> None \<and> \<not> inline_allowed then (g, 403, None)
      else if inline = Some None then (g, 400, None)
      else case resolve_effective_permissions provider principal_id (case inline of None \<Rightarrow> None | Some s \<Rightarrow> s) None now of
        Inl e \<Rightarrow> (g, exn_status e, None)
      | Inr result \<Rightarrow>
          ((if rr_decisions result = [] then g else fst (cache_result_into_neo4j run result g)), 200, Some result))"

subsection \<open>What an answer should be\<close>

definition policy_statements :: "policy \<Rightarrow> val list" where
  "policy_statements p = (case statements_of p of Inl e \<Rightarrow> [] | Inr sts \<Rightarrow> sts)"

definition names_action :: "string list \<Rightarrow> val \<Rightarrow> string \<Rightarrow> bool" where
  "names_action catalogue v a =
     (case v of VStr s \<Rightarrow> if CHR ''*'' \<in> set s then a \<in> set catalogue \<and> fnmatchcase a s else a = s | _ \<Rightarrow> False)"

text \<open>A statement of this effect applies to the request and names the action.\<close>

definition statement_says :: "request_ctx \<Rightarrow> bool \<Rightarrow> string \<Rightarrow> val \<Rightarrow> string \<Rightarrow> bool" where
  "statement_says rq required e statement a =
     (case statement of
        VDict st \<Rightarrow> statement_applies rq required st = Inr True \<and> statement_effect st = VStr e
          \<and> list_ex (\<lambda>v. names_action (rq_catalogue rq) v a) (as_list (vget st ''Action''))
      | _ \<Rightarrow> False)"

definition policy_says :: "request_ctx \<Rightarrow> bool \<Rightarrow> string \<Rightarrow> policy \<Rightarrow> string \<Rightarrow> bool" where
  "policy_says rq required e p a = list_ex (\<lambda>st. statement_says rq required e st a) (policy_statements p)"

definition some_policy_says :: "request_ctx \<Rightarrow> bool \<Rightarrow> string \<Rightarrow> (string \<times> policy) list \<Rightarrow> string list \<Rightarrow> string \<Rightarrow> bool" where
  "some_policy_says rq required e policies ids a =
     list_ex (\<lambda>i. case dict_get policies i of None \<Rightarrow> False | Some p \<Rightarrow> policy_says rq required e p a) ids"

definition resource_policy_ids :: "resource_doc \<Rightarrow> string list" where
  "resource_policy_ids resource = (case rd_resource_policy_id resource of Some i \<Rightarrow> if i = [] then [] else [i] | None \<Rightarrow> [])"

definition granted :: "request_ctx \<Rightarrow> (string \<times> policy) list \<Rightarrow> string list \<Rightarrow> resource_doc \<Rightarrow> string \<Rightarrow> bool" where
  "granted rq policies refs resource a \<longleftrightarrow>
     some_policy_says rq False ''Allow'' policies refs a
     \<or> some_policy_says rq True ''Allow'' policies (resource_policy_ids resource) a"

definition denied :: "request_ctx \<Rightarrow> (string \<times> policy) list \<Rightarrow> string list \<Rightarrow> string list \<Rightarrow> resource_doc \<Rightarrow> string \<Rightarrow> bool" where
  "denied rq policies refs scp_ids resource a \<longleftrightarrow>
     some_policy_says rq False ''Deny'' policies refs a
     \<or> some_policy_says rq True ''Deny'' policies (resource_policy_ids resource) a
     \<or> some_policy_says rq False ''Deny'' policies scp_ids a"

definition within_scps :: "request_ctx \<Rightarrow> (string \<times> policy) list \<Rightarrow> string list \<Rightarrow> string \<Rightarrow> bool" where
  "within_scps rq policies scp_ids a \<longleftrightarrow> scp_ids = [] \<or> some_policy_says rq False ''Allow'' policies scp_ids a"

definition actions_of :: "resolved_permission option \<Rightarrow> string set" where
  "actions_of d = (case d of None \<Rightarrow> {} | Some rp \<Rightarrow> set (rp_actions rp))"

definition deny_actions_of :: "resolved_permission option \<Rightarrow> string set" where
  "deny_actions_of d = (case d of None \<Rightarrow> {} | Some rp \<Rightarrow> set (rp_deny_actions rp))"

lemma expand_action_says:
  "expand_action catalogue v = Inr A \<Longrightarrow> finite A \<and> (a \<in> A \<longleftrightarrow> names_action catalogue v a)"
  by (auto simp: expand_action_def names_action_def split: val.splits if_splits)

lemma expand_actions_says:
  "expand_actions catalogue vs = Inr A \<Longrightarrow> finite A \<and> (a \<in> A \<longleftrightarrow> list_ex (\<lambda>v. names_action catalogue v a) vs)"
proof (induction vs arbitrary: A)
  case (Cons v vs)
  then obtain B C where "expand_action catalogue v = Inr B" "expand_actions catalogue vs = Inr C" "A = B \<union> C"
    by (auto simp: bind_res_eq_Inr)
  with Cons.IH [of C] expand_action_says [of catalogue v B a] show ?case by auto
qed auto

lemma eval_statement_says:
  "eval_statement rq required st = Inr (A, D) \<Longrightarrow>
     finite A \<and> finite D \<and> (a \<in> A \<longleftrightarrow> statement_says rq required ''Allow'' st a)
     \<and> (a \<in> D \<longleftrightarrow> statement_says rq required ''Deny'' st a)"
  using expand_actions_says [of "rq_catalogue rq" _ _ a]
  by (auto simp: eval_statement_def statement_says_def bind_res_eq_Inr split: val.splits if_splits)

lemma eval_statements_says:
  "eval_statements rq required sts = Inr (A, D) \<Longrightarrow>
     finite A \<and> finite D \<and> (a \<in> A \<longleftrightarrow> list_ex (\<lambda>st. statement_says rq required ''Allow'' st a) sts)
     \<and> (a \<in> D \<longleftrightarrow> list_ex (\<lambda>st. statement_says rq required ''Deny'' st a) sts)"
proof (induction sts arbitrary: A D)
  case (Cons st sts)
  then obtain A1 D1 A2 D2 where "eval_statement rq required st = Inr (A1, D1)" "eval_statements rq required sts = Inr (A2, D2)"
    "A = A1 \<union> A2" "D = D1 \<union> D2" by (auto simp: bind_res_eq_Inr)
  with Cons.IH [of A2 D2] eval_statement_says [of rq required st A1 D1 a] show ?case by auto
qed auto

lemma evaluate_policy_says:
  "evaluate_policy rq required p = Inr (A, D) \<Longrightarrow>
     finite A \<and> finite D \<and> (a \<in> A \<longleftrightarrow> policy_says rq required ''Allow'' p a) \<and> (a \<in> D \<longleftrightarrow> policy_says rq required ''Deny'' p a)"
  using eval_statements_says [of rq required _ A D a]
  by (auto simp: evaluate_policy_def policy_says_def policy_statements_def bind_res_eq_Inr)


text \<open>The three loops, for any evaluation that says what policies say.\<close>

lemma identity_loop_says:
  assumes "identity_loop (evaluate_policy rq required) policies refs = Inr (A, D, chain)"
  shows "finite A \<and> finite D \<and> (a \<in> A \<longleftrightarrow> some_policy_says rq required ''Allow'' policies (map fst refs) a)
    \<and> (a \<in> D \<longleftrightarrow> some_policy_says rq required ''Deny'' policies (map fst refs) a)"
  using assms
proof (induction refs arbitrary: A D chain)
  case (Cons ref refs)
  obtain i via where ref: "ref = (i, via)" by force
  show ?case
  proof (cases "dict_get policies i")
    case None
    with Cons.IH [of A D chain] Cons.prems show ?thesis by (simp add: ref some_policy_says_def)
  next
    case (Some p)
    with Cons.prems obtain A1 D1 A2 D2 ch where "evaluate_policy rq required p = Inr (A1, D1)"
      "identity_loop (evaluate_policy rq required) policies refs = Inr (A2, D2, ch)" "A = A1 \<union> A2" "D = D1 \<union> D2"
      by (auto simp: ref bind_res_eq_Inr)
    with Cons.IH [of A2 D2 ch] evaluate_policy_says [of rq required p A1 D1 a] Some show ?thesis
      by (simp add: ref some_policy_says_def)
  qed
qed (simp add: some_policy_says_def)

lemma scp_loop_says:
  assumes "scp_loop (evaluate_policy rq required) policies ids = Inr (A, D, chain)"
  shows "finite A \<and> finite D \<and> (a \<in> A \<longleftrightarrow> some_policy_says rq required ''Allow'' policies ids a)
    \<and> (a \<in> D \<longleftrightarrow> some_policy_says rq required ''Deny'' policies ids a)"
  using assms
proof (induction ids arbitrary: A D chain)
  case (Cons i ids)
  show ?case
  proof (cases "dict_get policies i")
    case None
    with Cons.IH [of A D chain] Cons.prems show ?thesis by (simp add: some_policy_says_def)
  next
    case (Some p)
    with Cons.prems obtain A1 D1 A2 D2 ch where "evaluate_policy rq required p = Inr (A1, D1)"
      "scp_loop (evaluate_policy rq required) policies ids = Inr (A2, D2, ch)" "A = A1 \<union> A2" "D = D1 \<union> D2"
      by (auto simp: bind_res_eq_Inr)
    with Cons.IH [of A2 D2 ch] evaluate_policy_says [of rq required p A1 D1 a] Some show ?thesis
      by (simp add: some_policy_says_def)
  qed
qed (simp add: some_policy_says_def)

lemma resource_part_says:
  assumes "resource_part (evaluate_policy rq required) policies (rd_resource_policy_id resource) = Inr (A, D, chain)"
  shows "finite A \<and> finite D \<and> (a \<in> A \<longleftrightarrow> some_policy_says rq required ''Allow'' policies (resource_policy_ids resource) a)
    \<and> (a \<in> D \<longleftrightarrow> some_policy_says rq required ''Deny'' policies (resource_policy_ids resource) a)"
  using assms evaluate_policy_says [of rq required _ A D a]
  by (auto simp: resource_part_def resource_policy_ids_def some_policy_says_def bind_res_eq_Inr split: option.splits if_splits)

lemma evaluate_for_eq:
  "request_of prin resource catalogue = Inr rq \<Longrightarrow> evaluate_for prin resource catalogue required = evaluate_policy rq required"
  by (rule ext) (simp add: evaluate_for_def)

lemma decide_sets:
  assumes "finite P"
  shows "actions_of (decide prin resource scp_ids P C S ch) = {a \<in> P. a \<notin> C \<and> (scp_ids = [] \<or> a \<in> S)}"
    and "deny_actions_of (decide prin resource scp_ids P C S ch) = {a \<in> P. a \<in> C \<or> (scp_ids \<noteq> [] \<and> a \<notin> S)}"
  using assms by (auto simp: decide_def Let_def actions_of_def deny_actions_of_def sorted_actions_def)

lemma resolve_resource_exact:
  assumes "resolve_resource prin resource refs policies scp_ids cat = Inr d"
    and "service_catalogue resource cat = Inr catalogue" "request_of prin resource catalogue = Inr rq"
  shows "(a \<in> actions_of d \<longleftrightarrow> granted rq policies (map fst refs) resource a
        \<and> \<not> denied rq policies (map fst refs) scp_ids resource a \<and> within_scps rq policies scp_ids a)
    \<and> (a \<in> deny_actions_of d \<longleftrightarrow> granted rq policies (map fst refs) resource a
        \<and> (denied rq policies (map fst refs) scp_ids resource a \<or> \<not> within_scps rq policies scp_ids a))"
proof -
  obtain IA ID c1 RA RD c2 SA SD c3 where
    l1: "identity_loop (evaluate_policy rq False) policies refs = Inr (IA, ID, c1)"
    and l2: "resource_part (evaluate_policy rq True) policies (rd_resource_policy_id resource) = Inr (RA, RD, c2)"
    and l3: "scp_loop (evaluate_policy rq False) policies scp_ids = Inr (SA, SD, c3)"
    and d: "d = decide prin resource scp_ids (IA \<union> RA) (ID \<union> RD \<union> SD) SA (c1 @ c2 @ c3)"
    using assms by (auto simp: resolve_resource_def bind_res_eq_Inr evaluate_for_eq)
  note says = identity_loop_says [OF l1, of a] resource_part_says [OF l2, of a] scp_loop_says [OF l3, of a]
  then have "finite (IA \<union> RA)" by simp
  from says show ?thesis unfolding d decide_sets [OF \<open>finite (IA \<union> RA)\<close>] granted_def denied_def within_scps_def by auto
qed


subsection \<open>A resolution is exact\<close>

definition identity_refs :: "snapshot \<Rightarrow> principal_doc \<Rightarrow> (string \<times> string option) list" where
  "identity_refs snap prin =
     collect_identity_policies prin (dict_of_pairs (map (\<lambda>g. (gr_id g, g)) (sn_groups snap)))"

definition decision_of :: "snapshot \<Rightarrow> principal_doc \<Rightarrow> resource_doc \<Rightarrow> resolver_exn + resolved_permission option" where
  "decision_of snap prin resource =
     resolve_resource prin resource (identity_refs snap prin) (dict_of_pairs (sn_policies snap)) (sn_scps snap)
       (sn_action_catalogue snap)"

lemma resource_loop_Inr:
  "resource_loop f rs = Inr ds \<longleftrightarrow>
     (\<forall>r\<in>set rs. \<exists>d. f r = Inr d) \<and> ds = concat (map (\<lambda>r. case f r of Inr (Some d) \<Rightarrow> [d] | _ \<Rightarrow> []) rs)"
proof (induction rs arbitrary: ds)
  case (Cons r rs)
  then show ?case by (cases "f r") (auto simp: bind_res_eq_Inr split: option.splits)
qed auto

lemma aws_resolve_Inr:
  "aws_resolve (Some snap) principal_id now = Inr r \<longleftrightarrow>
     (\<exists>prin. find_principal snap principal_id = Some prin \<and> (\<forall>res\<in>set (sn_resources snap). \<exists>d. decision_of snap prin res = Inr d)
      \<and> r = \<lparr>rr_provider = ''aws'', rr_principal_id = principal_id, rr_coverage = ''full'', rr_last_resolved = now,
             rr_decisions = concat (map (\<lambda>res. case decision_of snap prin res of Inr (Some d) \<Rightarrow> [d] | _ \<Rightarrow> []) (sn_resources snap)),
             rr_notes = (if truthy (pr_permissions_boundary prin) then [BOUNDARY_NOTE] else [])\<rparr>)"
  by (auto simp: aws_resolve_def resolve_decisions_def Let_def bind_res_eq_Inr resource_loop_Inr decision_of_def [abs_def]
      identity_refs_def [symmetric] split: option.splits)

lemma resolved_catalogue:
  "decision_of snap prin res = Inr d \<Longrightarrow> \<exists>cat. service_catalogue res (sn_action_catalogue snap) = Inr cat"
  by (auto simp: decision_of_def resolve_resource_def bind_res_eq_Inr)

text \<open>
  C4.  A resolution is exact for the statements it models: for a principal with an ARN there is one
  decision per resource at most, and an action is listed for a resource if and only if an identity
  policy of the principal or its groups, or the policy of the resource in naming the principal,
  allows it, no policy (service control policies included) denies it, and, when there are service
  control policies, one of them allows it; the blocked actions are exactly those granted and taken
  away again, so the two lists are disjoint and together are what was granted.
\<close>

theorem aws_permissions_exact:
  assumes "aws_resolve (Some snap) principal_id now = Inr r" "find_principal snap principal_id = Some prin"
    and "pr_arn prin = Some arn" "res \<in> set (sn_resources snap)"
  shows "\<exists>cat d. service_catalogue res (sn_action_catalogue snap) = Inr cat \<and> decision_of snap prin res = Inr d
    \<and> (\<forall>rp. d = Some rp \<longrightarrow> rp \<in> set (rr_decisions r))
    \<and> (let rq = \<lparr>rq_principal_arn = arn, rq_resource_arn = rd_arn res, rq_context = rd_context res, rq_catalogue = cat\<rparr>;
           policies = dict_of_pairs (sn_policies snap); ids = map fst (identity_refs snap prin);
           ok = (\<lambda>a. \<not> denied rq policies ids (sn_scps snap) res a \<and> within_scps rq policies (sn_scps snap) a)
       in \<forall>a. (a \<in> actions_of d \<longleftrightarrow> granted rq policies ids res a \<and> ok a)
             \<and> (a \<in> deny_actions_of d \<longleftrightarrow> granted rq policies ids res a \<and> \<not> ok a))"
proof -
  from assms obtain d where d: "decision_of snap prin res = Inr d"
    and r: "rr_decisions r = concat (map (\<lambda>res. case decision_of snap prin res of Inr (Some d) \<Rightarrow> [d] | _ \<Rightarrow> []) (sn_resources snap))"
    by (auto simp: aws_resolve_Inr)
  obtain cat where cat: "service_catalogue res (sn_action_catalogue snap) = Inr cat" using resolved_catalogue [OF d] by blast
  have rq: "request_of prin res cat = Inr \<lparr>rq_principal_arn = arn, rq_resource_arn = rd_arn res,
      rq_context = rd_context res, rq_catalogue = cat\<rparr>" by (simp add: request_of_def assms(3))
  have "\<forall>rp. d = Some rp \<longrightarrow> rp \<in> set (rr_decisions r)" using d assms(4) by (auto simp: r intro!: bexI [of _ res])
  then show ?thesis
    using d cat resolve_resource_exact [OF d [unfolded decision_of_def] cat rq] by (auto simp: Let_def)
qed

definition demo_policy :: "(string \<times> val) list list \<Rightarrow> policy" where
  "demo_policy sts = \<lparr>po_name = None, po_document = VDict [(''Statement'', VList (map VDict sts))]\<rparr>"

definition demo_principal :: principal_doc where
  "demo_principal = \<lparr>pr_id = ''u'', pr_arn = Some ''arn:u'', pr_inline_policies = [''p''], pr_attached_policies = [],
     pr_groups = [''g''], pr_permissions_boundary = VNone\<rparr>"

definition demo_resource :: resource_doc where
  "demo_resource = \<lparr>rd_id = ''b'', rd_arn = ''arn:aws:s3:::b'', rd_kind = None, rd_service = None,
     rd_service_actions = [''s3:Get'', ''s3:Put'', ''s3:List''], rd_context = [], rd_resource_policy_id = None\<rparr>"

definition demo_snapshot :: "policy \<Rightarrow> policy \<Rightarrow> string list \<Rightarrow> snapshot" where
  "demo_snapshot p q scps = \<lparr>sn_principals = [demo_principal], sn_groups = [\<lparr>gr_id = ''g'', gr_inline_policies = [],
       gr_attached_policies = [''q'']\<rparr>], sn_policies = [(''p'', p), (''q'', q)], sn_resources = [demo_resource],
     sn_scps = scps, sn_action_catalogue = []\<rparr>"

definition demo_allow_all :: policy where
  "demo_allow_all = demo_policy [[(''Effect'', VStr ''Allow''), (''Action'', VStr ''s3:*''), (''Resource'', VStr ''*'')]]"

definition demo_deny_put :: policy where
  "demo_deny_put = demo_policy [[(''Effect'', VStr ''Deny''), (''Action'', VList [VStr ''s3:Put''])]]"

lemma demo_decision:
  "decision_of (demo_snapshot demo_allow_all demo_deny_put []) demo_principal demo_resource =
     Inr (Some \<lparr>rp_principal_id = ''u'', rp_resource_id = ''b'', rp_actions = [''s3:Get'', ''s3:List''],
       rp_deny_actions = [''s3:Put''],
       rp_policy_chain = [\<lparr>cs_kind = ''policy'', cs_id = ''p'', cs_name = ''p'', cs_effect = Allow, cs_via = None\<rparr>,
                          \<lparr>cs_kind = ''policy'', cs_id = ''q'', cs_name = ''q'', cs_effect = Deny, cs_via = Some ''g''\<rparr>],
       rp_resource_kind = None, rp_resource_arn = Some ''arn:aws:s3:::b''\<rparr>)"
  by code_simp


lemma demo_find: "find_principal (demo_snapshot p q scps) ''u'' = Some demo_principal"
  by (simp add: find_principal_def principals_by_id_def demo_snapshot_def dict_of_pairs_def demo_principal_def)

lemma demo_resolves:
  "\<exists>r. aws_resolve (Some (demo_snapshot demo_allow_all demo_deny_put [])) ''u'' 0 = Inr r \<and> rr_decisions r \<noteq> []"
  by (simp add: aws_resolve_Inr demo_find demo_decision [simplified] demo_snapshot_def [of demo_allow_all demo_deny_put "[]", THEN arg_cong, of sn_resources])

lemma aws_permissions_exact_witness:
  "\<exists>cat. service_catalogue demo_resource [] = Inr cat
    \<and> granted \<lparr>rq_principal_arn = ''arn:u'', rq_resource_arn = ''arn:aws:s3:::b'', rq_context = [], rq_catalogue = cat\<rparr>
        (dict_of_pairs [(''p'', demo_allow_all), (''q'', demo_deny_put)]) [''p'', ''q''] demo_resource ''s3:Get''"
proof -
  let ?snap = "demo_snapshot demo_allow_all demo_deny_put []"
  obtain r where r: "aws_resolve (Some ?snap) ''u'' 0 = Inr r" using demo_resolves by blast
  have res: "demo_resource \<in> set (sn_resources ?snap)" "pr_arn demo_principal = Some ''arn:u''"
    by (simp_all add: demo_snapshot_def demo_principal_def)
  have ids: "map fst (identity_refs ?snap demo_principal) = [''p'', ''q'']"
    by (simp add: identity_refs_def collect_identity_policies_def demo_snapshot_def demo_principal_def dict_of_pairs_def)
  show ?thesis
    using aws_permissions_exact [OF r demo_find res(2,1)] demo_decision ids
    by (auto simp: Let_def actions_of_def demo_snapshot_def demo_resource_def)
qed

subsection \<open>Statements outside the model\<close>

text \<open>A statement whose condition starts with another operator, or that has no \<open>Action\<close> element.\<close>

definition MODELLED_OPERATORS :: "string list" where
  "MODELLED_OPERATORS = [''StringEquals'', ''StringLike'']"

fun foreign_operator :: "val \<Rightarrow> bool" where
  "foreign_operator (VDict ((op, VDict kv) # ops)) = (op \<notin> set MODELLED_OPERATORS)"
| "foreign_operator c = False"

definition unmodelled :: "val \<Rightarrow> bool" where
  "unmodelled statement =
     (case statement of
        VDict st \<Rightarrow> foreign_operator (vget st ''Condition'') \<or> \<not> truthy (vget st ''Condition'') \<and> vget st ''Action'' = VNone
      | _ \<Rightarrow> False)"

definition drop_unmodelled :: "policy \<Rightarrow> policy" where
  "drop_unmodelled p =
     (case statements_of p of
        Inl e \<Rightarrow> p
      | Inr sts \<Rightarrow> p\<lparr>po_document := VDict [(''Statement'', VList (filter (\<lambda>st. \<not> unmodelled st) sts))]\<rparr>)"

lemma foreign_fails: "foreign_operator c \<Longrightarrow> condition_matches c ctx = Inr False"
  by (erule foreign_operator.elims) (auto simp: condition_matches_def operator_matches_def MODELLED_OPERATORS_def)

lemma no_condition: "\<not> truthy c \<Longrightarrow> condition_matches c ctx = Inr True"
  by (simp add: condition_matches_def)

lemma unmodelled_cases:
  "unmodelled (VDict st) \<Longrightarrow> condition_matches (vget st ''Condition'') ctx = Inr False
    \<or> condition_matches (vget st ''Condition'') ctx = Inr True \<and> vget st ''Action'' = VNone"
  using foreign_fails [of "vget st ''Condition''" ctx] no_condition [of "vget st ''Condition''" ctx] by (auto simp: unmodelled_def)

lemma eval_statement_skips:
  "statement_applies rq required d = Inr False \<Longrightarrow> eval_statement rq required (VDict d) = Inr ({}, {})"
  "statement_applies rq required d = Inr True \<Longrightarrow> vget d ''Action'' = VNone \<Longrightarrow> eval_statement rq required (VDict d) = Inr ({}, {})"
  by (simp_all add: eval_statement_def as_list_def)

lemma eval_unmodelled:
  assumes "unmodelled st"
  shows "eval_statement rq required st = Inr ({}, {})"
proof -
  from assms obtain d where d: "st = VDict d" by (cases st) (simp_all add: unmodelled_def)
  from unmodelled_cases [OF assms [unfolded d], of "rq_context rq"]
  have "statement_applies rq required d = Inr False \<or> statement_applies rq required d = Inr True \<and> vget d ''Action'' = VNone"
    by (auto simp: statement_applies_def simp del: not_None_eq)
  with eval_statement_skips show ?thesis unfolding d by blast
qed

lemma eval_drop_unmodelled:
  "eval_statements rq required (filter (\<lambda>st. \<not> unmodelled st) sts) = eval_statements rq required sts"
  by (induction sts) (auto simp: eval_unmodelled bind_res_def split: sum.splits prod.splits)

lemma evaluate_drop_unmodelled: "evaluate_policy rq required (drop_unmodelled p) = evaluate_policy rq required p"
  by (auto simp: evaluate_policy_def drop_unmodelled_def statements_of_def py_or_def as_list_def vget_def eval_drop_unmodelled
      split: sum.splits)

lemma dict_of_pairs_map: "dict_of_pairs (map (\<lambda>(k, v). (k, f v)) kvs) = map (\<lambda>(k, v). (k, f v)) (dict_of_pairs kvs)"
proof -
  have "fold (\<lambda>(k, v). dict_set k v) (map (\<lambda>(k, v). (k, f v)) kvs) (map (\<lambda>(k, v). (k, f v)) d)
      = map (\<lambda>(k, v). (k, f v)) (fold (\<lambda>(k, v). dict_set k v) kvs d)" for d
    by (induction kvs arbitrary: d) (auto simp: dict_set_map)
  from this [of "[]"] show ?thesis by (simp add: dict_of_pairs_def)
qed

lemma policy_name_drop [simp]: "policy_name (drop_unmodelled p) i = policy_name p i"
  by (simp add: policy_name_def drop_unmodelled_def split: sum.splits)

definition drop_all :: "(string \<times> policy) list \<Rightarrow> (string \<times> policy) list" where
  "drop_all policies = map (\<lambda>(i, p). (i, drop_unmodelled p)) policies"

lemma loops_drop:
  assumes "\<And>p. eval (drop_unmodelled p) = eval p"
  shows "identity_loop eval (drop_all policies) refs = identity_loop eval policies refs"
    and "resource_part eval (drop_all policies) rid = resource_part eval policies rid"
    and "scp_loop eval (drop_all policies) ids = scp_loop eval policies ids"
proof -
  show "identity_loop eval (drop_all policies) refs = identity_loop eval policies refs"
    by (induction refs) (auto simp: drop_all_def dict_get_map assms split: option.splits cong: if_cong)
  show "resource_part eval (drop_all policies) rid = resource_part eval policies rid"
    by (auto simp: resource_part_def drop_all_def dict_get_map assms split: option.splits cong: if_cong)
  show "scp_loop eval (drop_all policies) ids = scp_loop eval policies ids"
    by (induction ids) (auto simp: drop_all_def dict_get_map assms Let_def split: option.splits cong: if_cong)
qed

lemma evaluate_for_drop: "evaluate_for prin resource cat required (drop_unmodelled p) = evaluate_for prin resource cat required p"
  by (simp add: evaluate_for_def evaluate_drop_unmodelled)

lemma resolve_resource_drop:
  "resolve_resource prin resource refs (drop_all policies) scp_ids cat = resolve_resource prin resource refs policies scp_ids cat"
  by (simp add: resolve_resource_def loops_drop evaluate_for_drop)

text \<open>
  What is outside the model is dropped without a trace: a resolution is the same, notes
  included, as that of the snapshot without the statements that have a condition with another
  operator first or no Action element, so a deny that depends on such a condition never takes an
  action away; the notes only depend on the permissions boundary of the principal.
\<close>

theorem unmodelled_ignored:
  "aws_resolve (Some (snap\<lparr>sn_policies := drop_all (sn_policies snap)\<rparr>)) principal_id now = aws_resolve (Some snap) principal_id now
   \<and> (case aws_resolve (Some snap) principal_id now of
          Inl e \<Rightarrow> True
        | Inr r \<Rightarrow> rr_notes r = (case find_principal snap principal_id of
            None \<Rightarrow> [] | Some prin \<Rightarrow> if truthy (pr_permissions_boundary prin) then [BOUNDARY_NOTE] else []))"
proof
  have "resolve_decisions (snap\<lparr>sn_policies := drop_all (sn_policies snap)\<rparr>) prin = resolve_decisions snap prin" for prin
    using resolve_resource_drop [unfolded drop_all_def]
    by (simp add: resolve_decisions_def Let_def drop_all_def dict_of_pairs_map)
  then show "aws_resolve (Some (snap\<lparr>sn_policies := drop_all (sn_policies snap)\<rparr>)) principal_id now = aws_resolve (Some snap) principal_id now"
    by (simp add: aws_resolve_def find_principal_def principals_by_id_def principals_by_arn_def split: option.splits)
qed (auto simp: aws_resolve_Inr split: sum.splits)


subsection \<open>What the cache keeps\<close>

definition edge_key :: "string \<Rightarrow> resolved_permission \<Rightarrow> string \<times> string \<times> string" where
  "edge_key provider d = (rp_principal_id d, rp_resource_id d, provider)"

lemma write_edges_other:
  "k \<notin> edge_key provider ` set ds \<Longrightarrow> fst (write_edges run provider t ds g n) k = g k"
  by (induction ds arbitrary: g n) (auto simp: edge_key_def)

lemma write_edges_all:
  "list_all run ds \<Longrightarrow> distinct (map (edge_key provider) ds) \<Longrightarrow>
     snd (write_edges run provider t ds g n) = Some (n + length ds)
     \<and> (\<forall>d\<in>set ds. fst (write_edges run provider t ds g n) (edge_key provider d) = Some (edge_of t d))"
proof (induction ds arbitrary: g n)
  case (Cons d ds)
  then have "edge_key provider d \<notin> edge_key provider ` set ds" by auto
  with Cons write_edges_other [of "edge_key provider d" provider ds run t] show ?case
    by (auto simp: edge_key_def [symmetric] fun_upd_def [symmetric])
qed simp

lemma cache_result_edges: "fst (cache_result_into_neo4j run r g) = fst (write_edges run (rr_provider r) (rr_last_resolved r) (rr_decisions r) g 0)"
  by (simp add: cache_result_into_neo4j_def split: prod.splits option.splits)

lemma endpoint_answer:
  assumes "get_effective_permissions allowed run pid provider inline now g = (g', st, Some r)"
  shows "st = 200 \<and> g' = fst (write_edges run ''aws'' now (rr_decisions r) g 0)"
proof -
  obtain snap where snap: "aws_resolve snap pid now = Inr r"
    and g': "st = 200" "g' = (if rr_decisions r = [] then g else fst (cache_result_into_neo4j run r g))"
    using assms by (auto simp: get_effective_permissions_def resolve_effective_permissions_def Let_def split: if_splits sum.splits)
  from snap have "rr_provider r = ''aws''" "rr_last_resolved r = now"
    by (cases snap; auto simp: aws_resolve_def bind_res_eq_Inr split: option.splits)+
  with g' show ?thesis by (simp add: cache_result_edges)
qed

text \<open>
  The cached edges are those of the latest answers, but nothing is ever taken away: a refused
  request leaves the graph as it is; an answer, also one from an inline snapshot, changes the edges
  of its decisions only, to exactly what the decisions say when every write is accepted; so the edge
  of a resource that the principal has lost all access to stays as it was.
\<close>

theorem cached_edges_stay:
  assumes "get_effective_permissions allowed run pid provider inline now g = (g', st, resp)"
  shows "(resp = None \<longrightarrow> g' = g \<and> st \<noteq> 200)
    \<and> (\<forall>r. resp = Some r \<longrightarrow> (\<forall>k. k \<notin> edge_key ''aws'' ` set (rr_decisions r) \<longrightarrow> g' k = g k)
        \<and> (list_all run (rr_decisions r) \<and> distinct (map (edge_key ''aws'') (rr_decisions r))
             \<longrightarrow> (\<forall>d\<in>set (rr_decisions r). g' (edge_key ''aws'' d) = Some (edge_of now d))))"
proof -
  have "resp = None \<Longrightarrow> g' = g \<and> st \<noteq> 200"
    using assms by (auto simp: get_effective_permissions_def exn_status_def split: if_splits sum.splits resolver_exn.splits py_error.splits)
  with assms endpoint_answer [of allowed run pid provider inline now g g' st] write_edges_other write_edges_all
  show ?thesis by blast
qed

lemma demo_revoked:
  "aws_resolve (Some (demo_snapshot demo_deny_put demo_deny_put [])) ''u'' 0
   = Inr \<lparr>rr_provider = ''aws'', rr_principal_id = ''u'', rr_coverage = ''full'', rr_last_resolved = 0, rr_decisions = [], rr_notes = []\<rparr>"
proof -
  have "decision_of (demo_snapshot demo_deny_put demo_deny_put []) demo_principal demo_resource = Inr None" by code_simp
  then show ?thesis by (simp add: aws_resolve_Inr demo_find) (simp add: demo_snapshot_def demo_principal_def)
qed

lemma cached_edges_stay_witness:
  "\<exists>g g' r. get_effective_permissions True (\<lambda>d. True) ''u'' ''aws'' (Some (Some (demo_snapshot demo_deny_put demo_deny_put []))) 0 g
      = (g', 200, Some r) \<and> rr_decisions r = [] \<and> (\<exists>e. g' (''u'', ''b'', ''aws'') = Some e \<and> pe_actions e = [''s3:Get''])"
proof -
  let ?e = "\<lparr>pe_actions = [''s3:Get''], pe_deny_actions = [], pe_policy_chain_ids = [], pe_last_resolved = -1\<rparr>"
  let ?g = "(\<lambda>k. None)((''u'', ''b'', ''aws'') \<mapsto> ?e) :: edges"
  obtain g' r where r: "get_effective_permissions True (\<lambda>d. True) ''u'' ''aws'' (Some (Some (demo_snapshot demo_deny_put demo_deny_put []))) 0 ?g
      = (g', 200, Some r)" "rr_decisions r = []"
    by (simp add: get_effective_permissions_def resolve_effective_permissions_def SUPPORTED_PROVIDERS_def demo_revoked)
  from cached_edges_stay [OF r(1)] r(2) have "g' (''u'', ''b'', ''aws'') = Some ?e" by simp
  with r show ?thesis by (intro exI [of _ ?g] exI [of _ g'] exI [of _ r]) simp
qed


text \<open>A deny without multi-factor authentication, the usual form of such a condition, has no effect.\<close>

lemma demo_mfa_deny:
  "map_sum id (map_option (\<lambda>d. (rp_actions d, rp_deny_actions d)))
     (decision_of (demo_snapshot demo_allow_all
        (demo_policy [[(''Effect'', VStr ''Deny''), (''Action'', VStr ''s3:*''),
           (''Condition'', VDict [(''Bool'', VDict [(''aws:MultiFactorAuthPresent'', VStr ''false'')])])]]) [])
        demo_principal demo_resource)
   = Inr (Some ([''s3:Get'', ''s3:List'', ''s3:Put''], []))"
  by code_simp

end
