(* ===== verification/Alert_Queue.thy ===== *)
theory Alert_Queue
  imports Py_Text "HOL-Library.Product_Lexorder" "HOL-Library.Multiset"
begin

text \<open>
  The investigation queue (\<open>services/api/app/services/alert_queue.py\<close>): targets and due times, the
  projections of a row, the assembly of a page, and the claim of an alert as the database statements
  it makes, with their interleavings; and the endpoints of \<open>api/v1/endpoints/alerts.py\<close> that change a
  row (\<open>update_alert\<close>, \<open>escalate_alert\<close>, \<open>snooze_alert\<close>).  Times are microseconds.
\<close>

subsection \<open>Rows\<close>

record alert_row =
  qa_id :: string
  qa_tenant_id :: string
  qa_title :: string
  qa_severity :: string
  qa_status :: string
  qa_priority :: int
  qa_category :: "string option"
  qa_connector_type :: "string option"
  qa_assigned_to_id :: "string option"
  qa_assigned_at :: "int option"
  qa_case_id :: "string option"
  qa_first_seen :: int
  qa_snoozed_until :: "int option"
  qa_snoozed_by_id :: "string option"
  qa_resolved_at :: "int option"
  qa_updated_at :: int
  qa_tags :: "string list"
  qa_affected_hosts :: "val list"
  qa_affected_users :: "val list"
  qa_affected_assets :: "val list"
  qa_affected_ips :: "val list"
  qa_ai_recommendations :: val

record sla_config =
  sl_tenant_id :: string
  sl_severity :: string
  sl_mttd_target :: int

definition QUEUE_UNASSIGNED_SEVERITIES :: "string list" where
  "QUEUE_UNASSIGNED_SEVERITIES = [''critical'', ''high'']"

definition QUEUE_CLOSED_STATUSES :: "string list" where
  "QUEUE_CLOSED_STATUSES = [''resolved'', ''closed'', ''false_positive'', ''fp'']"

definition QUEUE_MAX_PAGE_SIZE :: int where
  "QUEUE_MAX_PAGE_SIZE = 200"

definition second :: int where "second = 1000000"

definition PERIOD_TO_TIMEDELTA :: "(string \<times> int option) list" where
  "PERIOD_TO_TIMEDELTA =
     [(''24h'', Some (24 * 3600 * second)), (''7d'', Some (7 * 86400 * second)),
      (''30d'', Some (30 * 86400 * second)), (''all'', None)]"

subsection \<open>Targets\<close>

text \<open>\<open>DEFAULT_SLA_TARGETS\<close> of \<open>sla.py\<close>, whose second definition is the one in force.\<close>

record sla_targets =
  mttd_target :: int
  mttr_target :: int
  mttc_target :: int

definition DEFAULT_SLA_TARGETS :: "(string \<times> sla_targets) list" where
  "DEFAULT_SLA_TARGETS =
     [(''critical'', \<lparr>mttd_target = 15, mttr_target = 60, mttc_target = 120\<rparr>),
      (''high'', \<lparr>mttd_target = 30, mttr_target = 120, mttc_target = 240\<rparr>),
      (''medium'', \<lparr>mttd_target = 60, mttr_target = 240, mttc_target = 480\<rparr>),
      (''low'', \<lparr>mttd_target = 120, mttr_target = 480, mttc_target = 1440\<rparr>),
      (''info'', \<lparr>mttd_target = 480, mttr_target = 1440, mttc_target = 2880\<rparr>)]"

definition load_sla_targets :: "sla_config list \<Rightarrow> string \<Rightarrow> (string \<times> int) list" where
  "load_sla_targets configs tenant_id =
     fold (\<lambda>cfg result. if dict_get result (sl_severity cfg) \<noteq> None
                       then dict_set (sl_severity cfg) (sl_mttd_target cfg) result else result)
       (filter (\<lambda>cfg. sl_tenant_id cfg = tenant_id) configs)
       (map (\<lambda>(sev, cfg). (sev, mttd_target cfg)) DEFAULT_SLA_TARGETS)"

definition sla_due :: "(string \<times> int) list \<Rightarrow> alert_row \<Rightarrow> int" where
  "sla_due targets r = qa_first_seen r + 60 * second *
     (case dict_get targets (qa_severity r) of Some mins \<Rightarrow> mins | None \<Rightarrow> 480)"

subsection \<open>The projections of a row\<close>

record queue_asset =
  as_kind :: string
  as_value :: string

record queue_action =
  ac_priority :: int
  ac_action :: string
  ac_risk :: string

definition texts :: "val list \<Rightarrow> string list" where
  "texts vs = List.map_filter (\<lambda>v. case v of VStr s \<Rightarrow> if strip s = [] then None else Some (strip s) | _ \<Rightarrow> None) vs"

definition first_asset :: "alert_row \<Rightarrow> queue_asset option" where
  "first_asset r =
     (case texts (qa_affected_hosts r) of h # hs \<Rightarrow> Some \<lparr>as_kind = ''host'', as_value = h\<rparr>
      | [] \<Rightarrow> (case texts (qa_affected_users r) of u # us \<Rightarrow> Some \<lparr>as_kind = ''user'', as_value = u\<rparr>
      | [] \<Rightarrow> (case texts (qa_affected_assets r) of a # as \<Rightarrow> Some \<lparr>as_kind = ''asset'', as_value = a\<rparr>
      | [] \<Rightarrow> (case texts (qa_affected_ips r) of i # is \<Rightarrow> Some \<lparr>as_kind = ''ip'', as_value = i\<rparr>
      | [] \<Rightarrow> None))))"

text \<open>One recommendation: a bare text of older rows, or a dictionary.\<close>

definition candidate :: "nat \<Rightarrow> val \<Rightarrow> queue_action option" where
  "candidate idx item =
     (case item of
        VStr s \<Rightarrow> if strip s = [] then None
                 else Some \<lparr>ac_priority = int idx + 1, ac_action = strip s, ac_risk = ''low''\<rparr>
      | VDict d \<Rightarrow>
          let action = strip (py_str (py_or (vget d ''action'') (VStr [])));
              prio = (case int_of_val (vget_default d ''priority'' (VInt (int idx + 1))) of
                        Some i \<Rightarrow> max 1 i | None \<Rightarrow> int idx + 1);
              risk = lower (py_str (py_or (vget d ''risk'') (VStr ''low'')))
          in if action = [] then None
             else Some \<lparr>ac_priority = prio, ac_action = action,
                        ac_risk = (if risk \<in> {''low'', ''medium'', ''high''} then risk else ''low'')\<rparr>
      | _ \<Rightarrow> None)"

definition candidates :: "val list \<Rightarrow> queue_action list" where
  "candidates raw = List.map_filter (\<lambda>(idx, item). candidate idx item) (enumerate 0 raw)"

definition first_action :: "alert_row \<Rightarrow> queue_action option" where
  "first_action r =
     (case qa_ai_recommendations r of
        VList raw \<Rightarrow> (case sort_key ac_priority (candidates raw) of [] \<Rightarrow> None | c # cs \<Rightarrow> Some c)
      | _ \<Rightarrow> None)"

subsection \<open>A page of the queue\<close>

record queue_item =
  qi_row :: alert_row
  qi_sla_due_at :: int
  qi_sla_remaining_seconds :: int
  qi_sla_breached :: bool
  qi_age_seconds :: int
  qi_asset :: "queue_asset option"
  qi_suggested_action :: "queue_action option"
  qi_bucket :: string

record queue_response =
  qp_items :: "queue_item list"
  qp_total :: nat
  qp_mine :: nat
  qp_unassigned :: nat
  qp_page :: int
  qp_page_size :: int
  qp_pages :: int
  qp_generated_at :: int

text \<open>\<open>int(delta.total_seconds())\<close>, which truncates towards zero.\<close>

definition whole_seconds :: "int \<Rightarrow> int" where
  "whole_seconds delta = (if delta < 0 then - ((- delta) div second) else delta div second)"

definition base_filter :: "string \<Rightarrow> string \<Rightarrow> int \<Rightarrow> alert_row \<Rightarrow> bool" where
  "base_filter tenant_id period now r \<longleftrightarrow>
     qa_tenant_id r = tenant_id \<and> qa_status r \<notin> set QUEUE_CLOSED_STATUSES
     \<and> (case qa_snoozed_until r of None \<Rightarrow> True | Some t \<Rightarrow> t \<le> now)
     \<and> (case dict_get PERIOD_TO_TIMEDELTA period of Some (Some delta) \<Rightarrow> now - delta \<le> qa_first_seen r | _ \<Rightarrow> True)"

definition mine_filter :: "string \<Rightarrow> string \<Rightarrow> string \<Rightarrow> int \<Rightarrow> alert_row \<Rightarrow> bool" where
  "mine_filter tenant_id user_id period now r \<longleftrightarrow>
     base_filter tenant_id period now r \<and> qa_assigned_to_id r = Some user_id"

definition unassigned_filter :: "string \<Rightarrow> string \<Rightarrow> int \<Rightarrow> alert_row \<Rightarrow> bool" where
  "unassigned_filter tenant_id period now r \<longleftrightarrow>
     base_filter tenant_id period now r \<and> qa_assigned_to_id r = None \<and> qa_severity r \<in> set QUEUE_UNASSIGNED_SEVERITIES"

definition bucket :: "string \<Rightarrow> alert_row \<Rightarrow> nat" where
  "bucket user_id r = (if qa_assigned_to_id r = Some user_id then 0 else 1)"

definition severity_rank :: "alert_row \<Rightarrow> nat" where
  "severity_rank r =
     (if qa_severity r = ''critical'' then 0 else if qa_severity r = ''high'' then 1
      else if qa_severity r = ''medium'' then 2 else if qa_severity r = ''low'' then 3 else 4)"

definition queue_key :: "(string \<times> int) list \<Rightarrow> string \<Rightarrow> alert_row \<Rightarrow> nat \<times> int \<times> nat" where
  "queue_key targets user_id r = (bucket user_id r, sla_due targets r, severity_rank r)"

definition queue_item_of :: "(string \<times> int) list \<Rightarrow> string \<Rightarrow> int \<Rightarrow> alert_row \<Rightarrow> queue_item" where
  "queue_item_of targets user_id now r =
     (let remaining = whole_seconds (sla_due targets r - now) in
      \<lparr>qi_row = r, qi_sla_due_at = sla_due targets r, qi_sla_remaining_seconds = remaining, qi_sla_breached = (remaining < 0),
       qi_age_seconds = max 0 (whole_seconds (now - qa_first_seen r)), qi_asset = first_asset r,
       qi_suggested_action = first_action r, qi_bucket = (if bucket user_id r = 0 then ''mine'' else ''unassigned'')\<rparr>)"

text \<open>The rows that the \<open>where\<close> clause of an owner selects.\<close>

definition owner_filter :: "string \<Rightarrow> string \<Rightarrow> string \<Rightarrow> string \<Rightarrow> int \<Rightarrow> alert_row \<Rightarrow> bool" where
  "owner_filter owner tenant_id user_id period now r =
     (if owner = ''me'' then mine_filter tenant_id user_id period now r
      else if owner = ''unassigned'' then unassigned_filter tenant_id period now r
      else mine_filter tenant_id user_id period now r \<or> unassigned_filter tenant_id period now r)"

text \<open>\<open>rows\<close> is the table in the order in which the database meets it, which decides between rows that
  the \<open>order by\<close> clause leaves equal.\<close>

definition build_queue ::
  "alert_row list \<Rightarrow> sla_config list \<Rightarrow> string \<Rightarrow> string \<Rightarrow> string \<Rightarrow> string \<Rightarrow> int \<Rightarrow> int \<Rightarrow> int \<Rightarrow> queue_response" where
  "build_queue rows configs tenant_id user_id owner period page page_size now =
     (let page_size = max 1 (min page_size QUEUE_MAX_PAGE_SIZE); page = max 1 page;
          targets = load_sla_targets configs tenant_id;
          mine_count = length (filter (mine_filter tenant_id user_id period now) rows);
          unassigned_count = length (filter (unassigned_filter tenant_id period now) rows);
          total = (if owner = ''me'' then mine_count else if owner = ''unassigned'' then unassigned_count
                   else mine_count + unassigned_count);
          offset = (page - 1) * page_size;
          page_rows = take (nat page_size) (drop (nat offset)
            (sort_key (queue_key targets user_id) (filter (owner_filter owner tenant_id user_id period now) rows)))
      in \<lparr>qp_items = map (queue_item_of targets user_id now) page_rows, qp_total = total, qp_mine = mine_count,
          qp_unassigned = unassigned_count, qp_page = page, qp_page_size = page_size,
          qp_pages = (if total = 0 then 0 else (int total + page_size - 1) div page_size), qp_generated_at = now\<rparr>)"


subsection \<open>The pages of a queue\<close>

lemma concat_pages: "concat (map (\<lambda>p. take k (drop (p * k) xs)) [0..<n]) = take (n * k) xs"
proof (induction n)
  case (Suc n)
  have "take (Suc n * k) xs = take (n * k) xs @ take k (drop (n * k) xs)"
    using take_add [of "n * k" k xs] by (simp add: add.commute)
  with Suc show ?case by simp
qed simp

lemma page_count_covers:
  assumes "(0::int) < k"
  shows "n \<le> nat ((int n + k - 1) div k) * nat k"
proof -
  have "int n + k - 1 < ((int n + k - 1) div k + 1) * k"
    using assms by (metis div_mod_decomp_int add_strict_left_mono distrib_right mult_1 pos_mod_bound)
  then have "int n \<le> ((int n + k - 1) div k) * k" by (simp add: distrib_right)
  moreover have "0 \<le> (int n + k - 1) div k" using assms by (simp add: pos_imp_zdiv_nonneg_iff)
  ultimately show ?thesis using assms by (metis nat_int nat_le_eq_zle nat_mult_distrib of_nat_0_le_iff order_trans)
qed

lemma length_filter_disjoint:
  "(\<And>x. x \<in> set xs \<Longrightarrow> \<not> (P x \<and> Q x)) \<Longrightarrow> length (filter (\<lambda>x. P x \<or> Q x) xs) = length (filter P xs) + length (filter Q xs)"
  by (induction xs) auto

lemma queue_total:
  "qp_total (build_queue rows configs t u owner period page page_size now) = length (filter (owner_filter owner t u period now) rows)"
proof -
  have "length (filter (\<lambda>r. mine_filter t u period now r \<or> unassigned_filter t period now r) rows)
      = length (filter (mine_filter t u period now) rows) + length (filter (unassigned_filter t period now) rows)"
    by (rule length_filter_disjoint) (simp add: mine_filter_def unassigned_filter_def)
  then show ?thesis by (simp add: build_queue_def Let_def owner_filter_def [abs_def])
qed

lemma sorted_map_weaken: "sorted (map f xs) \<Longrightarrow> (\<And>x y. f x \<le> f y \<Longrightarrow> g x \<le> g y) \<Longrightarrow> sorted (map g xs)"
  by (induction xs) auto

lemma whole_seconds_negative: "whole_seconds d < 0 \<longleftrightarrow> d \<le> - second"
  by (auto simp: whole_seconds_def second_def)

lemma page_items:
  fixes page :: nat
  shows "map qi_row (qp_items (build_queue rows configs t u owner period (int (Suc page)) page_size now)) =
    (let k = nat (max 1 (min page_size QUEUE_MAX_PAGE_SIZE))
     in take k (drop (page * k) (sort_key (queue_key (load_sla_targets configs t) u) (filter (owner_filter owner t u period now) rows))))"
proof -
  have "nat (int page * k) = page * nat k" for k :: int by (simp add: nat_mult_distrib)
  then show ?thesis by (simp add: build_queue_def Let_def queue_item_of_def comp_def max_def)
qed

lemma queue_items_of:
  "it \<in> set (qp_items (build_queue rows configs t u owner period page page_size now)) \<Longrightarrow>
     \<exists>r\<in>set (filter (owner_filter owner t u period now) rows). it = queue_item_of (load_sla_targets configs t) u now r"
  by (auto simp: build_queue_def Let_def dest!: in_set_takeD in_set_dropD)

lemma item_facts [simp]:
  "qi_row (queue_item_of targets u now r) = r"
  "qi_sla_breached (queue_item_of targets u now r) \<longleftrightarrow> sla_due targets r + second \<le> now"
  "qi_bucket (queue_item_of targets u now r) = ''mine'' \<longleftrightarrow> qa_assigned_to_id r = Some u"
  by (auto simp: queue_item_of_def Let_def whole_seconds_negative bucket_def)



definition demo_row :: "string \<Rightarrow> string \<Rightarrow> string option \<Rightarrow> int \<Rightarrow> alert_row" where
  "demo_row i sev owner seen =
     \<lparr>qa_id = i, qa_tenant_id = ''t'', qa_title = ''x'', qa_severity = sev, qa_status = ''new'', qa_priority = 50,
      qa_category = None, qa_connector_type = None, qa_assigned_to_id = owner, qa_assigned_at = None, qa_case_id = None,
      qa_first_seen = seen, qa_snoozed_until = None, qa_snoozed_by_id = None, qa_resolved_at = None, qa_updated_at = 0,
      qa_tags = [], qa_affected_hosts = [VStr '' web ''], qa_affected_users = [], qa_affected_assets = [],
      qa_affected_ips = [], qa_ai_recommendations = VList [VStr ''isolate'']\<rparr>"

definition demo_rows :: "alert_row list" where
  "demo_rows = [demo_row ''1'' ''high'' None 0, demo_row ''2'' ''low'' None 0, demo_row ''3'' ''low'' (Some ''me'') 7,
     demo_row ''4'' ''critical'' None 0, demo_row ''5'' ''critical'' (Some ''other'') 0]"

lemma demo_queue:
  "map (\<lambda>r. qa_id r) (sort_key (queue_key (load_sla_targets [] ''t'') ''me'')
     (filter (owner_filter ''all'' ''t'' ''me'' ''all'' 10) demo_rows)) = [''3'', ''4'', ''1'']"
  by code_simp


subsection \<open>Claiming\<close>

datatype claim_outcome = Claimed | AlertNotFound | AlreadyClaimed string

text \<open>Where a call of \<open>claim_alert\<close> stands: before the select, after a select that saw a free alert, after
  an update that met no free row, or done.\<close>

datatype claim_pc = Begin | SawFree | Beaten | Done claim_outcome

record claim =
  cm_alert_id :: string
  cm_tenant_id :: string
  cm_user_id :: string
  cm_pc :: claim_pc

type_synonym alert_db = "string \<rightharpoonup> alert_row"

definition owner_outcome :: "string \<Rightarrow> string option \<Rightarrow> claim_outcome" where
  "owner_outcome user_id owner =
     (case owner of None \<Rightarrow> AlertNotFound | Some w \<Rightarrow> if w = user_id then Claimed else AlreadyClaimed w)"

text \<open>The next database statement of a call: the select, the guarded update with its commit, the
  re-read of the owner.\<close>

definition claim_move :: "int \<Rightarrow> alert_db \<Rightarrow> claim \<Rightarrow> alert_db \<times> claim_pc" where
  "claim_move now db c =
     (case cm_pc c of
        Begin \<Rightarrow>
          (case db (cm_alert_id c) of
             None \<Rightarrow> (db, Done AlertNotFound)
           | Some r \<Rightarrow>
               if qa_tenant_id r \<noteq> cm_tenant_id c then (db, Done AlertNotFound)
               else if qa_assigned_to_id r = None then (db, SawFree)
               else (db, Done (owner_outcome (cm_user_id c) (qa_assigned_to_id r))))
      | SawFree \<Rightarrow>
          (case db (cm_alert_id c) of
             None \<Rightarrow> (db, Beaten)
           | Some r \<Rightarrow>
               if qa_assigned_to_id r = None
               then (db(cm_alert_id c \<mapsto> r\<lparr>qa_assigned_to_id := Some (cm_user_id c), qa_assigned_at := Some now,
                                          qa_updated_at := now\<rparr>), Done Claimed)
               else (db, Beaten))
      | Beaten \<Rightarrow>
          (db, Done (case db (cm_alert_id c) of
                       None \<Rightarrow> AlertNotFound
                     | Some r \<Rightarrow> owner_outcome (cm_user_id c) (qa_assigned_to_id r)))
      | Done out \<Rightarrow> (db, Done out))"

text \<open>One call on its own, which makes three statements at most.\<close>

definition claim_next :: "int \<Rightarrow> alert_db \<times> claim \<Rightarrow> alert_db \<times> claim" where
  "claim_next now s = (case s of (db, c) \<Rightarrow> case claim_move now db c of (db', pc) \<Rightarrow> (db', c\<lparr>cm_pc := pc\<rparr>))"

definition claim_alert :: "int \<Rightarrow> alert_db \<Rightarrow> string \<Rightarrow> string \<Rightarrow> string \<Rightarrow> alert_db \<times> claim_pc" where
  "claim_alert now db alert_id tenant_id user_id =
     (case (claim_next now ^^ 3) (db, \<lparr>cm_alert_id = alert_id, cm_tenant_id = tenant_id, cm_user_id = user_id, cm_pc = Begin\<rparr>) of
        (db', c) \<Rightarrow> (db', cm_pc c))"

text \<open>Concurrent calls: any call that is not done makes its next statement.\<close>

inductive claim_step :: "alert_db \<times> claim list \<Rightarrow> alert_db \<times> claim list \<Rightarrow> bool" where
  step: "i < length cs \<Longrightarrow> \<not> (\<exists>out. cm_pc (cs ! i) = Done out) \<Longrightarrow> claim_move now db (cs ! i) = (db', pc)
     \<Longrightarrow> claim_step (db, cs) (db', cs[i := (cs ! i)\<lparr>cm_pc := pc\<rparr>])"

inductive_cases claim_stepE: "claim_step (db, cs) s'"

definition fresh_claims :: "claim list \<Rightarrow> bool" where
  "fresh_claims cs \<longleftrightarrow> list_all (\<lambda>c. cm_pc c = Begin) cs"

definition claims_done :: "claim list \<Rightarrow> bool" where
  "claims_done cs \<longleftrightarrow> list_all (\<lambda>c. \<exists>out. cm_pc c = Done out) cs"


text \<open>What the database says about a claim, and that it is settled.\<close>

definition verdict :: "alert_db \<Rightarrow> claim \<Rightarrow> claim_outcome" where
  "verdict db c =
     (case db (cm_alert_id c) of
        None \<Rightarrow> AlertNotFound
      | Some r \<Rightarrow> if qa_tenant_id r \<noteq> cm_tenant_id c then AlertNotFound else owner_outcome (cm_user_id c) (qa_assigned_to_id r))"

definition own_row :: "alert_db \<Rightarrow> claim \<Rightarrow> alert_row \<Rightarrow> bool" where
  "own_row db c r \<longleftrightarrow> db (cm_alert_id c) = Some r \<and> qa_tenant_id r = cm_tenant_id c"

definition pc_ok :: "alert_db \<Rightarrow> claim \<Rightarrow> bool" where
  "pc_ok db c =
     (case cm_pc c of
        Begin \<Rightarrow> True
      | SawFree \<Rightarrow> \<exists>r. own_row db c r
      | Beaten \<Rightarrow> \<exists>r. own_row db c r \<and> qa_assigned_to_id r \<noteq> None
      | Done out \<Rightarrow> out = verdict db c \<and> (\<forall>r. own_row db c r \<longrightarrow> qa_assigned_to_id r \<noteq> None))"

text \<open>Rows are only ever taken: an unassigned row gets an owner and keeps its tenant.\<close>

definition taken :: "alert_row \<Rightarrow> alert_row \<Rightarrow> string \<Rightarrow> bool" where
  "taken r r' u \<longleftrightarrow> qa_assigned_to_id r = None \<and> qa_tenant_id r' = qa_tenant_id r \<and> qa_assigned_to_id r' = Some u"

definition evolves :: "alert_db \<Rightarrow> alert_db \<Rightarrow> bool" where
  "evolves db db' \<longleftrightarrow> (\<forall>a. db' a = db a \<or> (\<exists>r r' u. db a = Some r \<and> db' a = Some r' \<and> taken r r' u))"

lemma claim_move_evolves: "claim_move now db c = (db', pc) \<Longrightarrow> evolves db db'"
  by (auto simp: claim_move_def evolves_def taken_def split: claim_pc.splits option.splits if_splits)

lemma evolves_pc_ok:
  assumes "evolves db db'" "pc_ok db c"
  shows "pc_ok db' c"
proof -
  from assms(1) have "db' (cm_alert_id c) = db (cm_alert_id c)
      \<or> (\<exists>r r' u. db (cm_alert_id c) = Some r \<and> db' (cm_alert_id c) = Some r' \<and> taken r r' u)"
    by (auto simp: evolves_def)
  then show ?thesis
  proof
    assume "db' (cm_alert_id c) = db (cm_alert_id c)"
    then have "verdict db' c = verdict db c" "own_row db' c = own_row db c" by (auto simp: verdict_def own_row_def [abs_def])
    with assms(2) show ?thesis by (simp add: pc_ok_def split: claim_pc.splits)
  next
    assume "\<exists>r r' u. db (cm_alert_id c) = Some r \<and> db' (cm_alert_id c) = Some r' \<and> taken r r' u"
    with assms(2) show ?thesis by (auto simp: pc_ok_def own_row_def taken_def verdict_def split: claim_pc.splits)
  qed
qed

lemma claim_move_ok:
  assumes "claim_move now db c = (db', pc)" "pc_ok db c"
  shows "pc_ok db' (c\<lparr>cm_pc := pc\<rparr>)"
  using assms
  by (auto simp: claim_move_def pc_ok_def own_row_def verdict_def owner_outcome_def split: claim_pc.splits option.splits if_splits)

definition pc_weight :: "claim \<Rightarrow> nat" where
  "pc_weight c = (case cm_pc c of Begin \<Rightarrow> 3 | SawFree \<Rightarrow> 2 | Beaten \<Rightarrow> 1 | Done out \<Rightarrow> 0)"

lemma claim_move_weight:
  "claim_move now db c = (db', pc) \<Longrightarrow> \<not> (\<exists>out. cm_pc c = Done out) \<Longrightarrow> pc_weight (c\<lparr>cm_pc := pc\<rparr>) < pc_weight c"
  by (auto simp: claim_move_def pc_weight_def split: claim_pc.splits option.splits if_splits)

text \<open>A row that a move takes goes to the caller, whose tenant is that of the row.\<close>

lemma claim_move_takes:
  "claim_move now db c = (db', pc) \<Longrightarrow> pc_ok db c \<Longrightarrow> db' a \<noteq> db a \<Longrightarrow>
     a = cm_alert_id c \<and> (\<exists>r r'. db a = Some r \<and> db' a = Some r' \<and> taken r r' (cm_user_id c) \<and> qa_tenant_id r = cm_tenant_id c)"
  by (auto simp: claim_move_def pc_ok_def own_row_def taken_def split: claim_pc.splits option.splits if_splits)

text \<open>Who asks for what does not change.\<close>

definition asks :: "claim \<Rightarrow> string \<times> string \<times> string" where
  "asks c = (cm_alert_id c, cm_tenant_id c, cm_user_id c)"

definition claims_ok :: "alert_db \<Rightarrow> claim list \<Rightarrow> nat \<Rightarrow> alert_db \<Rightarrow> claim list \<Rightarrow> bool" where
  "claims_ok db0 cs0 n db cs \<longleftrightarrow>
     map asks cs = map asks cs0 \<and> n + sum_list (map pc_weight cs) \<le> 3 * length cs0 \<and> list_all (pc_ok db) cs
     \<and> (\<forall>a. db a \<noteq> db0 a \<longrightarrow> (\<exists>r r' c. db0 a = Some r \<and> db a = Some r' \<and> c \<in> set cs0 \<and> cm_alert_id c = a
           \<and> taken r r' (cm_user_id c) \<and> qa_tenant_id r = cm_tenant_id c))"

lemma sum_list_update_less:
  "i < length xs \<Longrightarrow> f y < f (xs ! i) \<Longrightarrow> sum_list (map f (xs[i := y])) < (sum_list (map f xs) :: nat)"
proof (induction xs arbitrary: i)
  case (Cons x xs)
  then show ?case by (cases i) auto
qed simp

lemma claims_ok_step:
  assumes "claims_ok db0 cs0 n db cs" "claim_step (db, cs) (db', cs')"
  shows "claims_ok db0 cs0 (Suc n) db' cs'"
proof -
  from assms(2) obtain i now pc where step: "i < length cs" "\<not> (\<exists>out. cm_pc (cs ! i) = Done out)"
    and db': "claim_move now db (cs ! i) = (db', pc)" and cs': "cs' = cs[i := (cs ! i)\<lparr>cm_pc := pc\<rparr>]"
    by (auto elim!: claim_stepE)
  let ?c = "cs ! i"
  from assms(1) have asks: "map asks cs = map asks cs0" and w: "n + sum_list (map pc_weight cs) \<le> 3 * length cs0"
    and pcs: "\<And>c. c \<in> set cs \<Longrightarrow> pc_ok db c"
    by (auto simp: claims_ok_def list_all_iff)
  have "pc_ok db ?c" using pcs step by simp
  note move = claim_move_ok [OF _ this] claim_move_takes [OF _ this]
  have "map asks cs' = map asks cs" unfolding cs' map_update by (simp add: asks_def list_update_same_conv step)
  moreover have "Suc n + sum_list (map pc_weight cs') \<le> 3 * length cs0"
    using sum_list_update_less [OF step(1) claim_move_weight [OF db' step(2)]] w unfolding cs' by simp
  moreover have "list_all (pc_ok db') cs'"
    using pcs evolves_pc_ok [OF claim_move_evolves [OF db']] move(1) [OF db']
    by (auto simp: cs' list_all_iff dest!: subsetD [OF set_update_subset_insert])
  moreover have "\<exists>r r' c. db0 a = Some r \<and> db' a = Some r' \<and> c \<in> set cs0 \<and> cm_alert_id c = a
      \<and> taken r r' (cm_user_id c) \<and> qa_tenant_id r = cm_tenant_id c" if a: "db' a \<noteq> db0 a" for a
  proof (cases "db' a = db a")
    case True
    with assms(1) a show ?thesis by (simp add: claims_ok_def)
  next
    case False
    from move(2) [OF db' False] obtain r r' where r: "a = cm_alert_id ?c" "db a = Some r" "db' a = Some r'"
      "taken r r' (cm_user_id ?c)" "qa_tenant_id r = cm_tenant_id ?c" by blast
    have "db a = db0 a"
    proof (rule ccontr)
      assume "db a \<noteq> db0 a"
      with assms(1) obtain r1 r2 u where "db a = Some r2" "taken r1 r2 u" unfolding claims_ok_def by blast
      with r show False by (simp add: taken_def)
    qed
    moreover obtain c0 where "c0 \<in> set cs0" "asks c0 = asks ?c" using asks step(1) by (metis length_map nth_map nth_mem)
    ultimately show ?thesis using r by (auto simp: asks_def)
  qed
  ultimately show ?thesis using asks by (simp add: claims_ok_def)
qed

lemma claims_ok_reach:
  "(claim_step ^^ n) (db0, cs0) s \<Longrightarrow> fresh_claims cs0 \<Longrightarrow> claims_ok db0 cs0 n (fst s) (snd s)"
proof (induction n arbitrary: s)
  case 0
  have "pc_weight c = 3" if "c \<in> set cs0" for c using that 0 by (auto simp: fresh_claims_def pc_weight_def list_all_iff)
  then have "map pc_weight cs0 = map (\<lambda>c. 3) cs0" by simp
  then have "sum_list (map pc_weight cs0) = 3 * length cs0" by (simp only:) (simp add: sum_list_triv)
  with 0 show ?case by (auto simp: claims_ok_def fresh_claims_def pc_ok_def list_all_iff)
next
  case (Suc n)
  then obtain s1 where "(claim_step ^^ n) (db0, cs0) s1" "claim_step s1 s" by auto
  with Suc.IH [of s1] Suc.prems claims_ok_step [of db0 cs0 n "fst s1" "snd s1" "fst s" "snd s"] show ?case by simp
qed


lemma claim_progress: "claims_done cs \<or> (\<exists>s'. claim_step (db, cs) s')"
proof (cases "claims_done cs")
  case False
  then obtain i where i: "i < length cs" "\<not> (\<exists>out. cm_pc (cs ! i) = Done out)"
    by (auto simp: claims_done_def list_all_length)
  obtain db' pc where "claim_move 0 db (cs ! i) = (db', pc)" by force
  with i show ?thesis by (blast intro: claim_step.step)
qed simp

lemma done_verdict:
  assumes "pc_ok db c" "cm_pc c = Done out"
  shows "out = verdict db c" "own_row db c r \<Longrightarrow> \<exists>w. qa_assigned_to_id r = Some w \<and> out = owner_outcome (cm_user_id c) (Some w)"
  using assms by (auto simp: pc_ok_def verdict_def own_row_def)

lemma Claimed_owner: "verdict db c = Claimed \<Longrightarrow> \<exists>r. db (cm_alert_id c) = Some r \<and> qa_assigned_to_id r = Some (cm_user_id c)"
  by (auto simp: verdict_def owner_outcome_def split: option.splits if_splits)

text \<open>
  C5.  Claims are exclusive in every interleaving: any number of concurrent calls make three
  statements each at most and never block; a row changes only by going from unassigned to a user who
  claimed it within its tenant; every finished call reports what the database says, in particular no
  two users are both told that they own the same alert, and a call for an existing alert of its tenant
  ends with its user as the owner or names the owner.
\<close>

theorem claims_exclusive:
  assumes "(claim_step ^^ n) (db0, cs0) (db, cs)" "fresh_claims cs0"
  shows "n \<le> 3 * length cs0 \<and> (claims_done cs \<or> (\<exists>s'. claim_step (db, cs) s'))
    \<and> (\<forall>a. db a \<noteq> db0 a \<longrightarrow> (\<exists>r r' c. db0 a = Some r \<and> qa_assigned_to_id r = None \<and> db a = Some r'
          \<and> c \<in> set cs0 \<and> cm_alert_id c = a \<and> cm_tenant_id c = qa_tenant_id r \<and> qa_assigned_to_id r' = Some (cm_user_id c)))
    \<and> (\<forall>c\<in>set cs. \<forall>out. cm_pc c = Done out \<longrightarrow> out = verdict db c
          \<and> (\<forall>r. own_row db c r \<longrightarrow> (\<exists>w. qa_assigned_to_id r = Some w \<and> out = owner_outcome (cm_user_id c) (Some w))))
    \<and> (\<forall>c\<in>set cs. \<forall>c'\<in>set cs. cm_pc c = Done Claimed \<and> cm_pc c' = Done Claimed \<and> cm_alert_id c = cm_alert_id c'
          \<longrightarrow> cm_user_id c = cm_user_id c')"
proof -
  from claims_ok_reach [OF assms] have ok: "claims_ok db0 cs0 n db cs" by simp
  then have pcs: "\<And>c. c \<in> set cs \<Longrightarrow> pc_ok db c" and n: "n \<le> 3 * length cs0"
    by (auto simp: claims_ok_def list_all_iff)
  have changed: "db a \<noteq> db0 a \<Longrightarrow> \<exists>r r' c. db0 a = Some r \<and> qa_assigned_to_id r = None \<and> db a = Some r'
          \<and> c \<in> set cs0 \<and> cm_alert_id c = a \<and> cm_tenant_id c = qa_tenant_id r \<and> qa_assigned_to_id r' = Some (cm_user_id c)" for a
    using ok unfolding claims_ok_def taken_def by metis
  have same: "cm_user_id c = cm_user_id c'"
    if "c \<in> set cs" "c' \<in> set cs" "cm_pc c = Done Claimed" "cm_pc c' = Done Claimed" "cm_alert_id c = cm_alert_id c'" for c c'
  proof -
    have "verdict db c = Claimed" "verdict db c' = Claimed"
      using done_verdict(1) [OF pcs [OF that(1)] that(3)] done_verdict(1) [OF pcs [OF that(2)] that(4)] by simp_all
    with Claimed_owner [of db c] Claimed_owner [of db c'] that(5) show ?thesis by auto
  qed
  show ?thesis
  proof (intro conjI allI ballI impI)
    fix c out assume c: "c \<in> set cs" "cm_pc c = Done out"
    show "out = verdict db c" by (rule done_verdict(1) [OF pcs [OF c(1)] c(2)])
    fix r assume "own_row db c r"
    then show "\<exists>w. qa_assigned_to_id r = Some w \<and> out = owner_outcome (cm_user_id c) (Some w)"
      by (rule done_verdict(2) [OF pcs [OF c(1)] c(2)])
  qed (use n claim_progress changed same in blast)+
qed

definition demo_claim :: "string \<Rightarrow> claim" where
  "demo_claim u = \<lparr>cm_alert_id = ''1'', cm_tenant_id = ''t'', cm_user_id = u, cm_pc = Begin\<rparr>"

lemma claim_step_eq:
  "i < length cs \<Longrightarrow> \<not> (\<exists>out. cm_pc (cs ! i) = Done out) \<Longrightarrow>
     claim_step (db, cs) (fst (claim_move 0 db (cs ! i)), cs[i := (cs ! i)\<lparr>cm_pc := snd (claim_move 0 db (cs ! i))\<rparr>])"
  by (rule claim_step.step [of _ _ 0]) simp_all

lemma claims_exclusive_witness:
  "\<exists>db cs. (claim_step ^^ 4) ([''1'' \<mapsto> demo_row ''1'' ''high'' None 0], [demo_claim ''ann'', demo_claim ''bob'']) (db, cs)
     \<and> cm_pc (cs ! 0) = Beaten \<and> cm_pc (cs ! 1) = Done Claimed
     \<and> (\<exists>r. db ''1'' = Some r \<and> qa_assigned_to_id r = Some ''bob'')"
proof -
  let ?db = "[''1'' \<mapsto> demo_row ''1'' ''high'' None 0]"
  let ?a = "demo_claim ''ann''" let ?b = "demo_claim ''bob''"
  let ?db' = "[''1'' \<mapsto> (demo_row ''1'' ''high'' None 0)\<lparr>qa_assigned_to_id := Some ''bob'', qa_assigned_at := Some 0, qa_updated_at := 0\<rparr>]"
  note defs = demo_claim_def demo_row_def claim_move_def
  have s: "claim_step (?db, [?a, ?b]) (?db, [?a\<lparr>cm_pc := SawFree\<rparr>, ?b])"
    "claim_step (?db, [?a\<lparr>cm_pc := SawFree\<rparr>, ?b]) (?db, [?a\<lparr>cm_pc := SawFree\<rparr>, ?b\<lparr>cm_pc := SawFree\<rparr>])"
    "claim_step (?db, [?a\<lparr>cm_pc := SawFree\<rparr>, ?b\<lparr>cm_pc := SawFree\<rparr>]) (?db', [?a\<lparr>cm_pc := SawFree\<rparr>, ?b\<lparr>cm_pc := Done Claimed\<rparr>])"
    "claim_step (?db', [?a\<lparr>cm_pc := SawFree\<rparr>, ?b\<lparr>cm_pc := Done Claimed\<rparr>]) (?db', [?a\<lparr>cm_pc := Beaten\<rparr>, ?b\<lparr>cm_pc := Done Claimed\<rparr>])"
    using claim_step_eq [of 0 "[?a, ?b]" ?db] claim_step_eq [of 1 "[?a\<lparr>cm_pc := SawFree\<rparr>, ?b]" ?db]
      claim_step_eq [of 1 "[?a\<lparr>cm_pc := SawFree\<rparr>, ?b\<lparr>cm_pc := SawFree\<rparr>]" ?db]
      claim_step_eq [of 0 "[?a\<lparr>cm_pc := SawFree\<rparr>, ?b\<lparr>cm_pc := Done Claimed\<rparr>]" ?db']
    by (simp_all add: defs)
  have run: "(claim_step ^^ 4) (?db, [?a, ?b]) (?db', [?a\<lparr>cm_pc := Beaten\<rparr>, ?b\<lparr>cm_pc := Done Claimed\<rparr>])"
    using s by (auto simp: eval_nat_numeral intro!: relcomppI)
  have "fresh_claims [?a, ?b]" by (simp add: fresh_claims_def demo_claim_def)
  from claims_exclusive [OF run this] have "Claimed = verdict ?db' (?b\<lparr>cm_pc := Done Claimed\<rparr>)" by simp
  from Claimed_owner [OF this [symmetric]] run show ?thesis
    by (intro exI [of _ ?db'] exI [of _ "[?a\<lparr>cm_pc := Beaten\<rparr>, ?b\<lparr>cm_pc := Done Claimed\<rparr>]"]) (simp add: demo_claim_def)
qed

lemma claim_alert_alone:
  assumes "db i = Some r" "qa_tenant_id r = t"
  shows "claim_alert now db i t u =
    (if qa_assigned_to_id r = None
     then (db(i \<mapsto> r\<lparr>qa_assigned_to_id := Some u, qa_assigned_at := Some now, qa_updated_at := now\<rparr>), Done Claimed)
     else (db, Done (owner_outcome u (qa_assigned_to_id r))))"
  using assms by (simp add: claim_alert_def claim_next_def claim_move_def eval_nat_numeral)


subsection \<open>The endpoints that change a row\<close>

record alert_update =
  up_status :: "string option"
  up_priority :: "int option"
  up_tags :: "string list option"
  up_assigned_to_id :: "string option"
  up_case_id :: "string option"

definition tenant_row :: "alert_db \<Rightarrow> string \<Rightarrow> string \<Rightarrow> alert_row option" where
  "tenant_row db alert_id tenant_id =
     (case db alert_id of Some r \<Rightarrow> if qa_tenant_id r = tenant_id then Some r else None | None \<Rightarrow> None)"

definition given :: "'a option \<Rightarrow> ('a \<Rightarrow> 'r \<Rightarrow> 'r) \<Rightarrow> 'r \<Rightarrow> 'r" where
  "given v f r = (case v of None \<Rightarrow> r | Some x \<Rightarrow> f x r)"

definition apply_update :: "int \<Rightarrow> alert_update \<Rightarrow> alert_row \<Rightarrow> alert_row" where
  "apply_update now up r =
     (let r1 = given (up_status up) (\<lambda>s r. r\<lparr>qa_status := s,
                 qa_resolved_at := (if s \<in> {''resolved'', ''false_positive'', ''closed''} then Some now else qa_resolved_at r)\<rparr>) r;
          r2 = given (up_priority up) (\<lambda>p r. r\<lparr>qa_priority := p\<rparr>) r1;
          r3 = given (up_tags up) (\<lambda>ts r. r\<lparr>qa_tags := ts\<rparr>) r2;
          r4 = given (up_assigned_to_id up) (\<lambda>u r. r\<lparr>qa_assigned_to_id := Some u, qa_assigned_at := Some now\<rparr>) r3
      in given (up_case_id up) (\<lambda>c r. r\<lparr>qa_case_id := Some c\<rparr>) r4)"

definition no_update :: "alert_update \<Rightarrow> bool" where
  "no_update up \<longleftrightarrow> up = \<lparr>up_status = None, up_priority = None, up_tags = None, up_assigned_to_id = None, up_case_id = None\<rparr>"

definition update_alert :: "int \<Rightarrow> alert_db \<Rightarrow> string \<Rightarrow> string \<Rightarrow> alert_update \<Rightarrow> alert_db \<times> nat" where
  "update_alert now db alert_id tenant_id up =
     (case tenant_row db alert_id tenant_id of
        None \<Rightarrow> (db, 404)
      | Some r \<Rightarrow> if no_update up then (db, 200)
                 else (db(alert_id \<mapsto> (apply_update now up r)\<lparr>qa_updated_at := now\<rparr>), 200))"

definition SEVERITY_LADDER :: "string list" where
  "SEVERITY_LADDER = [''info'', ''low'', ''medium'', ''high'', ''critical'']"

fun index_of :: "'a \<Rightarrow> 'a list \<Rightarrow> nat option" where
  "index_of x [] = None"
| "index_of x (y # ys) = (if x = y then Some 0 else map_option Suc (index_of x ys))"

definition escalate_alert :: "int \<Rightarrow> alert_db \<Rightarrow> string \<Rightarrow> string \<Rightarrow> alert_db \<times> nat" where
  "escalate_alert now db alert_id tenant_id =
     (case tenant_row db alert_id tenant_id of
        None \<Rightarrow> (db, 404)
      | Some r \<Rightarrow>
          let current_idx = (case index_of (qa_severity r) SEVERITY_LADDER of Some i \<Rightarrow> i | None \<Rightarrow> 2)
          in (db(alert_id \<mapsto> r\<lparr>qa_severity := SEVERITY_LADDER ! min (current_idx + 1) (length SEVERITY_LADDER - 1),
                               qa_updated_at := now\<rparr>), 200))"

definition snooze_until :: "int \<Rightarrow> int option \<Rightarrow> int option \<Rightarrow> int option" where
  "snooze_until now duration_minutes until =
     (case until of
        Some t \<Rightarrow> Some t
      | None \<Rightarrow> (case duration_minutes of
                   Some m \<Rightarrow> if m \<le> 0 \<or> 60 * 24 * 30 < m then None else Some (now + m * 60 * second)
                 | None \<Rightarrow> None))"

definition snooze_alert :: "int \<Rightarrow> alert_db \<Rightarrow> string \<Rightarrow> string \<Rightarrow> string \<Rightarrow> int option \<Rightarrow> int option \<Rightarrow> alert_db \<times> nat" where
  "snooze_alert now db alert_id tenant_id user_id duration_minutes until =
     (case snooze_until now duration_minutes until of
        None \<Rightarrow> (db, 400)
      | Some t \<Rightarrow>
          (case tenant_row db alert_id tenant_id of
             None \<Rightarrow> (db, 404)
           | Some r \<Rightarrow> (db(alert_id \<mapsto> r\<lparr>qa_snoozed_until := Some t, qa_snoozed_by_id := Some user_id, qa_updated_at := now\<rparr>), 200)))"

definition claim_status :: "claim_pc \<Rightarrow> nat" where
  "claim_status pc = (case pc of Done Claimed \<Rightarrow> 200 | Done AlertNotFound \<Rightarrow> 404 | Done (AlreadyClaimed w) \<Rightarrow> 409 | _ \<Rightarrow> 500)"

definition claim_alert_endpoint :: "int \<Rightarrow> alert_db \<Rightarrow> string \<Rightarrow> string \<Rightarrow> string \<Rightarrow> alert_db \<times> nat" where
  "claim_alert_endpoint now db alert_id tenant_id user_id =
     (case claim_alert now db alert_id tenant_id user_id of (db', pc) \<Rightarrow> (db', claim_status pc))"

text \<open>The operations of a user on one alert.\<close>

datatype alert_op = Claim | Patch alert_update | Escalate | Snooze "int option" "int option"

definition run_op :: "int \<Rightarrow> alert_db \<Rightarrow> string \<Rightarrow> string \<Rightarrow> string \<Rightarrow> alert_op \<Rightarrow> alert_db \<times> nat" where
  "run_op now db alert_id tenant_id user_id op =
     (case op of
        Claim \<Rightarrow> claim_alert_endpoint now db alert_id tenant_id user_id
      | Patch up \<Rightarrow> update_alert now db alert_id tenant_id up
      | Escalate \<Rightarrow> escalate_alert now db alert_id tenant_id
      | Snooze duration until \<Rightarrow> snooze_alert now db alert_id tenant_id user_id duration until)"

lemma claim_alert_missing:
  "tenant_row db i t = None \<Longrightarrow> claim_alert now db i t u = (db, Done AlertNotFound)"
  by (auto simp: tenant_row_def claim_alert_def claim_next_def claim_move_def eval_nat_numeral split: option.splits if_splits)

lemma tenant_row_Some: "tenant_row db i t = Some r \<longleftrightarrow> db i = Some r \<and> qa_tenant_id r = t"
  by (auto simp: tenant_row_def split: option.splits)

text \<open>An operation on an alert of another tenant, or on none, is refused and changes nothing.\<close>

lemma run_op_missing:
  "tenant_row db i t = None \<Longrightarrow> fst (run_op now db i t u op) = db \<and> snd (run_op now db i t u op) \<in> {400, 404}"
  by (auto simp: run_op_def claim_alert_endpoint_def claim_alert_missing claim_status_def update_alert_def escalate_alert_def
      snooze_alert_def split: alert_op.splits option.splits)

lemma given_field: "(\<And>x r. g (f x r) = g r) \<Longrightarrow> g (given v f r) = g r"
  by (simp add: given_def split: option.splits)

lemma apply_update_fields [simp]:
  "qa_tenant_id (apply_update now up r) = qa_tenant_id r"
  "qa_status (apply_update now up r) = (case up_status up of None \<Rightarrow> qa_status r | Some s \<Rightarrow> s)"
  by (simp_all add: apply_update_def Let_def given_field) (simp add: given_def split: option.splits)

lemma run_op_other:
  assumes "tenant_row db i t = Some r"
  shows "(\<forall>a. a \<noteq> i \<longrightarrow> fst (run_op now db i t u op) a = db a)
    \<and> (\<exists>r'. fst (run_op now db i t u op) i = Some r' \<and> qa_tenant_id r' = qa_tenant_id r)"
  using assms
  by (auto simp: run_op_def claim_alert_endpoint_def claim_alert_alone tenant_row_Some update_alert_def escalate_alert_def
      snooze_alert_def Let_def split: alert_op.splits option.splits)


text \<open>
  What the operations do to the queue: claiming an open, unassigned alert of the tenant puts it
  into the caller's queue and takes it out of everyone else's; closing it, or marking it as a false
  positive, takes it out of every queue for good; snoozing it hides it from every queue until the time
  and not longer; escalating an unassigned alert of medium severity puts it into everyone's queue; and
  none of them touches another row or an alert of another tenant.
\<close>

theorem queue_operations:
  assumes "tenant_row db i t = Some r" "base_filter t ''all'' now r" "qa_assigned_to_id r = None"
    and "up_status up = Some s" "s \<in> set QUEUE_CLOSED_STATUSES" "snooze_until now duration until = Some T"
    and "after = (\<lambda>op. the (fst (run_op now db i t u op) i))"
  shows "(\<forall>v. owner_filter ''all'' t v ''all'' now (after Claim) \<longleftrightarrow> v = u)
    \<and> (\<forall>owner v later. \<not> owner_filter owner t v ''all'' later (after (Patch up)))
    \<and> (\<forall>v later. owner_filter ''all'' t v ''all'' later (after (Snooze duration until))
          \<longleftrightarrow> T \<le> later \<and> qa_severity r \<in> set QUEUE_UNASSIGNED_SEVERITIES)
    \<and> (qa_severity r = ''medium'' \<longrightarrow> (\<forall>v. owner_filter ''all'' t v ''all'' now (after Escalate)))
    \<and> (\<forall>op a. a \<noteq> i \<longrightarrow> fst (run_op now db i t u op) a = db a)
    \<and> (\<forall>op t'. t' \<noteq> t \<longrightarrow> fst (run_op now db i t' u op) = db)"
proof -
  have r: "db i = Some r" "qa_tenant_id r = t" using assms(1) by (simp_all add: tenant_row_Some)
  have p: "dict_get PERIOD_TO_TIMEDELTA ''all'' = Some None" by (simp add: PERIOD_TO_TIMEDELTA_def)
  note filters = owner_filter_def mine_filter_def unassigned_filter_def base_filter_def p
  have "after Claim = r\<lparr>qa_assigned_to_id := Some u, qa_assigned_at := Some now, qa_updated_at := now\<rparr>"
    using r assms(3) by (simp add: assms(7) run_op_def claim_alert_endpoint_def claim_alert_alone)
  then have c1: "\<forall>v. owner_filter ''all'' t v ''all'' now (after Claim) \<longleftrightarrow> v = u"
    using assms(2) by (auto simp: filters)
  have "\<not> no_update up" using assms(4) by (auto simp: no_update_def)
  then have "qa_status (after (Patch up)) = s"
    using assms(1,4) by (simp add: assms(7) run_op_def update_alert_def)
  then have c2: "\<forall>owner v later. \<not> owner_filter owner t v ''all'' later (after (Patch up))"
    using assms(5) by (simp add: filters)
  have "after (Snooze duration until) = r\<lparr>qa_snoozed_until := Some T, qa_snoozed_by_id := Some u, qa_updated_at := now\<rparr>"
    using assms(1,6) by (simp add: assms(7) run_op_def snooze_alert_def)
  then have c3: "\<forall>v later. owner_filter ''all'' t v ''all'' later (after (Snooze duration until))
      \<longleftrightarrow> T \<le> later \<and> qa_severity r \<in> set QUEUE_UNASSIGNED_SEVERITIES"
    using assms(2,3) by (auto simp: filters)
  have "qa_severity r = ''medium'' \<Longrightarrow> after Escalate = r\<lparr>qa_severity := ''high'', qa_updated_at := now\<rparr>"
    using assms(1) by (simp add: assms(7) run_op_def escalate_alert_def SEVERITY_LADDER_def)
  then have c4: "qa_severity r = ''medium'' \<longrightarrow> (\<forall>v. owner_filter ''all'' t v ''all'' now (after Escalate))"
    using assms(2,3) by (simp add: filters QUEUE_UNASSIGNED_SEVERITIES_def)
  have c5: "\<forall>op a. a \<noteq> i \<longrightarrow> fst (run_op now db i t u op) a = db a" using run_op_other [OF assms(1)] by blast
  have "t' \<noteq> t \<Longrightarrow> tenant_row db i t' = None" for t' using r by (simp add: tenant_row_def)
  then have c6: "\<forall>op t'. t' \<noteq> t \<longrightarrow> fst (run_op now db i t' u op) = db" using run_op_missing by blast
  show ?thesis by (intro conjI c1 c2 c3 c4 c5 c6)
qed

lemma queue_operations_witness:
  "owner_filter ''all'' ''t'' ''ann'' ''all'' 5
     (the (fst (run_op 5 [''1'' \<mapsto> demo_row ''1'' ''medium'' None 0] ''1'' ''t'' ''ann'' Escalate) ''1''))"
proof -
  let ?db = "[''1'' \<mapsto> demo_row ''1'' ''medium'' None 0]"
  let ?up = "\<lparr>up_status = Some ''fp'', up_priority = None, up_tags = None, up_assigned_to_id = None, up_case_id = None\<rparr>"
  have h: "tenant_row ?db ''1'' ''t'' = Some (demo_row ''1'' ''medium'' None 0)"
    "base_filter ''t'' ''all'' 5 (demo_row ''1'' ''medium'' None 0)"
    "qa_assigned_to_id (demo_row ''1'' ''medium'' None 0) = None" "qa_severity (demo_row ''1'' ''medium'' None 0) = ''medium''"
    by (simp_all add: tenant_row_def demo_row_def base_filter_def QUEUE_CLOSED_STATUSES_def PERIOD_TO_TIMEDELTA_def)
  from queue_operations [OF h(1-3), of ?up "''fp''" "Some 10" None "5 + 10 * 60 * second" _ "''ann''", OF _ _ _ refl] h(4)
  show ?thesis by (simp add: QUEUE_CLOSED_STATUSES_def snooze_until_def)
qed

end
