(* ===== verification/Mssp_Rules.thy ===== *)
theory Mssp_Rules
  imports Sigma_Rules
begin

text \<open>
  The resolver of a tenant's effective detection rules
  (\<open>services/api/app/services/mssp_rule_resolver.py\<close>): own and built-in rules, rules of assigned
  packs, per-tenant overrides; and the hunt endpoint of \<open>api/v1/endpoints/detection_rules.py\<close>, which
  hands the result to the rule engine.  A table is the list of its rows in the order in which the
  database returns them.
\<close>

subsection \<open>Rows\<close>

record detection_rule =
  dr_id :: string
  dr_tenant_id :: "string option"
  dr_name :: string
  dr_rule_language :: string
  dr_rule_body :: string
  dr_category :: string
  dr_status :: string
  dr_severity :: string
  dr_is_builtin :: bool

record pack_assignment =
  pa_pack_id :: string
  pa_child_tenant_id :: string
  pa_enabled :: bool
  pa_parameter_overrides :: dict

record pack_rule =
  pk_pack_id :: string
  pk_rule_id :: string

record rule_override =
  ro_child_tenant_id :: string
  ro_rule_id :: string
  ro_action :: string
  ro_severity_override :: "string option"
  ro_parameter_overrides :: dict
  ro_note :: "string option"

record rule_db =
  db_rules :: "detection_rule list"
  db_assignments :: "pack_assignment list"
  db_pack_rules :: "pack_rule list"
  db_overrides :: "rule_override list"

record resolved_rule =
  rr_id :: string
  rr_name :: string
  rr_rule_language :: string
  rr_rule_body :: string
  rr_severity :: string
  rr_category :: string
  rr_status :: string
  rr_is_builtin :: bool
  rr_source :: string
  rr_pack_ids :: "string list"
  rr_parameter_overrides :: dict
  rr_severity_overridden :: bool
  rr_original_severity :: string
  rr_override_note :: "string option"

definition to_engine_dict :: "resolved_rule \<Rightarrow> hunt_rule" where
  "to_engine_dict r = \<lparr>hr_id = rr_id r, hr_name = rr_name r, hr_language = rr_rule_language r,
     hr_body = rr_rule_body r, hr_severity = rr_severity r\<rparr>"

subsection \<open>Resolving\<close>

record rule_query =
  rq_include_builtin :: bool
  rq_include_packs :: bool
  rq_rule_ids :: "string list"
  rq_rule_language :: string
  rq_category :: string
  rq_only_active :: bool

text \<open>The filters that both queries share; an empty list or text is no filter.\<close>

definition wanted :: "rule_query \<Rightarrow> detection_rule \<Rightarrow> bool" where
  "wanted q r \<longleftrightarrow> (rq_only_active q \<longrightarrow> dr_status r = ''active'') \<and> (rq_rule_ids q \<noteq> [] \<longrightarrow> dr_id r \<in> set (rq_rule_ids q))
     \<and> (rq_rule_language q \<noteq> [] \<longrightarrow> dr_rule_language r = rq_rule_language q)
     \<and> (rq_category q \<noteq> [] \<longrightarrow> dr_category r = rq_category q)"

definition direct :: "rule_query \<Rightarrow> string \<Rightarrow> detection_rule \<Rightarrow> bool" where
  "direct q tenant_id r \<longleftrightarrow>
     dr_tenant_id r = Some tenant_id \<or> rq_include_builtin q \<and> dr_tenant_id r = None \<and> dr_is_builtin r"

definition from_row :: "detection_rule \<Rightarrow> string \<Rightarrow> string list \<Rightarrow> dict \<Rightarrow> resolved_rule" where
  "from_row r source packs params =
     \<lparr>rr_id = dr_id r, rr_name = dr_name r, rr_rule_language = dr_rule_language r, rr_rule_body = dr_rule_body r,
      rr_severity = dr_severity r, rr_category = dr_category r, rr_status = dr_status r, rr_is_builtin = dr_is_builtin r,
      rr_source = source, rr_pack_ids = packs, rr_parameter_overrides = params, rr_severity_overridden = False,
      rr_original_severity = dr_severity r, rr_override_note = None\<rparr>"

type_synonym resolved = "(string \<times> resolved_rule) list"

definition add_direct :: "detection_rule \<Rightarrow> resolved \<Rightarrow> resolved" where
  "add_direct r d = dict_set (dr_id r)
     (from_row r (if dr_tenant_id r = None \<and> dr_is_builtin r then ''builtin'' else ''tenant'') [] []) d"

definition direct_part :: "rule_db \<Rightarrow> rule_query \<Rightarrow> string \<Rightarrow> resolved" where
  "direct_part db q tenant_id = fold add_direct (filter (\<lambda>r. direct q tenant_id r \<and> wanted q r) (db_rules db)) []"

text \<open>\<open>pack_id_to_overrides\<close>: the enabled assignments of the tenant.\<close>

definition assigned_packs :: "rule_db \<Rightarrow> string \<Rightarrow> (string \<times> dict) list" where
  "assigned_packs db tenant_id =
     fold (\<lambda>a. dict_set (pa_pack_id a) (pa_parameter_overrides a))
       (filter (\<lambda>a. pa_child_tenant_id a = tenant_id \<and> pa_enabled a) (db_assignments db)) []"

text \<open>The join of the memberships of these packs with the rules.\<close>

definition pack_rows :: "rule_db \<Rightarrow> rule_query \<Rightarrow> (string \<times> dict) list \<Rightarrow> (string \<times> detection_rule) list" where
  "pack_rows db q packs =
     concat (map (\<lambda>m. map (Pair (pk_pack_id m)) (filter (\<lambda>r. dr_id r = pk_rule_id m \<and> wanted q r) (db_rules db)))
       (filter (\<lambda>m. dict_get packs (pk_pack_id m) \<noteq> None) (db_pack_rules db)))"

definition add_pack_rule :: "(string \<times> dict) list \<Rightarrow> string \<times> detection_rule \<Rightarrow> resolved \<Rightarrow> resolved" where
  "add_pack_rule packs row d =
     (case row of (pack_id, rule) \<Rightarrow>
      let overrides = (case dict_get packs pack_id of None \<Rightarrow> [] | Some o' \<Rightarrow> o') in
      case dict_get d (dr_id rule) of
        Some rr \<Rightarrow> dict_set (dr_id rule)
          (rr\<lparr>rr_pack_ids := rr_pack_ids rr @ [pack_id],
              rr_parameter_overrides := (if overrides \<noteq> [] then dict_update (rr_parameter_overrides rr) overrides
                                         else rr_parameter_overrides rr)\<rparr>) d
      | None \<Rightarrow> dict_set (dr_id rule) (from_row rule ''pack'' [pack_id] overrides) d)"

definition pack_part :: "rule_db \<Rightarrow> rule_query \<Rightarrow> string \<Rightarrow> resolved \<Rightarrow> resolved" where
  "pack_part db q tenant_id d =
     (if rq_include_packs q
      then let packs = assigned_packs db tenant_id in fold (add_pack_rule packs) (pack_rows db q packs) d
      else d)"

definition customize :: "rule_override \<Rightarrow> resolved_rule \<Rightarrow> resolved_rule" where
  "customize ov rr =
     (let r1 = (case ro_severity_override ov of
                  Some s \<Rightarrow> if s \<noteq> [] then rr\<lparr>rr_severity_overridden := True, rr_severity := s\<rparr> else rr
                | None \<Rightarrow> rr);
          r2 = (if ro_parameter_overrides ov \<noteq> []
                then r1\<lparr>rr_parameter_overrides := dict_update (rr_parameter_overrides r1) (ro_parameter_overrides ov)\<rparr> else r1)
      in case ro_note ov of Some n \<Rightarrow> if n \<noteq> [] then r2\<lparr>rr_override_note := Some n\<rparr> else r2 | None \<Rightarrow> r2)"

definition apply_override :: "rule_override \<Rightarrow> resolved \<Rightarrow> resolved" where
  "apply_override ov d =
     (case dict_get d (ro_rule_id ov) of
        None \<Rightarrow> d
      | Some rr \<Rightarrow> if ro_action ov = ''exclude'' then dict_del (ro_rule_id ov) d
                  else dict_set (ro_rule_id ov) (customize ov rr) d)"

definition override_part :: "rule_db \<Rightarrow> string \<Rightarrow> resolved \<Rightarrow> resolved" where
  "override_part db tenant_id d =
     fold apply_override
       (filter (\<lambda>ov. ro_child_tenant_id ov = tenant_id \<and> dict_get d (ro_rule_id ov) \<noteq> None) (db_overrides db)) d"

definition resolve_effective_rules :: "rule_db \<Rightarrow> string \<Rightarrow> rule_query \<Rightarrow> resolved_rule list" where
  "resolve_effective_rules db tenant_id q =
     map snd (override_part db tenant_id (pack_part db q tenant_id (direct_part db q tenant_id)))"

definition plain_query :: rule_query where
  "plain_query = \<lparr>rq_include_builtin = True, rq_include_packs = True, rq_rule_ids = [], rq_rule_language = [],
     rq_category = [], rq_only_active = False\<rparr>"

definition count_effective_rules :: "rule_db \<Rightarrow> string \<Rightarrow> bool \<Rightarrow> bool \<Rightarrow> (string \<times> nat) list" where
  "count_effective_rules db tenant_id include_builtin include_packs =
     (let rules = resolve_effective_rules db tenant_id
            (plain_query\<lparr>rq_include_builtin := include_builtin, rq_include_packs := include_packs\<rparr>);
          excluded = length (filter (\<lambda>ov. ro_child_tenant_id ov = tenant_id \<and> ro_action ov = ''exclude'') (db_overrides db))
      in fold (\<lambda>r counts. dict_set (rr_source r) (1 + (case dict_get counts (rr_source r) of None \<Rightarrow> 0 | Some n \<Rightarrow> n)) counts) rules
           [(''total'', length rules), (''tenant'', 0), (''builtin'', 0), (''pack'', 0), (''excluded'', excluded)])"

text \<open>The hunt endpoint.\<close>

definition hunt :: "packages \<Rightarrow> rule_db \<Rightarrow> string \<Rightarrow> string list \<Rightarrow> string \<Rightarrow> dict list \<Rightarrow> nat \<times> hunt_result option" where
  "hunt pk db tenant_id rule_ids rule_language events =
     (let resolved = resolve_effective_rules db tenant_id
            (plain_query\<lparr>rq_rule_ids := rule_ids, rq_rule_language := rule_language, rq_only_active := True\<rparr>)
      in if resolved = [] then (404, None)
         else (200, Some (run_hunt pk (map to_engine_dict resolved) events)))"

subsection \<open>What the layers contribute\<close>

definition keys_ok :: "resolved \<Rightarrow> bool" where
  "keys_ok d \<longleftrightarrow> distinct (map fst d) \<and> list_all (\<lambda>(k, rr). rr_id rr = k) d"

lemma keys_ok_set: "keys_ok d \<Longrightarrow> rr_id rr = k \<Longrightarrow> keys_ok (dict_set k rr d)"
  by (auto simp: keys_ok_def list_all_iff dest!: subsetD [OF set_dict_set_sub])

lemma keys_ok_del: "keys_ok d \<Longrightarrow> keys_ok (dict_del k d)"
  by (auto simp: keys_ok_def list_all_iff dict_del_def distinct_map_filter)

lemma keys_ok_values: "keys_ok d \<Longrightarrow> rr \<in> set (map snd d) \<longleftrightarrow> dict_get d (rr_id rr) = Some rr"
  by (force simp: keys_ok_def list_all_iff dict_get_def)


lemma from_row_id [simp]: "rr_id (from_row r src packs params) = dr_id r"
  by (simp add: from_row_def)

lemma fold_dict_set:
  assumes "distinct (map k rs)"
  shows "r \<in> set rs \<Longrightarrow> dict_get (fold (\<lambda>r. dict_set (k r) (v r)) rs d) (k r) = Some (v r)"
    and "x \<notin> k ` set rs \<Longrightarrow> dict_get (fold (\<lambda>r. dict_set (k r) (v r)) rs d) x = dict_get d x"
proof -
  have other: "x \<notin> k ` set rs \<Longrightarrow> dict_get (fold (\<lambda>r. dict_set (k r) (v r)) rs d) x = dict_get d x" for x d rs
    by (induction rs arbitrary: d) auto
  then show "x \<notin> k ` set rs \<Longrightarrow> dict_get (fold (\<lambda>r. dict_set (k r) (v r)) rs d) x = dict_get d x" .
  show "r \<in> set rs \<Longrightarrow> dict_get (fold (\<lambda>r. dict_set (k r) (v r)) rs d) (k r) = Some (v r)"
    using assms by (induction rs arbitrary: d) (auto simp: other)
qed

definition source_of :: "rule_query \<Rightarrow> string \<Rightarrow> detection_rule \<Rightarrow> string" where
  "source_of q tenant_id r =
     (if direct q tenant_id r then (if dr_tenant_id r = None \<and> dr_is_builtin r then ''builtin'' else ''tenant'') else ''pack'')"

text \<open>An entry carries its rule, from the source that takes precedence.\<close>

definition carries :: "rule_query \<Rightarrow> string \<Rightarrow> detection_rule \<Rightarrow> resolved_rule \<Rightarrow> bool" where
  "carries q tenant_id r rr \<longleftrightarrow>
     rr_id rr = dr_id r \<and> rr_name rr = dr_name r \<and> rr_rule_language rr = dr_rule_language r \<and> rr_rule_body rr = dr_rule_body r
     \<and> rr_category rr = dr_category r \<and> rr_status rr = dr_status r \<and> rr_original_severity rr = dr_severity r
     \<and> rr_source rr = source_of q tenant_id r"

definition layered :: "rule_db \<Rightarrow> rule_query \<Rightarrow> string \<Rightarrow> resolved \<Rightarrow> bool" where
  "layered db q tenant_id d \<longleftrightarrow> keys_ok d
     \<and> (\<forall>x rr. dict_get d x = Some rr \<longrightarrow> rr_severity rr = rr_original_severity rr \<and> \<not> rr_severity_overridden rr
          \<and> (\<exists>r\<in>set (db_rules db). dr_id r = x \<and> carries q tenant_id r rr))
     \<and> (\<forall>r\<in>set (db_rules db). direct q tenant_id r \<and> wanted q r \<longrightarrow> dict_get d (dr_id r) \<noteq> None)"

lemma direct_part_get:
  assumes "distinct (map dr_id (db_rules db))"
  shows "dict_get (direct_part db q t) x = Some rr \<longleftrightarrow>
    (\<exists>r\<in>set (db_rules db). dr_id r = x \<and> direct q t r \<and> wanted q r \<and> rr = from_row r (source_of q t r) [] [])"
proof -
  let ?rs = "filter (\<lambda>r. direct q t r \<and> wanted q r) (db_rules db)"
  let ?v = "\<lambda>r. from_row r (if dr_tenant_id r = None \<and> dr_is_builtin r then ''builtin'' else ''tenant'') [] []"
  have d: "distinct (map dr_id ?rs)" by (rule distinct_map_filter [OF assms])
  have part: "direct_part db q t = fold (\<lambda>r. dict_set (dr_id r) (?v r)) ?rs []"
    by (simp add: direct_part_def add_direct_def [abs_def])
  show ?thesis
  proof (cases "x \<in> dr_id ` set ?rs")
    case True
    then obtain r where r: "r \<in> set ?rs" "x = dr_id r" by blast
    have "r' = r" if "r' \<in> set (db_rules db)" "dr_id r' = dr_id r" for r'
      using assms r that by (auto simp: distinct_map inj_on_def)
    moreover have "?v r = from_row r (source_of q t r) [] []" using r(1) by (simp add: source_of_def)
    ultimately show ?thesis using fold_dict_set(1) [OF d r(1), of ?v "[]"] r unfolding part by auto
  next
    case False
    with fold_dict_set(2) [OF d False, of ?v "[]"] show ?thesis by (auto simp: part)
  qed
qed

lemma carries_update [simp]:
  "carries q t r (rr\<lparr>rr_pack_ids := ps, rr_parameter_overrides := o'\<rparr>) \<longleftrightarrow> carries q t r rr"
  "carries q t r (rr\<lparr>rr_pack_ids := ps\<rparr>) \<longleftrightarrow> carries q t r rr"
  by (simp_all add: carries_def)

lemma from_row_fields [simp]:
  "carries q t r (from_row r src packs params) \<longleftrightarrow> src = source_of q t r"
  "rr_severity (from_row r src packs params) = dr_severity r" "rr_original_severity (from_row r src packs params) = dr_severity r"
  "\<not> rr_severity_overridden (from_row r src packs params)"
  by (auto simp: carries_def from_row_def)

lemma layered_direct:
  assumes "distinct (map dr_id (db_rules db))"
  shows "layered db q t (direct_part db q t)"
proof -
  have "keys_ok (direct_part db q t)" unfolding direct_part_def
    by (rule fold_invariant [where P = keys_ok and Q = "\<lambda>r. True"])
      (simp_all add: keys_ok_def [of "[]"] add_direct_def keys_ok_set)
  with direct_part_get [OF assms, of q t] show ?thesis
    by (auto simp: layered_def)
qed

lemma layered_add_pack:
  assumes "layered db q t d" "rule \<in> set (db_rules db)" "wanted q rule"
  shows "layered db q t (add_pack_rule packs (pack_id, rule) d)"
proof (cases "dict_get d (dr_id rule)")
  case None
  with assms have "\<not> direct q t rule" by (auto simp: layered_def)
  with assms None show ?thesis
    by (auto simp: layered_def add_pack_rule_def Let_def source_of_def intro!: keys_ok_set)
next
  case (Some rr)
  with assms(1) have "rr_id rr = dr_id rule" unfolding layered_def carries_def by metis
  with assms Some show ?thesis
    by (auto simp: layered_def add_pack_rule_def Let_def intro!: keys_ok_set)
qed

lemma layered_packs:
  "layered db q t d \<Longrightarrow> (\<And>p r. (p, r) \<in> set rows \<Longrightarrow> r \<in> set (db_rules db) \<and> wanted q r) \<Longrightarrow>
     layered db q t (fold (add_pack_rule packs) rows d)
     \<and> (\<forall>x. dict_get (fold (add_pack_rule packs) rows d) x \<noteq> None \<longleftrightarrow> dict_get d x \<noteq> None \<or> x \<in> (dr_id \<circ> snd) ` set rows)"
proof (induction rows arbitrary: d)
  case (Cons row rows)
  obtain p r where row: "row = (p, r)" by force
  have l: "layered db q t (add_pack_rule packs (p, r) d)" by (rule layered_add_pack) (use Cons.prems row in auto)
  have "dict_get (add_pack_rule packs (p, r) d) x \<noteq> None \<longleftrightarrow> dict_get d x \<noteq> None \<or> x = dr_id r" for x
    by (auto simp: add_pack_rule_def Let_def split: option.splits)
  with Cons.IH [OF l] Cons.prems row show ?case by auto
qed simp


definition override_of :: "rule_override list \<Rightarrow> string \<Rightarrow> rule_override option" where
  "override_of ovs x = find (\<lambda>ov. ro_rule_id ov = x) ovs"

definition overridden :: "rule_override option \<Rightarrow> resolved_rule option \<Rightarrow> resolved_rule option" where
  "overridden ov rr =
     (case (ov, rr) of
        (Some ov, Some rr) \<Rightarrow> if ro_action ov = ''exclude'' then None else Some (customize ov rr)
      | _ \<Rightarrow> rr)"

lemma apply_override_get:
  "dict_get (apply_override ov d) x = (if ro_rule_id ov = x then overridden (Some ov) (dict_get d x) else dict_get d x)"
  by (auto simp: apply_override_def overridden_def split: option.splits)

lemma overrides_get:
  "distinct (map ro_rule_id ovs) \<Longrightarrow>
     dict_get (fold apply_override ovs d) x = overridden (override_of ovs x) (dict_get d x)"
proof (induction ovs arbitrary: d)
  case (Cons ov ovs)
  have "ro_rule_id ov = x \<Longrightarrow> override_of ovs x = None"
    using Cons.prems by (fastforce simp: override_of_def find_None_iff image_iff)
  with Cons show ?case by (auto simp: apply_override_get override_of_def overridden_def split: option.splits)
qed (simp add: override_of_def overridden_def)

lemma customize_id [simp]: "rr_id (customize ov rr) = rr_id rr"
  by (auto simp: customize_def Let_def split: option.splits)

lemma keys_ok_override: "keys_ok d \<Longrightarrow> keys_ok (apply_override ov d)"
proof (cases "dict_get d (ro_rule_id ov)")
  case (Some rr)
  moreover assume "keys_ok d"
  moreover from this have "rr_id rr = ro_rule_id ov"
    using Some by (auto simp: keys_ok_def list_all_iff dest!: dict_get_SomeD)
  ultimately show ?thesis by (auto simp: apply_override_def intro!: keys_ok_set keys_ok_del)
qed (simp add: apply_override_def)

definition tenant_overrides :: "rule_db \<Rightarrow> string \<Rightarrow> rule_override list" where
  "tenant_overrides db tenant_id = filter (\<lambda>ov. ro_child_tenant_id ov = tenant_id) (db_overrides db)"

text \<open>The two uniqueness constraints of the database that the resolver relies on.\<close>

definition rule_db_ok :: "rule_db \<Rightarrow> string \<Rightarrow> bool" where
  "rule_db_ok db tenant_id \<longleftrightarrow>
     distinct (map dr_id (db_rules db)) \<and> distinct (map ro_rule_id (tenant_overrides db tenant_id))"

definition in_assigned_pack :: "rule_db \<Rightarrow> string \<Rightarrow> detection_rule \<Rightarrow> bool" where
  "in_assigned_pack db tenant_id r \<longleftrightarrow>
     (\<exists>a\<in>set (db_assignments db). pa_child_tenant_id a = tenant_id \<and> pa_enabled a
       \<and> (\<exists>m\<in>set (db_pack_rules db). pk_pack_id m = pa_pack_id a \<and> pk_rule_id m = dr_id r))"

definition covered :: "rule_db \<Rightarrow> rule_query \<Rightarrow> string \<Rightarrow> detection_rule \<Rightarrow> bool" where
  "covered db q tenant_id r \<longleftrightarrow>
     wanted q r \<and> (direct q tenant_id r \<or> rq_include_packs q \<and> in_assigned_pack db tenant_id r)"

definition final_severity :: "rule_override option \<Rightarrow> detection_rule \<Rightarrow> string" where
  "final_severity ov r =
     (case ov of None \<Rightarrow> dr_severity r
      | Some o' \<Rightarrow> (case ro_severity_override o' of Some s \<Rightarrow> if s \<noteq> [] then s else dr_severity r | None \<Rightarrow> dr_severity r))"

lemma assigned_packs_get:
  "dict_get (assigned_packs db t) p \<noteq> None \<longleftrightarrow> (\<exists>a\<in>set (db_assignments db). pa_child_tenant_id a = t \<and> pa_enabled a \<and> pa_pack_id a = p)"
proof -
  have "dict_get (fold (\<lambda>a. dict_set (pa_pack_id a) (pa_parameter_overrides a)) as d) p \<noteq> None
      \<longleftrightarrow> dict_get d p \<noteq> None \<or> (\<exists>a\<in>set as. pa_pack_id a = p)" for as d
    by (induction as arbitrary: d) auto
  from this [of "filter (\<lambda>a. pa_child_tenant_id a = t \<and> pa_enabled a) (db_assignments db)" "[]"]
  show ?thesis by (auto simp: assigned_packs_def)
qed

lemma pack_rows_in: "(p, r) \<in> set (pack_rows db q packs) \<Longrightarrow> r \<in> set (db_rules db) \<and> wanted q r"
  by (auto simp: pack_rows_def)

lemma pack_rows_ids:
  "x \<in> (dr_id \<circ> snd) ` set (pack_rows db q (assigned_packs db t))
     \<longleftrightarrow> (\<exists>r\<in>set (db_rules db). dr_id r = x \<and> wanted q r \<and> in_assigned_pack db t r)"
proof -
  have "x \<in> (dr_id \<circ> snd) ` set (pack_rows db q packs) \<longleftrightarrow>
      (\<exists>r\<in>set (db_rules db). dr_id r = x \<and> wanted q r
        \<and> (\<exists>m\<in>set (db_pack_rules db). dict_get packs (pk_pack_id m) \<noteq> None \<and> pk_rule_id m = dr_id r))" for packs
    by (force simp: pack_rows_def)
  from this [of "assigned_packs db t"]
  have "x \<in> (dr_id \<circ> snd) ` set (pack_rows db q (assigned_packs db t)) \<longleftrightarrow>
      (\<exists>r\<in>set (db_rules db). dr_id r = x \<and> wanted q r
        \<and> (\<exists>m\<in>set (db_pack_rules db). dict_get (assigned_packs db t) (pk_pack_id m) \<noteq> None \<and> pk_rule_id m = dr_id r))" .
  moreover have "(\<exists>m\<in>set (db_pack_rules db). dict_get (assigned_packs db t) (pk_pack_id m) \<noteq> None \<and> pk_rule_id m = dr_id r)
      \<longleftrightarrow> in_assigned_pack db t r" for r
    unfolding assigned_packs_get in_assigned_pack_def by (auto; metis)
  ultimately show ?thesis by (simp only:)
qed

lemma layers:
  fixes q :: rule_query and t :: string
  assumes "distinct (map dr_id (db_rules db))"
  defines "d \<equiv> pack_part db q t (direct_part db q t)"
  shows "layered db q t d \<and> (\<forall>x. dict_get d x \<noteq> None \<longleftrightarrow> (\<exists>r\<in>set (db_rules db). dr_id r = x \<and> covered db q t r))"
proof -
  have dom: "dict_get (direct_part db q t) x \<noteq> None \<longleftrightarrow> (\<exists>r\<in>set (db_rules db). dr_id r = x \<and> direct q t r \<and> wanted q r)" for x
    using direct_part_get [OF assms(1), of q t x] by auto
  let ?rows = "pack_rows db q (assigned_packs db t)"
  have lp: "layered db q t (fold (add_pack_rule (assigned_packs db t)) ?rows (direct_part db q t))
      \<and> (\<forall>x. dict_get (fold (add_pack_rule (assigned_packs db t)) ?rows (direct_part db q t)) x \<noteq> None
          \<longleftrightarrow> dict_get (direct_part db q t) x \<noteq> None \<or> x \<in> (dr_id \<circ> snd) ` set ?rows)"
    by (rule layered_packs [OF layered_direct [OF assms(1)]]) (rule pack_rows_in)
  show ?thesis
  proof (cases "rq_include_packs q")
    case True
    then have d: "d = fold (add_pack_rule (assigned_packs db t)) (pack_rows db q (assigned_packs db t)) (direct_part db q t)"
      by (simp add: d_def pack_part_def Let_def)
    have c: "dict_get d x \<noteq> None \<longleftrightarrow> (\<exists>r\<in>set (db_rules db). dr_id r = x \<and> direct q t r \<and> wanted q r)
        \<or> (\<exists>r\<in>set (db_rules db). dr_id r = x \<and> wanted q r \<and> in_assigned_pack db t r)" for x
      using lp [THEN conjunct2, THEN spec, of x] unfolding d dom pack_rows_ids .
    have "layered db q t d" using lp unfolding d by simp
    then show ?thesis unfolding c covered_def using True by blast
  next
    case False
    then have d: "d = direct_part db q t" by (simp add: d_def pack_part_def)
    show ?thesis unfolding d dom covered_def using layered_direct [OF assms(1), of q t] False by blast
  qed
qed


lemma layered_get:
  assumes "layered db q t d" "dict_get d x = Some rr"
  shows "\<exists>r\<in>set (db_rules db). carries q t r rr \<and> rr_severity rr = dr_severity r"
proof -
  from assms have s: "rr_severity rr = rr_original_severity rr" and "\<exists>r\<in>set (db_rules db). dr_id r = x \<and> carries q t r rr"
    unfolding layered_def by blast+
  then obtain r where r: "r \<in> set (db_rules db)" "carries q t r rr" by blast
  with s show ?thesis by (intro bexI [of _ r]) (simp_all add: carries_def)
qed

lemma find_filter: "(\<And>y. Q y \<Longrightarrow> P y) \<Longrightarrow> find Q (filter P ys) = find Q ys"
  by (induction ys) auto

lemma override_of_Some:
  "distinct (map ro_rule_id ovs) \<Longrightarrow> override_of ovs x = Some ov \<longleftrightarrow> ov \<in> set ovs \<and> ro_rule_id ov = x"
  unfolding override_of_def by (induction ovs) auto

lemma resolve_get:
  fixes q :: rule_query and t :: string
  assumes "rule_db_ok db t"
  defines "d \<equiv> pack_part db q t (direct_part db q t)"
  shows "keys_ok (override_part db t d)"
    and "dict_get (override_part db t d) x = overridden (override_of (tenant_overrides db t) x) (dict_get d x)"
proof -
  let ?ovs = "filter (\<lambda>ov. ro_child_tenant_id ov = t \<and> dict_get d (ro_rule_id ov) \<noteq> None) (db_overrides db)"
  have ovs: "?ovs = filter (\<lambda>ov. dict_get d (ro_rule_id ov) \<noteq> None) (tenant_overrides db t)"
    by (simp add: tenant_overrides_def conj_commute)
  have "keys_ok d" using layers [of db q t] assms by (simp add: layered_def rule_db_ok_def)
  then show "keys_ok (override_part db t d)" unfolding override_part_def
    by (rule fold_invariant [where Q = "\<lambda>ov. True", rotated]) (simp_all add: keys_ok_override)
  have "distinct (map ro_rule_id ?ovs)" unfolding ovs using assms(1) by (intro distinct_map_filter) (simp add: rule_db_ok_def)
  note get = overrides_get [OF this, of d x]
  show "dict_get (override_part db t d) x = overridden (override_of (tenant_overrides db t) x) (dict_get d x)"
  proof (cases "dict_get d x")
    case None
    with get show ?thesis by (simp add: override_part_def overridden_def split: option.splits)
  next
    case (Some rr)
    have "override_of ?ovs x = override_of (tenant_overrides db t) x"
      unfolding ovs override_of_def by (rule find_filter) (use Some in simp)
    with get show ?thesis by (simp add: override_part_def)
  qed
qed

lemma customize_fields:
  "carries q t r (customize ov rr) \<longleftrightarrow> carries q t r rr"
  "rr_severity rr = dr_severity r \<Longrightarrow> rr_severity (customize ov rr) = final_severity (Some ov) r"
  by (auto simp: customize_def Let_def carries_def final_severity_def split: option.splits)

lemma effective_rules_spec:
  assumes "rule_db_ok db t"
  shows "distinct (map rr_id (resolve_effective_rules db t q))
    \<and> (\<forall>x. x \<in> rr_id ` set (resolve_effective_rules db t q) \<longleftrightarrow>
          (\<exists>r\<in>set (db_rules db). dr_id r = x \<and> covered db q t r)
          \<and> \<not> (\<exists>ov\<in>set (tenant_overrides db t). ro_rule_id ov = x \<and> ro_action ov = ''exclude''))
    \<and> (\<forall>rr\<in>set (resolve_effective_rules db t q). \<exists>r\<in>set (db_rules db). carries q t r rr
          \<and> rr_severity rr = final_severity (override_of (tenant_overrides db t) (rr_id rr)) r)"
proof -
  let ?d = "pack_part db q t (direct_part db q t)" let ?ovs = "tenant_overrides db t"
  let ?f = "override_part db t ?d"
  note get = resolve_get [OF assms, of q] and lay = layers [of db q t]
  have rules: "resolve_effective_rules db t q = map snd ?f" by (simp add: resolve_effective_rules_def)
  have ids: "map rr_id (map snd ?f) = map fst ?f" using get(1) by (auto simp: keys_ok_def list_all_iff)
  have "distinct (map rr_id (resolve_effective_rules db t q))" using get(1) unfolding rules ids by (simp add: keys_ok_def)
  moreover have "x \<in> rr_id ` set (resolve_effective_rules db t q) \<longleftrightarrow>
      (\<exists>r\<in>set (db_rules db). dr_id r = x \<and> covered db q t r)
      \<and> \<not> (\<exists>ov\<in>set ?ovs. ro_rule_id ov = x \<and> ro_action ov = ''exclude'')" for x
  proof -
    have "x \<in> rr_id ` set (map snd ?f) \<longleftrightarrow> dict_get ?f x \<noteq> None"
      unfolding dict_get_None_iff set_map [symmetric] ids by simp
    also have "\<dots> \<longleftrightarrow> dict_get ?d x \<noteq> None \<and> (\<forall>ov. override_of ?ovs x = Some ov \<longrightarrow> ro_action ov \<noteq> ''exclude'')"
      unfolding get(2) by (auto simp: overridden_def split: option.splits)
    also have "(\<forall>ov. override_of ?ovs x = Some ov \<longrightarrow> ro_action ov \<noteq> ''exclude'')
        \<longleftrightarrow> \<not> (\<exists>ov\<in>set ?ovs. ro_rule_id ov = x \<and> ro_action ov = ''exclude'')"
      using override_of_Some [of ?ovs x] assms by (auto simp: rule_db_ok_def)
    finally show ?thesis using lay assms unfolding rules by (simp add: rule_db_ok_def)
  qed
  moreover have "\<exists>r\<in>set (db_rules db). carries q t r rr \<and> rr_severity rr = final_severity (override_of ?ovs (rr_id rr)) r"
    if "rr \<in> set (resolve_effective_rules db t q)" for rr
  proof -
    have "dict_get ?f (rr_id rr) = Some rr" using keys_ok_values [OF get(1), of rr] that by (simp only: rules)
    then obtain r0 where r0: "dict_get ?d (rr_id rr) = Some r0"
      "rr = (case override_of ?ovs (rr_id rr) of None \<Rightarrow> r0 | Some ov \<Rightarrow> customize ov r0)"
      unfolding get(2) by (auto simp: overridden_def split: option.splits if_splits)
    have "layered db q t ?d" using lay assms by (simp add: rule_db_ok_def)
    from layered_get [OF this r0(1)] obtain r where r: "r \<in> set (db_rules db)" "carries q t r r0" "rr_severity r0 = dr_severity r"
      by blast
    have "carries q t r rr \<and> rr_severity rr = final_severity (override_of ?ovs (rr_id rr)) r"
    proof (cases "override_of ?ovs (rr_id rr)")
      case None
      with r0(2) r show ?thesis by (simp add: final_severity_def)
    next
      case (Some ov)
      with r0(2) have rr: "rr = customize ov r0" by simp
      show ?thesis unfolding Some using r by (simp add: rr customize_fields)
    qed
    with r(1) show ?thesis by blast
  qed
  ultimately show ?thesis by blast
qed


subsection \<open>Hunts\<close>

definition erase :: "resolved_rule \<Rightarrow> resolved_rule" where
  "erase rr = rr\<lparr>rr_parameter_overrides := []\<rparr>"

definition erase_all :: "resolved \<Rightarrow> resolved" where
  "erase_all d = map (\<lambda>(k, rr). (k, erase rr)) d"

text \<open>The database without any customised parameter.\<close>

definition no_parameters :: "rule_db \<Rightarrow> rule_db" where
  "no_parameters db = db\<lparr>db_assignments := map (\<lambda>a. a\<lparr>pa_parameter_overrides := []\<rparr>) (db_assignments db),
     db_overrides := map (\<lambda>ov. ov\<lparr>ro_parameter_overrides := []\<rparr>) (db_overrides db)\<rparr>"

lemma erase_get: "dict_get (erase_all d) k = map_option erase (dict_get d k)"
  by (simp add: erase_all_def dict_get_map)

lemma erase_set: "dict_set k (erase rr) (erase_all d) = erase_all (dict_set k rr d)"
  by (simp add: erase_all_def dict_set_map)

lemma erase_del: "dict_del k (erase_all d) = erase_all (dict_del k d)"
  by (simp add: erase_all_def dict_del_map)

lemma erase_update: "erase (rr\<lparr>rr_pack_ids := ps, rr_parameter_overrides := o'\<rparr>) = (erase rr)\<lparr>rr_pack_ids := ps, rr_parameter_overrides := []\<rparr>"
  by (simp add: erase_def)

lemma erase_add_pack:
  assumes "\<And>p. dict_get packs' p = map_option (\<lambda>o'. []) (dict_get packs p)"
  shows "add_pack_rule packs' row (erase_all d) = erase_all (add_pack_rule packs row d)"
proof -
  obtain p rule where row: "row = (p, rule)" by force
  have o': "(case dict_get packs' p of None \<Rightarrow> [] | Some o' \<Rightarrow> o') = []" by (simp add: assms split: option.splits)
  show ?thesis
  proof (cases "dict_get d (dr_id rule)")
    case None
    have "from_row rule ''pack'' [p] [] = erase (from_row rule ''pack'' [p] o')" for o' by (simp add: erase_def from_row_def)
    from this [of "case dict_get packs p of None \<Rightarrow> [] | Some o' \<Rightarrow> o'"] None o' show ?thesis
      by (simp add: row add_pack_rule_def erase_get erase_set)
  next
    case (Some rr)
    have key: "(erase rr)\<lparr>rr_pack_ids := rr_pack_ids (erase rr) @ [p], rr_parameter_overrides := rr_parameter_overrides (erase rr)\<rparr>
        = erase (rr\<lparr>rr_pack_ids := rr_pack_ids rr @ [p], rr_parameter_overrides := o'\<rparr>)" for o'
      by (simp add: erase_def)
    from Some show ?thesis
      by (simp only: row add_pack_rule_def prod.case Let_def o' erase_get option.map option.case erase_set [symmetric]
          key [symmetric] if_False simp_thms not_True_eq_False)
  qed
qed

lemma erase_customize: "customize (ov\<lparr>ro_parameter_overrides := []\<rparr>) (erase rr) = erase (customize ov rr)"
  by (simp add: customize_def Let_def erase_def split: option.splits)

lemma erase_override: "apply_override (ov\<lparr>ro_parameter_overrides := []\<rparr>) (erase_all d) = erase_all (apply_override ov d)"
  by (simp add: apply_override_def erase_get erase_customize erase_set erase_del split: option.splits)


lemma erase_direct: "erase_all (direct_part db q t) = direct_part db q t"
proof -
  have "erase_all (fold add_direct rs d) = fold add_direct rs d" if "erase_all d = d" for rs d
    using that
  proof (induction rs arbitrary: d)
    case (Cons r rs)
    have "erase (from_row r src [] []) = from_row r src [] []" for src by (simp add: erase_def from_row_def)
    then have "erase_all (add_direct r d) = add_direct r d" by (simp add: add_direct_def erase_set [symmetric] Cons.prems)
    then show ?case using Cons.IH by simp
  qed simp
  then show ?thesis by (simp add: direct_part_def) (simp add: erase_all_def)
qed

lemma no_parameters_packs: "dict_get (assigned_packs (no_parameters db) t) p = map_option (\<lambda>o'. []) (dict_get (assigned_packs db t) p)"
proof -
  have "dict_get (fold (\<lambda>a. dict_set (pa_pack_id a) (pa_parameter_overrides a)) (map (\<lambda>a. a\<lparr>pa_parameter_overrides := []\<rparr>) as) d') p
      = map_option (\<lambda>o'. []) (dict_get (fold (\<lambda>a. dict_set (pa_pack_id a) (pa_parameter_overrides a)) as d) p)"
    if "\<And>p. dict_get d' p = map_option (\<lambda>o'. []) (dict_get d p)" for as d d'
    using that
  proof (induction as arbitrary: d d')
    case (Cons a as)
    show ?case by (simp, rule Cons.IH) (simp add: Cons.prems)
  qed simp
  from this [of "[]" "[]"] show ?thesis by (simp add: assigned_packs_def no_parameters_def filter_map comp_def)
qed

lemma no_parameters_rules: "db_rules (no_parameters db) = db_rules db" "db_pack_rules (no_parameters db) = db_pack_rules db"
  by (simp_all add: no_parameters_def)

lemma fold_erase:
  "(\<And>y d. f' (h y) (erase_all d) = erase_all (f y d)) \<Longrightarrow> fold f' (map h ys) (erase_all d) = erase_all (fold f ys d)"
  by (induction ys arbitrary: d) simp_all

lemma no_parameters_pack_part: "pack_part (no_parameters db) q t (erase_all d) = erase_all (pack_part db q t d)"
proof (cases "rq_include_packs q")
  case True
  have rows: "pack_rows (no_parameters db) q (assigned_packs (no_parameters db) t) = pack_rows db q (assigned_packs db t)"
    by (simp add: pack_rows_def no_parameters_rules no_parameters_packs)
  have "fold (add_pack_rule (assigned_packs (no_parameters db) t)) (map (\<lambda>y. y) rows) (erase_all d)
      = erase_all (fold (add_pack_rule (assigned_packs db t)) rows d)" for rows
    by (rule fold_erase) (rule erase_add_pack [OF no_parameters_packs])
  with True rows show ?thesis by (simp add: pack_part_def Let_def)
qed (simp add: pack_part_def)

lemma no_parameters_overrides: "override_part (no_parameters db) t (erase_all d) = erase_all (override_part db t d)"
proof -
  let ?h = "\<lambda>ov. ov\<lparr>ro_parameter_overrides := []\<rparr>"
  have "filter (\<lambda>ov. ro_child_tenant_id ov = t \<and> dict_get (erase_all d) (ro_rule_id ov) \<noteq> None) (db_overrides (no_parameters db))
      = map ?h (filter (\<lambda>ov. ro_child_tenant_id ov = t \<and> dict_get d (ro_rule_id ov) \<noteq> None) (db_overrides db))"
    by (simp add: no_parameters_def filter_map comp_def erase_get)
  then show ?thesis unfolding override_part_def by (simp add: fold_erase erase_override)
qed

lemma direct_part_parameters: "direct_part (no_parameters db) q t = direct_part db q t"
  by (simp add: direct_part_def no_parameters_rules)

lemma engine_rules_parameters:
  "map to_engine_dict (resolve_effective_rules (no_parameters db) t q) = map to_engine_dict (resolve_effective_rules db t q)"
proof -
  let ?d = "override_part db t (pack_part db q t (direct_part db q t))"
  have "override_part (no_parameters db) t (pack_part (no_parameters db) q t (direct_part (no_parameters db) q t)) = erase_all ?d"
    unfolding direct_part_parameters
    by (subst erase_direct [symmetric]) (simp only: no_parameters_pack_part no_parameters_overrides)
  then have "resolve_effective_rules (no_parameters db) t q = map snd (erase_all ?d)" by (simp add: resolve_effective_rules_def)
  moreover have "to_engine_dict (erase rr) = to_engine_dict rr" for rr by (simp add: to_engine_dict_def erase_def)
  ultimately show ?thesis by (simp add: resolve_effective_rules_def erase_all_def comp_def split_def)
qed


lemma hunt_loop_summary:
  "hunt_loop pk es rules n evs summ errs = (n', evs', summ', errs') \<Longrightarrow> sm \<in> set summ' \<Longrightarrow>
     sm \<in> set summ \<or> (\<exists>r\<in>set rules. hs_rule_id sm = hr_id r \<and> hs_severity sm = hr_severity r)"
proof (induction rules arbitrary: n evs summ errs)
  case (Cons r rules)
  have "rm_rule_id (run_one pk es r) = hr_id r" "rm_severity (run_one pk es r) = hr_severity r"
    by (auto simp: run_one_def execute_rule_def split: option.split prod.split)
  with Cons.prems Cons.IH show ?case by (auto simp: Let_def split: if_splits) (force)+
qed simp

lemma run_hunt_summary:
  "sm \<in> set (hx_match_summary (run_hunt pk rules es)) \<Longrightarrow>
     \<exists>r\<in>set rules. hs_rule_id sm = hr_id r \<and> hs_severity sm = hr_severity r"
  using hunt_loop_summary [of pk es rules 0 "[]" "[]" "[]"] by (auto simp: run_hunt_def split: prod.splits)

definition hunt_query :: "string list \<Rightarrow> string \<Rightarrow> rule_query" where
  "hunt_query rule_ids rule_language =
     plain_query\<lparr>rq_rule_ids := rule_ids, rq_rule_language := rule_language, rq_only_active := True\<rparr>"

definition effective :: "rule_db \<Rightarrow> rule_query \<Rightarrow> string \<Rightarrow> detection_rule \<Rightarrow> bool" where
  "effective db q t r \<longleftrightarrow> r \<in> set (db_rules db) \<and> covered db q t r
     \<and> \<not> (\<exists>ov\<in>set (tenant_overrides db t). ro_rule_id ov = dr_id r \<and> ro_action ov = ''exclude'')"

lemma effective_rules_in:
  assumes "rule_db_ok db t" "rr \<in> set (resolve_effective_rules db t q)"
  shows "\<exists>r. effective db q t r \<and> dr_id r = rr_id rr \<and> rr_severity rr = final_severity (override_of (tenant_overrides db t) (dr_id r)) r"
proof -
  note ex = effective_rules_spec [OF assms(1), of q]
  have "rr_id rr \<in> rr_id ` set (resolve_effective_rules db t q)" using assms(2) by (rule imageI)
  then obtain r0 where r0: "r0 \<in> set (db_rules db)" "dr_id r0 = rr_id rr" "covered db q t r0"
    "\<not> (\<exists>ov\<in>set (tenant_overrides db t). ro_rule_id ov = rr_id rr \<and> ro_action ov = ''exclude'')" using ex by blast
  obtain r where r: "r \<in> set (db_rules db)" "carries q t r rr" "rr_severity rr = final_severity (override_of (tenant_overrides db t) (rr_id rr)) r"
    using ex assms(2) by blast
  have "r = r0" using r(1,2) r0(1,2) assms(1) by (auto simp: rule_db_ok_def distinct_map inj_on_def carries_def)
  with r r0 show ?thesis by (auto simp: effective_def)
qed

text \<open>
  C11.  The effective rules of a tenant are exact: each rule is listed once; a rule is listed if and
  only if it passes the filters, is the tenant's own, a built-in one (when asked for) or a member of an
  assigned and enabled pack (when asked for), and the tenant has not excluded it; and every listed rule
  carries the contents of its row, the severity of the tenant's override when there is one, and the
  source that takes precedence.
\<close>

theorem effective_rules_exact:
  assumes "rule_db_ok db t"
  shows "distinct (map rr_id (resolve_effective_rules db t q))
    \<and> (\<forall>x. x \<in> rr_id ` set (resolve_effective_rules db t q) \<longleftrightarrow>
          (\<exists>r\<in>set (db_rules db). dr_id r = x \<and> covered db q t r)
          \<and> \<not> (\<exists>ov\<in>set (tenant_overrides db t). ro_rule_id ov = x \<and> ro_action ov = ''exclude''))
    \<and> (\<forall>rr\<in>set (resolve_effective_rules db t q). \<exists>r\<in>set (db_rules db). carries q t r rr
          \<and> rr_severity rr = final_severity (override_of (tenant_overrides db t) (rr_id rr)) r)"
  by (rule effective_rules_spec [OF assms])

definition demo_rule :: "string \<Rightarrow> string option \<Rightarrow> detection_rule" where
  "demo_rule i owner = \<lparr>dr_id = i, dr_tenant_id = owner, dr_name = i, dr_rule_language = ''kql'', dr_rule_body = ''user:root'',
     dr_category = ''x'', dr_status = ''active'', dr_severity = ''low'', dr_is_builtin = (owner = None)\<rparr>"

definition demo_rule_db :: rule_db where
  "demo_rule_db = \<lparr>db_rules = [demo_rule ''1'' None, demo_rule ''2'' (Some ''t''), demo_rule ''3'' (Some ''mssp''), demo_rule ''4'' (Some ''u'')],
     db_assignments = [\<lparr>pa_pack_id = ''p'', pa_child_tenant_id = ''t'', pa_enabled = True, pa_parameter_overrides = [(''n'', VInt 1)]\<rparr>],
     db_pack_rules = [\<lparr>pk_pack_id = ''p'', pk_rule_id = ''3''\<rparr>, \<lparr>pk_pack_id = ''p'', pk_rule_id = ''2''\<rparr>],
     db_overrides = [\<lparr>ro_child_tenant_id = ''t'', ro_rule_id = ''1'', ro_action = ''exclude'', ro_severity_override = None,
                      ro_parameter_overrides = [], ro_note = None\<rparr>,
                     \<lparr>ro_child_tenant_id = ''t'', ro_rule_id = ''2'', ro_action = ''customize'', ro_severity_override = Some ''high'',
                      ro_parameter_overrides = [(''n'', VInt 5)], ro_note = Some ''x''\<rparr>]\<rparr>"

lemma demo_rule_db_ok: "rule_db_ok demo_rule_db ''t''"
  by (simp add: rule_db_ok_def demo_rule_db_def tenant_overrides_def demo_rule_def)

lemma demo_effective:
  "map (\<lambda>r. (rr_id r, rr_severity r, rr_source r, rr_pack_ids r)) (resolve_effective_rules demo_rule_db ''t'' plain_query)
   = [(''2'', ''high'', ''tenant'', [''p'']), (''3'', ''low'', ''pack'', [''p''])]"
  by code_simp

lemma effective_rules_exact_witness:
  "distinct (map rr_id (resolve_effective_rules demo_rule_db ''t'' plain_query))
   \<and> length (resolve_effective_rules demo_rule_db ''t'' plain_query) = 2"
  using effective_rules_exact [OF demo_rule_db_ok, of plain_query] arg_cong [OF demo_effective, of length] by simp



definition demo_packages :: packages where
  "demo_packages = \<lparr>pk_yaml = (\<lambda>s. Inr VNone), pk_pysigma = (\<lambda>s. NoPySigma), pk_yara = (\<lambda>s. NoYara),
     pk_re_search = (\<lambda>p s. Inr False), pk_re_flags = (\<lambda>p. Inr (\<lambda>s. False))\<rparr>"


end
