(* ===== verification/Email_Approval.thy ===== *)
theory Email_Approval
  imports Token_Payload
begin

text \<open>
  The signed links of the approval mails (\<open>services/api/app/services/email_approval.py\<close>): issuing,
  verifying, the two links of a mail.  The mailer, the texts of the mail and the clock are arguments;
  the clock is a rational number of seconds.
\<close>

text \<open>An EmailApprovalError with its reason, or an exception of another class with its name.\<close>

datatype email_error = Refused string | Raised string

record approval_token =
  at_decision :: string
  at_action_id :: string
  at_case_id :: string
  at_expires_at :: int

definition DECISIONS :: "string list" where
  "DECISIONS = [''approved'', ''rejected'']"

text \<open>The UTF-8 bytes of a text, as characters.\<close>

definition utf8 :: "string \<Rightarrow> string" where
  "utf8 s = concat (map (\<lambda>c. let n = (of_char c :: nat) in
     if n < 128 then [c] else [char_of (192 + n div 64), char_of (128 + n mod 64)]) s)"

definition canonical_payload :: "string \<Rightarrow> string \<Rightarrow> string \<Rightarrow> int \<Rightarrow> string" where
  "canonical_payload decision action_id case_id expires_at =
     decision @ ''|'' @ action_id @ ''|'' @ case_id @ ''|'' @ int_str expires_at"

definition hmac_hex :: "string \<Rightarrow> string \<Rightarrow> string" where
  "hmac_hex payload secret = hmac_sha256 (utf8 secret) (utf8 payload)"

definition envelope_of :: "string \<Rightarrow> string \<Rightarrow> string \<Rightarrow> int \<Rightarrow> string \<Rightarrow> dict" where
  "envelope_of decision action_id case_id expires_at signature =
     [(''d'', VStr decision), (''a'', VStr action_id), (''c'', VStr case_id), (''e'', VInt expires_at), (''s'', VStr signature)]"

definition encode_envelope :: "dict \<Rightarrow> string" where
  "encode_envelope env = b64url_encode (json_compact_sorted (VDict env))"

definition issue_token :: "string \<Rightarrow> string \<Rightarrow> string \<Rightarrow> string \<Rightarrow> int \<Rightarrow> rat \<Rightarrow> email_error + string" where
  "issue_token decision action_id case_id secret ttl_seconds now =
     (if decision \<notin> set DECISIONS then Inl (Refused (''unsupported decision '' @ repr_str decision))
      else if secret = [] then Inl (Refused ''signing secret is empty - refusing to issue'')
      else if action_id = [] then Inl (Refused ''action_id is required'')
      else let expires_at = rat_trunc (now + of_int (max 60 ttl_seconds));
               signature = hmac_hex (canonical_payload decision action_id case_id expires_at) secret
           in Inr (encode_envelope (envelope_of decision action_id case_id expires_at signature)))"

definition text_field :: "dict \<Rightarrow> string \<Rightarrow> string" where
  "text_field env k = py_str (py_or (vget env k) (VStr []))"

text \<open>\<open>isinstance(v, int)\<close>, which holds for a boolean too.\<close>

definition as_int :: "val \<Rightarrow> int option" where
  "as_int v = (case v of VInt i \<Rightarrow> Some i | VBool b \<Rightarrow> Some (if b then 1 else 0) | _ \<Rightarrow> None)"

definition check_envelope :: "dict \<Rightarrow> string \<Rightarrow> rat \<Rightarrow> email_error + approval_token" where
  "check_envelope env secret now =
     (let decision = text_field env ''d''; action_id = text_field env ''a''; case_id = text_field env ''c'';
          signature = text_field env ''s''
      in if decision \<notin> set DECISIONS then Inl (Refused (''unsupported decision '' @ repr_str decision))
         else if action_id = [] then Inl (Refused ''token missing action_id'')
         else case as_int (vget env ''e'') of
           None \<Rightarrow> Inl (Refused ''token missing expires_at'')
         | Some expires_at \<Rightarrow>
             if \<not> is_ascii signature then Inl (Raised ''TypeError'')
             else if hmac_hex (canonical_payload decision action_id case_id expires_at) secret \<noteq> signature
               then Inl (Refused ''signature mismatch'')
             else if of_int expires_at < now then Inl (Refused ''token expired'')
             else Inr \<lparr>at_decision = decision, at_action_id = action_id, at_case_id = case_id, at_expires_at = expires_at\<rparr>)"

definition email_verify_token :: "string \<Rightarrow> string \<Rightarrow> rat \<Rightarrow> email_error + approval_token" where
  "email_verify_token token secret now =
     (if secret = [] then Inl (Refused ''signing secret is empty - refusing to verify'')
      else if token = [] then Inl (Refused ''empty token'')
      else case decode_body token of
        None \<Rightarrow> Inl (Refused ''malformed token'')
      | Some (VDict env) \<Rightarrow> check_envelope env secret now
      | Some _ \<Rightarrow> Inl (Raised ''AttributeError''))"

subsection \<open>The links of a mail\<close>

text \<open>\<open>quote_plus\<close> of the standard library.\<close>

definition quote_char :: "char \<Rightarrow> string" where
  "quote_char c =
     (let n = (of_char c :: nat) in
      if is_digit c \<or> is_lower c \<or> is_upper c \<or> c \<in> set ''_.-~'' then [c]
      else if n = 32 then ''+''
      else [CHR ''%'', upper_char (hex_digit (n div 16)), upper_char (hex_digit (n mod 16))])"

definition quote_plus :: "string \<Rightarrow> string" where
  "quote_plus s = concat (map quote_char (utf8 s))"

definition approval_url :: "string \<Rightarrow> string \<Rightarrow> string \<Rightarrow> string \<Rightarrow> string \<Rightarrow> string \<Rightarrow> int \<Rightarrow> rat \<Rightarrow> email_error + string" where
  "approval_url base_url endpoint_path decision action_id case_id secret ttl_seconds now =
     bind_res (issue_token decision action_id case_id secret ttl_seconds now) (\<lambda>token.
       Inr (rev (dropWhile (\<lambda>c. c = CHR ''/'') (rev base_url)) @ endpoint_path @ ''?token='' @ quote_plus token))"

definition ENDPOINT_PATH :: string where
  "ENDPOINT_PATH = ''/v1/actions/email-decide''"

text \<open>\<open>send_approval_email\<close>: the recipients and the two links that the mailer gets.\<close>

definition send_approval_email ::
  "string list \<Rightarrow> dict \<Rightarrow> dict \<Rightarrow> string \<Rightarrow> string \<Rightarrow> int \<Rightarrow> rat \<Rightarrow> email_error + string list \<times> string \<times> string" where
  "send_approval_email recipients case_doc action_doc api_base_url secret ttl_seconds now =
     (if recipients = [] then Inl (Refused ''no recipients provided'')
      else let action_id = py_str (py_or (py_or (vget action_doc ''id'') (vget action_doc ''action_id'')) (VStr []));
               case_id = text_field case_doc ''id''
           in if action_id = [] then Inl (Refused ''action.id is required'')
              else bind_res (approval_url api_base_url ENDPOINT_PATH ''approved'' action_id case_id secret ttl_seconds now) (\<lambda>approve.
                   bind_res (approval_url api_base_url ENDPOINT_PATH ''rejected'' action_id case_id secret ttl_seconds now) (\<lambda>reject.
                     Inr (recipients, approve, reject))))"


subsection \<open>Lemmas\<close>

definition sorted_envelope :: "string \<Rightarrow> string \<Rightarrow> string \<Rightarrow> int \<Rightarrow> string \<Rightarrow> dict" where
  "sorted_envelope decision action_id case_id expires_at signature =
     [(''a'', VStr action_id), (''c'', VStr case_id), (''d'', VStr decision), (''e'', VInt expires_at), (''s'', VStr signature)]"

lemma decode_envelope:
  "decode_body (encode_envelope (envelope_of d a c e s)) = Some (VDict (sorted_envelope d a c e s))"
proof -
  have s: "sort_dicts (VDict (envelope_of d a c e s)) = VDict (sorted_envelope d a c e s)"
    "sort_dicts (VDict (sorted_envelope d a c e s)) = VDict (sorted_envelope d a c e s)"
    by (simp_all add: envelope_of_def sorted_envelope_def)
  then have "json_compact_sorted (VDict (envelope_of d a c e s)) = json_compact_sorted (VDict (sorted_envelope d a c e s))"
    unfolding json_compact_sorted_def by simp
  moreover have "sorted_plain (VDict (sorted_envelope d a c e s))" using s(2) by (simp add: sorted_plain_def sorted_envelope_def)
  ultimately show ?thesis using decode_encoded by (simp add: encode_envelope_def)
qed

lemma text_field_VStr: "vget env k = VStr s \<Longrightarrow> text_field env k = s"
  by (simp add: text_field_def py_or_def)

lemma check_sorted:
  assumes "d \<in> set DECISIONS" "a \<noteq> []"
  shows "check_envelope (sorted_envelope d a c e (hmac_hex (canonical_payload d a c e) secret)) secret now =
    (if of_int e < now then Inl (Refused ''token expired'')
     else Inr \<lparr>at_decision = d, at_action_id = a, at_case_id = c, at_expires_at = e\<rparr>)"
proof -
  let ?env = "sorted_envelope d a c e (hmac_hex (canonical_payload d a c e) secret)"
  have "text_field ?env ''d'' = d" "text_field ?env ''a'' = a" "text_field ?env ''c'' = c"
    "text_field ?env ''s'' = hmac_hex (canonical_payload d a c e) secret"
    by (rule text_field_VStr, simp add: sorted_envelope_def vget_def)+
  moreover have "as_int (vget ?env ''e'') = Some e" by (simp add: as_int_def sorted_envelope_def vget_def)
  moreover have "is_ascii (hmac_hex p secret)" for p by (simp add: hmac_hex_def hmac_plain)
  ultimately show ?thesis using assms by (simp add: check_envelope_def)
qed

lemma decode_nonempty: "decode_body t = Some v \<Longrightarrow> t \<noteq> []"
proof
  assume "decode_body t = Some v" "t = []"
  moreover have "decode_body [] = None" by code_simp
  ultimately show False by simp
qed

lemma verify_encoded:
  assumes "secret \<noteq> []" "d \<in> set DECISIONS" "a \<noteq> []"
  shows "email_verify_token (encode_envelope (envelope_of d a c e (hmac_hex (canonical_payload d a c e) secret))) secret now =
    (if of_int e < now then Inl (Refused ''token expired'')
     else Inr \<lparr>at_decision = d, at_action_id = a, at_case_id = c, at_expires_at = e\<rparr>)"
  using decode_nonempty [OF decode_envelope] assms(1)
  by (simp add: email_verify_token_def decode_envelope check_sorted [OF assms(2,3)])

definition expiry :: "int \<Rightarrow> rat \<Rightarrow> int" where
  "expiry ttl_seconds now = rat_trunc (now + of_int (max 60 ttl_seconds))"

lemma issue_token_eq:
  "secret \<noteq> [] \<Longrightarrow> d \<in> set DECISIONS \<Longrightarrow> a \<noteq> [] \<Longrightarrow> issue_token d a c secret ttl now =
     Inr (encode_envelope (envelope_of d a c (expiry ttl now) (hmac_hex (canonical_payload d a c (expiry ttl now)) secret)))"
  by (simp add: issue_token_def expiry_def Let_def)

lemma quote_plus_token: "quote_plus (b64url_encode s) = b64url_encode s"
proof -
  have k: "(of_char c :: nat) = 45 \<Longrightarrow> c = CHR ''-''" "(of_char c :: nat) = 95 \<Longrightarrow> c = CHR ''_''" for c
    by (simp_all add: char_code_eq)
  have q: "quote_char (b64_char n) = [b64_char n]" if "n < 64" for n
    using b64_char_code [OF that] that k [of "b64_char n"]
    by (auto simp: quote_char_def Let_def is_digit_def is_lower_def is_upper_def char_le_iff split: if_splits)
  have plain: "\<forall>c\<in>set t. quote_char c = [c] \<Longrightarrow> concat (map quote_char t) = t" for t by (induction t) simp_all
  have u: "utf8 (b64url_encode s) = b64url_encode s"
  proof -
    have "utf8 t = t" if "is_ascii t" for t
      using that by (induction t) (simp_all add: utf8_def is_ascii_def)
    then show ?thesis by (simp add: b64url_ascii)
  qed
  have "\<forall>c\<in>set (b64url_encode s). \<exists>n<64. c = b64_char n"
    using sextets_bound [of "bytes_of s"] by (auto simp: b64url_encode_def bytes_of_def list_all_iff)
  then have "concat (map quote_char (b64url_encode s)) = b64url_encode s"
    using q plain [of "b64url_encode s"] by fastforce
  then show ?thesis by (simp add: quote_plus_def u)
qed


lemma expiry_after: "0 \<le> now \<Longrightarrow> now + 59 < of_int (expiry ttl now)"
proof -
  assume n: "0 \<le> now"
  have "now + 60 \<le> now + of_int (max 60 ttl)" by (simp add: max_def)
  moreover have "now + of_int (max 60 ttl) < of_int \<lfloor>now + of_int (max 60 ttl)\<rfloor> + 1" by linarith
  moreover have "expiry ttl now = \<lfloor>now + of_int (max 60 ttl)\<rfloor>"
    using n by (simp add: expiry_def rat_trunc_def max_def)
  ultimately show ?thesis by (simp add: add.assoc)
qed

subsection \<open>Properties\<close>

definition link_prefix :: "string \<Rightarrow> string" where
  "link_prefix base_url = rev (dropWhile (\<lambda>c. c = CHR ''/'') (rev base_url)) @ ENDPOINT_PATH @ ''?token=''"

text \<open>
  C31.  The two links of an approval mail carry the two decisions: when a mail is sent, the token of the
  first link verifies as an approval and that of the second as a rejection of the same action and case,
  at every time up to their expiry, which is at least a minute (less rounding) away, and both are
  refused as expired from then on.
\<close>

theorem approval_links_verify:
  assumes "send_approval_email recipients case_doc action_doc base_url secret ttl now = Inr (rcpts, approve, reject)"
    and "vget action_doc ''id'' = VStr a" "a \<noteq> []" "vget case_doc ''id'' = VStr c" "0 \<le> now"
  shows "\<exists>t1 t2 e. rcpts = recipients \<and> approve = link_prefix base_url @ t1 \<and> reject = link_prefix base_url @ t2 \<and> now + 59 < of_int e
    \<and> (\<forall>later. email_verify_token t1 secret later = (if of_int e < later then Inl (Refused ''token expired'')
          else Inr \<lparr>at_decision = ''approved'', at_action_id = a, at_case_id = c, at_expires_at = e\<rparr>))
    \<and> (\<forall>later. email_verify_token t2 secret later = (if of_int e < later then Inl (Refused ''token expired'')
          else Inr \<lparr>at_decision = ''rejected'', at_action_id = a, at_case_id = c, at_expires_at = e\<rparr>))"
proof -
  have ids: "py_str (py_or (py_or (vget action_doc ''id'') (vget action_doc ''action_id'')) (VStr [])) = a" "text_field case_doc ''id'' = c"
    using assms(2-4) by (simp_all add: py_or_def text_field_VStr)
  have s: "secret \<noteq> []"
    using assms(1) ids assms(3) by (auto simp: send_approval_email_def approval_url_def issue_token_def DECISIONS_def split: if_splits)
  let ?tok = "\<lambda>d. encode_envelope (envelope_of d a c (expiry ttl now) (hmac_hex (canonical_payload d a c (expiry ttl now)) secret))"
  have d: "''approved'' \<in> set DECISIONS" "''rejected'' \<in> set DECISIONS" by (simp_all add: DECISIONS_def)
  have url: "approval_url base_url ENDPOINT_PATH d' a c secret ttl now = Inr (link_prefix base_url @ ?tok d')" if "d' \<in> set DECISIONS" for d'
    using issue_token_eq [OF s that assms(3)] quote_plus_token
    by (simp add: approval_url_def link_prefix_def encode_envelope_def)
  have r: "rcpts = recipients" "approve = link_prefix base_url @ ?tok ''approved''" "reject = link_prefix base_url @ ?tok ''rejected''"
    using assms(1,3) by (simp_all add: send_approval_email_def ids url [OF d(1)] url [OF d(2)] split: if_splits)
  show ?thesis
    by (intro exI [of _ "?tok ''approved''"] exI [of _ "?tok ''rejected''"] exI [of _ "expiry ttl now"] conjI allI r
        expiry_after [OF assms(5)] verify_encoded [OF s d(1) assms(3)] verify_encoded [OF s d(2) assms(3)])
qed

lemma demo_sent:
  "\<exists>approve reject. send_approval_email [''oncall''] [(''id'', VStr ''9'')] [(''id'', VStr ''7'')] ''https://x/'' ''k'' 3600 0
     = Inr ([''oncall''], approve, reject)"
  by (simp add: send_approval_email_def text_field_def py_or_def vget_def approval_url_def issue_token_def DECISIONS_def Let_def)

lemma approval_links_verify_witness:
  "\<exists>t e. email_verify_token t ''k'' 30 = Inr \<lparr>at_decision = ''approved'', at_action_id = ''7'', at_case_id = ''9'', at_expires_at = e\<rparr>"
proof -
  obtain approve reject where s: "send_approval_email [''oncall''] [(''id'', VStr ''9'')] [(''id'', VStr ''7'')] ''https://x/'' ''k'' 3600 0
     = Inr ([''oncall''], approve, reject)" using demo_sent by blast
  from approval_links_verify [OF s, of "''7''" "''9''"] obtain t e where "(0::rat) + 59 < of_int e"
    "\<forall>later. email_verify_token t ''k'' later = (if of_int e < later then Inl (Refused ''token expired'')
        else Inr \<lparr>at_decision = ''approved'', at_action_id = ''7'', at_case_id = ''9'', at_expires_at = e\<rparr>)"
    by (auto simp: vget_def)
  then have "email_verify_token t ''k'' 30 = Inr \<lparr>at_decision = ''approved'', at_action_id = ''7'', at_case_id = ''9'', at_expires_at = e\<rparr>"
    by auto
  then show ?thesis by blast
qed

lemma canonical_join: "canonical_payload d a c e = join_with ''|'' [d, a, c, int_str e]"
  by (simp add: canonical_payload_def)

text \<open>
  What a signature binds: among ids without a vertical bar, the signed text determines the decision,
  the action, the case and the expiry; but the fields are joined without escaping, so the signature in
  a token that was issued for an action whose id contains a bar also authenticates another action and
  case: cut at the bar and put into a new envelope, without the secret, it verifies.
\<close>

theorem approval_signature_ambiguous:
  assumes "issue_token d (a @ ''|'' @ b) c secret ttl now = Inr tok" "a \<noteq> []" "0 \<le> now"
  shows "(\<exists>env. decode_body tok = Some (VDict env)
      \<and> email_verify_token (encode_envelope (envelope_of d a (b @ ''|'' @ c) (expiry ttl now) (text_field env ''s''))) secret now
          = Inr \<lparr>at_decision = d, at_action_id = a, at_case_id = b @ ''|'' @ c, at_expires_at = expiry ttl now\<rparr>)
    \<and> (\<forall>d1 a1 c1 e1 d2 a2 c2 e2. list_all (\<lambda>s. CHR ''|'' \<notin> set s) [d1, a1, c1, d2, a2, c2]
         \<and> canonical_payload d1 a1 c1 e1 = canonical_payload d2 a2 c2 e2 \<longrightarrow> d1 = d2 \<and> a1 = a2 \<and> c1 = c2 \<and> e1 = e2)"
proof
  from assms(1) have s: "secret \<noteq> []" and d: "d \<in> set DECISIONS" by (auto simp: issue_token_def split: if_splits)
  let ?e = "expiry ttl now" let ?sig = "hmac_hex (canonical_payload d (a @ ''|'' @ b) c ?e) secret"
  have tok: "tok = encode_envelope (envelope_of d (a @ ''|'' @ b) c ?e ?sig)"
    using assms(1) issue_token_eq [OF s d, of "a @ ''|'' @ b" c ttl now] by simp
  have "canonical_payload d (a @ ''|'' @ b) c ?e = canonical_payload d a (b @ ''|'' @ c) ?e" by (simp add: canonical_payload_def)
  moreover have "\<not> of_int ?e < now" using expiry_after [OF assms(3), of ttl] by simp
  ultimately have "email_verify_token (encode_envelope (envelope_of d a (b @ ''|'' @ c) ?e ?sig)) secret now
      = Inr \<lparr>at_decision = d, at_action_id = a, at_case_id = b @ ''|'' @ c, at_expires_at = ?e\<rparr>"
    using verify_encoded [OF s d assms(2), of "b @ ''|'' @ c" ?e now] by simp
  moreover have "text_field (sorted_envelope d (a @ ''|'' @ b) c ?e ?sig) ''s'' = ?sig"
    by (rule text_field_VStr) (simp add: sorted_envelope_def vget_def)
  ultimately show "\<exists>env. decode_body tok = Some (VDict env)
      \<and> email_verify_token (encode_envelope (envelope_of d a (b @ ''|'' @ c) ?e (text_field env ''s''))) secret now
          = Inr \<lparr>at_decision = d, at_action_id = a, at_case_id = b @ ''|'' @ c, at_expires_at = ?e\<rparr>"
    by (intro exI [of _ "sorted_envelope d (a @ ''|'' @ b) c ?e ?sig"]) (simp add: tok decode_envelope)
next
  have bar: "CHR ''|'' \<notin> set (int_str e)" for e
    using int_str_chars(1) [of e] by (auto simp: list_all_iff num_char_def is_digit_def char_le_iff)
  show "\<forall>d1 a1 c1 e1 d2 a2 c2 e2. list_all (\<lambda>s. CHR ''|'' \<notin> set s) [d1, a1, c1, d2, a2, c2]
         \<and> canonical_payload d1 a1 c1 e1 = canonical_payload d2 a2 c2 e2 \<longrightarrow> d1 = d2 \<and> a1 = a2 \<and> c1 = c2 \<and> e1 = e2"
  proof (intro allI impI, elim conjE)
    fix d1 a1 c1 e1 d2 a2 c2 e2
    assume free: "list_all (\<lambda>s. CHR ''|'' \<notin> set s) [d1, a1, c1, d2, a2, c2]"
      and eq: "canonical_payload d1 a1 c1 e1 = canonical_payload d2 a2 c2 e2"
    have "[d1, a1, c1, int_str e1] = [d2, a2, c2, int_str e2]"
      by (rule join_with_inject [where c = "CHR ''|''"]) (use free bar eq in \<open>auto simp: canonical_join\<close>)
    then show "d1 = d2 \<and> a1 = a2 \<and> c1 = c2 \<and> e1 = e2" by (simp add: int_str_inject)
  qed
qed

lemma approval_signature_ambiguous_witness:
  "\<exists>tok env. issue_token ''approved'' (''1'' @ ''|'' @ ''2'') ''3'' ''k'' 600 0 = Inr tok \<and> decode_body tok = Some (VDict env)
     \<and> email_verify_token (encode_envelope (envelope_of ''approved'' ''1'' (''2'' @ ''|'' @ ''3'') (expiry 600 0) (text_field env ''s''))) ''k'' 0
          = Inr \<lparr>at_decision = ''approved'', at_action_id = ''1'', at_case_id = ''2'' @ ''|'' @ ''3'', at_expires_at = expiry 600 0\<rparr>"
proof -
  obtain tok where t: "issue_token ''approved'' (''1'' @ ''|'' @ ''2'') ''3'' ''k'' 600 0 = Inr tok"
    by (simp add: issue_token_def DECISIONS_def Let_def)
  from approval_signature_ambiguous [OF t] t show ?thesis by blast
qed

end
