(* ===== verification/Osquery_Allowlist.thy ===== *)
theory Osquery_Allowlist
  imports Py_Text
begin

text \<open>
  The allowlist of osquery statements (\<open>services/actions/app/clients/osquery_allowlist.py\<close>): templates,
  their parameters, rendering, and the check of a raw statement.
\<close>

subsection \<open>Templates\<close>

definition running_processes_sql :: string where
  "running_processes_sql =
     ''SELECT pid, name, path, cmdline, uid, gid, start_time, parent AS ppid, on_disk FROM '' @
     ''processes ORDER BY start_time DESC LIMIT '' @ ''{limit}'' @ '';''"

definition active_connections_sql :: string where
  "active_connections_sql =
     ''SELECT pid, fd, socket, remote_address, remote_port, local_address, local_port, protocol, '' @
     ''state FROM process_open_sockets WHERE remote_address != '' @ [CHR 0x27, CHR 0x27] @
     '' AND remote_port != 0 LIMIT '' @ ''{limit}'' @ '';''"

definition logged_in_users_sql :: string where
  "logged_in_users_sql =
     ''SELECT type, user, host, tty, time FROM logged_in_users ORDER BY time DESC LIMIT '' @ ''{limit}'' @ '';''"

definition recent_files_sql :: string where
  "recent_files_sql =
     ''SELECT path, directory, filename, size, type, atime, mtime, ctime, uid, gid FROM file '' @
     ''WHERE directory = '' @ [CHR 0x27] @ ''{directory}'' @ [CHR 0x27] @ '' LIMIT '' @ ''{limit}'' @ '';''"

definition process_tree_sql :: string where
  "process_tree_sql =
     ''WITH RECURSIVE proctree(pid, ppid, name, path, cmdline, depth) AS (   SELECT pid, parent '' @
     ''AS ppid, name, path, cmdline, 0 AS depth   FROM processes   WHERE pid = '' @ ''{pid}'' @ ''   UNION ALL '' @
     ''  SELECT p.pid, p.parent, p.name, p.path, p.cmdline, pt.depth + 1   FROM processes p   '' @
     ''JOIN proctree pt ON p.parent = pt.pid   WHERE pt.depth < '' @ ''{max_depth}'' @ '' ) SELECT pid, ppid, '' @
     ''name, path, cmdline, depth FROM proctree ORDER BY depth, pid;''"

definition package_inventory_sql :: string where
  "package_inventory_sql =
     ''SELECT name, version, source, COALESCE(arch, '' @ [CHR 0x27, CHR 0x27] @
     '') AS arch FROM deb_packages UNION ALL SELECT name, version, source, arch FROM '' @
     ''rpm_packages UNION ALL SELECT name, version, '' @ [CHR 0x27] @ ''homebrew'' @ [CHR 0x27] @
     '' AS source, '' @ [CHR 0x27, CHR 0x27] @ '' AS arch FROM homebrew_packages LIMIT '' @ ''{limit}'' @ '';''"

definition TEMPLATES :: "(string \<times> string) list" where
  "TEMPLATES =
    [(''running_processes'', running_processes_sql), (''active_connections'', active_connections_sql),
     (''logged_in_users'', logged_in_users_sql), (''recent_files'', recent_files_sql),
     (''process_tree'', process_tree_sql), (''package_inventory'', package_inventory_sql)]"

definition TEMPLATE_DEFAULTS :: "(string \<times> dict) list" where
  "TEMPLATE_DEFAULTS =
    [(''running_processes'', [(''limit'', VInt 200)]), (''active_connections'', [(''limit'', VInt 200)]),
     (''logged_in_users'', [(''limit'', VInt 100)]), (''recent_files'', [(''directory'', VStr ''/tmp''), (''limit'', VInt 100)]),
     (''process_tree'', [(''pid'', VInt 1), (''max_depth'', VInt 5)]), (''package_inventory'', [(''limit'', VInt 500)])]"

definition PARAM_SPECS :: "(string \<times> string list) list" where
  "PARAM_SPECS =
    [(''running_processes'', [''limit'']), (''active_connections'', [''limit'']), (''logged_in_users'', [''limit'']),
     (''recent_files'', [''directory'', ''limit'']), (''process_tree'', [''pid'', ''max_depth'']),
     (''package_inventory'', [''limit''])]"

definition list_templates :: "string list" where
  "list_templates = sort (map fst TEMPLATES)"

subsection \<open>Rendering\<close>

text \<open>The matches of the placeholder pattern: a brace, word characters, a brace.\<close>

definition is_w_char :: "char \<Rightarrow> bool" where
  "is_w_char c \<longleftrightarrow> is_digit c \<or> is_lower c \<or> is_upper c \<or> c = CHR ''_''"

fun placeholders :: "string \<Rightarrow> string list" where
  "placeholders [] = []"
| "placeholders (c # cs) =
     (let w = takeWhile is_w_char cs in
      if c = CHR ''{'' \<and> w \<noteq> [] \<and> startswith (drop (length w) cs) ''}'' then w # placeholders cs else placeholders cs)"

text \<open>
  \<open>str.format_map\<close> on a template whose replacement fields are bare names, as all templates' are: the
  second argument is the name being read, reversed.  \<open>None\<close> stands for an exception.
\<close>

fun format_map :: "dict \<Rightarrow> string option \<Rightarrow> string \<Rightarrow> string option" where
  "format_map d None [] = Some []"
| "format_map d (Some n) [] = None"
| "format_map d None (c # cs) =
     (if c = CHR ''{'' then format_map d (Some []) cs else map_option (Cons c) (format_map d None cs))"
| "format_map d (Some n) (c # cs) =
     (if c = CHR ''}'' then (case dict_get d (rev n) of
          None \<Rightarrow> None
        | Some v \<Rightarrow> map_option (append (py_str v)) (format_map d None cs))
      else format_map d (Some (c # n)) cs)"

definition disallowed :: "string \<Rightarrow> bool" where
  "disallowed s \<longleftrightarrow> substr_in ''--'' s \<or> substr_in [CHR ''/'', CHR ''*''] s \<or> substr_in '';'' s"

definition first_disallowed :: "dict \<Rightarrow> string option" where
  "first_disallowed merged = map_option fst (find (\<lambda>(k, v). disallowed (py_str v)) merged)"

text \<open>\<open>None\<close> on the left stands for an exception of \<open>format_map\<close>, \<open>Some\<close> for an AllowlistError.\<close>

definition render_query :: "string \<Rightarrow> dict \<Rightarrow> string option + string" where
  "render_query template_id params =
     (case dict_get TEMPLATES template_id of
        None \<Rightarrow> Inl (Some (''Unknown template '' @ [CHR 0x27] @ template_id @ [CHR 0x27] @ ''. Available: '' @ join_with '', '' list_templates))
      | Some sql \<Rightarrow>
          let allowed = (case dict_get PARAM_SPECS template_id of Some ks \<Rightarrow> ks | None \<Rightarrow> []);
              unknown = filter (\<lambda>k. k \<notin> set allowed) (map fst params)
          in if unknown \<noteq> [] then Inl (Some (''Template '' @ [CHR 0x27] @ template_id @ [CHR 0x27] @ '' does not accept parameter(s): ''
                @ join_with '', '' (sorted_set unknown) @ ''. Allowed: '' @ join_with '', '' (sorted_set allowed)))
             else let merged = dict_update (case dict_get TEMPLATE_DEFAULTS template_id of Some d \<Rightarrow> d | None \<Rightarrow> []) params;
                      missing = filter (\<lambda>k. k \<notin> fst ` set merged) (placeholders sql)
                  in if missing \<noteq> [] then Inl (Some (''Template '' @ [CHR 0x27] @ template_id @ [CHR 0x27] @ '' requires parameter(s) with no default: ''
                        @ join_with '', '' (sorted_set missing)))
                     else case first_disallowed merged of
                       Some k \<Rightarrow> Inl (Some (''Parameter '' @ [CHR 0x27] @ k @ [CHR 0x27] @ '' contains disallowed characters.''))
                     | None \<Rightarrow> (case format_map merged None sql of None \<Rightarrow> Inl None | Some r \<Rightarrow> Inr r))"

subsection \<open>Checking a raw statement\<close>

text \<open>\<open>s.split()\<close>: the maximal runs of characters that are not white space.\<close>

fun ws_runs :: "string \<Rightarrow> string \<Rightarrow> string list" where
  "ws_runs w [] = (if w = [] then [] else [rev w])"
| "ws_runs w (c # cs) =
     (if is_space c then (if w = [] then ws_runs [] cs else rev w # ws_runs [] cs) else ws_runs (c # w) cs)"

definition ws_split :: "string \<Rightarrow> string list" where
  "ws_split s = ws_runs [] s"

definition normalised :: "string \<Rightarrow> string" where
  "normalised sql = join_with '' '' (ws_split sql)"

definition matches_default :: "string \<Rightarrow> string \<Rightarrow> bool" where
  "matches_default sql tmpl_id =
     (case render_query tmpl_id (case dict_get TEMPLATE_DEFAULTS tmpl_id of Some d \<Rightarrow> d | None \<Rightarrow> []) of
        Inl _ \<Rightarrow> False
      | Inr rendered \<Rightarrow> normalised sql = normalised rendered)"

definition validate_raw_sql :: "string \<Rightarrow> bool" where
  "validate_raw_sql sql \<longleftrightarrow> list_ex (matches_default sql) (map fst TEMPLATES)"


subsection \<open>Lemmas on rendering\<close>

lemma format_map_text: "CHR ''{'' \<notin> set t \<Longrightarrow> format_map d None (t @ rest) = map_option (append t) (format_map d None rest)"
proof (induction t)
  case Nil
  then show ?case by (simp add: option.map_id0 [unfolded id_def])
next
  case (Cons c t)
  then show ?case by (auto simp: option.map_comp comp_def)
qed

lemma format_map_name:
  "CHR ''}'' \<notin> set n \<Longrightarrow> format_map d (Some m) (n @ CHR ''}'' # rest) =
     (case dict_get d (rev m @ n) of None \<Rightarrow> None | Some v \<Rightarrow> map_option (append (py_str v)) (format_map d None rest))"
  by (induction n arbitrary: m) auto

lemma format_map_field:
  "CHR ''}'' \<notin> set n \<Longrightarrow> format_map d None (CHR ''{'' # n @ CHR ''}'' # rest) =
     (case dict_get d n of None \<Rightarrow> None | Some v \<Rightarrow> map_option (append (py_str v)) (format_map d None rest))"
  using format_map_name [of n d "[]" rest] by simp

text \<open>A piece of a template: text without braces, or a field.\<close>

datatype piece = Lit string | Fld string

fun piece_text :: "piece \<Rightarrow> string" where
  "piece_text (Lit t) = t"
| "piece_text (Fld n) = CHR ''{'' # n @ [CHR ''}'']"

fun plain_piece :: "piece \<Rightarrow> bool" where
  "plain_piece (Lit t) = (CHR ''{'' \<notin> set t)"
| "plain_piece (Fld n) = (CHR ''}'' \<notin> set n)"

fun fill_pieces :: "dict \<Rightarrow> piece list \<Rightarrow> string option" where
  "fill_pieces d [] = Some []"
| "fill_pieces d (Lit t # ps) = map_option (append t) (fill_pieces d ps)"
| "fill_pieces d (Fld n # ps) =
     (case dict_get d n of None \<Rightarrow> None | Some v \<Rightarrow> map_option (append (py_str v)) (fill_pieces d ps))"

lemma format_map_pieces: "list_all plain_piece ps \<Longrightarrow> format_map d None (concat (map piece_text ps)) = fill_pieces d ps"
proof (induction d ps rule: fill_pieces.induct)
  case (2 d t ps)
  then show ?case by (simp add: format_map_text)
next
  case (3 d n ps)
  then show ?case using format_map_field [of n d "concat (map piece_text ps)"] by (simp split: option.splits)
qed simp

subsection \<open>What a rendered statement can hold\<close>

lemma pair_append:
  "substr_in [x, y] (u @ v) \<longleftrightarrow> substr_in [x, y] u \<or> substr_in [x, y] v \<or> (u \<noteq> [] \<and> v \<noteq> [] \<and> last u = x \<and> hd v = y)"
proof (induction u)
  case Nil
  then show ?case by simp
next
  case (Cons c u)
  then show ?case by (cases u; cases v) auto
qed

lemma single_in: "substr_in [x] s \<longleftrightarrow> x \<in> set s"
  by (induction s) auto

text \<open>A text that may stand between two others without forming a forbidden sequence with them.\<close>

definition sealed :: "string \<Rightarrow> bool" where
  "sealed t \<longleftrightarrow> \<not> disallowed t \<and> t \<noteq> [] \<and> last t \<notin> {CHR ''-'', CHR ''/''} \<and> hd t \<notin> {CHR ''-'', CHR ''*''}"

lemma disallowed_append:
  "disallowed (u @ v) \<longleftrightarrow> disallowed u \<or> disallowed v \<or> (u \<noteq> [] \<and> v \<noteq> [] \<and>
     (last u = CHR ''-'' \<and> hd v = CHR ''-'' \<or> last u = CHR ''/'' \<and> hd v = CHR ''*''))"
  unfolding disallowed_def pair_append single_in by auto

lemma disallowed_sealed_left: "sealed t \<Longrightarrow> disallowed (t @ v) \<longleftrightarrow> disallowed v"
  by (auto simp: disallowed_append sealed_def)

lemma disallowed_sealed_right: "sealed t \<Longrightarrow> disallowed (v @ t) \<longleftrightarrow> disallowed v"
  by (auto simp: disallowed_append sealed_def)

text \<open>A template: pieces in which texts that are sealed and fields alternate, closed by a semicolon.\<close>

fun alternating :: "piece list \<Rightarrow> bool" where
  "alternating [] = True"
| "alternating (Lit t # ps) = (sealed t \<and> alternating ps)"
| "alternating (Fld n # ps) = (alternating ps \<and> (case ps of Lit t # _ \<Rightarrow> True | _ \<Rightarrow> ps = []))"

lemma disallowed_sealed_mid: "sealed t \<Longrightarrow> disallowed (v @ t @ w) \<longleftrightarrow> disallowed v \<or> disallowed (t @ w)"
  by (auto simp: disallowed_append sealed_def)

lemma fill_clean:
  assumes "\<forall>(k, v)\<in>set d. \<not> disallowed (py_str v)" "alternating ps" "fill_pieces d ps = Some r"
  shows "\<not> disallowed r"
  using assms
proof (induction d ps arbitrary: r rule: fill_pieces.induct)
  case (1 d)
  then show ?case by (simp add: disallowed_def)
next
  case (2 d t ps)
  then show ?case by (auto simp: disallowed_sealed_left)
next
  case (3 d n ps)
  then obtain v r' where v: "dict_get d n = Some v" "fill_pieces d ps = Some r'" "r = py_str v @ r'" by (auto split: option.splits)
  have c: "\<not> disallowed (py_str v)" using 3(2) dict_get_SomeD [OF v(1)] by auto
  have r': "\<not> disallowed r'" using 3 v(1,2) by auto
  show ?case
  proof (cases ps)
    case Nil
    then show ?thesis using v c by simp
  next
    case (Cons p qs)
    then obtain t where t: "p = Lit t" "sealed t" using 3(3) by (cases p) auto
    then obtain q where "r' = t @ q" using v(2) Cons by auto
    then show ?thesis using v c r' t disallowed_sealed_mid by auto
  qed
qed


text \<open>The pieces of a template before its final semicolon.\<close>

definition template_pieces :: "string \<Rightarrow> piece list" where
  "template_pieces t =
     (if t = ''running_processes'' then
       [Lit (''SELECT pid, name, path, cmdline, uid, gid, start_time, parent AS ppid, on_disk FROM '' @
       ''processes ORDER BY start_time DESC LIMIT ''),
        Fld ''limit'']
      else if t = ''active_connections'' then
       [Lit (''SELECT pid, fd, socket, remote_address, remote_port, local_address, local_port, '' @
       ''protocol, state FROM process_open_sockets WHERE remote_address != '' @
       [CHR 0x27, CHR 0x27] @
       '' AND remote_port != 0 LIMIT ''),
        Fld ''limit'']
      else if t = ''logged_in_users'' then
       [Lit (''SELECT type, user, host, tty, time FROM logged_in_users ORDER BY time DESC LIMIT ''),
        Fld ''limit'']
      else if t = ''recent_files'' then
       [Lit (''SELECT path, directory, filename, size, type, atime, mtime, ctime, uid, gid FROM file '' @
       ''WHERE directory = '' @
       [CHR 0x27]),
        Fld ''directory'',
        Lit ([CHR 0x27] @
       '' LIMIT ''),
        Fld ''limit'']
      else if t = ''process_tree'' then
       [Lit (''WITH RECURSIVE proctree(pid, ppid, name, path, cmdline, depth) AS (   SELECT pid, '' @
       ''parent AS ppid, name, path, cmdline, 0 AS depth   FROM processes   WHERE pid = ''),
        Fld ''pid'',
        Lit (''   UNION ALL   SELECT p.pid, p.parent, p.name, p.path, p.cmdline, pt.depth + 1   FROM '' @
       ''processes p   JOIN proctree pt ON p.parent = pt.pid   WHERE pt.depth < ''),
        Fld ''max_depth'',
        Lit ('' ) SELECT pid, ppid, name, path, cmdline, depth FROM proctree ORDER BY depth, pid'')]
      else if t = ''package_inventory'' then
       [Lit (''SELECT name, version, source, COALESCE(arch, '' @
       [CHR 0x27, CHR 0x27] @
       '') AS arch FROM deb_packages UNION ALL SELECT name, version, source, arch FROM '' @
       ''rpm_packages UNION ALL SELECT name, version, '' @
       [CHR 0x27] @
       ''homebrew'' @
       [CHR 0x27] @
       '' AS source, '' @
       [CHR 0x27, CHR 0x27] @
       '' AS arch FROM homebrew_packages LIMIT ''),
        Fld ''limit'']
      else [])"

lemma template_names: "map fst TEMPLATES = [''running_processes'', ''active_connections'', ''logged_in_users'', ''recent_files'', ''process_tree'', ''package_inventory'']"
  by (simp add: TEMPLATES_def)

lemma templates_pieces: "list_all (\<lambda>(t, sql). sql = concat (map piece_text (template_pieces t)) @ '';'') TEMPLATES"
  by code_simp

lemma pieces_alternating: "list_all (\<lambda>(t, sql). alternating (template_pieces t) \<and> list_all plain_piece (template_pieces t)) TEMPLATES"
  by code_simp


lemma template_facts:
  assumes "dict_get TEMPLATES t = Some sql"
  shows "sql = concat (map piece_text (template_pieces t @ [Lit '';'']))" "alternating (template_pieces t)"
    "list_all plain_piece (template_pieces t @ [Lit '';''])"
proof -
  have "(t, sql) \<in> set TEMPLATES" using assms dict_get_SomeD by force
  then have "sql = concat (map piece_text (template_pieces t)) @ '';''" "alternating (template_pieces t)" "list_all plain_piece (template_pieces t)"
    using templates_pieces pieces_alternating by (auto simp: list_all_iff)
  then show "sql = concat (map piece_text (template_pieces t @ [Lit '';'']))" "alternating (template_pieces t)"
    "list_all plain_piece (template_pieces t @ [Lit '';''])" by simp_all
qed

lemma fill_append: "fill_pieces d (ps @ [Lit t]) = map_option (\<lambda>r. r @ t) (fill_pieces d ps)"
  by (induction d ps rule: fill_pieces.induct) (auto simp: option.map_comp comp_def split: option.splits)

lemma first_disallowed_None: "first_disallowed d = None \<longleftrightarrow> (\<forall>(k, v)\<in>set d. \<not> disallowed (py_str v))"
  by (auto simp: first_disallowed_def find_None_iff)

definition merged_params :: "string \<Rightarrow> dict \<Rightarrow> dict" where
  "merged_params t params = dict_update (case dict_get TEMPLATE_DEFAULTS t of Some d \<Rightarrow> d | None \<Rightarrow> []) params"

definition allowed_params :: "string \<Rightarrow> string set" where
  "allowed_params t = set (case dict_get PARAM_SPECS t of Some ks \<Rightarrow> ks | None \<Rightarrow> [])"

text \<open>Every field of a template has a default, so that rendering never lacks a value.\<close>

lemma fields_have_defaults:
  "list_all (\<lambda>(t, sql). list_all (\<lambda>n. n \<in> fst ` set (case dict_get TEMPLATE_DEFAULTS t of Some d \<Rightarrow> d | None \<Rightarrow> []))
      (placeholders sql @ concat (map (\<lambda>p. case p of Fld n \<Rightarrow> [n] | Lit _ \<Rightarrow> []) (template_pieces t)))) TEMPLATES"
  by code_simp

lemma keys_dict_update: "fst ` set (dict_update d e) = fst ` set d \<union> fst ` set e"
proof (induction e arbitrary: d)
  case (Cons p e)
  obtain k v where "p = (k, v)" by (cases p)
  then have "dict_update d (p # e) = dict_update (dict_set k v d) e" by (simp add: dict_update_def)
  then show ?case using Cons [of "dict_set k v d"] \<open>p = (k, v)\<close> by auto
qed (simp add: dict_update_def)

lemma fill_total: "list_all (\<lambda>n. n \<in> fst ` set d) (concat (map (\<lambda>p. case p of Fld n \<Rightarrow> [n] | Lit _ \<Rightarrow> []) ps)) \<Longrightarrow> \<exists>r. fill_pieces d ps = Some r"
proof (induction d ps rule: fill_pieces.induct)
  case (3 d n ps)
  then have "dict_get d n \<noteq> None" using dict_get_None_iff [of d n] by auto
  then show ?case using 3 by auto
qed auto

lemma render_query_eq:
  assumes "dict_get TEMPLATES t = Some sql" "fst ` set ps \<subseteq> allowed_params t"
  shows "render_query t ps = (case first_disallowed (merged_params t ps) of
       Some k \<Rightarrow> Inl (Some (''Parameter '' @ [CHR 0x27] @ k @ [CHR 0x27] @ '' contains disallowed characters.''))
     | None \<Rightarrow> Inr (the (fill_pieces (merged_params t ps) (template_pieces t)) @ '';''))"
proof -
  let ?m = "merged_params t ps"
  note keys = fields_have_defaults [unfolded list_all_iff, rule_format, of "(t, sql)", simplified]
  have k: "list_all (\<lambda>n. n \<in> fst ` set ?m) (placeholders sql)"
    "list_all (\<lambda>n. n \<in> fst ` set ?m) (concat (map (\<lambda>p. case p of Fld n \<Rightarrow> [n] | Lit _ \<Rightarrow> []) (template_pieces t)))"
    using keys dict_get_SomeD [OF assms(1)] by (auto simp: merged_params_def keys_dict_update list_all_iff)
  obtain r where r: "fill_pieces ?m (template_pieces t) = Some r" using fill_total [OF k(2)] by blast
  have "format_map ?m None sql = Some (r @ '';'')"
    using format_map_pieces [OF template_facts(3) [OF assms(1)], of ?m] template_facts(1) [OF assms(1)] r
    by (simp add: fill_append)
  moreover have "filter (\<lambda>k. k \<notin> set (case dict_get PARAM_SPECS t of Some ks \<Rightarrow> ks | None \<Rightarrow> [])) (map fst ps) = []"
    using assms(2) by (auto simp: allowed_params_def filter_empty_conv)
  moreover have "filter (\<lambda>k. k \<notin> fst ` set ?m) (placeholders sql) = []" using k(1) by (auto simp: filter_empty_conv list_all_iff)
  ultimately show ?thesis using assms(1) r
    by (simp add: render_query_def merged_params_def [symmetric] Let_def split: option.splits)
qed

lemma no_pairs: "(\<forall>a b. (a, b) \<notin> set ps) \<longleftrightarrow> ps = []"
  by (cases ps) force+

lemma render_query_InrD:
  assumes "render_query t ps = Inr s"
  shows "\<exists>sql. dict_get TEMPLATES t = Some sql" "fst ` set ps \<subseteq> allowed_params t"
  using assms by (auto simp: render_query_def Let_def allowed_params_def filter_empty_conv no_pairs split: option.splits if_splits)


subsection \<open>Properties\<close>

text \<open>
  C32.  A rendered statement is one statement of an approved template: it is the text of a template of the
  allowlist, each field replaced by the text of the given or the default value, followed by the only
  semicolon; no comment sequence and no second terminator occurs in it, not even across the seam of
  a value; and every parameter was declared for the template.
\<close>

theorem rendered_single_statement:
  assumes "render_query t ps = Inr s"
  shows "\<exists>body. s = body @ '';'' \<and> CHR '';'' \<notin> set body \<and> \<not> substr_in ''--'' body \<and> \<not> substr_in [CHR ''/'', CHR ''*''] body
     \<and> t \<in> fst ` set TEMPLATES \<and> fst ` set ps \<subseteq> allowed_params t
     \<and> fill_pieces (merged_params t ps) (template_pieces t) = Some body"
proof -
  obtain sql where sql: "dict_get TEMPLATES t = Some sql" and k: "fst ` set ps \<subseteq> allowed_params t"
    using render_query_InrD [OF assms] by blast
  have fd: "first_disallowed (merged_params t ps) = None" "s = the (fill_pieces (merged_params t ps) (template_pieces t)) @ '';''"
    using assms by (auto simp: render_query_eq [OF sql k] split: option.splits)
  have "list_all (\<lambda>n. n \<in> fst ` set (merged_params t ps)) (concat (map (\<lambda>p. case p of Fld n \<Rightarrow> [n] | Lit _ \<Rightarrow> []) (template_pieces t)))"
    using fields_have_defaults [unfolded list_all_iff, rule_format, of "(t, sql)", simplified] dict_get_SomeD [OF sql]
    by (auto simp: merged_params_def keys_dict_update list_all_iff)
  then obtain r where r: "fill_pieces (merged_params t ps) (template_pieces t) = Some r" using fill_total by blast
  have "\<not> disallowed r"
    by (rule fill_clean [OF _ template_facts(2) [OF sql] r]) (use fd(1) in \<open>simp add: first_disallowed_None\<close>)
  moreover have "t \<in> fst ` set TEMPLATES" using dict_get_SomeD [OF sql] by force
  ultimately show ?thesis using r fd(2) k by (auto simp: disallowed_def single_in)
qed

lemma rendered_single_statement_witness:
  "\<exists>body. render_query ''logged_in_users'' [(''limit'', VInt 7)] = Inr (body @ '';'') \<and> CHR '';'' \<notin> set body"
proof -
  have "case render_query ''logged_in_users'' [(''limit'', VInt 7)] of Inl _ \<Rightarrow> False | Inr _ \<Rightarrow> True" by code_simp
  then obtain s where s: "render_query ''logged_in_users'' [(''limit'', VInt 7)] = Inr s"
    by (auto split: sum.splits)
  from rendered_single_statement [OF s] s show ?thesis by auto
qed

text \<open>
  Values are spliced as they are: whatever text without a comment sequence and without a semicolon
  is given as the limit of the process listing, or as the directory of the file listing, becomes part of
  the statement unquoted and unescaped.  A limit need not be a number, and a directory may close its quote.
\<close>

theorem rendered_values_unchecked:
  assumes "\<not> disallowed v"
  shows "render_query ''running_processes'' [(''limit'', VStr v)] =
      Inr (''SELECT pid, name, path, cmdline, uid, gid, start_time, parent AS ppid, on_disk FROM '' @
           ''processes ORDER BY start_time DESC LIMIT '' @ v @ '';'')
    \<and> render_query ''recent_files'' [(''directory'', VStr v)] =
      Inr (''SELECT path, directory, filename, size, type, atime, mtime, ctime, uid, gid FROM file '' @
           ''WHERE directory = '' @ [CHR 0x27] @ v @ [CHR 0x27] @ '' LIMIT 100;'')"
proof
  have t: "dict_get TEMPLATES ''running_processes'' = Some running_processes_sql" "dict_get TEMPLATES ''recent_files'' = Some recent_files_sql"
    by (simp_all add: TEMPLATES_def)
  have a: "fst ` set [(''limit'', VStr v)] \<subseteq> allowed_params ''running_processes''" "fst ` set [(''directory'', VStr v)] \<subseteq> allowed_params ''recent_files''"
    by (simp_all add: allowed_params_def PARAM_SPECS_def)
  have m: "merged_params ''running_processes'' [(''limit'', VStr v)] = [(''limit'', VStr v)]"
    "merged_params ''recent_files'' [(''directory'', VStr v)] = [(''directory'', VStr v), (''limit'', VInt 100)]"
    by (simp_all add: merged_params_def TEMPLATE_DEFAULTS_def dict_update_def)
  have n: "\<not> disallowed (py_str (VInt 100))" "py_str (VInt 100) = ''100''" by code_simp+
  have fd: "first_disallowed [(''limit'', VStr v)] = None" "first_disallowed [(''directory'', VStr v), (''limit'', VInt 100)] = None"
    using assms n(1) by (simp_all add: first_disallowed_None py_str_def)
  show "render_query ''running_processes'' [(''limit'', VStr v)] =
      Inr (''SELECT pid, name, path, cmdline, uid, gid, start_time, parent AS ppid, on_disk FROM '' @
           ''processes ORDER BY start_time DESC LIMIT '' @ v @ '';'')"
    using render_query_eq [OF t(1) a(1)] m(1) fd(1) by (simp add: template_pieces_def py_str_def)
  show "render_query ''recent_files'' [(''directory'', VStr v)] =
      Inr (''SELECT path, directory, filename, size, type, atime, mtime, ctime, uid, gid FROM file '' @
           ''WHERE directory = '' @ [CHR 0x27] @ v @ [CHR 0x27] @ '' LIMIT 100;'')"
    using render_query_eq [OF t(2) a(2)] m(2) fd(2) n(2) by (simp add: template_pieces_def py_str_def)
qed

lemma rendered_values_unchecked_witness:
  "render_query ''running_processes'' [(''limit'', VStr ''0 UNION SELECT username, 1, 2, 3, 4, 5, 6, 7, 8 FROM users'')] =
      Inr (''SELECT pid, name, path, cmdline, uid, gid, start_time, parent AS ppid, on_disk FROM '' @
           ''processes ORDER BY start_time DESC LIMIT 0 UNION SELECT username, 1, 2, 3, 4, 5, 6, 7, 8 FROM users;'')"
proof -
  have "\<not> disallowed ''0 UNION SELECT username, 1, 2, 3, 4, 5, 6, 7, 8 FROM users''" by code_simp
  from rendered_values_unchecked [OF this] show ?thesis by simp
qed


lemma default_update: "dict_get TEMPLATE_DEFAULTS t = Some d \<Longrightarrow> dict_update d d = d"
  by (auto simp: TEMPLATE_DEFAULTS_def dict_update_def split: if_splits)

lemma default_keys: "dict_get TEMPLATE_DEFAULTS t = Some d \<Longrightarrow> fst ` set d \<subseteq> allowed_params t"
  by (auto simp: TEMPLATE_DEFAULTS_def allowed_params_def PARAM_SPECS_def split: if_splits)

lemma template_default: "dict_get TEMPLATES t = Some sql \<Longrightarrow> \<exists>d. dict_get TEMPLATE_DEFAULTS t = Some d"
  by (auto simp: TEMPLATE_DEFAULTS_def TEMPLATES_def split: if_splits)

lemma defaults_clean: "list_all (\<lambda>(t, d). first_disallowed d = None) TEMPLATE_DEFAULTS"
  by code_simp

definition default_text :: "string \<Rightarrow> string" where
  "default_text t = the (fill_pieces (merged_params t []) (template_pieces t)) @ '';''"

lemma render_defaults:
  assumes "dict_get TEMPLATES t = Some sql" "dict_get TEMPLATE_DEFAULTS t = Some d"
  shows "render_query t [] = Inr (default_text t)" "render_query t d = Inr (default_text t)"
proof -
  have m: "merged_params t [] = d" "merged_params t d = d"
    using assms(2) default_update [OF assms(2)] by (simp_all add: merged_params_def) (simp add: dict_update_def)
  have "first_disallowed d = None" using defaults_clean dict_get_SomeD [OF assms(2)] by (auto simp: list_all_iff)
  then show "render_query t [] = Inr (default_text t)" "render_query t d = Inr (default_text t)"
    using render_query_eq [OF assms(1), of "[]"] render_query_eq [OF assms(1) default_keys [OF assms(2)]] m
    by (simp_all add: default_text_def)
qed

lemma validate_iff: "validate_raw_sql sql \<longleftrightarrow> (\<exists>t\<in>fst ` set TEMPLATES. normalised sql = normalised (default_text t))"
proof -
  have "matches_default sql t \<longleftrightarrow> normalised sql = normalised (default_text t)" if t: "t \<in> fst ` set TEMPLATES" for t
  proof -
    obtain q where "dict_get TEMPLATES t = Some q" using t dict_get_None_iff [of TEMPLATES t] by auto
    with template_default render_defaults show ?thesis by (fastforce simp: matches_default_def)
  qed
  then show ?thesis by (auto simp: validate_raw_sql_def list_ex_iff)
qed

definition ink :: "string \<Rightarrow> string" where
  "ink s = filter (\<lambda>c. \<not> is_space c) s"

lemma ink_simps [simp]: "ink [] = []" "ink (c # s) = (if is_space c then ink s else c # ink s)" "ink (a @ b) = ink a @ ink b"
  by (simp_all add: ink_def)

lemma ink_join: "ink (join_with '' '' ws) = concat (map ink ws)"
proof (induction "'' ''" ws rule: join_with.induct)
  case (3 p q ps)
  have "is_space (CHR '' '')" by code_simp
  with 3 show ?case by simp
qed simp_all

lemma ink_runs: "list_all (\<lambda>c. \<not> is_space c) w \<Longrightarrow> concat (map ink (ws_runs w s)) = rev w @ ink s"
proof (induction w s rule: ws_runs.induct)
  case (1 w)
  then show ?case by (auto simp: ink_def filter_id_conv list_all_iff)
next
  case (2 w c cs)
  then show ?case by (auto simp: ink_def filter_id_conv list_all_iff)
qed

lemma ink_normalised: "ink (normalised s) = ink s"
  using ink_runs [of "[]" s] by (simp add: normalised_def ws_split_def ink_join)

definition limit_50 :: string where
  "limit_50 = ''SELECT pid, name, path, cmdline, uid, gid, start_time, parent AS ppid, on_disk FROM '' @
      ''processes ORDER BY start_time DESC LIMIT 50;''"

definition marks :: "string \<Rightarrow> nat" where
  "marks s = length (filter (\<lambda>c. c = CHR ''5'' \<or> c = CHR ''U'') s)"

lemma marks_ink: "marks (ink s) = marks s"
proof -
  have "\<not> is_space (CHR ''5'')" "\<not> is_space (CHR ''U'')" by code_simp+
  then show ?thesis by (induction s) (auto simp: marks_def)
qed

lemma marks_differ: "list_all (\<lambda>(t, sql). marks (default_text t) \<noteq> marks limit_50) TEMPLATES"
  by code_simp

text \<open>
  The check of a raw statement knows the default parameters only: it accepts the rendering of every
  template without parameters, also after leading white space, and rejects the rendering of the
  process listing with another limit, although rendering produced it from an approved template.
\<close>

theorem validate_accepts_defaults_only:
  "list_all (\<lambda>t. \<exists>s. render_query t [] = Inr s \<and> validate_raw_sql s) (map fst TEMPLATES)
   \<and> validate_raw_sql ('' '' @ sql) = validate_raw_sql sql
   \<and> (\<exists>s. render_query ''running_processes'' [(''limit'', VInt 50)] = Inr s \<and> \<not> validate_raw_sql s)"
proof (intro conjI)
  show "list_all (\<lambda>t. \<exists>s. render_query t [] = Inr s \<and> validate_raw_sql s) (map fst TEMPLATES)"
  proof (clarsimp simp: list_all_iff)
    fix t q assume "(t, q) \<in> set TEMPLATES"
    then have t: "t \<in> fst ` set TEMPLATES" by force
    then obtain q' where "dict_get TEMPLATES t = Some q'" using dict_get_None_iff [of TEMPLATES t] by auto
    with template_default render_defaults(1) have "render_query t [] = Inr (default_text t)" by blast
    with t show "\<exists>s. render_query t [] = Inr s \<and> validate_raw_sql s" by (auto simp: validate_iff)
  qed
next
  have "is_space (CHR '' '')" by code_simp
  then have "normalised ('' '' @ sql) = normalised sql" by (simp add: normalised_def ws_split_def)
  then show "validate_raw_sql ('' '' @ sql) = validate_raw_sql sql" unfolding validate_iff by metis
next
  have "render_query ''running_processes'' [(''limit'', VInt 50)] = Inr limit_50" by code_simp
  moreover have "\<not> validate_raw_sql limit_50"
  proof
    assume "validate_raw_sql limit_50"
    then obtain t q where t: "(t, q) \<in> set TEMPLATES" "normalised limit_50 = normalised (default_text t)" by (auto simp: validate_iff)
    then have "ink limit_50 = ink (default_text t)" using ink_normalised by metis
    then have "marks limit_50 = marks (default_text t)" using marks_ink by metis
    moreover have "marks (default_text t) \<noteq> marks limit_50" using marks_differ t(1) unfolding list_all_iff by fast
    ultimately show False by simp
  qed
  ultimately show "\<exists>s. render_query ''running_processes'' [(''limit'', VInt 50)] = Inr s \<and> \<not> validate_raw_sql s" by blast
qed

end
