(* ===== verification/Osquery_Tls.thy ===== *)
theory Osquery_Tls
  imports Json_Parse Uuid Base64
begin

text \<open>
  The TLS service that osquery agents talk to (\<open>services/osquery-tls\<close>): the registry of nodes, the queue
  of distributed queries, pack assignments and the endpoints over them, with the normalised events that
  go to the ingest service.  The database is a record of tables as lists of rows; random keys, new
  query ids, the clock and its text are arguments of the request; the pack catalogue is a function.
\<close>

subsection \<open>Tables\<close>

record tls_settings =
  enroll_secret :: string
  require_client_cert :: bool

record osq_node =
  nd_id :: nat
  nd_host_identifier :: string
  nd_node_key :: string
  nd_tenant_id :: string
  nd_host_details :: val
  nd_last_seen :: int

record osq_query =
  dq_node_id :: nat
  dq_query_id :: string
  dq_query_text :: string
  dq_status :: string
  dq_completed_at :: "int option"
  dq_results_json :: "dict list option"

record pack_row =
  pa_tenant_id :: string
  pa_pack_id :: string
  pa_enabled :: bool
  pa_assigned_at :: int

record tls_state =
  ts_nodes :: "osq_node list"
  ts_queries :: "osq_query list"
  ts_packs :: "pack_row list"
  ts_next_id :: nat

text \<open>An error response: the status and the detail; 500 for an exception that no handler catches.\<close>

type_synonym http_error = "nat \<times> string"

definition internal_error :: http_error where
  "internal_error = (500, ''Internal Server Error'')"

subsection \<open>Node registry\<close>

definition get_node_by_key :: "tls_state \<Rightarrow> string \<Rightarrow> osq_node option" where
  "get_node_by_key st key = find (\<lambda>n. nd_node_key n = key) (ts_nodes st)"

definition get_node_by_host :: "tls_state \<Rightarrow> string \<Rightarrow> string \<Rightarrow> osq_node option" where
  "get_node_by_host st host tenant = find (\<lambda>n. nd_host_identifier n = host \<and> nd_tenant_id n = tenant) (ts_nodes st)"

text \<open>A key that another row holds violates the unique constraint; the transaction is rolled back.\<close>

definition enroll_node :: "string \<Rightarrow> int \<Rightarrow> string \<Rightarrow> string \<Rightarrow> val \<Rightarrow> tls_state \<Rightarrow> (http_error + osq_node) \<times> tls_state" where
  "enroll_node fresh now host tenant details st =
     (case get_node_by_host st host tenant of
        Some existing \<Rightarrow>
          if \<exists>n\<in>set (ts_nodes st). nd_node_key n = fresh \<and> nd_id n \<noteq> nd_id existing then (Inl internal_error, st)
          else let node = existing\<lparr>nd_node_key := fresh, nd_host_details := details, nd_last_seen := now\<rparr>
               in (Inr node, st\<lparr>ts_nodes := map (\<lambda>n. if nd_id n = nd_id existing then node else n) (ts_nodes st)\<rparr>)
      | None \<Rightarrow>
          if \<exists>n\<in>set (ts_nodes st). nd_node_key n = fresh then (Inl internal_error, st)
          else let node = \<lparr>nd_id = ts_next_id st, nd_host_identifier = host, nd_node_key = fresh, nd_tenant_id = tenant,
                           nd_host_details = details, nd_last_seen = now\<rparr>
               in (Inr node, st\<lparr>ts_nodes := ts_nodes st @ [node], ts_next_id := Suc (ts_next_id st)\<rparr>))"

definition mark_seen :: "int \<Rightarrow> osq_node \<Rightarrow> tls_state \<Rightarrow> tls_state" where
  "mark_seen now node st =
     st\<lparr>ts_nodes := map (\<lambda>n. if nd_id n = nd_id node then n\<lparr>nd_last_seen := now\<rparr> else n) (ts_nodes st)\<rparr>"

subsection \<open>Authentication\<close>

definition tenant_from_header :: "string option \<Rightarrow> string" where
  "tenant_from_header h = (case h of Some t \<Rightarrow> if t = [] then ''default'' else t | None \<Rightarrow> ''default'')"

text \<open>\<open>secrets.compare_digest\<close> on texts; \<open>None\<close> stands for its TypeError on other than ASCII.\<close>

definition verify_enroll_secret :: "tls_settings \<Rightarrow> string \<Rightarrow> bool option" where
  "verify_enroll_secret cfg submitted =
     (if is_ascii submitted \<and> is_ascii (enroll_secret cfg) then Some (submitted = enroll_secret cfg) else None)"

definition require_valid_node_key :: "tls_settings \<Rightarrow> tls_state \<Rightarrow> val \<Rightarrow> string \<Rightarrow> http_error + osq_node" where
  "require_valid_node_key cfg st node_key client_cn =
     (if \<not> truthy node_key then Inl (401, ''node_key is required'')
      else case node_key of
        VStr key \<Rightarrow> (case get_node_by_key st key of
            None \<Rightarrow> Inl (401, ''node_invalid'')
          | Some node \<Rightarrow>
              if require_client_cert cfg \<and> client_cn \<noteq> nd_host_identifier node
              then Inl (403, ''client certificate CN does not match host_identifier'')
              else Inr node)
      | _ \<Rightarrow> Inl internal_error)"

definition enroll :: "tls_settings \<Rightarrow> string \<Rightarrow> int \<Rightarrow> string option \<Rightarrow> string \<Rightarrow> string \<Rightarrow> val \<Rightarrow> tls_state \<Rightarrow> (http_error + string) \<times> tls_state" where
  "enroll cfg fresh now x_aisoc_tenant secret host details st =
     (case verify_enroll_secret cfg secret of
        None \<Rightarrow> (Inl internal_error, st)
      | Some False \<Rightarrow> (Inl (401, ''node_invalid''), st)
      | Some True \<Rightarrow>
          (case enroll_node fresh now host (tenant_from_header x_aisoc_tenant) details st of
             (Inl e, st') \<Rightarrow> (Inl e, st')
           | (Inr node, st') \<Rightarrow> (Inr (nd_node_key node), st')))"

subsection \<open>Distributed queries\<close>

definition enqueue_query :: "string \<Rightarrow> osq_node \<Rightarrow> string \<Rightarrow> tls_state \<Rightarrow> (http_error + string) \<times> tls_state" where
  "enqueue_query fresh node query_text st =
     (if \<exists>q\<in>set (ts_queries st). dq_query_id q = fresh then (Inl internal_error, st)
      else (Inr fresh, st\<lparr>ts_queries := ts_queries st @
              [\<lparr>dq_node_id = nd_id node, dq_query_id = fresh, dq_query_text = query_text, dq_status = ''pending'',
                dq_completed_at = None, dq_results_json = None\<rparr>]\<rparr>))"

definition get_pending_queries :: "tls_state \<Rightarrow> osq_node \<Rightarrow> osq_query list" where
  "get_pending_queries st node = filter (\<lambda>q. dq_node_id q = nd_id node \<and> dq_status q = ''pending'') (ts_queries st)"

definition complete_query :: "int \<Rightarrow> string \<Rightarrow> dict list \<Rightarrow> tls_state \<Rightarrow> tls_state" where
  "complete_query now query_id rows st =
     st\<lparr>ts_queries := map (\<lambda>q. if dq_query_id q = query_id
          then q\<lparr>dq_status := ''completed'', dq_completed_at := Some now, dq_results_json := Some rows\<rparr> else q) (ts_queries st)\<rparr>"

definition get_query_by_id :: "tls_state \<Rightarrow> string \<Rightarrow> osq_query option" where
  "get_query_by_id st query_id = find (\<lambda>q. dq_query_id q = query_id) (ts_queries st)"

definition distributed_enqueue :: "string \<Rightarrow> string \<Rightarrow> string \<Rightarrow> string \<Rightarrow> tls_state \<Rightarrow> (http_error + string) \<times> tls_state" where
  "distributed_enqueue fresh host query_text tenant st =
     (case get_node_by_host st host tenant of
        None \<Rightarrow> (Inl (404, ''Node '' @ repr_str host @ '' not enrolled for tenant '' @ repr_str tenant), st)
      | Some node \<Rightarrow> enqueue_query fresh node query_text st)"

definition distributed_read :: "tls_settings \<Rightarrow> int \<Rightarrow> val \<Rightarrow> string \<Rightarrow> tls_state \<Rightarrow> (http_error + (string \<times> string) list) \<times> tls_state" where
  "distributed_read cfg now node_key client_cn st =
     (case require_valid_node_key cfg st node_key client_cn of
        Inl e \<Rightarrow> (Inl e, st)
      | Inr node \<Rightarrow>
          let st' = mark_seen now node st
          in (Inr (dict_update [] (map (\<lambda>q. (dq_query_id q, dq_query_text q)) (get_pending_queries st' node))), st'))"

text \<open>The status response: id, status and rows; its \<open>error\<close> field is never set and travels as null.\<close>

definition distributed_status :: "string \<Rightarrow> tls_state \<Rightarrow> http_error + string \<times> string \<times> dict list option" where
  "distributed_status query_id st =
     (case get_query_by_id st query_id of
        None \<Rightarrow> Inl (404, ''Query '' @ repr_str query_id @ '' not found'')
      | Some q \<Rightarrow> Inr (dq_query_id q, dq_status q, if dq_status q = ''completed'' then dq_results_json q else None))"

subsection \<open>Normalised events\<close>

definition HIGH_PATTERNS :: "string list" where
  "HIGH_PATTERNS = [''process_events'', ''socket_events'', ''file_events'', ''user_events'', ''suid_bin'']"

definition MEDIUM_PATTERNS :: "string list" where
  "MEDIUM_PATTERNS = [''logged_in_users'', ''listening_ports'']"

definition infer_severity :: "string \<Rightarrow> string" where
  "infer_severity query_name =
     (if list_ex (\<lambda>p. substr_in p (lower query_name)) HIGH_PATTERNS then ''high''
      else if list_ex (\<lambda>p. substr_in p (lower query_name)) MEDIUM_PATTERNS then ''medium''
      else ''info'')"

definition normalize_row :: "string \<Rightarrow> dict \<Rightarrow> osq_node \<Rightarrow> string \<Rightarrow> string \<Rightarrow> dict" where
  "normalize_row now_text row node query_name log_type =
     [(''event_type'', VStr ''osquery_query_row''), (''source'', VStr ''aisoc_direct''),
      (''tenant_id'', VStr (nd_tenant_id node)), (''host_identifier'', VStr (nd_host_identifier node)),
      (''query_name'', VStr query_name), (''log_type'', VStr log_type), (''severity'', VStr (infer_severity query_name)),
      (''raw'', VDict row), (''timestamp'', py_or (vget row ''unixTime'') (VStr now_text))]"

text \<open>The batch that is posted to the ingest service: the events and the tenant header; a failing post is only logged.\<close>

type_synonym forwarded = "(dict list \<times> string) option"

definition forward_events :: "dict list \<Rightarrow> string \<Rightarrow> forwarded" where
  "forward_events events tenant = (if events = [] then None else Some (events, tenant))"

definition complete_all :: "int \<Rightarrow> (string \<times> dict list) list \<Rightarrow> tls_state \<Rightarrow> tls_state" where
  "complete_all now queries st = foldl (\<lambda>s (query_id, rows). complete_query now query_id rows s) st queries"

definition distributed_write :: "tls_settings \<Rightarrow> int \<Rightarrow> string \<Rightarrow> val \<Rightarrow> string \<Rightarrow> (string \<times> dict list) list \<Rightarrow> (string \<times> int) list
    \<Rightarrow> tls_state \<Rightarrow> (http_error + forwarded) \<times> tls_state" where
  "distributed_write cfg now now_text node_key client_cn queries statuses st =
     (case require_valid_node_key cfg st node_key client_cn of
        Inl e \<Rightarrow> (Inl e, st)
      | Inr node \<Rightarrow>
          (Inr (forward_events (concat (map (\<lambda>(query_id, rows).
              map (\<lambda>row. normalize_row now_text row node query_id ''distributed'') rows) queries)) (nd_tenant_id node)),
           complete_all now queries (mark_seen now node st)))"

subsection \<open>Result logs\<close>

text \<open>\<open>None\<close> stands for the exception of an entry, a name or a row of the wrong type.\<close>

definition entry_events :: "string \<Rightarrow> osq_node \<Rightarrow> string \<Rightarrow> val \<Rightarrow> dict list option" where
  "entry_events now_text node log_type entry =
     (case entry of
        VDict e \<Rightarrow>
          let query_name = vget_default e ''name'' (VStr ''unknown'');
              raw_rows = py_or (py_or (vget e ''columns'') (vget e ''snapshot'')) (VList [entry]);
              rows = (case raw_rows of VDict d \<Rightarrow> Some [VDict d] | VList rs \<Rightarrow> Some rs
                        | VStr s \<Rightarrow> Some (map (\<lambda>c. VStr [c]) s) | _ \<Rightarrow> None)
          in (case rows of
                None \<Rightarrow> None
              | Some rs \<Rightarrow> those (map (\<lambda>r. case (query_name, r) of
                    (VStr name, VDict row) \<Rightarrow> Some (normalize_row now_text row node name log_type) | _ \<Rightarrow> None) rs))
      | _ \<Rightarrow> None)"

definition log_entries :: "val \<Rightarrow> val list" where
  "log_entries payload = (case payload of VList xs \<Rightarrow> xs | VDict d \<Rightarrow> [VDict d] | _ \<Rightarrow> [])"

definition post_log :: "tls_settings \<Rightarrow> int \<Rightarrow> string \<Rightarrow> val \<Rightarrow> string \<Rightarrow> string \<Rightarrow> string \<Rightarrow> tls_state \<Rightarrow> (http_error + forwarded) \<times> tls_state" where
  "post_log cfg now now_text node_key client_cn log_type data st =
     (case require_valid_node_key cfg st node_key client_cn of
        Inl e \<Rightarrow> (Inl e, st)
      | Inr node \<Rightarrow>
          (case json_loads data of
             None \<Rightarrow> Inr None
           | Some payload \<Rightarrow>
               if log_type \<notin> {''result'', ''snapshot''} then Inr (forward_events [] (nd_tenant_id node))
               else (case those (map (entry_events now_text node log_type) (log_entries payload)) of
                   None \<Rightarrow> Inl internal_error
                 | Some eventss \<Rightarrow> Inr (forward_events (concat eventss) (nd_tenant_id node))),
           mark_seen now node st))"

subsection \<open>Packs\<close>

record pack_query =
  pq_name :: string
  pq_sql :: string
  pq_interval :: int
  pq_description :: string
  pq_mitre :: "string list"

record osquery_pack =
  pk_id :: string
  pk_version :: string
  pk_platforms :: "string list"
  pk_description :: string
  pk_queries :: "pack_query list"
  pk_discovery :: "string list"
  pk_file_paths :: "(string \<times> string list) list"

text \<open>One entry of a schedule; also the entry of the pack JSON, before its tags.\<close>

definition schedule_entry :: "pack_query \<Rightarrow> dict" where
  "schedule_entry q = [(''query'', VStr (strip (pq_sql q))), (''interval'', VInt (pq_interval q)), (''description'', VStr (pq_description q))]"

definition to_schedule_dict :: "osquery_pack \<Rightarrow> (string \<times> dict) list" where
  "to_schedule_dict pack = foldl (\<lambda>d q. dict_set (pk_id pack @ ''__'' @ pq_name q) (schedule_entry q) d) [] (pk_queries pack)"

definition text_list :: "string list \<Rightarrow> val" where
  "text_list ss = VList (map VStr ss)"

definition to_osquery_json :: "osquery_pack \<Rightarrow> dict" where
  "to_osquery_json pack =
     (let queries = foldl (\<lambda>d q. dict_set (pq_name q)
            (VDict (schedule_entry q @ (if pq_mitre q = [] then [] else [(''tags'', text_list (pq_mitre q))]))) d) [] (pk_queries pack)
      in (''queries'', VDict queries) # (if pk_discovery pack = [] then [] else [(''discovery'', text_list (pk_discovery pack))]))"

definition to_osctrl_format :: "osquery_pack \<Rightarrow> dict" where
  "to_osctrl_format pack =
     [(''pack_id'', VStr (pk_id pack)), (''pack_version'', VStr (pk_version pack)), (''platforms'', text_list (pk_platforms pack))]
     @ to_osquery_json pack"

definition to_fleetdm_format :: "osquery_pack \<Rightarrow> dict" where
  "to_fleetdm_format pack =
     (let queries = foldl (\<lambda>d q. dict_set (pq_name q) (VDict (schedule_entry q @
            [(''platform'', VStr (join_with '','' (pk_platforms pack))), (''automations_enabled'', VBool True), (''tags'', text_list (pq_mitre q))])) d)
            [] (pk_queries pack)
      in [(''name'', VStr (pk_id pack)), (''description'', VStr (strip (pk_description pack))), (''queries'', VDict queries)])"

definition render_pack :: "(string \<Rightarrow> osquery_pack option) \<Rightarrow> string \<Rightarrow> string \<Rightarrow> http_error + dict" where
  "render_pack get_pack pack_id format =
     (case get_pack pack_id of
        None \<Rightarrow> Inl (404, ''Pack '' @ [CHR 0x27] @ pack_id @ [CHR 0x27] @ '' not found'')
      | Some pack \<Rightarrow> Inr (if format = ''osctrl'' then to_osctrl_format pack
          else if format = ''fleetdm'' then to_fleetdm_format pack else to_osquery_json pack))"

definition DEFAULT_PACK_IDS :: "string list" where
  "DEFAULT_PACK_IDS = [''aisoc-fim-baseline'', ''aisoc-inventory-baseline'']"

record tls_config =
  tc_schedule :: "(string \<times> dict) list"
  tc_file_paths :: "(string \<times> string list) list"

text \<open>The options of a config are constant; the file paths are left out of the response when empty.\<close>

definition build_config :: "(string \<Rightarrow> osquery_pack option) \<Rightarrow> string list \<Rightarrow> tls_config" where
  "build_config get_pack pack_ids =
     foldl (\<lambda>c pack_id. case get_pack pack_id of
         None \<Rightarrow> c
       | Some pack \<Rightarrow> \<lparr>tc_schedule = dict_update (tc_schedule c) (to_schedule_dict pack),
                      tc_file_paths = dict_update (tc_file_paths c) (pk_file_paths pack)\<rparr>)
       \<lparr>tc_schedule = [], tc_file_paths = []\<rparr> pack_ids"

definition resolve_config :: "(string \<Rightarrow> osquery_pack option) \<Rightarrow> string \<Rightarrow> tls_config" where
  "resolve_config get_pack tenant_id = build_config get_pack DEFAULT_PACK_IDS"

definition resolve_config_async :: "(string \<Rightarrow> osquery_pack option) \<Rightarrow> string \<Rightarrow> tls_state \<Rightarrow> tls_config" where
  "resolve_config_async get_pack tenant_id st =
     (let assigned = map pa_pack_id (filter (\<lambda>r. pa_tenant_id r = tenant_id \<and> pa_enabled r) (ts_packs st))
      in build_config get_pack (if assigned = [] then DEFAULT_PACK_IDS else assigned))"

definition get_config :: "(string \<Rightarrow> osquery_pack option) \<Rightarrow> tls_settings \<Rightarrow> int \<Rightarrow> val \<Rightarrow> string \<Rightarrow> tls_state \<Rightarrow> (http_error + tls_config) \<times> tls_state" where
  "get_config get_pack cfg now node_key client_cn st =
     (case require_valid_node_key cfg st node_key client_cn of
        Inl e \<Rightarrow> (Inl e, st)
      | Inr node \<Rightarrow> (Inr (resolve_config get_pack (nd_tenant_id node)), mark_seen now node st))"

definition assign_pack :: "(string \<Rightarrow> osquery_pack option) \<Rightarrow> int \<Rightarrow> string \<Rightarrow> string \<Rightarrow> bool \<Rightarrow> tls_state \<Rightarrow> (http_error + pack_row) \<times> tls_state" where
  "assign_pack get_pack now tenant_id pack_id enabled st =
     (if get_pack pack_id = None then (Inl (404, ''Pack '' @ [CHR 0x27] @ pack_id @ [CHR 0x27] @ '' not found in catalog''), st)
      else case find (\<lambda>r. pa_tenant_id r = tenant_id \<and> pa_pack_id r = pack_id) (ts_packs st) of
        Some existing \<Rightarrow>
          (Inr (existing\<lparr>pa_enabled := enabled\<rparr>),
           st\<lparr>ts_packs := map (\<lambda>r. if pa_tenant_id r = tenant_id \<and> pa_pack_id r = pack_id then r\<lparr>pa_enabled := enabled\<rparr> else r) (ts_packs st)\<rparr>)
      | None \<Rightarrow>
          let row = \<lparr>pa_tenant_id = tenant_id, pa_pack_id = pack_id, pa_enabled = enabled, pa_assigned_at = now\<rparr>
          in (Inr row, st\<lparr>ts_packs := ts_packs st @ [row]\<rparr>))"

definition list_tenant_packs :: "string \<Rightarrow> tls_state \<Rightarrow> pack_row list" where
  "list_tenant_packs tenant_id st = filter (\<lambda>r. pa_tenant_id r = tenant_id) (ts_packs st)"

definition remove_pack_assignment :: "string \<Rightarrow> string \<Rightarrow> tls_state \<Rightarrow> tls_state" where
  "remove_pack_assignment tenant_id pack_id st =
     st\<lparr>ts_packs := filter (\<lambda>r. \<not> (pa_tenant_id r = tenant_id \<and> pa_pack_id r = pack_id)) (ts_packs st)\<rparr>"

subsection \<open>The service as a machine\<close>

datatype tls_request =
    Enroll string int "string option" string string val
  | Enqueue string string string string
  | Read int val string
  | Write int string val string "(string \<times> dict list) list" "(string \<times> int) list"
  | Log int string val string string string
  | Config int val string
  | Status string
  | AssignPack int string string bool
  | RemovePack string string

fun tls_step :: "(string \<Rightarrow> osquery_pack option) \<Rightarrow> tls_settings \<Rightarrow> tls_state \<Rightarrow> tls_request \<Rightarrow> tls_state" where
  "tls_step get_pack cfg st (Enroll fresh now tenant secret host details) = snd (enroll cfg fresh now tenant secret host details st)"
| "tls_step get_pack cfg st (Enqueue fresh host query_text tenant) = snd (distributed_enqueue fresh host query_text tenant st)"
| "tls_step get_pack cfg st (Read now key cn) = snd (distributed_read cfg now key cn st)"
| "tls_step get_pack cfg st (Write now now_text key cn queries statuses) = snd (distributed_write cfg now now_text key cn queries statuses st)"
| "tls_step get_pack cfg st (Log now now_text key cn log_type data) = snd (post_log cfg now now_text key cn log_type data st)"
| "tls_step get_pack cfg st (Config now key cn) = snd (get_config get_pack cfg now key cn st)"
| "tls_step get_pack cfg st (Status query_id) = st"
| "tls_step get_pack cfg st (AssignPack now tenant pack_id enabled) = snd (assign_pack get_pack now tenant pack_id enabled st)"
| "tls_step get_pack cfg st (RemovePack tenant pack_id) = remove_pack_assignment tenant pack_id st"

definition tls_run :: "(string \<Rightarrow> osquery_pack option) \<Rightarrow> tls_settings \<Rightarrow> tls_state \<Rightarrow> tls_request list \<Rightarrow> tls_state" where
  "tls_run get_pack cfg st rs = foldl (tls_step get_pack cfg) st rs"

definition empty_tls :: tls_state where
  "empty_tls = \<lparr>ts_nodes = [], ts_queries = [], ts_packs = [], ts_next_id = 1\<rparr>"


subsection \<open>The invariant of the tables\<close>

text \<open>A query is pending without a result, or completed with one.\<close>

definition query_ok :: "osq_query \<Rightarrow> bool" where
  "query_ok q \<longleftrightarrow> dq_status q = ''pending'' \<and> dq_completed_at q = None \<and> dq_results_json q = None
     \<or> dq_status q = ''completed'' \<and> dq_completed_at q \<noteq> None \<and> dq_results_json q \<noteq> None"

definition nodes_ok :: "tls_state \<Rightarrow> bool" where
  "nodes_ok st \<longleftrightarrow> distinct (map (\<lambda>n. (nd_host_identifier n, nd_tenant_id n)) (ts_nodes st))
     \<and> distinct (map nd_node_key (ts_nodes st)) \<and> distinct (map nd_id (ts_nodes st)) \<and> (\<forall>n\<in>set (ts_nodes st). nd_id n < ts_next_id st)"

definition queries_ok :: "tls_state \<Rightarrow> bool" where
  "queries_ok st \<longleftrightarrow> distinct (map dq_query_id (ts_queries st))
     \<and> (\<forall>q\<in>set (ts_queries st). query_ok q \<and> dq_node_id q \<in> nd_id ` set (ts_nodes st))"

definition packs_ok :: "tls_state \<Rightarrow> bool" where
  "packs_ok st \<longleftrightarrow> distinct (map (\<lambda>r. (pa_tenant_id r, pa_pack_id r)) (ts_packs st))"

lemma mark_seen_simps [simp]:
  "map nd_id (ts_nodes (mark_seen now n st)) = map nd_id (ts_nodes st)"
  "map nd_node_key (ts_nodes (mark_seen now n st)) = map nd_node_key (ts_nodes st)"
  "map (\<lambda>n. (nd_host_identifier n, nd_tenant_id n)) (ts_nodes (mark_seen now n st)) = map (\<lambda>n. (nd_host_identifier n, nd_tenant_id n)) (ts_nodes st)"
  "ts_queries (mark_seen now n st) = ts_queries st" "ts_packs (mark_seen now n st) = ts_packs st" "ts_next_id (mark_seen now n st) = ts_next_id st"
  by (simp_all add: mark_seen_def)

lemma set_ids: "nd_id ` set ns = set (map nd_id ns)"
  by simp

lemma nodes_ok_alt: "nodes_ok st \<longleftrightarrow> distinct (map (\<lambda>n. (nd_host_identifier n, nd_tenant_id n)) (ts_nodes st))
     \<and> distinct (map nd_node_key (ts_nodes st)) \<and> distinct (map nd_id (ts_nodes st)) \<and> (\<forall>i\<in>set (map nd_id (ts_nodes st)). i < ts_next_id st)"
  by (simp add: nodes_ok_def)

lemma mark_seen_ok: "nodes_ok st \<Longrightarrow> nodes_ok (mark_seen now n st)" "queries_ok st \<Longrightarrow> queries_ok (mark_seen now n st)"
  "packs_ok st \<Longrightarrow> packs_ok (mark_seen now n st)"
  unfolding nodes_ok_alt queries_ok_def set_ids packs_ok_def by simp_all

lemma map_replace: "(\<And>n. n \<in> set ns \<Longrightarrow> nd_id n = i \<Longrightarrow> f node = f n) \<Longrightarrow> map f (map (\<lambda>n. if nd_id n = i then node else n) ns) = map f ns"
  by (induction ns) auto

lemma distinct_replace:
  "distinct (map nd_id ns) \<Longrightarrow> distinct (map f ns) \<Longrightarrow> (\<forall>n\<in>set ns. f n = f node \<longrightarrow> nd_id n = i) \<Longrightarrow>
     distinct (map f (map (\<lambda>n. if nd_id n = i then node else n) ns))"
proof (induction ns)
  case (Cons n ns)
  show ?case
  proof (cases "nd_id n = i")
    case True
    then have "\<forall>m\<in>set ns. nd_id m \<noteq> i" using Cons.prems(1) by (force simp: image_iff)
    then have "map (\<lambda>n. if nd_id n = i then node else n) ns = ns" by (intro map_idI) simp
    then show ?thesis using Cons True by (auto simp: image_iff)
  next
    case False
    then show ?thesis using Cons by (auto simp: image_iff)
  qed
qed simp

lemma find_node: "find P ns = Some n \<Longrightarrow> n \<in> set ns \<and> P n"
  by (auto simp: find_Some_iff)

lemma enroll_node_ok:
  assumes "nodes_ok st" "enroll_node fresh now host tenant details st = (r, st')"
  shows "nodes_ok st'" "queries_ok st \<Longrightarrow> queries_ok st'" "packs_ok st \<Longrightarrow> packs_ok st'"
proof -
  have "nodes_ok st' \<and> set (map nd_id (ts_nodes st)) \<subseteq> set (map nd_id (ts_nodes st')) \<and> ts_queries st' = ts_queries st \<and> ts_packs st' = ts_packs st"
  proof (cases "get_node_by_host st host tenant")
    case None
    then have "(host, tenant) \<notin> set (map (\<lambda>n. (nd_host_identifier n, nd_tenant_id n)) (ts_nodes st))"
      by (auto simp: get_node_by_host_def find_None_iff)
    moreover have "ts_next_id st \<notin> nd_id ` set (ts_nodes st)" using assms(1) by (auto simp: nodes_ok_def)
    ultimately show ?thesis using assms None by (auto simp: enroll_node_def nodes_ok_def Let_def less_Suc_eq split: if_splits)
  next
    case (Some e)
    then have e: "e \<in> set (ts_nodes st)" using find_node by (fastforce simp: get_node_by_host_def)
    show ?thesis
    proof (cases "\<exists>n\<in>set (ts_nodes st). nd_node_key n = fresh \<and> nd_id n \<noteq> nd_id e")
      case True
      then show ?thesis using assms Some by (auto simp: enroll_node_def)
    next
      case False
      define node where "node = e\<lparr>nd_node_key := fresh, nd_host_details := details, nd_last_seen := now\<rparr>"
      let ?ns = "map (\<lambda>n. if nd_id n = nd_id e then node else n) (ts_nodes st)"
      have st': "st' = st\<lparr>ts_nodes := ?ns\<rparr>" using assms(2) Some False by (auto simp: enroll_node_def Let_def node_def)
      have same: "n = e" if "n \<in> set (ts_nodes st)" "nd_id n = nd_id e" for n
        using assms(1) e that by (auto simp: nodes_ok_def distinct_map inj_on_def)
      have "map nd_id ?ns = map nd_id (ts_nodes st)"
        by (rule map_replace) (simp add: node_def)
      moreover have "map (\<lambda>n. (nd_host_identifier n, nd_tenant_id n)) ?ns = map (\<lambda>n. (nd_host_identifier n, nd_tenant_id n)) (ts_nodes st)"
        by (rule map_replace) (use same in \<open>auto simp: node_def\<close>)
      moreover have "distinct (map nd_node_key ?ns)"
        by (rule distinct_replace) (use assms(1) False in \<open>auto simp: nodes_ok_def node_def\<close>)
      ultimately show ?thesis using assms(1) unfolding nodes_ok_alt st' by (simp del: map_map)
    qed
  qed
  then show "nodes_ok st'" "queries_ok st \<Longrightarrow> queries_ok st'" "packs_ok st \<Longrightarrow> packs_ok st'"
    by (auto simp: queries_ok_def packs_ok_def)
qed


lemma complete_query_simps [simp]:
  "ts_nodes (complete_query now i rows st) = ts_nodes st" "ts_packs (complete_query now i rows st) = ts_packs st"
  "ts_next_id (complete_query now i rows st) = ts_next_id st"
  "map dq_query_id (ts_queries (complete_query now i rows st)) = map dq_query_id (ts_queries st)"
  by (simp_all add: complete_query_def)

lemma complete_query_ok: "queries_ok st \<Longrightarrow> queries_ok (complete_query now i rows st)"
  by (auto simp: queries_ok_def query_ok_def complete_query_def comp_def if_distrib cong: if_cong)

lemma complete_all_simps [simp]:
  "ts_nodes (complete_all now qs st) = ts_nodes st" "ts_packs (complete_all now qs st) = ts_packs st"
  "ts_next_id (complete_all now qs st) = ts_next_id st"
  by (induction qs arbitrary: st) (auto simp: complete_all_def)

lemma complete_all_ok: "queries_ok st \<Longrightarrow> queries_ok (complete_all now qs st)"
  by (induction qs arbitrary: st) (auto simp: complete_all_def complete_query_ok)

lemma enqueue_ok:
  assumes "nodes_ok st" "queries_ok st" "distributed_enqueue fresh host qtext tenant st = (r, st')"
  shows "nodes_ok st' \<and> queries_ok st' \<and> ts_packs st' = ts_packs st"
proof (cases "get_node_by_host st host tenant")
  case None
  then show ?thesis using assms by (simp add: distributed_enqueue_def)
next
  case (Some n)
  then have "n \<in> set (ts_nodes st)" using find_node by (fastforce simp: get_node_by_host_def)
  then show ?thesis using assms Some
    by (auto simp: distributed_enqueue_def enqueue_query_def nodes_ok_def queries_ok_def query_ok_def split: if_splits)
qed

definition tls_inv :: "tls_state \<Rightarrow> bool" where
  "tls_inv st \<longleftrightarrow> nodes_ok st \<and> queries_ok st \<and> packs_ok st"

lemma tls_inv_mark: "tls_inv st \<Longrightarrow> tls_inv (mark_seen now n st)"
  by (simp add: tls_inv_def mark_seen_ok)

lemma assign_pack_ok: "packs_ok st \<Longrightarrow> packs_ok (snd (assign_pack get_pack now tenant p en st))"
proof -
  assume ok: "packs_ok st"
  have "map (\<lambda>r. (pa_tenant_id r, pa_pack_id r)) (map (\<lambda>r. if pa_tenant_id r = tenant \<and> pa_pack_id r = p then r\<lparr>pa_enabled := en\<rparr> else r) rs)
      = map (\<lambda>r. (pa_tenant_id r, pa_pack_id r)) rs" for rs :: "pack_row list" by (induction rs) auto
  then show ?thesis using ok
    by (auto simp: assign_pack_def packs_ok_def Let_def find_None_iff simp del: map_map split: option.splits)
qed

lemma assign_pack_frame: "ts_nodes (snd (assign_pack get_pack now tenant p en st)) = ts_nodes st"
  "ts_queries (snd (assign_pack get_pack now tenant p en st)) = ts_queries st"
  "ts_next_id (snd (assign_pack get_pack now tenant p en st)) = ts_next_id st"
  by (auto simp: assign_pack_def Let_def split: option.splits)

lemma tls_step_inv: "tls_inv st \<Longrightarrow> tls_inv (tls_step get_pack cfg st r)"
proof (cases r)
  case (Enroll fresh now tenant secret host details)
  assume inv: "tls_inv st"
  show ?thesis
  proof (cases "enroll_node fresh now host (tenant_from_header tenant) details st")
    case (Pair a st')
    then have "tls_inv st'" using inv enroll_node_ok [OF _ Pair] by (auto simp: tls_inv_def)
    then show ?thesis using inv Enroll Pair by (auto simp: enroll_def split: option.splits bool.splits sum.splits)
  qed
next
  case (Enqueue fresh host qtext tenant)
  assume inv: "tls_inv st"
  obtain a st' where "distributed_enqueue fresh host qtext tenant st = (a, st')" by fastforce
  with inv enqueue_ok [OF _ _ this] Enqueue show ?thesis by (auto simp: tls_inv_def packs_ok_def)
next
  case (Read now key cn)
  assume "tls_inv st"
  with Read tls_inv_mark show ?thesis by (auto simp: distributed_read_def Let_def split: sum.splits)
next
  case (Write now now_text key cn queries statuses)
  assume "tls_inv st"
  then have "tls_inv (complete_all now queries (mark_seen now n st))" for n
    using mark_seen_ok complete_all_ok by (auto simp: tls_inv_def nodes_ok_def packs_ok_def)
  with Write \<open>tls_inv st\<close> show ?thesis by (auto simp: distributed_write_def split: sum.splits)
next
  case (Log now now_text key cn log_type data)
  assume "tls_inv st"
  with Log tls_inv_mark show ?thesis by (auto simp: post_log_def split: sum.splits)
next
  case (Config now key cn)
  assume "tls_inv st"
  with Config tls_inv_mark show ?thesis by (auto simp: get_config_def split: sum.splits)
next
  case (AssignPack now tenant p en)
  assume "tls_inv st"
  with AssignPack assign_pack_ok [of st] assign_pack_frame [of get_pack now tenant p en st] show ?thesis
    by (simp add: tls_inv_def nodes_ok_def queries_ok_def)
next
  case (RemovePack tenant p)
  assume "tls_inv st"
  with RemovePack show ?thesis by (simp add: tls_inv_def nodes_ok_def queries_ok_def packs_ok_def remove_pack_assignment_def distinct_map_filter)
qed simp

lemma tls_run_inv: "tls_inv st \<Longrightarrow> tls_inv (tls_run get_pack cfg st rs)"
  by (induction rs arbitrary: st) (auto simp: tls_run_def tls_step_inv)

lemma empty_inv: "tls_inv empty_tls"
  by (simp add: tls_inv_def nodes_ok_def queries_ok_def packs_ok_def empty_tls_def)


subsection \<open>What a run keeps\<close>

text \<open>The writes of a run that authenticate, with the node whose key they carry.\<close>

fun accepted_writes :: "(string \<Rightarrow> osquery_pack option) \<Rightarrow> tls_settings \<Rightarrow> tls_state \<Rightarrow> tls_request list
    \<Rightarrow> (osq_node \<times> (string \<times> dict list) list) list" where
  "accepted_writes get_pack cfg st [] = []"
| "accepted_writes get_pack cfg st (r # rs) =
     (case r of
        Write now now_text key cn queries statuses \<Rightarrow>
          (case require_valid_node_key cfg st key cn of Inl _ \<Rightarrow> [] | Inr node \<Rightarrow> [(node, queries)])
      | _ \<Rightarrow> []) @ accepted_writes get_pack cfg (tls_step get_pack cfg st r) rs"

definition written :: "(osq_node \<times> (string \<times> dict list) list) list \<Rightarrow> string \<Rightarrow> dict list option" where
  "written ws query_id = map_of (rev (concat (map snd ws))) query_id"

lemma written_append: "written (ws @ vs) i = (case written vs i of None \<Rightarrow> written ws i | Some rows \<Rightarrow> Some rows)"
  by (simp add: written_def map_add_def split: option.splits)

text \<open>How a query row may change: not at all, or to completed with the given rows.\<close>

definition settled :: "osq_query \<Rightarrow> dict list option \<Rightarrow> osq_query \<Rightarrow> bool" where
  "settled q w q' \<longleftrightarrow> (case w of None \<Rightarrow> q' = q
     | Some rows \<Rightarrow> \<exists>now. q' = q\<lparr>dq_status := ''completed'', dq_completed_at := Some now, dq_results_json := Some rows\<rparr>)"

lemma settled_trans: "settled q w q' \<Longrightarrow> settled q' w' q'' \<Longrightarrow> settled q (case w' of None \<Rightarrow> w | Some rows \<Rightarrow> Some rows) q''"
  by (auto simp: settled_def split: option.splits)

lemma complete_query_get:
  "get_query_by_id (complete_query now i rows st) j = map_option (\<lambda>q. if j = i
      then q\<lparr>dq_status := ''completed'', dq_completed_at := Some now, dq_results_json := Some rows\<rparr> else q) (get_query_by_id st j)"
proof -
  have "find (\<lambda>q. dq_query_id q = j) (map (\<lambda>q. if dq_query_id q = i then f q else q) qs)
      = map_option (\<lambda>q. if j = i then f q else q) (find (\<lambda>q. dq_query_id q = j) qs)"
    if "\<And>q. dq_query_id (f q) = dq_query_id q" for f :: "osq_query \<Rightarrow> osq_query" and qs
    using that by (induction qs) auto
  then show ?thesis by (simp add: get_query_by_id_def complete_query_def)
qed

lemma complete_all_get:
  "get_query_by_id st j = Some q \<Longrightarrow> \<exists>q'. get_query_by_id (complete_all now qs st) j = Some q' \<and> settled q (map_of (rev qs) j) q'"
proof (induction qs arbitrary: st q)
  case Nil
  then show ?case by (simp add: complete_all_def settled_def)
next
  case (Cons p qs)
  obtain i rows where p: "p = (i, rows)" by (cases p)
  let ?q = "if j = i then q\<lparr>dq_status := ''completed'', dq_completed_at := Some now, dq_results_json := Some rows\<rparr> else q"
  have "get_query_by_id (complete_query now i rows st) j = Some ?q" using Cons.prems by (simp add: complete_query_get)
  from Cons.IH [OF this] obtain q' where q': "get_query_by_id (complete_all now (p # qs) st) j = Some q'" "settled ?q (map_of (rev qs) j) q'"
    by (auto simp: complete_all_def p)
  have "settled q (map_of (rev (p # qs)) j) q'" using q'(2)
    by (auto simp: p settled_def map_add_def split: option.splits if_splits)
  with q'(1) show ?case by blast
qed

lemma mark_seen_get [simp]: "get_query_by_id (mark_seen now n st) i = get_query_by_id st i"
  by (simp add: get_query_by_id_def)

lemma enroll_frame: "ts_queries (snd (enroll cfg fresh now tenant secret host details st)) = ts_queries st"
  by (auto simp: enroll_def enroll_node_def Let_def split: option.splits bool.splits sum.splits if_splits)

lemma enqueue_get: "get_query_by_id st i = Some q \<Longrightarrow> get_query_by_id (snd (distributed_enqueue fresh host qtext tenant st)) i = Some q"
proof -
  have "find P xs = Some x \<Longrightarrow> find P (xs @ ys) = Some x" for P and xs ys :: "osq_query list" and x by (induction xs) auto
  then show "get_query_by_id st i = Some q \<Longrightarrow> get_query_by_id (snd (distributed_enqueue fresh host qtext tenant st)) i = Some q"
    by (auto simp: get_query_by_id_def distributed_enqueue_def enqueue_query_def split: option.splits)
qed

definition step_writes :: "tls_settings \<Rightarrow> tls_state \<Rightarrow> tls_request \<Rightarrow> (osq_node \<times> (string \<times> dict list) list) list" where
  "step_writes cfg st r = (case r of
        Write now now_text key cn queries statuses \<Rightarrow>
          (case require_valid_node_key cfg st key cn of Inl _ \<Rightarrow> [] | Inr node \<Rightarrow> [(node, queries)])
      | _ \<Rightarrow> [])"

lemma accepted_Cons: "accepted_writes get_pack cfg st (r # rs) = step_writes cfg st r @ accepted_writes get_pack cfg (tls_step get_pack cfg st r) rs"
  by (simp add: step_writes_def)

lemma step_settled:
  assumes "get_query_by_id st i = Some q"
  shows "\<exists>q'. get_query_by_id (tls_step get_pack cfg st r) i = Some q' \<and> settled q (written (step_writes cfg st r) i) q'"
proof (cases r)
  case (Write now now_text key cn queries statuses)
  show ?thesis
  proof (cases "require_valid_node_key cfg st key cn")
    case (Inl e)
    then show ?thesis using Write assms by (simp add: distributed_write_def step_writes_def written_def settled_def)
  next
    case (Inr n)
    have "get_query_by_id (mark_seen now n st) i = Some q" using assms by simp
    from complete_all_get [OF this, of now queries] show ?thesis using Write Inr
      by (auto simp: distributed_write_def step_writes_def written_def)
  qed
next
  case (Enroll fresh now tenant secret host details)
  then show ?thesis using assms enroll_frame by (simp add: step_writes_def written_def settled_def get_query_by_id_def)
next
  case (Enqueue fresh host qtext tenant)
  then show ?thesis using enqueue_get [OF assms] by (simp add: step_writes_def written_def settled_def)
next
  case (AssignPack now tenant p en)
  then show ?thesis using assms assign_pack_frame(2) by (simp add: step_writes_def written_def settled_def get_query_by_id_def)
qed (use assms in \<open>auto simp: step_writes_def written_def settled_def distributed_read_def post_log_def get_config_def
      remove_pack_assignment_def get_query_by_id_def Let_def split: sum.splits\<close>)

lemma run_settled:
  assumes "get_query_by_id st i = Some q"
  shows "\<exists>q'. get_query_by_id (tls_run get_pack cfg st rs) i = Some q' \<and> settled q (written (accepted_writes get_pack cfg st rs) i) q'"
  using assms
proof (induction rs arbitrary: st q)
  case Nil
  then show ?case by (simp add: tls_run_def written_def settled_def)
next
  case (Cons r rs)
  obtain q1 where q1: "get_query_by_id (tls_step get_pack cfg st r) i = Some q1" "settled q (written (step_writes cfg st r) i) q1"
    using step_settled [OF Cons.prems] by blast
  obtain q' where "get_query_by_id (tls_run get_pack cfg (tls_step get_pack cfg st r) rs) i = Some q'"
    "settled q1 (written (accepted_writes get_pack cfg (tls_step get_pack cfg st r) rs) i) q'"
    using Cons.IH [OF q1(1)] by blast
  with settled_trans [OF q1(2)] show ?case
    unfolding accepted_Cons written_append by (auto simp: tls_run_def)
qed


text \<open>Nodes are never removed, and their identity never changes.\<close>

definition identities :: "tls_state \<Rightarrow> (nat \<times> string \<times> string) list" where
  "identities st = map (\<lambda>n. (nd_id n, nd_host_identifier n, nd_tenant_id n)) (ts_nodes st)"

lemma identities_mark [simp]: "identities (mark_seen now n st) = identities st"
  by (simp add: identities_def mark_seen_def)

lemma identities_complete [simp]: "identities (complete_all now qs st) = identities st"
  by (simp add: identities_def)

lemma identities_tables [simp]: "identities (ts_queries_update f st) = identities st" "identities (ts_packs_update g st) = identities st"
  by (simp_all add: identities_def)

lemma identities_enroll:
  assumes "nodes_ok st"
  shows "\<exists>new. identities (snd (enroll cfg fresh now tenant secret host details st)) = identities st @ new"
proof -
  have "\<exists>new. identities st' = identities st @ new"
    if r: "enroll_node fresh now host t details st = (r, st')" for t r st'
  proof (cases "get_node_by_host st host t")
    case None
    then show ?thesis using r by (auto simp: enroll_node_def Let_def identities_def split: if_splits)
  next
    case (Some e)
    then have e: "e \<in> set (ts_nodes st)" using find_node by (fastforce simp: get_node_by_host_def)
    have same: "n = e" if "n \<in> set (ts_nodes st)" "nd_id n = nd_id e" for n
      using assms e that by (auto simp: nodes_ok_def distinct_map inj_on_def)
    have "map (\<lambda>n. (nd_id n, nd_host_identifier n, nd_tenant_id n)) (map (\<lambda>n. if nd_id n = nd_id e
         then e\<lparr>nd_node_key := fresh, nd_host_details := details, nd_last_seen := now\<rparr> else n) (ts_nodes st)) = identities st"
      unfolding identities_def by (rule map_replace) (use same in auto)
    then show ?thesis using r Some by (auto simp: enroll_node_def Let_def identities_def simp del: map_map split: if_splits)
  qed
  from this [of "tenant_from_header tenant"] show ?thesis
    by (cases "enroll_node fresh now host (tenant_from_header tenant) details st")
      (auto simp: enroll_def split: option.splits bool.splits sum.splits)
qed

lemma identities_step: "tls_inv st \<Longrightarrow> \<exists>new. identities (tls_step get_pack cfg st r) = identities st @ new"
proof (cases r)
  case (Enroll fresh now tenant secret host details)
  assume "tls_inv st"
  with Enroll identities_enroll show ?thesis by (simp add: tls_inv_def)
qed (auto simp: distributed_enqueue_def enqueue_query_def distributed_read_def distributed_write_def post_log_def get_config_def
      assign_pack_def remove_pack_assignment_def Let_def split: sum.splits option.splits)

lemma identities_run: "tls_inv st \<Longrightarrow> \<exists>new. identities (tls_run get_pack cfg st rs) = identities st @ new"
proof (induction rs arbitrary: st)
  case (Cons r rs)
  obtain new where "identities (tls_step get_pack cfg st r) = identities st @ new" using identities_step [OF Cons.prems] by blast
  with Cons.IH [OF tls_step_inv [OF Cons.prems], of get_pack cfg r] show ?case by (auto simp: tls_run_def)
qed (simp add: tls_run_def)

lemma same_identity:
  assumes "tls_inv st" "(i, h, t) \<in> set (identities st)" "n \<in> set (ts_nodes st)"
  shows "nd_id n = i \<longleftrightarrow> nd_host_identifier n = h \<and> nd_tenant_id n = t"
proof -
  obtain m where m: "m \<in> set (ts_nodes st)" "i = nd_id m" "h = nd_host_identifier m" "t = nd_tenant_id m"
    using assms(2) by (auto simp: identities_def)
  have inj: "inj_on nd_id (set (ts_nodes st))" "inj_on (\<lambda>n. (nd_host_identifier n, nd_tenant_id n)) (set (ts_nodes st))"
    using assms(1) by (simp_all add: tls_inv_def nodes_ok_def distinct_map)
  show ?thesis using inj_onD [OF inj(1), of n m] inj_onD [OF inj(2), of n m] m assms(3) by auto
qed

lemma authenticated_node: "require_valid_node_key cfg st key cn = Inr n \<Longrightarrow> n \<in> set (ts_nodes st) \<and> key = VStr (nd_node_key n)"
  using find_node by (fastforce simp: require_valid_node_key_def get_node_by_key_def split: if_splits val.splits option.splits)

lemma dict_update_distinct: "distinct (map fst e) \<Longrightarrow> dict_get (dict_update [] e) k = map_of e k"
proof -
  assume "distinct (map fst e)"
  then have "distinct (map fst (rev e))" by (simp add: rev_map [symmetric])
  with \<open>distinct (map fst e)\<close> have "map_of (rev e) k = Some v \<longleftrightarrow> map_of e k = Some v" for v
    by (simp add: map_of_eq_Some_iff)
  then have "map_of (rev e) k = map_of e k" by (metis not_Some_eq)
  then show ?thesis by (simp add: dict_get_update split: option.splits)
qed

lemma pending_delivery:
  assumes "tls_inv st" "get_query_by_id st i = Some q" "n \<in> set (ts_nodes st)"
  shows "dict_get (dict_update [] (map (\<lambda>q. (dq_query_id q, dq_query_text q)) (get_pending_queries (mark_seen now n st) n))) i
     = (if dq_node_id q = nd_id n \<and> dq_status q = ''pending'' then Some (dq_query_text q) else None)"
proof -
  let ?P = "\<lambda>q. dq_node_id q = nd_id n \<and> dq_status q = ''pending''"
  have d: "distinct (map dq_query_id (ts_queries st))" using assms(1) by (simp add: tls_inv_def queries_ok_def)
  have "map_of (map (\<lambda>q. (dq_query_id q, dq_query_text q)) (filter ?P qs)) i = (if ?P q then Some (dq_query_text q) else None)"
    if "find (\<lambda>q. dq_query_id q = i) qs = Some q" "distinct (map dq_query_id qs)" for qs
    using that by (induction qs) (auto simp: map_of_eq_None_iff split: if_splits)
  from this [OF assms(2) [unfolded get_query_by_id_def] d] show ?thesis
    using d by (subst dict_update_distinct) (simp_all add: get_pending_queries_def distinct_map_filter comp_def)
qed


subsection \<open>Properties\<close>

text \<open>
  Whatever requests the service gets, from empty tables on: a host has one node per tenant and a
  node key names one node; query ids are unique; every query belongs to a registered node and is either
  pending without a result or completed with one; a tenant has one assignment per pack.
\<close>

theorem tls_tables_invariant:
  "let st = tls_run get_pack cfg empty_tls rs in
     distinct (map (\<lambda>n. (nd_host_identifier n, nd_tenant_id n)) (ts_nodes st)) \<and> distinct (map nd_node_key (ts_nodes st))
     \<and> distinct (map dq_query_id (ts_queries st)) \<and> list_all (\<lambda>q. query_ok q \<and> dq_node_id q \<in> nd_id ` set (ts_nodes st)) (ts_queries st)
     \<and> distinct (map (\<lambda>r. (pa_tenant_id r, pa_pack_id r)) (ts_packs st))"
  using tls_run_inv [OF empty_inv, of get_pack cfg rs]
  by (simp add: Let_def tls_inv_def nodes_ok_def queries_ok_def packs_ok_def list_all_iff)

text \<open>
  C13.  The life of a distributed query, against the log of the writes that authenticate: after any further
  requests it is still there with its text and its node; it is untouched if no accepted write named it,
  and otherwise completed with the rows of the last accepted write that did, whichever node and
  tenant that write came from.  While it is pending, a read hands it to the node of its host and
  tenant and to no other.
\<close>

theorem query_life:
  assumes "tls_inv st" "distributed_enqueue qid host qtext tenant st = (Inr i, st1)" "st2 = tls_run get_pack cfg st1 rs"
  shows "(\<exists>q. get_query_by_id st2 qid = Some q \<and> dq_query_text q = qtext
       \<and> (case written (accepted_writes get_pack cfg st1 rs) qid of
            None \<Rightarrow> dq_status q = ''pending'' \<and> dq_results_json q = None
          | Some rows \<Rightarrow> dq_status q = ''completed'' \<and> dq_results_json q = Some rows)
       \<and> distributed_status qid st2 = Inr (qid, dq_status q, dq_results_json q))
     \<and> (\<forall>now key cn node queries. require_valid_node_key cfg st2 key cn = Inr node \<longrightarrow> fst (distributed_read cfg now key cn st2) = Inr queries \<longrightarrow>
          dict_get queries qid = (if nd_host_identifier node = host \<and> nd_tenant_id node = tenant
             \<and> written (accepted_writes get_pack cfg st1 rs) qid = None then Some qtext else None))"
proof -
  obtain n where n: "get_node_by_host st host tenant = Some n" "i = qid"
    and st1: "st1 = st\<lparr>ts_queries := ts_queries st @ [\<lparr>dq_node_id = nd_id n, dq_query_id = qid, dq_query_text = qtext,
        dq_status = ''pending'', dq_completed_at = None, dq_results_json = None\<rparr>]\<rparr>"
    and new: "\<forall>q\<in>set (ts_queries st). dq_query_id q \<noteq> qid"
    using assms(2) by (auto simp: distributed_enqueue_def enqueue_query_def split: option.splits if_splits)
  define q0 where "q0 = \<lparr>dq_node_id = nd_id n, dq_query_id = qid, dq_query_text = qtext, dq_status = ''pending'', dq_completed_at = None, dq_results_json = None\<rparr>"
  have n_in: "n \<in> set (ts_nodes st)" "nd_host_identifier n = host" "nd_tenant_id n = tenant"
    using n(1) find_node by (fastforce simp: get_node_by_host_def)+
  have inv1: "tls_inv st1" using enqueue_ok [OF _ _ assms(2)] assms(1) by (auto simp: tls_inv_def packs_ok_def)
  then have inv2: "tls_inv st2" using tls_run_inv assms(3) by blast
  have "find (\<lambda>q. dq_query_id q = qid) (qs @ [q0]) = Some q0" if "\<forall>q\<in>set qs. dq_query_id q \<noteq> qid" for qs
    using that by (induction qs) (auto simp: q0_def)
  then have "get_query_by_id st1 qid = Some q0" using new by (simp add: get_query_by_id_def st1 q0_def)
  from run_settled [OF this] obtain q where q: "get_query_by_id st2 qid = Some q"
    "settled q0 (written (accepted_writes get_pack cfg st1 rs) qid) q" using assms(3) by blast
  have state: "dq_query_text q = qtext \<and> dq_query_id q = qid \<and> dq_node_id q = nd_id n" "case written (accepted_writes get_pack cfg st1 rs) qid of
            None \<Rightarrow> dq_status q = ''pending'' \<and> dq_results_json q = None
          | Some rows \<Rightarrow> dq_status q = ''completed'' \<and> dq_results_json q = Some rows"
    using q(2) by (auto simp: settled_def q0_def split: option.splits)
  have status: "distributed_status qid st2 = Inr (qid, dq_status q, dq_results_json q)"
    using q(1) state by (auto simp: distributed_status_def split: option.splits)
  obtain ext where "identities st2 = identities st1 @ ext" using identities_run [OF inv1] assms(3) by blast
  then have ident: "(nd_id n, host, tenant) \<in> set (identities st2)" using n_in by (auto simp: st1 identities_def)
  have "dict_get queries qid = (if nd_host_identifier node = host \<and> nd_tenant_id node = tenant
             \<and> written (accepted_writes get_pack cfg st1 rs) qid = None then Some qtext else None)"
    if auth: "require_valid_node_key cfg st2 key cn = Inr node" and read: "fst (distributed_read cfg now key cn st2) = Inr queries"
    for now key cn node queries
  proof -
    note node = authenticated_node [OF auth]
    have "queries = dict_update [] (map (\<lambda>q. (dq_query_id q, dq_query_text q)) (get_pending_queries (mark_seen now node st2) node))"
      using read auth by (simp add: distributed_read_def Let_def)
    then have "dict_get queries qid = (if dq_node_id q = nd_id node \<and> dq_status q = ''pending'' then Some (dq_query_text q) else None)"
      using pending_delivery [OF inv2 q(1)] node by blast
    moreover have "nd_id node = nd_id n \<longleftrightarrow> nd_host_identifier node = host \<and> nd_tenant_id node = tenant"
      using same_identity [OF inv2 ident] node by blast
    ultimately show ?thesis using state by (auto split: option.splits)
  qed
  with q(1) state status show ?thesis by blast
qed


definition demo_cfg :: tls_settings where
  "demo_cfg = \<lparr>enroll_secret = ''s'', require_client_cert = False\<rparr>"

definition demo_tls :: tls_state where
  "demo_tls = tls_run (\<lambda>_. None) demo_cfg empty_tls
     [Enroll ''ka'' 0 None ''s'' ''web-1'' VNone, Enroll ''kb'' 0 (Some ''acme'') ''s'' ''laptop'' VNone]"

definition demo_forged :: "tls_request list" where
  "demo_forged = [Write 5 ''t'' (VStr ''kb'') [] [(''q1'', [[(''uid'', VStr ''0'')]])] []]"

lemma demo_enqueue: "\<exists>st1. distributed_enqueue ''q1'' ''web-1'' ''SELECT 1;'' ''default'' demo_tls = (Inr ''q1'', st1)
    \<and> written (accepted_writes (\<lambda>_. None) demo_cfg st1 demo_forged) ''q1'' = Some [[(''uid'', VStr ''0'')]]"
  by (rule exI [of _ "snd (distributed_enqueue ''q1'' ''web-1'' ''SELECT 1;'' ''default'' demo_tls)"], intro conjI; code_simp)

lemma query_life_witness:
  "\<exists>st1. distributed_enqueue ''q1'' ''web-1'' ''SELECT 1;'' ''default'' demo_tls = (Inr ''q1'', st1)
     \<and> distributed_status ''q1'' (tls_run (\<lambda>_. None) demo_cfg st1 demo_forged) = Inr (''q1'', ''completed'', Some [[(''uid'', VStr ''0'')]])"
proof -
  obtain st1 where st1: "distributed_enqueue ''q1'' ''web-1'' ''SELECT 1;'' ''default'' demo_tls = (Inr ''q1'', st1)"
    "written (accepted_writes (\<lambda>_. None) demo_cfg st1 demo_forged) ''q1'' = Some [[(''uid'', VStr ''0'')]]" using demo_enqueue by blast
  have "tls_inv demo_tls" unfolding demo_tls_def by (rule tls_run_inv) (rule empty_inv)
  from query_life [OF this st1(1) refl, of "\<lambda>_. None" demo_cfg demo_forged] st1 show ?thesis by auto
qed

text \<open>
  Assigning packs to a tenant changes nothing that its agents see: the configuration that an
  authenticated node gets is built from the two default packs, in every state of the assignments,
  while the endpoint that stores an assignment answers as if it took effect.
\<close>

theorem pack_assignments_unused:
  "(let st' = snd (assign_pack get_pack t tenant pack_id enabled st) in
      fst (get_config get_pack cfg now key cn st') = fst (get_config get_pack cfg now key cn st))
   \<and> (case fst (get_config get_pack cfg now key cn st) of Inr c \<Rightarrow> c = build_config get_pack DEFAULT_PACK_IDS | Inl _ \<Rightarrow> True)
   \<and> (case get_pack pack_id of
        None \<Rightarrow> fst (assign_pack get_pack t tenant pack_id enabled st) = Inl (404, ''Pack '' @ [CHR 0x27] @ pack_id @ [CHR 0x27] @ '' not found in catalog'')
      | Some _ \<Rightarrow> (\<exists>row\<in>set (list_tenant_packs tenant (snd (assign_pack get_pack t tenant pack_id enabled st))). pa_pack_id row = pack_id \<and> pa_enabled row = enabled))"
proof (intro conjI)
  have "require_valid_node_key cfg (snd (assign_pack get_pack t tenant pack_id enabled st)) key cn = require_valid_node_key cfg st key cn"
    by (cases key) (simp_all add: require_valid_node_key_def get_node_by_key_def assign_pack_frame(1))
  then show "let st' = snd (assign_pack get_pack t tenant pack_id enabled st) in
      fst (get_config get_pack cfg now key cn st') = fst (get_config get_pack cfg now key cn st)"
    by (simp add: Let_def get_config_def split: sum.splits)
  show "case fst (get_config get_pack cfg now key cn st) of Inr c \<Rightarrow> c = build_config get_pack DEFAULT_PACK_IDS | Inl _ \<Rightarrow> True"
    by (auto simp: get_config_def resolve_config_def split: sum.splits)
  show "case get_pack pack_id of
        None \<Rightarrow> fst (assign_pack get_pack t tenant pack_id enabled st) = Inl (404, ''Pack '' @ [CHR 0x27] @ pack_id @ [CHR 0x27] @ '' not found in catalog'')
      | Some _ \<Rightarrow> (\<exists>row\<in>set (list_tenant_packs tenant (snd (assign_pack get_pack t tenant pack_id enabled st))). pa_pack_id row = pack_id \<and> pa_enabled row = enabled)"
  proof (cases "find (\<lambda>r. pa_tenant_id r = tenant \<and> pa_pack_id r = pack_id) (ts_packs st)")
    case None
    then show ?thesis by (auto simp: assign_pack_def list_tenant_packs_def Let_def split: option.splits)
  next
    case (Some r)
    then have "r \<in> set (ts_packs st) \<and> pa_tenant_id r = tenant \<and> pa_pack_id r = pack_id" by (auto simp: find_Some_iff)
    then show ?thesis using Some
      by (auto simp: assign_pack_def list_tenant_packs_def split: option.splits intro!: bexI [of _ "r\<lparr>pa_enabled := enabled\<rparr>"] image_eqI [of _ _ r])
  qed
qed

text \<open>
  Rows of distributed queries are never important: the query name of such an event is the id of the
  query, a UUID, in which no pattern of the severity table occurs, so every event has severity info,
  whatever table was queried.
\<close>

theorem distributed_rows_info:
  "infer_severity (uuid_str n) = ''info'' \<and> vget (normalize_row now_text row node (uuid_str n) ''distributed'') ''severity'' = VStr ''info''"
proof -
  have low: "c \<noteq> CHR ''_''" if c: "c \<in> set (lower (uuid_str n))" for c
  proof -
    obtain d where d: "d \<in> set (uuid_str n)" "c = lower_char d" using c by (auto simp: lower_def)
    then consider "d = CHR ''-''" | "d \<in> set (hexn 32 n)" using uuid_str_chars by blast
    then show ?thesis
    proof cases
      case 1
      then show ?thesis using d by (simp add: lower_char_def is_upper_def)
    next
      case 2
      then obtain k where k: "k < 16" "d = hex_digit k" using hexn_digits by blast
      have "list_all (\<lambda>k. lower_char (hex_digit k) \<noteq> CHR ''_'') [0..<16]" by code_simp
      then show ?thesis using k d by (simp add: list_all_iff)
    qed
  qed
  have "\<not> substr_in p (lower (uuid_str n))" if "CHR ''_'' \<in> set p" for p
    using that low [of "CHR ''_''"] by (auto simp: substr_in_iff)
  then have "infer_severity (uuid_str n) = ''info''"
    by (simp add: infer_severity_def HIGH_PATTERNS_def MEDIUM_PATTERNS_def)
  then show ?thesis by (simp add: normalize_row_def vget_def)
qed

end
