(* ===== verification/Osquery_Clients.thy ===== *)
theory Osquery_Clients
  imports Osquery_Allowlist Osquery_Tls
begin

text \<open>
  The clients of live queries (\<open>services/actions/app/clients/aisoc_direct_client.py\<close> and
  \<open>osctrl_client.py\<close>): enqueueing on every host, polling and the report.  The transport is a set of
  functions on a world; the direct client is then run against the TLS service of this library.
\<close>

subsection \<open>The direct client\<close>

datatype client_error = Rejected "string option" | Failed string

text \<open>\<open>Inl\<close> stands for an HTTP error, with its text.\<close>

fun enqueue_for_hosts :: "('w \<Rightarrow> string \<Rightarrow> string \<Rightarrow> (string + string) \<times> 'w) \<Rightarrow> string \<Rightarrow> string list \<Rightarrow> 'w \<Rightarrow> (string + string list) \<times> 'w" where
  "enqueue_for_hosts post sql [] w = (Inr [], w)"
| "enqueue_for_hosts post sql (host # hosts) w =
     (case post w host sql of
        (Inl e, w') \<Rightarrow> (Inl (''Failed to enqueue query for host '' @ host @ '': '' @ e), w')
      | (Inr query_id, w') \<Rightarrow>
          (case enqueue_for_hosts post sql hosts w' of
             (Inl e, w'') \<Rightarrow> (Inl e, w'')
           | (Inr ids, w'') \<Rightarrow> (Inr (query_id # ids), w'')))"

definition answered :: "dict \<Rightarrow> bool" where
  "answered data \<longleftrightarrow> vget data ''status'' = VStr ''completed'' \<or> vget data ''status'' = VStr ''error''"

text \<open>One round over the remaining queries: the results, what is done, the world.  A failing request, \<open>None\<close>, is only logged.\<close>

fun poll_round :: "('w \<Rightarrow> string \<Rightarrow> dict option \<times> 'w) \<Rightarrow> string list \<Rightarrow> (string \<times> dict) list \<Rightarrow> 'w
    \<Rightarrow> (string \<times> dict) list \<times> string list \<times> 'w" where
  "poll_round get [] results w = (results, [], w)"
| "poll_round get (q # qs) results w =
     (case get w q of
        (None, w') \<Rightarrow> poll_round get qs results w'
      | (Some data, w') \<Rightarrow>
          if answered data
          then (case poll_round get qs (dict_set q data results) w' of (r, dn, w'') \<Rightarrow> (r, q # dn, w''))
          else poll_round get qs results w')"

text \<open>
  The loop, with fuel.  The remaining ids are a set in the source; \<open>order\<close> is the order in which it is
  iterated.  \<open>None\<close>: the fuel did not suffice.
\<close>

fun poll_loop :: "('w \<Rightarrow> string \<Rightarrow> dict option \<times> 'w) \<Rightarrow> ('w \<Rightarrow> 'w) \<Rightarrow> (string list \<Rightarrow> string list) \<Rightarrow> rat \<Rightarrow> rat
    \<Rightarrow> nat \<Rightarrow> string list \<Rightarrow> (string \<times> dict) list \<Rightarrow> rat \<Rightarrow> 'w \<Rightarrow> (string list \<times> (string \<times> dict) list \<times> 'w) option" where
  "poll_loop get sleep order interval timeout 0 remaining results elapsed w = None"
| "poll_loop get sleep order interval timeout (Suc fuel) remaining results elapsed w =
     (if remaining \<noteq> [] \<and> elapsed < timeout
      then (case poll_round get (order remaining) results (sleep w) of (r, dn, w') \<Rightarrow>
              poll_loop get sleep order interval timeout fuel (filter (\<lambda>q. q \<notin> set dn) remaining) r (elapsed + interval) w')
      else Some (remaining, results, w))"

definition timeout_entry :: dict where
  "timeout_entry = [(''status'', VStr ''timeout''), (''rows'', VList []), (''error'', VStr ''timeout'')]"

definition add_timeouts :: "string list \<Rightarrow> (string \<times> dict) list \<Rightarrow> (string \<times> dict) list" where
  "add_timeouts remaining results = foldl (\<lambda>r q. dict_set q timeout_entry r) results remaining"

definition poll_results :: "('w \<Rightarrow> string \<Rightarrow> dict option \<times> 'w) \<Rightarrow> ('w \<Rightarrow> 'w) \<Rightarrow> (string list \<Rightarrow> string list) \<Rightarrow> rat \<Rightarrow> rat
    \<Rightarrow> nat \<Rightarrow> string list \<Rightarrow> 'w \<Rightarrow> ((string \<times> dict) list \<times> 'w) option" where
  "poll_results get sleep order interval timeout fuel query_ids w =
     map_option (\<lambda>(remaining, results, w'). (add_timeouts (order remaining) results, w'))
       (poll_loop get sleep order interval timeout fuel (remdups query_ids) [] 0 w)"

definition host_rows :: "string list \<Rightarrow> string list \<Rightarrow> (string \<times> dict) list \<Rightarrow> (string \<times> val) list" where
  "host_rows hosts ids results =
     foldl (\<lambda>d (host, qid). case dict_get results qid of
         Some r \<Rightarrow> dict_set host (vget_default r ''rows'' (VList [])) d | None \<Rightarrow> d) [] (zip hosts ids)"

definition first_error :: "(string \<times> dict) list \<Rightarrow> val" where
  "first_error results = (case filter (\<lambda>r. ''error'' \<in> fst ` set r) (map snd results) of [] \<Rightarrow> VNone | r # _ \<Rightarrow> vget r ''error'')"

definition direct_live_query :: "('w \<Rightarrow> string \<Rightarrow> string \<Rightarrow> (string + string) \<times> 'w) \<Rightarrow> ('w \<Rightarrow> string \<Rightarrow> dict option \<times> 'w) \<Rightarrow> ('w \<Rightarrow> 'w)
    \<Rightarrow> (string list \<Rightarrow> string list) \<Rightarrow> rat \<Rightarrow> nat \<Rightarrow> string list \<Rightarrow> string \<Rightarrow> dict \<Rightarrow> rat \<Rightarrow> 'w
    \<Rightarrow> ((client_error + (string \<times> val) list \<times> val) \<times> 'w) option" where
  "direct_live_query post get sleep order interval fuel target_hosts template params timeout w =
     (case render_query template params of
        Inl e \<Rightarrow> Some (Inl (Rejected e), w)
      | Inr sql \<Rightarrow>
          (case enqueue_for_hosts post sql target_hosts w of
             (Inl e, w') \<Rightarrow> Some (Inl (Failed e), w')
           | (Inr ids, w') \<Rightarrow>
               map_option (\<lambda>(results, w''). (Inr (host_rows target_hosts ids results, first_error results), w''))
                 (poll_results get sleep order interval timeout fuel ids w')))"

subsection \<open>What polling does, for any transport\<close>

lemma keys_add_timeouts: "fst ` set (add_timeouts qs results) = fst ` set results \<union> set qs"
  unfolding add_timeouts_def by (induction qs arbitrary: results) auto

lemma get_add_timeouts: "dict_get (add_timeouts qs results) q = (if q \<in> set qs then Some timeout_entry else dict_get results q)"
  unfolding add_timeouts_def by (induction qs arbitrary: results) auto

lemma add_timeouts_Cons: "q \<notin> set qs \<Longrightarrow> add_timeouts qs ((q, d) # results) = (q, d) # add_timeouts qs results"
  unfolding add_timeouts_def by (induction qs arbitrary: results) auto

lemma add_timeouts_values: "d \<in> snd ` set (add_timeouts qs results) \<Longrightarrow> d = timeout_entry \<or> d \<in> snd ` set results"
proof (induction qs arbitrary: results)
  case (Cons q qs)
  have "add_timeouts (q # qs) results = add_timeouts qs (dict_set q timeout_entry results)" by (simp add: add_timeouts_def)
  with Cons have "d = timeout_entry \<or> d \<in> snd ` set (dict_set q timeout_entry results)" by simp
  then show ?case using set_dict_set_sub [of q timeout_entry results] by auto
qed (simp add: add_timeouts_def)

locale query_service =
  fixes get :: "'w \<Rightarrow> string \<Rightarrow> dict option \<times> 'w"
  assumes no_error_reported: "get w q = (Some data, w') \<Longrightarrow> answered data \<Longrightarrow> dict_get data ''error'' = Some VNone"
begin

definition quiet :: "(string \<times> dict) list \<Rightarrow> bool" where
  "quiet results \<longleftrightarrow> (\<forall>(q, d)\<in>set results. dict_get d ''error'' = Some VNone)"

lemma quiet_set: "quiet results \<Longrightarrow> dict_get d ''error'' = Some VNone \<Longrightarrow> quiet (dict_set q d results)"
  using set_dict_set_sub [of q d results] by (fastforce simp: quiet_def)

lemma round_facts:
  "poll_round get qs results w = (r, dn, w') \<Longrightarrow> quiet results \<Longrightarrow>
     quiet r \<and> set dn \<subseteq> set qs \<and> fst ` set r = fst ` set results \<union> set dn"
proof (induction qs arbitrary: results w r dn w')
  case (Cons q qs)
  obtain a w1 where g: "get w q = (a, w1)" by fastforce
  show ?case
  proof (cases "\<exists>data. a = Some data \<and> answered data")
    case True
    then obtain data where d: "a = Some data" "answered data" by blast
    obtain r1 dn1 w2 where p: "poll_round get qs (dict_set q data results) w1 = (r1, dn1, w2)" by (metis prod_cases3)
    have "quiet (dict_set q data results)" using quiet_set [OF Cons.prems(2)] no_error_reported g d by blast
    from Cons.IH [OF p this] show ?thesis using Cons.prems(1) g d p by auto
  next
    case False
    then have "poll_round get qs results w1 = (r, dn, w')" using g Cons.prems(1) by (auto split: option.splits)
    from Cons.IH [OF this Cons.prems(2)] show ?thesis by auto
  qed
qed simp

lemma loop_facts:
  assumes "poll_loop get sleep order interval timeout fuel remaining results elapsed w = Some (left, final, w')"
    and "quiet results" "fst ` set results \<inter> set remaining = {}" "\<And>xs. set (order xs) = set xs"
  shows "quiet final \<and> set left \<subseteq> set remaining \<and> fst ` set final = fst ` set results \<union> (set remaining - set left)"
  using assms(1-3)
proof (induction fuel arbitrary: remaining results elapsed w)
  case (Suc fuel)
  show ?case
  proof (cases "remaining \<noteq> [] \<and> elapsed < timeout")
    case True
    obtain r dn w1 where r: "poll_round get (order remaining) results (sleep w) = (r, dn, w1)" by (metis prod_cases3)
    note f = round_facts [OF r Suc.prems(2)]
    let ?rem = "filter (\<lambda>q. q \<notin> set dn) remaining"
    have l: "poll_loop get sleep order interval timeout fuel ?rem r (elapsed + interval) w1 = Some (left, final, w')"
      using Suc.prems(1) True r by simp
    have "fst ` set r \<inter> set ?rem = {}" using f Suc.prems(3) by auto
    from Suc.IH [OF l _ this] f have "quiet final \<and> set left \<subseteq> set ?rem \<and> fst ` set final = fst ` set r \<union> (set ?rem - set left)" by blast
    moreover have "set dn \<subseteq> set remaining" using f assms(4) by auto
    ultimately show ?thesis using f by auto
  next
    case False
    then show ?thesis using Suc.prems by auto
  qed
qed simp

text \<open>The error that is reported: a timeout only if nobody answered.\<close>

lemma reported_error:
  assumes "poll_results get sleep order interval timeout fuel ids w = Some (results, w')" "\<And>xs. set (order xs) = set xs"
  shows "first_error results = (if ids \<noteq> [] \<and> (\<forall>q\<in>set ids. dict_get results q = Some timeout_entry) then VStr ''timeout'' else VNone)"
    "\<forall>q\<in>set ids. dict_get results q \<noteq> None"
proof -
  obtain left final where l: "poll_loop get sleep order interval timeout fuel (remdups ids) [] 0 w = Some (left, final, w')"
    and r: "results = add_timeouts (order left) final"
    using assms(1) by (auto simp: poll_results_def)
  have f: "quiet final" "set left \<subseteq> set ids" "fst ` set final = set ids - set left"
    using loop_facts [OF l _ _ assms(2)] by (auto simp: quiet_def)
  have got: "dict_get results q \<noteq> None" if "q \<in> set ids" for q
    using that f(3) assms(2) dict_get_None_iff [of final q] by (auto simp: r get_add_timeouts)
  then show "\<forall>q\<in>set ids. dict_get results q \<noteq> None" by blast
  have te: "''error'' \<in> fst ` set timeout_entry" "vget timeout_entry ''error'' = VStr ''timeout''" "dict_get timeout_entry ''error'' = Some (VStr ''timeout'')"
    by (simp_all add: timeout_entry_def vget_def)
  show "first_error results = (if ids \<noteq> [] \<and> (\<forall>q\<in>set ids. dict_get results q = Some timeout_entry) then VStr ''timeout'' else VNone)"
  proof (cases final)
    case Nil
    then have all: "set left = set ids" using f by auto
    then have every: "\<forall>q\<in>set ids. dict_get results q = Some timeout_entry" using assms(2) by (auto simp: r get_add_timeouts)
    show ?thesis
    proof (cases "ids = []")
      case True
      then have "order left = []" using all assms(2) [of left] by auto
      then show ?thesis using True Nil by (simp add: r add_timeouts_def first_error_def)
    next
      case False
      have only: "\<forall>d\<in>snd ` set results. d = timeout_entry" using add_timeouts_values [of _ "order left" "[]"] Nil r by auto
      have "results \<noteq> []" using False every by (cases ids) auto
      then obtain q d rest where qd: "results = (q, d) # rest" by (cases results) auto
      then have "d = timeout_entry" using only by simp
      with te(1,2) qd have "first_error results = VStr ''timeout''" by (simp add: first_error_def)
      with every False show ?thesis by simp
    qed
  next
    case (Cons p rest)
    obtain q d where p: "p = (q, d)" by (cases p)
    have d: "dict_get d ''error'' = Some VNone" using f(1) Cons p by (auto simp: quiet_def)
    have q: "q \<in> set ids" "q \<notin> set (order left)" using f(3) Cons p assms(2) by auto
    have "results = (q, d) # add_timeouts (order left) rest" using add_timeouts_Cons [OF q(2)] by (simp add: r Cons p)
    moreover have "''error'' \<in> fst ` set d" "vget d ''error'' = VNone"
      using d dict_get_None_iff [of d "''error''"] by (auto simp: vget_def dict_get_def)
    ultimately have "first_error results = VNone" by (simp add: first_error_def)
    moreover have "dict_get results q \<noteq> Some timeout_entry" using d te(3) q(2) by (auto simp: r get_add_timeouts Cons p)
    ultimately show ?thesis using q(1) by auto
  qed
qed

end


subsection \<open>The client against the service\<close>

text \<open>
  The world of a live query: the state of the service, the ids it will draw, and for each sleep of the
  client the requests that reach the service meanwhile.
\<close>

record live_world =
  lw_state :: tls_state
  lw_id :: "nat \<Rightarrow> string"
  lw_next :: nat
  lw_later :: "tls_request list list"

definition tls_post :: "live_world \<Rightarrow> string \<Rightarrow> string \<Rightarrow> (string + string) \<times> live_world" where
  "tls_post w host sql =
     (case distributed_enqueue (lw_id w (lw_next w)) host sql ''default'' (lw_state w) of
        (Inl e, st) \<Rightarrow> (Inl (snd e), w\<lparr>lw_state := st, lw_next := Suc (lw_next w)\<rparr>)
      | (Inr query_id, st) \<Rightarrow> (Inr query_id, w\<lparr>lw_state := st, lw_next := Suc (lw_next w)\<rparr>))"

text \<open>The JSON of a status response; FastAPI writes the unset fields as null.\<close>

definition status_data :: "string \<times> string \<times> dict list option \<Rightarrow> dict" where
  "status_data = (\<lambda>(query_id, status, rows). [(''query_id'', VStr query_id), (''status'', VStr status),
     (''rows'', case rows of None \<Rightarrow> VNone | Some rs \<Rightarrow> VList (map VDict rs)), (''error'', VNone)])"

definition tls_get :: "live_world \<Rightarrow> string \<Rightarrow> dict option \<times> live_world" where
  "tls_get w query_id = (case distributed_status query_id (lw_state w) of Inl _ \<Rightarrow> None | Inr s \<Rightarrow> Some (status_data s), w)"

definition tls_sleep :: "(string \<Rightarrow> osquery_pack option) \<Rightarrow> tls_settings \<Rightarrow> live_world \<Rightarrow> live_world" where
  "tls_sleep get_pack cfg w =
     (case lw_later w of
        [] \<Rightarrow> w
      | rs # later \<Rightarrow> w\<lparr>lw_state := tls_run get_pack cfg (lw_state w) rs, lw_later := later\<rparr>)"

interpretation tls: query_service tls_get
  by unfold_locales (auto simp: tls_get_def status_data_def split: sum.splits)

definition done_in :: "tls_state \<Rightarrow> string \<Rightarrow> bool" where
  "done_in st q = (case get_query_by_id st q of None \<Rightarrow> False | Some r \<Rightarrow> dq_status r = ''completed'')"

lemma query_status_cases:
  assumes "tls_inv st"
  shows "case get_query_by_id st q of
      None \<Rightarrow> \<not> done_in st q \<and> (\<exists>e. distributed_status q st = Inl e)
    | Some r \<Rightarrow> (done_in st q \<and> (\<exists>rs. distributed_status q st = Inr (q, ''completed'', Some rs)))
        \<or> (\<not> done_in st q \<and> distributed_status q st = Inr (q, ''pending'', None))"
proof (cases "get_query_by_id st q")
  case (Some r)
  then have "r \<in> set (ts_queries st)" "dq_query_id r = q" by (auto simp: get_query_by_id_def find_Some_iff)
  moreover have "query_ok r" using assms calculation(1) by (simp add: tls_inv_def queries_ok_def)
  ultimately show ?thesis using Some by (auto simp: query_ok_def done_in_def distributed_status_def)
qed (simp add: done_in_def distributed_status_def)

lemma tls_get_answered:
  assumes "tls_inv (lw_state w)"
  shows "case tls_get w q of (None, w') \<Rightarrow> w' = w \<and> \<not> done_in (lw_state w) q | (Some d, w') \<Rightarrow> w' = w \<and> (answered d \<longleftrightarrow> done_in (lw_state w) q)"
  using query_status_cases [OF assms, of q]
  by (auto simp: tls_get_def answered_def status_data_def vget_def split: option.splits)

lemma tls_round:
  assumes "tls_inv (lw_state w)"
  shows "poll_round tls_get qs results w =
    (foldl (\<lambda>r q. dict_set q (the (fst (tls_get w q))) r) results (filter (done_in (lw_state w)) qs), filter (done_in (lw_state w)) qs, w)"
proof (induction qs arbitrary: results)
  case (Cons q qs)
  show ?case using tls_get_answered [OF assms, of q] Cons by (auto split: prod.splits option.splits)
qed simp

lemma sleep_inv: "tls_inv (lw_state w) \<Longrightarrow> tls_inv (lw_state (tls_sleep get_pack cfg w))"
  by (auto simp: tls_sleep_def tls_run_inv split: list.splits)

lemma sleeps_inv: "tls_inv (lw_state w) \<Longrightarrow> tls_inv (lw_state ((tls_sleep get_pack cfg ^^ k) w))"
  by (induction k) (auto simp: sleep_inv)

lemma done_stays: "done_in st q \<Longrightarrow> done_in (tls_run get_pack cfg st rs) q"
proof -
  assume "done_in st q"
  then obtain r where r: "get_query_by_id st q = Some r" "dq_status r = ''completed''" by (auto simp: done_in_def split: option.splits)
  from run_settled [OF r(1), of get_pack cfg rs] r(2) show ?thesis by (auto simp: done_in_def settled_def split: option.splits)
qed

lemma done_sleep: "done_in (lw_state w) q \<Longrightarrow> done_in (lw_state (tls_sleep get_pack cfg w)) q"
  by (auto simp: tls_sleep_def done_stays split: list.splits)

lemma done_sleeps: "done_in (lw_state w) q \<Longrightarrow> done_in (lw_state ((tls_sleep get_pack cfg ^^ k) w)) q"
  by (induction k) (auto simp: done_sleep)

lemma fold_get: "dict_get (foldl (\<lambda>r q. dict_set q (f q) r) results qs) q = (if q \<in> set qs then Some (f q) else dict_get results q)"
  by (induction qs arbitrary: results) auto


text \<open>The loop ends within the fuel, and what it leaves and finds is read off the states of the service.\<close>

lemma loop_total:
  fixes interval timeout elapsed :: rat
  assumes "0 < interval" "\<And>xs. set (order xs) = set xs" "nat \<lceil>(timeout - elapsed) / interval\<rceil> < fuel"
    "tls_inv (lw_state w)" "\<forall>q\<in>set remaining. \<not> done_in (lw_state w) q"
  shows "\<exists>left final k. poll_loop tls_get (tls_sleep get_pack cfg) order interval timeout fuel remaining results elapsed w
       = Some (left, final, (tls_sleep get_pack cfg ^^ k) w)
     \<and> set left = {q \<in> set remaining. \<not> done_in (lw_state ((tls_sleep get_pack cfg ^^ k) w)) q}
     \<and> (left = [] \<or> timeout \<le> elapsed + of_nat k * interval)
     \<and> (\<forall>q. q \<in> set remaining \<and> q \<notin> set left \<longrightarrow> (\<exists>j\<le>k. done_in (lw_state ((tls_sleep get_pack cfg ^^ j) w)) q
           \<and> dict_get final q = fst (tls_get ((tls_sleep get_pack cfg ^^ j) w) q)))
     \<and> (\<forall>q. q \<notin> set remaining \<longrightarrow> dict_get final q = dict_get results q)"
  using assms(3-5)
proof (induction fuel arbitrary: remaining results elapsed w)
  case (Suc fuel)
  let ?sl = "tls_sleep get_pack cfg"
  show ?case
  proof (cases "remaining \<noteq> [] \<and> elapsed < timeout")
    case False
    then have "poll_loop tls_get ?sl order interval timeout (Suc fuel) remaining results elapsed w = Some (remaining, results, (?sl ^^ 0) w)" by auto
    moreover have "set remaining = {q \<in> set remaining. \<not> done_in (lw_state ((?sl ^^ 0) w)) q}" using Suc.prems(3) by auto
    moreover have "remaining = [] \<or> timeout \<le> elapsed + of_nat 0 * interval" using False by auto
    ultimately show ?thesis by blast
  next
    case True
    define w1 where "w1 = ?sl w"
    have inv1: "tls_inv (lw_state w1)" unfolding w1_def by (rule sleep_inv) (rule Suc.prems(2))
    define dn where "dn = filter (done_in (lw_state w1)) (order remaining)"
    define r where "r = foldl (\<lambda>r q. dict_set q (the (fst (tls_get w1 q))) r) results dn"
    define rem where "rem = filter (\<lambda>q. q \<notin> set dn) remaining"
    have set_dn: "set dn = {q \<in> set remaining. done_in (lw_state w1) q}" using assms(2) by (auto simp: dn_def)
    have step: "poll_loop tls_get ?sl order interval timeout (Suc fuel) remaining results elapsed w
        = poll_loop tls_get ?sl order interval timeout fuel rem r (elapsed + interval) w1"
      using True by (simp add: tls_round [OF inv1, folded w1_def] w1_def [symmetric] dn_def r_def rem_def)
    have "0 < \<lceil>(timeout - elapsed) / interval\<rceil>" using True assms(1) by simp
    moreover have "(timeout - (elapsed + interval)) / interval = (timeout - elapsed) / interval - 1"
      using assms(1) by (simp add: field_simps)
    ultimately have fuel: "nat \<lceil>(timeout - (elapsed + interval)) / interval\<rceil> < fuel" using Suc.prems(1) by simp linarith
    have "\<forall>q\<in>set rem. \<not> done_in (lw_state w1) q" using set_dn by (auto simp: rem_def)
    from Suc.IH [OF fuel inv1 this, of r] obtain left final k where l:
      "poll_loop tls_get ?sl order interval timeout fuel rem r (elapsed + interval) w1 = Some (left, final, (?sl ^^ k) w1)"
      "set left = {q \<in> set rem. \<not> done_in (lw_state ((?sl ^^ k) w1)) q}"
      "left = [] \<or> timeout \<le> elapsed + interval + of_nat k * interval"
      "\<And>q. q \<in> set rem \<Longrightarrow> q \<notin> set left \<Longrightarrow> \<exists>j\<le>k. done_in (lw_state ((?sl ^^ j) w1)) q \<and> dict_get final q = fst (tls_get ((?sl ^^ j) w1) q)"
      "\<And>q. q \<notin> set rem \<Longrightarrow> dict_get final q = dict_get r q" by blast
    have pow: "(?sl ^^ j) w1 = (?sl ^^ Suc j) w" for j by (simp add: w1_def funpow_swap1)
    have c1: "poll_loop tls_get ?sl order interval timeout (Suc fuel) remaining results elapsed w = Some (left, final, (?sl ^^ Suc k) w)"
      using step l(1) pow by simp
    have "done_in (lw_state ((?sl ^^ Suc k) w)) q" if "q \<in> set dn" for q
      using that set_dn done_sleeps [of w1 q k get_pack cfg] pow by auto
    then have c2: "set left = {q \<in> set remaining. \<not> done_in (lw_state ((?sl ^^ Suc k) w)) q}"
      using l(2) pow by (auto simp: rem_def)
    have c3: "left = [] \<or> timeout \<le> elapsed + of_nat (Suc k) * interval" using l(3) by (simp add: algebra_simps)
    have c4: "\<exists>j\<le>Suc k. done_in (lw_state ((?sl ^^ j) w)) q \<and> dict_get final q = fst (tls_get ((?sl ^^ j) w) q)"
      if q: "q \<in> set remaining" "q \<notin> set left" for q
    proof (cases "q \<in> set dn")
      case True
      then have "dict_get final q = Some (the (fst (tls_get w1 q)))" using l(5) [of q] by (simp add: rem_def r_def fold_get)
      moreover have "fst (tls_get w1 q) \<noteq> None" using tls_get_answered [OF inv1, of q] True set_dn by (auto split: prod.splits option.splits)
      ultimately have "dict_get final q = fst (tls_get ((?sl ^^ 1) w) q)" by (auto simp: w1_def)
      moreover have "done_in (lw_state ((?sl ^^ 1) w)) q" using True set_dn by (simp add: w1_def)
      ultimately show ?thesis by (intro exI [of _ 1]) simp
    next
      case False
      then obtain j where "j \<le> k" "done_in (lw_state ((?sl ^^ j) w1)) q" "dict_get final q = fst (tls_get ((?sl ^^ j) w1) q)"
        using l(4) [of q] q by (auto simp: rem_def)
      then show ?thesis using pow by (intro exI [of _ "Suc j"]) simp
    qed
    have c5: "dict_get final q = dict_get results q" if "q \<notin> set remaining" for q
      using l(5) [of q] that set_dn by (simp add: rem_def r_def fold_get)
    from c1 c2 c3 c4 c5 show ?thesis by blast
  qed
qed simp

text \<open>What enqueueing leaves behind: fresh, pending queries.\<close>

lemma distributed_enqueue_InrD:
  assumes "distributed_enqueue fresh host sql tenant st = (Inr q, st')"
  shows "q = fresh" "\<forall>r\<in>set (ts_queries st). dq_query_id r \<noteq> q"
    "\<exists>n. ts_queries st' = ts_queries st @ [\<lparr>dq_node_id = n, dq_query_id = q, dq_query_text = sql,
         dq_status = ''pending'', dq_completed_at = None, dq_results_json = None\<rparr>]"
  using assms by (auto simp: distributed_enqueue_def enqueue_query_def split: option.splits if_splits)

lemma enqueue_hosts_facts:
  assumes "enqueue_for_hosts tls_post sql hosts w = (Inr ids, w')" "tls_inv (lw_state w)"
  shows "length ids = length hosts \<and> distinct ids \<and> tls_inv (lw_state w')
    \<and> (\<forall>q\<in>set ids. get_query_by_id (lw_state w) q = None \<and> get_query_by_id (lw_state w') q \<noteq> None \<and> \<not> done_in (lw_state w') q)
    \<and> (\<forall>q r. get_query_by_id (lw_state w) q = Some r \<longrightarrow> get_query_by_id (lw_state w') q = Some r)"
  using assms
proof (induction hosts arbitrary: w ids)
  case (Cons host hosts)
  obtain q w1 ids1 where p: "tls_post w host sql = (Inr q, w1)" "enqueue_for_hosts tls_post sql hosts w1 = (Inr ids1, w')" "ids = q # ids1"
    using Cons.prems(1) by (auto split: prod.splits sum.splits)
  have e: "distributed_enqueue (lw_id w (lw_next w)) host sql ''default'' (lw_state w) = (Inr q, lw_state w1)"
    using p(1) by (auto simp: tls_post_def split: prod.splits sum.splits)
  then have inv1: "tls_inv (lw_state w1)" using enqueue_ok [OF _ _ e] Cons.prems(2) by (auto simp: tls_inv_def packs_ok_def)
  have keep: "get_query_by_id (lw_state w1) i = Some r" if "get_query_by_id (lw_state w) i = Some r" for i r
    using enqueue_get [OF that, of "lw_id w (lw_next w)" host sql "''default''"] e by simp
  have new: "get_query_by_id (lw_state w) q = None" "\<exists>r. get_query_by_id (lw_state w1) q = Some r \<and> dq_status r = ''pending''"
  proof -
    note none = distributed_enqueue_InrD(2) [OF e] and st = distributed_enqueue_InrD(3) [OF e]
    show "get_query_by_id (lw_state w) q = None" using none by (simp add: get_query_by_id_def find_None_iff)
    have "find (\<lambda>r. dq_query_id r = q) (xs @ [x]) = Some x" if "\<forall>r\<in>set xs. dq_query_id r \<noteq> q" "dq_query_id x = q" for xs and x :: osq_query
      using that by (induction xs) auto
    then show "\<exists>r. get_query_by_id (lw_state w1) q = Some r \<and> dq_status r = ''pending''"
      using none st by (auto simp: get_query_by_id_def)
  qed
  note ih = Cons.IH [OF p(2) inv1]
  have "q \<notin> set ids1" using ih new(2) by auto
  moreover have "get_query_by_id (lw_state w) i = None" if "i \<in> set ids1" for i
    using ih keep that by (metis not_Some_eq option.distinct(1))
  moreover have "\<exists>r. get_query_by_id (lw_state w') q = Some r \<and> dq_status r = ''pending''" using ih new(2) by blast
  ultimately show ?case using ih keep new(1) p(3) by (auto simp: done_in_def)
qed simp


lemma host_rows_get:
  assumes "distinct hosts" "length ids = length hosts" "\<forall>q\<in>set ids. dict_get results q \<noteq> None" "h < length hosts"
  shows "dict_get (host_rows hosts ids results) (hosts ! h) = Some (vget_default (the (dict_get results (ids ! h))) ''rows'' (VList []))"
proof -
  let ?f = "\<lambda>q. vget_default (the (dict_get results q)) ''rows'' (VList [])"
  have "foldl (\<lambda>d (host, qid). case dict_get results qid of Some r \<Rightarrow> dict_set host (vget_default r ''rows'' (VList [])) d | None \<Rightarrow> d) d zs
      = dict_update d (map (\<lambda>(h, q). (h, ?f q)) zs)" if "\<forall>z\<in>set zs. dict_get results (snd z) \<noteq> None" for d zs
    using that by (induction zs arbitrary: d) (auto simp: dict_update_def split: option.splits)
  moreover have "\<forall>z\<in>set (zip hosts ids). dict_get results (snd z) \<noteq> None" using assms(3) by (auto dest: set_zip_rightD)
  ultimately have "host_rows hosts ids results = dict_update [] (zip hosts (map ?f ids))"
    by (simp add: host_rows_def zip_map2)
  moreover have "distinct (map fst (zip hosts (map ?f ids)))" using assms(1,2) by simp
  ultimately have "dict_get (host_rows hosts ids results) (hosts ! h) = map_of (zip hosts (map ?f ids)) (hosts ! h)"
    using dict_update_distinct by simp
  also have "\<dots> = Some (map ?f ids ! h)" by (rule map_of_zip_nth) (use assms in auto)
  finally show ?thesis using assms(2,4) by simp
qed

lemma answered_rows:
  assumes "tls_inv (lw_state w)" "done_in (lw_state w) q" "fst (tls_get w q) = Some d"
  shows "\<exists>rs. distributed_status q (lw_state w) = Inr (q, ''completed'', Some rs) \<and> vget_default d ''rows'' (VList []) = VList (map VDict rs) \<and> d \<noteq> timeout_entry"
  using query_status_cases [OF assms(1), of q] assms(2,3)
  by (auto simp: tls_get_def status_data_def vget_default_def timeout_entry_def split: option.splits)

text \<open>The outcome of polling, query by query.\<close>

lemma poll_outcome:
  fixes interval timeout :: rat
  assumes "tls_inv (lw_state w1)" "\<forall>q\<in>set ids. \<not> done_in (lw_state w1) q"
    "0 < interval" "nat \<lceil>timeout / interval\<rceil> < fuel" "\<And>xs. set (order xs) = set xs"
  shows "\<exists>k results. poll_results tls_get (tls_sleep get_pack cfg) order interval timeout fuel ids w1 = Some (results, (tls_sleep get_pack cfg ^^ k) w1)
      \<and> (\<forall>q\<in>set ids. if done_in (lw_state ((tls_sleep get_pack cfg ^^ k) w1)) q
           then (\<exists>j\<le>k. \<exists>rs d. distributed_status q (lw_state ((tls_sleep get_pack cfg ^^ j) w1)) = Inr (q, ''completed'', Some rs)
              \<and> dict_get results q = Some d \<and> vget_default d ''rows'' (VList []) = VList (map VDict rs) \<and> d \<noteq> timeout_entry)
           else dict_get results q = Some timeout_entry \<and> timeout \<le> of_nat k * interval)"
proof -
  let ?sl = "tls_sleep get_pack cfg"
  have fuel: "nat \<lceil>(timeout - 0) / interval\<rceil> < fuel" using assms(4) by simp
  have "\<forall>q\<in>set (remdups ids). \<not> done_in (lw_state w1) q" using assms(2) by simp
  from loop_total [OF assms(3,5) fuel assms(1) this, of get_pack cfg "[]"] obtain left final k where l:
    "poll_loop tls_get ?sl order interval timeout fuel (remdups ids) [] 0 w1 = Some (left, final, (?sl ^^ k) w1)"
    "set left = {q \<in> set ids. \<not> done_in (lw_state ((?sl ^^ k) w1)) q}" "left = [] \<or> timeout \<le> of_nat k * interval"
    "\<And>q. q \<in> set ids \<Longrightarrow> q \<notin> set left \<Longrightarrow> \<exists>j\<le>k. done_in (lw_state ((?sl ^^ j) w1)) q \<and> dict_get final q = fst (tls_get ((?sl ^^ j) w1) q)"
    by auto
  define results where "results = add_timeouts (order left) final"
  have poll: "poll_results tls_get ?sl order interval timeout fuel ids w1 = Some (results, (?sl ^^ k) w1)"
    using l(1) by (simp add: poll_results_def results_def)
  note some = tls.reported_error(2) [OF poll assms(5)]
  have "\<exists>j\<le>k. \<exists>rs d. distributed_status q (lw_state ((?sl ^^ j) w1)) = Inr (q, ''completed'', Some rs) \<and> dict_get results q = Some d
      \<and> vget_default d ''rows'' (VList []) = VList (map VDict rs) \<and> d \<noteq> timeout_entry"
    if q: "q \<in> set ids" "done_in (lw_state ((?sl ^^ k) w1)) q" for q
  proof -
    have "q \<notin> set left" using l(2) q(2) by simp
    then obtain j where j: "j \<le> k" "done_in (lw_state ((?sl ^^ j) w1)) q" "dict_get results q = fst (tls_get ((?sl ^^ j) w1) q)"
      using l(4) [OF q(1)] assms(5) by (auto simp: results_def get_add_timeouts)
    have inv: "tls_inv (lw_state ((?sl ^^ j) w1))" by (rule sleeps_inv) (rule assms(1))
    obtain d where d: "dict_get results q = Some d" using some q(1) by blast
    with j(3) have "fst (tls_get ((?sl ^^ j) w1) q) = Some d" by simp
    from answered_rows [OF inv j(2) this] j(1) d show ?thesis by blast
  qed
  moreover have "dict_get results q = Some timeout_entry \<and> timeout \<le> of_nat k * interval"
    if "q \<in> set ids" "\<not> done_in (lw_state ((?sl ^^ k) w1)) q" for q
    using that l(2,3) assms(5) by (auto simp: results_def get_add_timeouts)
  ultimately have "\<forall>q\<in>set ids. if done_in (lw_state ((?sl ^^ k) w1)) q
           then (\<exists>j\<le>k. \<exists>rs d. distributed_status q (lw_state ((?sl ^^ j) w1)) = Inr (q, ''completed'', Some rs)
              \<and> dict_get results q = Some d \<and> vget_default d ''rows'' (VList []) = VList (map VDict rs) \<and> d \<noteq> timeout_entry)
           else dict_get results q = Some timeout_entry \<and> timeout \<le> of_nat k * interval" by simp
  with poll show ?thesis by blast
qed

subsection \<open>Properties\<close>

text \<open>
  C12.  A live query against the TLS service, once its queries are enqueued on distinct hosts: the client
  returns, whatever requests reach the service while it sleeps.  A host whose query is completed by the end
  is reported with the rows that the service held for that query after one of the sleeps; a host that has
  not answered by the time limit is reported with no rows, like a host that answered with none; and
  the error is a timeout only if no host at all answered, so that a single answer hides every timeout.
\<close>

theorem live_query_report:
  fixes interval timeout :: rat
  assumes "tls_inv (lw_state w)" "render_query template params = Inr sql" "enqueue_for_hosts tls_post sql hosts w = (Inr ids, w1)"
    "distinct hosts" "0 < interval" "nat \<lceil>timeout / interval\<rceil> < fuel" "\<And>xs. set (order xs) = set xs"
  shows "\<exists>k rows err. direct_live_query tls_post tls_get (tls_sleep get_pack cfg) order interval fuel hosts template params timeout w
        = Some (Inr (rows, err), (tls_sleep get_pack cfg ^^ k) w1)
      \<and> (\<forall>h<length hosts. if done_in (lw_state ((tls_sleep get_pack cfg ^^ k) w1)) (ids ! h)
           then (\<exists>j\<le>k. \<exists>rs. distributed_status (ids ! h) (lw_state ((tls_sleep get_pack cfg ^^ j) w1)) = Inr (ids ! h, ''completed'', Some rs)
                  \<and> dict_get rows (hosts ! h) = Some (VList (map VDict rs)))
           else dict_get rows (hosts ! h) = Some (VList []) \<and> timeout \<le> of_nat k * interval)
      \<and> err = (if hosts \<noteq> [] \<and> (\<forall>h<length hosts. \<not> done_in (lw_state ((tls_sleep get_pack cfg ^^ k) w1)) (ids ! h))
           then VStr ''timeout'' else VNone)"
proof -
  let ?sl = "tls_sleep get_pack cfg"
  have ids: "length ids = length hosts" "tls_inv (lw_state w1)" "\<forall>q\<in>set ids. \<not> done_in (lw_state w1) q"
    using enqueue_hosts_facts [OF assms(3,1)] by auto
  from poll_outcome [OF ids(2,3) assms(5-7), of get_pack cfg] obtain k results where
    poll: "poll_results tls_get ?sl order interval timeout fuel ids w1 = Some (results, (?sl ^^ k) w1)"
    and each: "\<And>q. q \<in> set ids \<Longrightarrow> if done_in (lw_state ((?sl ^^ k) w1)) q
           then (\<exists>j\<le>k. \<exists>rs d. distributed_status q (lw_state ((?sl ^^ j) w1)) = Inr (q, ''completed'', Some rs)
              \<and> dict_get results q = Some d \<and> vget_default d ''rows'' (VList []) = VList (map VDict rs) \<and> d \<noteq> timeout_entry)
           else dict_get results q = Some timeout_entry \<and> timeout \<le> of_nat k * interval" by blast
  note err = tls.reported_error [OF poll assms(7)]
  let ?st = "lw_state ((?sl ^^ k) w1)"
  have run: "direct_live_query tls_post tls_get ?sl order interval fuel hosts template params timeout w
      = Some (Inr (host_rows hosts ids results, first_error results), (?sl ^^ k) w1)"
    using assms(2,3) poll by (simp add: direct_live_query_def)
  have host: "if done_in ?st (ids ! h)
           then (\<exists>j\<le>k. \<exists>rs. distributed_status (ids ! h) (lw_state ((?sl ^^ j) w1)) = Inr (ids ! h, ''completed'', Some rs)
                  \<and> dict_get (host_rows hosts ids results) (hosts ! h) = Some (VList (map VDict rs)))
           else dict_get (host_rows hosts ids results) (hosts ! h) = Some (VList []) \<and> timeout \<le> of_nat k * interval" if h: "h < length hosts" for h
    using each [of "ids ! h"] host_rows_get [OF assms(4) ids(1) err(2) h] h ids(1)
    by (fastforce simp: timeout_entry_def vget_default_def split: if_splits)
  have "dict_get results q = Some timeout_entry \<longleftrightarrow> \<not> done_in ?st q" if "q \<in> set ids" for q
    using each [OF that] by (auto split: if_splits)
  then have "(\<forall>q\<in>set ids. dict_get results q = Some timeout_entry) \<longleftrightarrow> (\<forall>h<length hosts. \<not> done_in ?st (ids ! h))"
    using ids(1) by (simp add: all_set_conv_all_nth)
  moreover have "ids \<noteq> [] \<longleftrightarrow> hosts \<noteq> []" using ids(1) by auto
  ultimately have "first_error results = (if hosts \<noteq> [] \<and> (\<forall>h<length hosts. \<not> done_in ?st (ids ! h)) then VStr ''timeout'' else VNone)"
    using err(1) by simp
  with run host show ?thesis by blast
qed


definition demo_world :: live_world where
  "demo_world = \<lparr>lw_state = tls_run (\<lambda>_. None) demo_cfg empty_tls
       [Enroll ''ka'' 0 None ''s'' ''web-1'' VNone, Enroll ''kb'' 0 None ''s'' ''web-2'' VNone],
     lw_id = (\<lambda>n. if n = 0 then ''q1'' else ''q2''), lw_next = 0,
     lw_later = [[Write 5 ''t'' (VStr ''ka'') [] [(''q1'', [[(''user'', VStr ''root'')]])] []]]\<rparr>"

definition demo_enqueued :: live_world where
  "demo_enqueued = snd (enqueue_for_hosts tls_post (default_text ''logged_in_users'') [''web-1'', ''web-2''] demo_world)"

lemma demo_enqueued: "enqueue_for_hosts tls_post (default_text ''logged_in_users'') [''web-1'', ''web-2''] demo_world = (Inr [''q1'', ''q2''], demo_enqueued)"
proof -
  have "fst (enqueue_for_hosts tls_post (default_text ''logged_in_users'') [''web-1'', ''web-2''] demo_world) = Inr [''q1'', ''q2'']" by code_simp
  then show ?thesis by (simp add: demo_enqueued_def prod_eq_iff)
qed

lemma demo_facts:
  "done_in (lw_state (tls_sleep (\<lambda>_. None) demo_cfg demo_enqueued)) ''q1''"
  "\<not> done_in (lw_state (tls_sleep (\<lambda>_. None) demo_cfg demo_enqueued)) ''q2''"
  "\<not> done_in (lw_state demo_enqueued) ''q2''"
  "lw_later (tls_sleep (\<lambda>_. None) demo_cfg demo_enqueued) = []"
  by code_simp+

lemma demo_sleeps: "(tls_sleep (\<lambda>_. None) demo_cfg ^^ Suc k) demo_enqueued = tls_sleep (\<lambda>_. None) demo_cfg demo_enqueued"
proof (induction k)
  case (Suc k)
  have "tls_sleep (\<lambda>_. None) demo_cfg (tls_sleep (\<lambda>_. None) demo_cfg demo_enqueued) = tls_sleep (\<lambda>_. None) demo_cfg demo_enqueued"
    using demo_facts(4) by (simp add: tls_sleep_def)
  with Suc show ?case by simp
qed simp

lemma demo_rendered: "render_query ''logged_in_users'' [] = Inr (default_text ''logged_in_users'')"
  by code_simp

lemma live_query_report_witness:
  "\<exists>rows w'. direct_live_query tls_post tls_get (tls_sleep (\<lambda>_. None) demo_cfg) id 3 3 [''web-1'', ''web-2''] ''logged_in_users'' [] 6 demo_world
       = Some (Inr (rows, VNone), w') \<and> dict_get rows ''web-2'' = Some (VList [])"
proof -
  have inv: "tls_inv (lw_state demo_world)" unfolding demo_world_def by simp (rule tls_run_inv, rule empty_inv)
  have fuel: "nat \<lceil>(6::rat) / 3\<rceil> < 3" by simp
  let ?sl = "tls_sleep (\<lambda>_. None) demo_cfg"
  let ?hs = "[''web-1'', ''web-2'']" let ?ids = "[''q1'', ''q2'']"
  have small: "distinct ?hs" "(0::rat) < 3" by simp_all
  obtain k rows err where t:
    "direct_live_query tls_post tls_get ?sl id 3 3 ?hs ''logged_in_users'' [] 6 demo_world = Some (Inr (rows, err), (?sl ^^ k) demo_enqueued)
      \<and> (\<forall>h<length ?hs. if done_in (lw_state ((?sl ^^ k) demo_enqueued)) (?ids ! h)
           then (\<exists>j\<le>k. \<exists>rs. distributed_status (?ids ! h) (lw_state ((?sl ^^ j) demo_enqueued)) = Inr (?ids ! h, ''completed'', Some rs)
                  \<and> dict_get rows (?hs ! h) = Some (VList (map VDict rs)))
           else dict_get rows (?hs ! h) = Some (VList []) \<and> (6::rat) \<le> of_nat k * 3)
      \<and> err = (if ?hs \<noteq> [] \<and> (\<forall>h<length ?hs. \<not> done_in (lw_state ((?sl ^^ k) demo_enqueued)) (?ids ! h))
           then VStr ''timeout'' else VNone)"
    using live_query_report [OF inv demo_rendered demo_enqueued small fuel, of id "\<lambda>_. None" demo_cfg] by auto
  then have l: "direct_live_query tls_post tls_get ?sl id 3 3 ?hs ''logged_in_users'' [] 6 demo_world = Some (Inr (rows, err), (?sl ^^ k) demo_enqueued)"
    and each: "h < length ?hs \<Longrightarrow> \<not> done_in (lw_state ((?sl ^^ k) demo_enqueued)) (?ids ! h) \<Longrightarrow>
        dict_get rows (?hs ! h) = Some (VList []) \<and> (6::rat) \<le> of_nat k * 3"
    and err: "done_in (lw_state ((?sl ^^ k) demo_enqueued)) (?ids ! 0) \<Longrightarrow> err = VNone" for h
    by (auto split: if_splits)
  have "\<not> done_in (lw_state ((?sl ^^ k) demo_enqueued)) ''q2''" using demo_facts(2,3) demo_sleeps by (cases k) auto
  with each [of 1] have late: "dict_get rows ''web-2'' = Some (VList [])" "(6::rat) \<le> of_nat k * 3" by simp_all
  then obtain k' where "k = Suc k'" by (cases k) auto
  then have "done_in (lw_state ((?sl ^^ k) demo_enqueued)) (?ids ! 0)" using demo_facts(1) demo_sleeps by simp
  then have "err = VNone" by (rule err)
  with l late(1) show ?thesis by blast
qed

end
