(* ===== verification/Osquery_Polling.thy ===== *)
theory Osquery_Polling
  imports Osquery_Allowlist
begin

text \<open>
  The clients of the two external fleet managers (\<open>services/actions/app/clients/osctrl_client.py\<close> and
  \<open>fleetdm_client.py\<close>): submitting a query, polling for its results, cancelling.  The world of the other
  side is a type; the clock, a request and a sleep are functions on it.  A response is its status code
  with its JSON body, \<open>None\<close> an exception of the network.
\<close>

subsection \<open>Collecting rows\<close>

text \<open>
  An error: a bad status code, a response without what it must hold, or an exception of another class,
  as the network and values of the wrong type raise it.
\<close>

datatype poll_error = Not_Allowed "string option" | Bad_Status nat | No_Token | No_Id | Crash

text \<open>What \<open>list.extend\<close> adds, and what a loop iterates over; \<open>None\<close> is the TypeError.\<close>

definition iterate :: "val \<Rightarrow> val list option" where
  "iterate v = (case v of VList xs \<Rightarrow> Some xs | VStr s \<Rightarrow> Some (map (\<lambda>c. VStr [c]) s)
     | VDict d \<Rightarrow> Some (map (\<lambda>(k, _). VStr k) d) | _ \<Rightarrow> None)"

definition add_rows :: "val \<Rightarrow> val list \<Rightarrow> (val \<times> val list) list \<Rightarrow> (val \<times> val list) list" where
  "add_rows node rows results = dict_set node ((case dict_get results node of None \<Rightarrow> [] | Some old \<Rightarrow> old) @ rows) results"

text \<open>The loop over the items of a response, given how an item names its node and its rows.\<close>

fun absorb :: "(dict \<Rightarrow> val option) \<Rightarrow> (dict \<Rightarrow> val) \<Rightarrow> val list \<Rightarrow> (val \<times> val list) list \<Rightarrow> (val \<times> val list) list option" where
  "absorb node_of rows_of [] results = Some results"
| "absorb node_of rows_of (item # items) results =
     (case item of
        VDict d \<Rightarrow>
          (case (node_of d, iterate (rows_of d)) of
             (Some node, Some rows) \<Rightarrow> if hashable node then absorb node_of rows_of items (add_rows node rows results) else None
           | _ \<Rightarrow> None)
      | _ \<Rightarrow> None)"

definition missing_hosts :: "string list \<Rightarrow> (val \<times> val list) list \<Rightarrow> string list" where
  "missing_hosts expected results = filter (\<lambda>h. VStr h \<notin> fst ` set results) expected"

subsection \<open>osctrl\<close>

definition osctrl_node :: "dict \<Rightarrow> val option" where
  "osctrl_node item = Some (py_or (py_or (vget item ''node'') (vget item ''hostname'')) (vget_default item ''uuid'' (VStr ''unknown'')))"

definition osctrl_rows :: "dict \<Rightarrow> val" where
  "osctrl_rows item = py_or (py_or (vget item ''rows'') (vget item ''data'')) (VList [])"

definition osctrl_items :: "val \<Rightarrow> val list option" where
  "osctrl_items data = (case data of VList xs \<Rightarrow> Some xs | VDict d \<Rightarrow> iterate (vget_default d ''results'' (VList [])) | _ \<Rightarrow> None)"

text \<open>The polling loop, with fuel: the results and whether they are partial.\<close>

fun osctrl_loop :: "('w \<Rightarrow> rat) \<Rightarrow> ('w \<Rightarrow> (nat \<times> val) option \<times> 'w) \<Rightarrow> (rat \<Rightarrow> 'w \<Rightarrow> 'w) \<Rightarrow> rat \<Rightarrow> rat \<Rightarrow> string list
    \<Rightarrow> nat \<Rightarrow> (val \<times> val list) list \<Rightarrow> 'w \<Rightarrow> ((poll_error + (val \<times> val list) list \<times> bool) \<times> 'w) option" where
  "osctrl_loop clock get sleep interval deadline expected 0 results w = None"
| "osctrl_loop clock get sleep interval deadline expected (Suc fuel) results w =
     (let remaining = deadline - clock w in
      if remaining \<le> 0 then Some (Inr (results, True), w)
      else case get w of
        (None, w') \<Rightarrow> Some (Inl Crash, w')
      | (Some (code, data), w') \<Rightarrow>
        if code = 404 then osctrl_loop clock get sleep interval deadline expected fuel results (sleep (min interval remaining) w')
        else if code \<noteq> 200 then Some (Inl (Bad_Status code), w')
        else case Option.bind (osctrl_items data) (\<lambda>items. absorb osctrl_node osctrl_rows items results) of
          None \<Rightarrow> Some (Inl Crash, w')
        | Some results' \<Rightarrow>
            if expected \<noteq> [] \<and> missing_hosts expected results' = [] then Some (Inr (results', False), w')
            else osctrl_loop clock get sleep interval deadline expected fuel results' (sleep (min interval remaining) w'))"

text \<open>Submitting: the answer of the server to the posted statement; polling gets the id as its text.\<close>

definition osctrl_submit :: "(nat \<times> val) option \<Rightarrow> poll_error + string" where
  "osctrl_submit resp =
     (case resp of
        None \<Rightarrow> Inl Crash
      | Some (code, data) \<Rightarrow>
          if code \<noteq> 200 \<and> code \<noteq> 201 then Inl (Bad_Status code)
          else case data of
            VDict d \<Rightarrow> (let query_id = py_or (py_or (vget d ''id'') (vget d ''query_id'')) (vget d ''uuid'')
                        in if truthy query_id then Inr (py_str query_id) else Inl No_Id)
          | _ \<Rightarrow> Inl Crash)"

definition osctrl_live_query :: "('w \<Rightarrow> rat) \<Rightarrow> ('w \<Rightarrow> string \<Rightarrow> string list \<Rightarrow> (nat \<times> val) option \<times> 'w) \<Rightarrow> (string \<Rightarrow> 'w \<Rightarrow> (nat \<times> val) option \<times> 'w)
    \<Rightarrow> (rat \<Rightarrow> 'w \<Rightarrow> 'w) \<Rightarrow> rat \<Rightarrow> nat \<Rightarrow> string list \<Rightarrow> string \<Rightarrow> dict \<Rightarrow> rat \<Rightarrow> 'w
    \<Rightarrow> ((poll_error + (val \<times> val list) list \<times> bool) \<times> 'w) option" where
  "osctrl_live_query clock post get sleep interval fuel target_hosts template params timeout w =
     (case render_query template params of
        Inl e \<Rightarrow> Some (Inl (Not_Allowed e), w)
      | Inr sql \<Rightarrow> (case post w sql target_hosts of (resp, w') \<Rightarrow>
          (case osctrl_submit resp of
             Inl e \<Rightarrow> Some (Inl e, w')
           | Inr query_id \<Rightarrow> osctrl_loop clock (get query_id) sleep interval (clock w' + timeout) (remdups target_hosts) fuel [] w')))"

subsection \<open>FleetDM\<close>

record fleet_client =
  fl_api_token :: string
  fl_username :: string
  fl_password :: string
  fl_session_token :: val

text \<open>The constructor; \<open>None\<close> is its ValueError.\<close>

definition fleet_init :: "string \<Rightarrow> string \<Rightarrow> string \<Rightarrow> fleet_client option" where
  "fleet_init api_token username password =
     (if api_token = [] \<and> \<not> (username \<noteq> [] \<and> password \<noteq> []) then None
      else Some \<lparr>fl_api_token = api_token, fl_username = username, fl_password = password, fl_session_token = VNone\<rparr>)"

definition auth_token :: "fleet_client \<Rightarrow> val" where
  "auth_token c = py_or (VStr (fl_api_token c)) (fl_session_token c)"

datatype fleet_request =
    Login string string
  | Run_Campaign val string "string list"
  | Get_Campaign val string
  | Delete_Campaign val string

definition ensure_auth :: "('w \<Rightarrow> fleet_request \<Rightarrow> (nat \<times> val) option \<times> 'w) \<Rightarrow> fleet_client \<Rightarrow> 'w \<Rightarrow> (poll_error + fleet_client) \<times> 'w" where
  "ensure_auth http c w =
     (if fl_api_token c \<noteq> [] \<or> truthy (fl_session_token c) then (Inr c, w)
      else case http w (Login (fl_username c) (fl_password c)) of
        (None, w') \<Rightarrow> (Inl Crash, w')
      | (Some (code, data), w') \<Rightarrow>
          (if code \<noteq> 200 then Inl (Bad_Status code)
           else case data of
             VDict d \<Rightarrow> (case py_or (vget d ''user'') (VDict []) of
                 VDict u \<Rightarrow> (let token = py_or (vget d ''token'') (vget u ''token'')
                             in if truthy token then Inr (c\<lparr>fl_session_token := token\<rparr>) else Inl No_Token)
               | _ \<Rightarrow> if truthy (vget d ''token'') then Inr (c\<lparr>fl_session_token := vget d ''token''\<rparr>) else Inl Crash)
           | _ \<Rightarrow> Inl Crash, w'))"

definition campaign_of :: "(nat \<times> val) option \<Rightarrow> poll_error + string" where
  "campaign_of resp =
     (case resp of
        None \<Rightarrow> Inl Crash
      | Some (code, data) \<Rightarrow>
          if code \<noteq> 200 \<and> code \<noteq> 201 then Inl (Bad_Status code)
          else case data of
            VDict d \<Rightarrow> (case py_or (vget d ''campaign'') (VDict d) of
                VDict e \<Rightarrow> (let campaign_id = py_str (py_or (py_or (py_or (vget e ''id'') (vget e ''campaign_id'')) (vget e ''uuid'')) (VStr []))
                            in if campaign_id = [] then Inl No_Id else Inr campaign_id)
              | _ \<Rightarrow> Inl Crash)
          | _ \<Rightarrow> Inl Crash)"

definition create_campaign :: "('w \<Rightarrow> fleet_request \<Rightarrow> (nat \<times> val) option \<times> 'w) \<Rightarrow> fleet_client \<Rightarrow> string \<Rightarrow> string list \<Rightarrow> 'w \<Rightarrow> (poll_error + string) \<times> 'w" where
  "create_campaign http c sql hosts w = (case http w (Run_Campaign (auth_token c) sql hosts) of (resp, w') \<Rightarrow> (campaign_of resp, w'))"

definition fleet_node :: "dict \<Rightarrow> val option" where
  "fleet_node item = (case py_or (vget item ''host'') (VDict []) of
       VDict h \<Rightarrow> Some (py_or (py_or (py_or (vget h ''hostname'') (vget h ''uuid'')) (vget item ''hostname'')) (VStr ''unknown''))
     | _ \<Rightarrow> None)"

definition fleet_rows :: "dict \<Rightarrow> val" where
  "fleet_rows item = py_or (vget item ''rows'') (VList [])"

definition fleet_finished :: "dict \<Rightarrow> bool option" where
  "fleet_finished d = (case py_or (vget d ''campaign'') (VDict d) of
       VDict e \<Rightarrow> Some (vget e ''status'' \<in> {VStr ''finished'', VStr ''complete'', VStr ''error''})
     | _ \<Rightarrow> None)"

text \<open>\<open>responded < expected_hosts\<close>: the proper subset.\<close>

definition fewer_responded :: "string list \<Rightarrow> (val \<times> val list) list \<Rightarrow> bool" where
  "fewer_responded expected results \<longleftrightarrow>
     list_all (\<lambda>n. n \<in> VStr ` set expected) (map fst results) \<and> missing_hosts expected results \<noteq> []"

fun fleet_loop :: "('w \<Rightarrow> rat) \<Rightarrow> ('w \<Rightarrow> (nat \<times> val) option \<times> 'w) \<Rightarrow> (rat \<Rightarrow> 'w \<Rightarrow> 'w) \<Rightarrow> rat \<Rightarrow> rat \<Rightarrow> string list
    \<Rightarrow> nat \<Rightarrow> (val \<times> val list) list \<Rightarrow> 'w \<Rightarrow> ((poll_error + (val \<times> val list) list \<times> bool) \<times> 'w) option" where
  "fleet_loop clock get sleep interval deadline expected 0 results w = None"
| "fleet_loop clock get sleep interval deadline expected (Suc fuel) results w =
     (let remaining = deadline - clock w in
      if remaining \<le> 0 then Some (Inr (results, True), w)
      else case get w of
        (None, w') \<Rightarrow> Some (Inl Crash, w')
      | (Some (code, data), w') \<Rightarrow>
          if code = 404 then fleet_loop clock get sleep interval deadline expected fuel results (sleep (min interval remaining) w')
          else if code \<noteq> 200 then Some (Inl (Bad_Status code), w')
          else case data of
            VDict d \<Rightarrow>
              (case Option.bind (iterate (py_or (vget d ''results'') (VList []))) (\<lambda>items. absorb fleet_node fleet_rows items results) of
                 None \<Rightarrow> Some (Inl Crash, w')
               | Some results' \<Rightarrow>
                   if expected \<noteq> [] \<and> missing_hosts expected results' = [] then Some (Inr (results', False), w')
                   else case fleet_finished d of
                     None \<Rightarrow> Some (Inl Crash, w')
                   | Some True \<Rightarrow> Some (Inr (results', fewer_responded expected results'), w')
                   | Some False \<Rightarrow> fleet_loop clock get sleep interval deadline expected fuel results' (sleep (min interval remaining) w'))
          | _ \<Rightarrow> Some (Inl Crash, w'))"

definition fleet_live_query :: "('w \<Rightarrow> rat) \<Rightarrow> ('w \<Rightarrow> fleet_request \<Rightarrow> (nat \<times> val) option \<times> 'w) \<Rightarrow> (rat \<Rightarrow> 'w \<Rightarrow> 'w) \<Rightarrow> rat \<Rightarrow> nat
    \<Rightarrow> fleet_client \<Rightarrow> string list \<Rightarrow> string \<Rightarrow> dict \<Rightarrow> rat \<Rightarrow> 'w
    \<Rightarrow> ((poll_error + (val \<times> val list) list \<times> bool) \<times> 'w) option" where
  "fleet_live_query clock http sleep interval fuel c target_hosts template params timeout w =
     (case render_query template params of
        Inl e \<Rightarrow> Some (Inl (Not_Allowed e), w)
      | Inr sql \<Rightarrow> (case ensure_auth http c w of
          (Inl e, w1) \<Rightarrow> Some (Inl e, w1)
        | (Inr c', w1) \<Rightarrow> (case create_campaign http c' sql target_hosts w1 of
            (Inl e, w2) \<Rightarrow> Some (Inl e, w2)
          | (Inr campaign_id, w2) \<Rightarrow>
              map_option (\<lambda>(r, w3). (r, snd (http w3 (Delete_Campaign (auth_token c') campaign_id))))
                (fleet_loop clock (\<lambda>w. http w (Get_Campaign (auth_token c') campaign_id)) sleep interval (clock w2 + timeout)
                   (remdups target_hosts) fuel [] w2))))"


subsection \<open>Lemmas\<close>

text \<open>How far a loop still has to go.\<close>

definition rounds_left :: "rat \<Rightarrow> rat \<Rightarrow> nat" where
  "rounds_left left interval = nat \<lceil>left / interval\<rceil>"

lemma rounds_mono: "0 < interval \<Longrightarrow> d' \<le> d \<Longrightarrow> rounds_left d' interval \<le> rounds_left d interval"
  by (simp add: rounds_left_def ceiling_mono divide_right_mono nat_mono)

lemma rounds_exact:
  assumes "0 < interval" "0 < d"
  shows "rounds_left d interval = Suc (rounds_left (d - min interval d) interval)"
proof (cases "interval \<le> d")
  case True
  have "(d - interval) / interval = d / interval - 1" using assms(1) by (simp add: field_simps)
  moreover have "0 < \<lceil>d / interval\<rceil>" using assms by simp
  ultimately show ?thesis using True by (simp add: rounds_left_def nat_eq_iff)
next
  case False
  then have "0 < d / interval" "d / interval < 1" using assms by simp_all
  then have "\<lceil>d / interval\<rceil> = 1" by (simp add: ceiling_eq_iff)
  then show ?thesis using False by (simp add: rounds_left_def)
qed

lemma rounds_step:
  assumes "0 < interval" "0 < d" "d' \<le> d - min interval d" "rounds_left d interval < Suc fuel"
  shows "rounds_left d' interval < fuel"
  using rounds_exact [OF assms(1,2)] rounds_mono [OF assms(1,3)] assms(4) by simp

definition fair_clock :: "('w \<Rightarrow> rat) \<Rightarrow> ('w \<Rightarrow> 'r \<times> 'w) \<Rightarrow> (rat \<Rightarrow> 'w \<Rightarrow> 'w) \<Rightarrow> bool" where
  "fair_clock clock get sleep \<longleftrightarrow> (\<forall>w. clock w \<le> clock (snd (get w))) \<and> (\<forall>d w. 0 \<le> d \<longrightarrow> clock w + d \<le> clock (sleep d w))"

lemma fair_round:
  assumes "fair_clock clock get sleep" "0 < interval" "0 < deadline - clock w" "get w = (r, w')"
    "rounds_left (deadline - clock w) interval < Suc fuel"
  shows "rounds_left (deadline - clock (sleep (min interval (deadline - clock w)) w')) interval < fuel"
proof (rule rounds_step [OF assms(2,3) _ assms(5)])
  have "clock w \<le> clock w'" using assms(1,4) unfolding fair_clock_def by (metis snd_conv)
  moreover have "clock w' + min interval (deadline - clock w) \<le> clock (sleep (min interval (deadline - clock w)) w')"
    using assms(1-3) unfolding fair_clock_def by simp
  ultimately show "deadline - clock (sleep (min interval (deadline - clock w)) w') \<le> deadline - clock w - min interval (deadline - clock w)" by simp
qed

lemma osctrl_loop_returns:
  assumes "fair_clock clock get sleep" "0 < interval"
  shows "rounds_left (deadline - clock w) interval < fuel \<Longrightarrow> osctrl_loop clock get sleep interval deadline expected fuel results w \<noteq> None"
proof (induction fuel arbitrary: results w)
  case (Suc fuel)
  obtain a w' where g: "get w = (a, w')" by fastforce
  have "rounds_left (deadline - clock (sleep (min interval (deadline - clock w)) w')) interval < fuel" if "0 < deadline - clock w"
    using fair_round [OF assms that g Suc.prems] .
  with Suc.IH show ?case by (auto simp: g Let_def split: option.splits)
qed simp

lemma fleet_loop_returns:
  assumes "fair_clock clock get sleep" "0 < interval"
  shows "rounds_left (deadline - clock w) interval < fuel \<Longrightarrow> fleet_loop clock get sleep interval deadline expected fuel results w \<noteq> None"
proof (induction fuel arbitrary: results w)
  case (Suc fuel)
  obtain a w' where g: "get w = (a, w')" by fastforce
  have "rounds_left (deadline - clock (sleep (min interval (deadline - clock w)) w')) interval < fuel" if "0 < deadline - clock w"
    using fair_round [OF assms that g Suc.prems] .
  with Suc.IH show ?case by (auto simp: g Let_def split: option.splits val.splits bool.splits)
qed simp

text \<open>Absorbing adds to what is there: \<open>r\<close> is \<open>old\<close> followed by \<open>new\<close>, node by node.\<close>

definition rows_at :: "(val \<times> val list) list \<Rightarrow> val \<Rightarrow> val list" where
  "rows_at results n = (case dict_get results n of None \<Rightarrow> [] | Some rs \<Rightarrow> rs)"

definition extends :: "(val \<times> val list) list \<Rightarrow> (val \<times> val list) list \<Rightarrow> (val \<times> val list) list \<Rightarrow> bool" where
  "extends old new r \<longleftrightarrow> (\<forall>n. rows_at r n = rows_at old n @ rows_at new n) \<and> fst ` set r = fst ` set old \<union> fst ` set new"

lemma rows_at_add [simp]: "rows_at (add_rows n rows r) m = (if m = n then rows_at r n @ rows else rows_at r m)"
  by (simp add: rows_at_def add_rows_def)

lemma keys_add [simp]: "fst ` set (add_rows n rows r) = insert n (fst ` set r)"
  by (simp add: add_rows_def)

lemma absorb_adds:
  "absorb node_of rows_of items r = Some r' \<Longrightarrow> extends old new r \<Longrightarrow>
     \<exists>new'. absorb node_of rows_of items new = Some new' \<and> extends old new' r'"
proof (induction items arbitrary: r new)
  case (Cons item items)
  obtain d node rows where d: "item = VDict d" "node_of d = Some node" "iterate (rows_of d) = Some rows" "hashable node"
      "absorb node_of rows_of items (add_rows node rows r) = Some r'"
    using Cons.prems(1) by (auto split: val.splits option.splits if_splits)
  have "extends old (add_rows node rows new) (add_rows node rows r)" using Cons.prems(2) by (auto simp: extends_def)
  from Cons.IH [OF d(5) this] d show ?case by auto
qed simp

lemma absorb_total: "absorb node_of rows_of items r \<noteq> None \<Longrightarrow> absorb node_of rows_of items s \<noteq> None"
proof (induction items arbitrary: r s)
  case (Cons item items)
  obtain d node rows where d: "item = VDict d" "node_of d = Some node" "iterate (rows_of d) = Some rows" "hashable node"
      "absorb node_of rows_of items (add_rows node rows r) \<noteq> None"
    using Cons.prems by (auto split: val.splits option.splits if_splits)
  from Cons.IH [OF d(5)] d show ?case by auto
qed simp

lemma extends_empty: "extends old [] old"
  by (simp add: extends_def rows_at_def)

lemma absorb_again:
  assumes "absorb node_of rows_of items [] = Some new"
  shows "\<exists>r'. absorb node_of rows_of items r = Some r' \<and> extends r new r'"
proof -
  obtain r' where r': "absorb node_of rows_of items r = Some r'" using absorb_total [of node_of rows_of items "[]" r] assms by auto
  from absorb_adds [OF this extends_empty] assms r' show ?thesis by auto
qed

subsection \<open>A server that gives the same answer\<close>

text \<open>
  The world of a server whose results do not change: it is the time, requests take none, and every poll
  gets the same body.
\<close>

definition steady_get :: "val \<Rightarrow> rat \<Rightarrow> (nat \<times> val) option \<times> rat" where
  "steady_get body t = (Some (200, body), t)"

definition steady_sleep :: "rat \<Rightarrow> rat \<Rightarrow> rat" where
  "steady_sleep d t = t + d"

lemma steady_loop:
  fixes interval deadline t :: rat
  assumes "osctrl_items body = Some items" "absorb osctrl_node osctrl_rows items [] = Some new" "0 < interval"
    "h \<in> set expected" "VStr h \<notin> fst ` set new"
  shows "rounds_left (deadline - t) interval < fuel \<Longrightarrow> VStr h \<notin> fst ` set r \<Longrightarrow> \<exists>r' t'.
      osctrl_loop id (steady_get body) steady_sleep interval deadline expected fuel r t = Some (Inr (r', True), t')
      \<and> (\<forall>n. rows_at r' n = rows_at r n @ concat (replicate (rounds_left (deadline - t) interval) (rows_at new n)))"
proof (induction fuel arbitrary: r t)
  case (Suc fuel)
  show ?case
  proof (cases "deadline - t \<le> 0")
    case True
    then have "\<lceil>(deadline - t) / interval\<rceil> \<le> 0" using assms(3) by (simp add: divide_nonpos_pos)
    then have "rounds_left (deadline - t) interval = 0" by (simp add: rounds_left_def)
    then show ?thesis using True by simp
  next
    case False
    let ?t = "t + min interval (deadline - t)"
    obtain r1 where r1: "absorb osctrl_node osctrl_rows items r = Some r1" "extends r new r1" using absorb_again [OF assms(2)] by blast
    have miss: "VStr h \<notin> fst ` set r1" using r1(2) Suc.prems(2) assms(5) by (simp add: extends_def)
    then have m: "missing_hosts expected r1 \<noteq> []" using assms(4) by (auto simp: missing_hosts_def filter_empty_conv)
    have step: "osctrl_loop id (steady_get body) steady_sleep interval deadline expected (Suc fuel) r t
        = osctrl_loop id (steady_get body) steady_sleep interval deadline expected fuel r1 ?t"
      using False m r1(1) assms(1) by (simp add: steady_get_def steady_sleep_def)
    have less: "rounds_left (deadline - ?t) interval < fuel"
      by (rule rounds_step [OF assms(3) _ _ Suc.prems(1)]) (use False in simp_all)
    have count: "rounds_left (deadline - t) interval = Suc (rounds_left (deadline - ?t) interval)"
      using rounds_exact [OF assms(3), of "deadline - t"] False by (simp add: diff_diff_eq)
    from Suc.IH [OF less miss] obtain r' t' where
      "osctrl_loop id (steady_get body) steady_sleep interval deadline expected fuel r1 ?t = Some (Inr (r', True), t')"
      "\<forall>n. rows_at r' n = rows_at r1 n @ concat (replicate (rounds_left (deadline - ?t) interval) (rows_at new n))" by blast
    with r1(2) show ?thesis unfolding step count by (simp add: extends_def)
  qed
qed simp


subsection \<open>Properties\<close>

text \<open>
  C40.  Both live queries return: with a clock that never runs backwards and a sleep that takes at least
  its time, one round more than the time limit holds polling intervals is enough, whatever the server
  answers and however long it takes.
\<close>

theorem live_queries_return:
  fixes interval timeout :: rat
  assumes "0 < interval" "nat \<lceil>timeout / interval\<rceil> < fuel"
    and "\<And>i. fair_clock clock (get i) sleep" "\<And>r. fair_clock clock (\<lambda>w. http w r) sleep"
  shows "osctrl_live_query clock post get sleep interval fuel hosts template params timeout w \<noteq> None
    \<and> fleet_live_query clock http sleep interval fuel c hosts template params timeout w \<noteq> None"
proof
  have "rounds_left (clock v + timeout - clock v) interval < fuel" for v using assms(2) by (simp add: rounds_left_def)
  note o = osctrl_loop_returns [OF assms(3,1) this] and f = fleet_loop_returns [OF assms(4,1) this]
  show "osctrl_live_query clock post get sleep interval fuel hosts template params timeout w \<noteq> None"
    using o by (auto simp: osctrl_live_query_def split: sum.splits prod.splits)
  show "fleet_live_query clock http sleep interval fuel c hosts template params timeout w \<noteq> None"
    using f by (auto simp: fleet_live_query_def split: sum.splits prod.splits)
qed

lemma live_queries_return_witness:
  "osctrl_live_query id (\<lambda>t sql hs. (Some (200, VDict [(''id'', VInt 7)]), t)) (\<lambda>i t. (Some (404, VNone), t + 1)) (\<lambda>d t. t + d) 3 21 [''web-1''] ''logged_in_users'' [] 60 0 \<noteq> None"
  using live_queries_return [of 3 60 21 id "\<lambda>i t. (Some (404, VNone), t + 1)" "\<lambda>d t. t + d" "\<lambda>t r. (None, t)"
      "\<lambda>t sql hs. (Some (200, VDict [(''id'', VInt 7)]), t)" "[''web-1'']" "''logged_in_users''" "[]" 0
      "\<lparr>fl_api_token = ''k'', fl_username = [], fl_password = [], fl_session_token = VNone\<rparr>"]
  by (simp add: fair_clock_def)

text \<open>
  Rows are counted once per poll: against a server that holds the same results all the time, in which
  some host is missing, osctrl polling ends with a partial answer in which the rows of every node that did
  answer are repeated as many times as the time limit holds polling intervals.
\<close>

theorem rows_repeat_per_poll:
  fixes interval timeout :: rat
  assumes "osctrl_items body = Some items" "absorb osctrl_node osctrl_rows items [] = Some held" "0 < interval"
    "h \<in> set hosts" "VStr h \<notin> fst ` set held" "render_query template params = Inr sql" "nat \<lceil>timeout / interval\<rceil> < fuel"
  shows "\<exists>rows t'. osctrl_live_query id (\<lambda>t sql hosts. (Some (200, VDict [(''id'', VStr ''q'')]), t)) (\<lambda>i. steady_get body) steady_sleep interval fuel
        hosts template params timeout t = Some (Inr (rows, True), t')
     \<and> (\<forall>n. rows_at rows n = concat (replicate (nat \<lceil>timeout / interval\<rceil>) (rows_at held n)))"
proof -
  have fuel: "rounds_left (t + timeout - t) interval < fuel" using assms(7) by (simp add: rounds_left_def)
  have h: "h \<in> set (remdups hosts)" using assms(4) by simp
  have empty: "VStr h \<notin> fst ` set ([] :: (val \<times> val list) list)" by simp
  from steady_loop [OF assms(1-3) h assms(5) fuel empty] obtain rows t' where l:
    "osctrl_loop id (steady_get body) steady_sleep interval (t + timeout) (remdups hosts) fuel [] t = Some (Inr (rows, True), t')"
    "\<And>n. rows_at rows n = concat (replicate (nat \<lceil>timeout / interval\<rceil>) (rows_at held n))"
    by (auto simp: rounds_left_def rows_at_def)
  have "osctrl_submit (Some (200, VDict [(''id'', VStr ''q'')])) = Inr ''q''" by code_simp
  then show ?thesis using l assms(6) by (simp add: osctrl_live_query_def)
qed

definition demo_body :: val where
  "demo_body = VList [VDict [(''node'', VStr ''web-1''), (''rows'', VList [VStr ''r''])]]"

lemma rows_repeat_per_poll_witness:
  "\<exists>rows t'. osctrl_live_query id (\<lambda>t sql hosts. (Some (200, VDict [(''id'', VStr ''q'')]), t)) (\<lambda>i. steady_get demo_body) steady_sleep 3 4
        [''web-1'', ''web-2''] ''logged_in_users'' [] 9 0 = Some (Inr (rows, True), t') \<and> rows_at rows (VStr ''web-1'') = [VStr ''r'', VStr ''r'', VStr ''r'']"
proof -
  have held: "osctrl_items demo_body = Some [VDict [(''node'', VStr ''web-1''), (''rows'', VList [VStr ''r''])]]"
    "absorb osctrl_node osctrl_rows [VDict [(''node'', VStr ''web-1''), (''rows'', VList [VStr ''r''])]] [] = Some [(VStr ''web-1'', [VStr ''r''])]"
    by code_simp+
  have sql: "render_query ''logged_in_users'' [] = Inr (default_text ''logged_in_users'')" by code_simp
  have "nat \<lceil>(9::rat) / 3\<rceil> = 3" by simp
  with rows_repeat_per_poll [OF held, of 3 "''web-2''" "[''web-1'', ''web-2'']" "''logged_in_users''" "[]" _ 9 4 0] sql
  show ?thesis by (auto simp: rows_at_def numeral_3_eq_3)
qed

text \<open>The requests of a live query with their responses: any server, with a log beside its world.\<close>

type_synonym fleet_log = "(fleet_request \<times> (nat \<times> val) option) list"

definition logged :: "('w \<Rightarrow> fleet_request \<Rightarrow> (nat \<times> val) option \<times> 'w) \<Rightarrow> 'w \<times> fleet_log \<Rightarrow> fleet_request \<Rightarrow> (nat \<times> val) option \<times> 'w \<times> fleet_log" where
  "logged http = (\<lambda>(w, lg) r. case http w r of (resp, w') \<Rightarrow> (resp, w', lg @ [(r, resp)]))"

text \<open>The requests that created a campaign, as the deletions they call for; and the deletions of a log.\<close>

definition to_delete :: "fleet_log \<Rightarrow> fleet_request list" where
  "to_delete lg = concat (map (\<lambda>(r, resp). case (r, campaign_of resp) of
      (Run_Campaign token _ _, Inr i) \<Rightarrow> [Delete_Campaign token i] | _ \<Rightarrow> []) lg)"

definition deletions :: "fleet_log \<Rightarrow> fleet_request list" where
  "deletions lg = filter (\<lambda>r. case r of Delete_Campaign _ _ \<Rightarrow> True | _ \<Rightarrow> False) (map fst lg)"

lemma logged_grows: "snd (snd (logged http v r)) = snd v @ [(r, fst (logged http v r))]"
  by (auto simp: logged_def split: prod.splits)

lemma log_append: "to_delete (a @ b) = to_delete a @ to_delete b" "deletions (a @ b) = deletions a @ deletions b"
  by (simp_all add: to_delete_def deletions_def)

lemma fleet_loop_log:
  "fleet_loop clock (\<lambda>w. logged http w (Get_Campaign token i)) sleep interval deadline expected fuel results w = Some (res, w')
    \<Longrightarrow> (\<And>d v. snd (sleep d v) = snd v) \<Longrightarrow> \<exists>polls. snd w' = snd w @ polls \<and> to_delete polls = [] \<and> deletions polls = []"
proof (induction fuel arbitrary: results w)
  case (Suc fuel)
  obtain resp v where g: "logged http w (Get_Campaign token i) = (resp, v)" by (metis surj_pair)
  let ?p = "[(Get_Campaign token i, resp)]"
  have one: "snd v = snd w @ ?p" "to_delete ?p = []" "deletions ?p = []"
    using g by (auto simp: logged_def to_delete_def deletions_def split: prod.splits)
  have more: "\<exists>polls. snd w' = snd w @ polls \<and> to_delete polls = [] \<and> deletions polls = []"
    if "fleet_loop clock (\<lambda>w. logged http w (Get_Campaign token i)) sleep interval deadline expected fuel r (sleep d v) = Some (res, w')" for r d
  proof -
    from Suc.IH [OF that Suc.prems(2)] obtain polls where "snd w' = snd v @ polls" "to_delete polls = []" "deletions polls = []"
      using Suc.prems(2) by auto
    moreover have "to_delete (?p @ polls) = [] \<and> deletions (?p @ polls) = []"
      unfolding log_append one using calculation by simp
    ultimately show ?thesis using one(1) by (intro exI [of _ "?p @ polls"]) (simp del: append.simps)
  qed
  have stay: "\<exists>polls. snd w' = snd w @ polls \<and> to_delete polls = [] \<and> deletions polls = []" if "w' = w \<or> w' = v"
  proof (cases "w' = w")
    case True
    then show ?thesis by (intro exI [of _ "[]"]) (simp add: to_delete_def deletions_def)
  next
    case False
    then show ?thesis using that one by blast
  qed
  from Suc.prems(1) g more stay show ?case
    by (auto simp: Let_def split: if_splits option.splits val.splits bool.splits)
qed simp

text \<open>
  A FleetDM campaign that was created is deleted exactly once, with the token it was created with, and
  as the last request, however polling ends: with a result, an error, a network failure or at the time limit;
  and nothing else is ever deleted.
\<close>

theorem campaigns_deleted:
  assumes "fleet_live_query clock (logged http) (\<lambda>d (w, lg). (sleep d w, lg)) interval fuel c hosts template params timeout (w, []) = Some (res, w', lg)"
  shows "deletions lg = to_delete lg \<and> length (deletions lg) \<le> 1 \<and> (case to_delete lg of [] \<Rightarrow> True | r # _ \<Rightarrow> lg \<noteq> [] \<and> fst (last lg) = r)"
proof (cases "render_query template params")
  case (Inl e)
  then show ?thesis using assms by (auto simp: fleet_live_query_def to_delete_def deletions_def)
next
  case (Inr sql)
  obtain auth v where a: "ensure_auth (logged http) c (w, []) = (auth, v)" by (metis surj_pair)
  then have quiet: "to_delete (snd v) = []" "deletions (snd v) = []"
    by (auto simp: ensure_auth_def logged_def to_delete_def deletions_def split: if_splits prod.splits option.splits)
  show ?thesis
  proof (cases auth)
    case (Inl e)
    then show ?thesis using assms Inr a quiet by (auto simp: fleet_live_query_def)
  next
    case auth: (Inr c')
    let ?run = "Run_Campaign (auth_token c') sql hosts"
    obtain resp v2 where r: "logged http v ?run = (resp, v2)" by (metis surj_pair)
    then have v2: "snd v2 = snd v @ [(?run, resp)]" by (auto simp: logged_def split: prod.splits)
    show ?thesis
    proof (cases "campaign_of resp")
      case (Inl e)
      then have "lg = snd v2" using assms Inr a auth r by (auto simp: fleet_live_query_def create_campaign_def)
      then show ?thesis using quiet v2 Inl by (simp add: log_append) (simp add: to_delete_def deletions_def)
    next
      case i: (Inr i)
      let ?del = "Delete_Campaign (auth_token c') i"
      obtain res3 v3 where l: "fleet_loop clock (\<lambda>w. logged http w (Get_Campaign (auth_token c') i)) (\<lambda>d (w, lg). (sleep d w, lg)) interval
            (clock v2 + timeout) (remdups hosts) fuel [] v2 = Some (res3, v3)" and fin: "snd (logged http v3 ?del) = (w', lg)"
        using assms Inr a auth r i by (auto simp: fleet_live_query_def create_campaign_def)
      then have lg: "lg = snd v3 @ [(?del, fst (logged http v3 ?del))]" using logged_grows [of http v3 ?del] by simp
      obtain polls where p: "snd v3 = snd v2 @ polls" "to_delete polls = []" "deletions polls = []"
        using fleet_loop_log [OF l] by auto
      have "to_delete lg = [?del]" "deletions lg = [?del]" using quiet v2 lg p i
        by (simp_all add: log_append) (simp_all add: to_delete_def deletions_def)
      then show ?thesis using lg by simp
    qed
  qed
qed


definition demo_client :: fleet_client where
  "demo_client = \<lparr>fl_api_token = ''k'', fl_username = [], fl_password = [], fl_session_token = VNone\<rparr>"

text \<open>A server that creates a campaign, answers polls as given, and whose world is the time.\<close>

definition demo_fleet :: "(nat \<times> val) option \<Rightarrow> rat \<Rightarrow> fleet_request \<Rightarrow> (nat \<times> val) option \<times> rat" where
  "demo_fleet answer t r = (case r of
       Run_Campaign _ _ _ \<Rightarrow> (Some (201, VDict [(''campaign'', VDict [(''id'', VInt 7)])]), t)
     | Get_Campaign _ _ \<Rightarrow> (answer, t) | _ \<Rightarrow> (Some (200, VNone), t))"

lemma campaigns_deleted_witness:
  "\<exists>w' lg. fleet_live_query fst (logged (demo_fleet None)) (\<lambda>d (w, lg). (w + d, lg)) 3 4 demo_client [''web-1''] ''logged_in_users'' [] 9 (0, [])
      = Some (Inl Crash, w', lg) \<and> deletions lg = [Delete_Campaign (VStr ''k'') ''7'']"
proof -
  let ?run = "fleet_live_query fst (logged (demo_fleet None)) (\<lambda>d (w, lg). (w + d, lg)) 3 4 demo_client [''web-1''] ''logged_in_users'' [] 9 (0, [])"
  let ?lg = "[(Run_Campaign (VStr ''k'') (default_text ''logged_in_users'') [''web-1''], Some (201, VDict [(''campaign'', VDict [(''id'', VInt 7)])])),
      (Get_Campaign (VStr ''k'') ''7'', None), (Delete_Campaign (VStr ''k'') ''7'', Some (200, VNone))]"
  have run: "?run = Some (Inl Crash, 0, ?lg)" by code_simp
  have "to_delete ?lg = [Delete_Campaign (VStr ''k'') ''7'']" by code_simp
  with campaigns_deleted [OF run] run show ?thesis by auto
qed

text \<open>
  A finished campaign in which one of two hosts is missing and a third one answered is not marked partial:
  the comparison is a proper subset, which a foreign host defeats.
\<close>

lemma finished_hides_missing:
  "map_option fst (fleet_live_query id (demo_fleet (Some (200, VDict [(''results'', VList
        [VDict [(''host'', VDict [(''hostname'', VStr ''web-1'')])], VDict [(''host'', VDict [(''hostname'', VStr ''gw'')])]]),
        (''status'', VStr ''finished'')]))) (\<lambda>d w. w + d) 3 4 demo_client [''web-1'', ''web-2''] ''logged_in_users'' [] 9 0)
     = Some (Inr ([(VStr ''web-1'', []), (VStr ''gw'', [])], False))"
  by code_simp

end
