(* ===== verification/Lake_Sql.thy ===== *)
theory Lake_Sql
  imports Py_Prelude
begin

text \<open>
  The rewriter of tenant-lake queries (\<open>services/api/app/services/lake_sql.py\<close>): it checks a parsed
  ClickHouse statement and adds the tenant predicate to every SELECT.  The parser and the printer are
  of another package; a statement is the tree they exchange, with the parts that the rewriter looks at.
\<close>

subsection \<open>Syntax trees\<close>

datatype 'e limit = No_Limit | Literal_Limit int "'e list" | Other_Limit "'e list"

text \<open>
  The constructors are the classes that the code tests for, \<open>Node\<close> any other with its class name, its
  \<open>this\<close> first.  A SELECT has its projections, the FROM and JOIN parts, the conjuncts of its WHERE, the
  limit (an integer literal or something else, with what hangs below it), and all other children, among
  them the WITH with its CTEs; a table has what it stands for, its name, schema and alias (empty when
  absent) and further children.  \<open>Tenant_Eq\<close> is the comparison of a tenant column, with its qualifier.
\<close>

datatype exp =
    Select "exp list" "exp list" "exp list" "exp list" "exp limit" "exp list"
  | Union "exp list" "exp limit"
  | Subquery exp "exp list"
  | Cte string exp
  | Table exp string string string "exp list"
  | Anonymous "exp list"
  | Func string "exp list"
  | Node string "exp list"
  | Tenant_Eq string string

fun limit_children :: "'e limit \<Rightarrow> 'e list" where
  "limit_children No_Limit = []"
| "limit_children (Literal_Limit n es) = es"
| "limit_children (Other_Limit es) = es"

fun children :: "exp \<Rightarrow> exp list" where
  "children (Select es fr js wh lim ot) = es @ fr @ js @ wh @ limit_children lim @ ot"
| "children (Union qs lim) = qs @ limit_children lim"
| "children (Subquery q ot) = q # ot"
| "children (Cte a q) = [q]"
| "children (Table this n d a ot) = this # ot"
| "children (Anonymous es) = es"
| "children (Func f es) = es"
| "children (Node c es) = es"
| "children (Tenant_Eq a t) = []"

lemma limit_children_size: "size_list size (limit_children lim) \<le> size_limit size (lim :: exp limit)"
  by (cases lim) auto

lemma limit_member_size [termination_simp]: "c \<in> set (limit_children lim) \<Longrightarrow> size c \<le> size_limit size (lim :: exp limit)"
  using size_list_estimation' [of c "limit_children lim" "size c" size] limit_children_size [of lim] by auto

lemma set_limit_children [simp]: "set_limit lim = set (limit_children lim)"
  by (cases lim) auto

lemma children_size [termination_simp]:
  assumes "c \<in> set (children e)"
  shows "size c < size e"
  using assms
  by (cases e) (auto simp: less_Suc_eq_le dest!: limit_member_size,
      auto dest!: size_list_estimation' [where f = size, OF _ order_refl])

text \<open>\<open>find_all\<close>: the node and everything below it.  The order decides only which of several errors is reported.\<close>

function nodes :: "exp \<Rightarrow> exp list" where
  "nodes e = e # concat (map nodes (children e))"
  by pat_completeness auto
termination by (relation "measure size") (auto simp: children_size)

declare nodes.simps [simp del]

fun is_select :: "exp \<Rightarrow> bool" where
  "is_select (Select es fr js wh lim ot) = True"
| "is_select e = False"

fun is_anonymous :: "exp \<Rightarrow> bool" where
  "is_anonymous (Anonymous es) = True"
| "is_anonymous e = False"

definition selects :: "exp \<Rightarrow> exp list" where
  "selects e = filter is_select (nodes e)"

definition cte_aliases :: "exp \<Rightarrow> string set" where
  "cte_aliases e = set (concat (map (\<lambda>x. case x of Cte a q \<Rightarrow> [a] | _ \<Rightarrow> []) (nodes e)))"

subsection \<open>Policy\<close>

definition ALLOWED_TABLES :: "string list" where
  "ALLOWED_TABLES = [''aisoc.raw_events'', ''aisoc.alert_metrics'', ''aisoc.ioc_enrichments'']"

definition DEFAULT_SCHEMA :: string where
  "DEFAULT_SCHEMA = ''aisoc''"

definition DEFAULT_ROW_CAP :: int where
  "DEFAULT_ROW_CAP = 10000"

definition MAX_ROW_CAP :: int where
  "MAX_ROW_CAP = 100000"

definition FORBIDDEN_ROOTS :: "string list" where
  "FORBIDDEN_ROOTS = [''Insert'', ''Update'', ''Delete'', ''Drop'', ''Create'', ''Alter'', ''TruncateTable'', ''Merge'', ''Kill'', ''Command'']"

datatype lake_error = Syntax_Error string | Forbidden string | Condition_Error

definition resolve_row_cap :: "int option \<Rightarrow> int" where
  "resolve_row_cap row_cap =
     (case row_cap of None \<Rightarrow> DEFAULT_ROW_CAP
      | Some n \<Rightarrow> if n < 1 then 1 else if n > MAX_ROW_CAP then MAX_ROW_CAP else n)"

text \<open>The tables of a FROM or JOIN part, down to nested SELECTs and to tables, which are not entered.\<close>

fun collect_direct_tables :: "exp \<Rightarrow> exp list" where
  "collect_direct_tables (Table this n d a ot) = [Table this n d a ot]"
| "collect_direct_tables (Select es fr js wh lim ot) = []"
| "collect_direct_tables (Union qs lim) = concat (map collect_direct_tables (qs @ limit_children lim))"
| "collect_direct_tables (Subquery q ot) = collect_direct_tables q @ concat (map collect_direct_tables ot)"
| "collect_direct_tables (Cte a q) = collect_direct_tables q"
| "collect_direct_tables (Anonymous es) = concat (map collect_direct_tables es)"
| "collect_direct_tables (Func f es) = concat (map collect_direct_tables es)"
| "collect_direct_tables (Node c es) = concat (map collect_direct_tables es)"
| "collect_direct_tables (Tenant_Eq a t) = []"

definition direct_tables :: "exp list \<Rightarrow> exp list \<Rightarrow> exp list" where
  "direct_tables fr js = concat (map collect_direct_tables fr) @ concat (map collect_direct_tables js)"

fun is_table_function :: "exp \<Rightarrow> bool" where
  "is_table_function (Table this n d a ot) =
     ((case this of Anonymous _ \<Rightarrow> True | Func _ _ \<Rightarrow> True | _ \<Rightarrow> False)
      \<or> list_ex is_anonymous (concat (map nodes (this # ot))))"
| "is_table_function e = False"

definition qualified_name :: "string \<Rightarrow> string \<Rightarrow> string" where
  "qualified_name db name = lower (if db = [] then DEFAULT_SCHEMA else db) @ ''.'' @ lower name"

text \<open>What becomes of one table reference: an error, a CTE reference (\<open>None\<close>), or a real table with its full name.\<close>

fun classify_table :: "string set \<Rightarrow> exp \<Rightarrow> lake_error + string option" where
  "classify_table ctes (Table this n d a ot) =
     (if is_table_function (Table this n d a ot) then Inl (Forbidden ''ClickHouse table functions are not allowed in lake queries'')
      else if n = [] then Inl (Forbidden ''unrecognised table reference in FROM/JOIN'')
      else if d = [] \<and> n \<in> ctes then Inr None
      else let full = qualified_name d n in
        if full \<notin> set ALLOWED_TABLES then Inl (Forbidden (''table '' @ [CHR 0x27] @ full @ [CHR 0x27] @ '' is not in the lake allowlist''))
        else Inr (Some full))"
| "classify_table ctes e = Inr None"

definition is_real :: "string set \<Rightarrow> exp \<Rightarrow> bool" where
  "is_real ctes t = (case t of Table this n d a ot \<Rightarrow> \<not> (d = [] \<and> n \<in> ctes) | _ \<Rightarrow> False)"

definition alias_of :: "exp \<Rightarrow> string" where
  "alias_of t = (case t of Table this n d a ot \<Rightarrow> a | _ \<Rightarrow> [])"

text \<open>
  The text of the condition for the real tables of a SELECT.  The qualifier is the alias as it is, without
  the quotes of a quoted identifier.
\<close>

definition clause :: "string \<Rightarrow> string \<Rightarrow> string" where
  "clause tenant a = (if a = [] then [] else a @ ''.'') @ ''tenant_id = '' @ [CHR 0x27] @ tenant @ [CHR 0x27]"

definition qualifiers :: "exp list \<Rightarrow> string list" where
  "qualifiers real_tables =
     (let aliased = filter (\<lambda>t. alias_of t \<noteq> []) real_tables in
      if length real_tables = 1 then [[]]
      else if aliased \<noteq> [] then map alias_of aliased @ (if length real_tables - length aliased > 0 then [[]] else [])
      else [[]])"

definition predicate_text :: "string \<Rightarrow> exp list \<Rightarrow> string" where
  "predicate_text tenant real_tables = join_with '' AND '' (map (clause tenant) (qualifiers real_tables))"

text \<open>
  \<open>cond\<close> is the parser that \<open>select.where\<close> applies to this text: the conjuncts, or its ParseError.
\<close>

type_synonym condition_parser = "string \<Rightarrow> exp list option"

definition predicates :: "condition_parser \<Rightarrow> string \<Rightarrow> exp list \<Rightarrow> exp list option" where
  "predicates cond tenant real_tables = (if real_tables = [] then Some [] else cond (predicate_text tenant real_tables))"

definition real_tables :: "string set \<Rightarrow> exp list \<Rightarrow> exp list \<Rightarrow> exp list" where
  "real_tables ctes fr js = filter (is_real ctes) (direct_tables fr js)"

text \<open>Checking one SELECT: the full names of its real tables.\<close>

fun validate_select :: "condition_parser \<Rightarrow> string set \<Rightarrow> string \<Rightarrow> exp \<Rightarrow> lake_error + string list" where
  "validate_select cond ctes tenant (Select es fr js wh lim ot) =
     bind_res (mapM_res (classify_table ctes) (direct_tables fr js)) (\<lambda>names.
       case predicates cond tenant (real_tables ctes fr js) of
         None \<Rightarrow> Inl Condition_Error
       | Some ps \<Rightarrow> Inr (concat (map (\<lambda>n. case n of None \<Rightarrow> [] | Some f \<Rightarrow> [f]) names)))"
| "validate_select cond ctes tenant e = Inr []"

text \<open>Writing the default schema into the unqualified real tables of a FROM or JOIN part.\<close>

fun qualify :: "string set \<Rightarrow> exp \<Rightarrow> exp" where
  "qualify ctes (Table this n d a ot) = Table this n (if d = [] \<and> n \<notin> ctes then DEFAULT_SCHEMA else d) a ot"
| "qualify ctes (Select es fr js wh lim ot) = Select es fr js wh lim ot"
| "qualify ctes (Union qs lim) = Union (map (qualify ctes) qs) (map_limit (qualify ctes) lim)"
| "qualify ctes (Subquery q ot) = Subquery (qualify ctes q) (map (qualify ctes) ot)"
| "qualify ctes (Cte a q) = Cte a (qualify ctes q)"
| "qualify ctes (Anonymous es) = Anonymous (map (qualify ctes) es)"
| "qualify ctes (Func f es) = Func f (map (qualify ctes) es)"
| "qualify ctes (Node c es) = Node c (map (qualify ctes) es)"
| "qualify ctes (Tenant_Eq a t) = Tenant_Eq a t"

text \<open>The tree with every SELECT rewritten.\<close>

fun rewrite :: "condition_parser \<Rightarrow> string set \<Rightarrow> string \<Rightarrow> exp \<Rightarrow> exp" where
  "rewrite cond ctes tenant (Select es fr js wh lim ot) =
     Select (map (rewrite cond ctes tenant) es)
       (map (qualify ctes) (map (rewrite cond ctes tenant) fr)) (map (qualify ctes) (map (rewrite cond ctes tenant) js))
       (map (rewrite cond ctes tenant) wh
        @ (case predicates cond tenant (real_tables ctes fr js) of None \<Rightarrow> [] | Some ps \<Rightarrow> ps))
       (map_limit (rewrite cond ctes tenant) lim) (map (rewrite cond ctes tenant) ot)"
| "rewrite cond ctes tenant (Union qs lim) =
     Union (map (rewrite cond ctes tenant) qs) (map_limit (rewrite cond ctes tenant) lim)"
| "rewrite cond ctes tenant (Subquery q ot) = Subquery (rewrite cond ctes tenant q) (map (rewrite cond ctes tenant) ot)"
| "rewrite cond ctes tenant (Cte a q) = Cte a (rewrite cond ctes tenant q)"
| "rewrite cond ctes tenant (Table this n d a ot) =
     Table (rewrite cond ctes tenant this) n d a (map (rewrite cond ctes tenant) ot)"
| "rewrite cond ctes tenant (Anonymous es) = Anonymous (map (rewrite cond ctes tenant) es)"
| "rewrite cond ctes tenant (Func f es) = Func f (map (rewrite cond ctes tenant) es)"
| "rewrite cond ctes tenant (Node c es) = Node c (map (rewrite cond ctes tenant) es)"
| "rewrite cond ctes tenant (Tenant_Eq a t) = Tenant_Eq a t"

definition clamped :: "int \<Rightarrow> exp limit \<Rightarrow> exp limit" where
  "clamped cap lim =
     (case lim of Literal_Limit n es \<Rightarrow> if n \<le> cap then lim else Literal_Limit cap [] | _ \<Rightarrow> Literal_Limit cap [])"

fun clamp_target :: "int \<Rightarrow> exp \<Rightarrow> exp" where
  "clamp_target cap (Select es fr js wh lim ot) = Select es fr js wh (clamped cap lim) ot"
| "clamp_target cap (Union qs lim) = Union qs (clamped cap lim)"
| "clamp_target cap e = e"

fun clamp_outer_limit :: "int \<Rightarrow> exp \<Rightarrow> exp" where
  "clamp_outer_limit cap (Node c (q # es)) = (if c = ''With'' then Node c (clamp_target cap q # es) else Node c (q # es))"
| "clamp_outer_limit cap e = clamp_target cap e"

record rewrite_result =
  rw_tree :: exp
  rw_row_cap :: int
  rw_referenced :: "string set"

fun no_projection :: "exp \<Rightarrow> bool" where
  "no_projection (Select es fr js wh lim ot) = (es = [])"
| "no_projection e = False"

fun class_name :: "exp \<Rightarrow> string" where
  "class_name (Select es fr js wh lim ot) = ''Select''"
| "class_name (Union qs lim) = ''Union''"
| "class_name (Subquery q ot) = ''Subquery''"
| "class_name (Cte a q) = ''CTE''"
| "class_name (Table this n d a ot) = ''Table''"
| "class_name (Anonymous es) = ''Anonymous''"
| "class_name (Func f es) = f"
| "class_name (Node c es) = c"
| "class_name (Tenant_Eq a t) = ''EQ''"

fun is_query :: "exp \<Rightarrow> bool" where
  "is_query (Select es fr js wh lim ot) = True"
| "is_query (Union qs lim) = True"
| "is_query (Node c es) = (c = ''With'')"
| "is_query e = False"

text \<open>The checks on the root, after one pair of parentheses.\<close>

definition root_of :: "exp \<Rightarrow> exp" where
  "root_of tree = (case tree of Subquery q ot \<Rightarrow> q | _ \<Rightarrow> tree)"

definition on_root :: "(exp \<Rightarrow> exp) \<Rightarrow> exp \<Rightarrow> exp" where
  "on_root f tree = (case tree of Subquery q ot \<Rightarrow> Subquery (f q) ot | _ \<Rightarrow> f tree)"

definition check_root :: "exp \<Rightarrow> lake_error + unit" where
  "check_root root =
     (if class_name root \<in> set FORBIDDEN_ROOTS then Inl (Forbidden (''only SELECT statements are allowed (got '' @ upper (class_name root) @ '')''))
      else if \<not> is_query root
        then Inl (Syntax_Error (''expected a SELECT / WITH / UNION statement; got '' @ class_name root))
      else Inr ())"

text \<open>
  \<open>statements\<close> is what the parser makes of the text, with empty statements as \<open>None\<close>, or its ParseError.
  The result holds the tree that is printed.
\<close>

definition rewrite_for_tenant :: "condition_parser \<Rightarrow> exp option list option \<Rightarrow> string \<Rightarrow> int option \<Rightarrow> lake_error + rewrite_result" where
  "rewrite_for_tenant cond parsed tenant row_cap =
     (case parsed of
        None \<Rightarrow> Inl (Syntax_Error ''unable to parse SQL'')
      | Some statements \<Rightarrow>
          case List.map_filter id statements of
            [] \<Rightarrow> Inl (Syntax_Error ''empty SQL statement'')
          | [tree] \<Rightarrow>
              bind_res (check_root (root_of tree)) (\<lambda>_.
                let ctes = cte_aliases tree; sels = selects tree in
                if sels = [] then Inl (Syntax_Error ''query has no SELECT clause'')
                else if list_ex no_projection sels then Inl (Syntax_Error ''SELECT clause has no projection expressions'')
                else bind_res (mapM_res (validate_select cond ctes tenant) sels) (\<lambda>namess.
                  Inr \<lparr>rw_tree = on_root (clamp_outer_limit (resolve_row_cap row_cap)) (rewrite cond ctes tenant tree),
                       rw_row_cap = resolve_row_cap row_cap, rw_referenced = set (concat namess)\<rparr>))
          | _ \<Rightarrow> Inl (Forbidden ''only a single statement is allowed per request''))"

subsection \<open>Nodes of a tree and of its rewriting\<close>

definition all_nodes :: "(exp \<Rightarrow> bool) \<Rightarrow> exp \<Rightarrow> bool" where
  "all_nodes P e = list_all P (nodes e)"

lemma all_nodes_iff: "all_nodes P e \<longleftrightarrow> P e \<and> (\<forall>c \<in> set (children e). all_nodes P c)"
  by (subst all_nodes_def, subst nodes.simps) (auto simp: all_nodes_def list_all_iff)

lemma all_nodes_rec [simp]:
  "all_nodes P (Select es fr js wh lim ot) \<longleftrightarrow> P (Select es fr js wh lim ot) \<and>
     list_all (all_nodes P) es \<and> list_all (all_nodes P) fr \<and> list_all (all_nodes P) js \<and> list_all (all_nodes P) wh \<and>
     list_all (all_nodes P) (limit_children lim) \<and> list_all (all_nodes P) ot"
  "all_nodes P (Union qs lim) \<longleftrightarrow> P (Union qs lim) \<and> list_all (all_nodes P) qs \<and> list_all (all_nodes P) (limit_children lim)"
  "all_nodes P (Subquery q ot) \<longleftrightarrow> P (Subquery q ot) \<and> all_nodes P q \<and> list_all (all_nodes P) ot"
  "all_nodes P (Cte a q) \<longleftrightarrow> P (Cte a q) \<and> all_nodes P q"
  "all_nodes P (Table q n d a ot) \<longleftrightarrow> P (Table q n d a ot) \<and> all_nodes P q \<and> list_all (all_nodes P) ot"
  "all_nodes P (Anonymous es) \<longleftrightarrow> P (Anonymous es) \<and> list_all (all_nodes P) es"
  "all_nodes P (Func f es) \<longleftrightarrow> P (Func f es) \<and> list_all (all_nodes P) es"
  "all_nodes P (Node c es) \<longleftrightarrow> P (Node c es) \<and> list_all (all_nodes P) es"
  "all_nodes P (Tenant_Eq a t) \<longleftrightarrow> P (Tenant_Eq a t)"
  by (auto simp: list_all_iff
      all_nodes_iff [of P "Select es fr js wh lim ot"]
      all_nodes_iff [of P "Union qs lim"]
      all_nodes_iff [of P "Subquery q ot"]
      all_nodes_iff [of P "Cte a q"]
      all_nodes_iff [of P "Table q n d a ot"]
      all_nodes_iff [of P "Anonymous es"]
      all_nodes_iff [of P "Func f es"]
      all_nodes_iff [of P "Node c es"]
      all_nodes_iff [of P "Tenant_Eq a t"])

lemma all_nodes_selects: "all_nodes (\<lambda>x. is_select x \<longrightarrow> P x) e \<longleftrightarrow> list_all P (selects e)"
  by (auto simp: all_nodes_def selects_def list_all_iff)

lemma limit_children_map [simp]: "limit_children (map_limit f lim) = map f (limit_children lim)"
  by (cases lim) auto

lemma all_nodes_qualify:
  assumes "\<And>x. P (qualify ctes x) = P x"
  shows "all_nodes P (qualify ctes e) = all_nodes P e"
proof (induction e rule: nodes.induct)
  case (1 e)
  then show ?case
    using assms [of e] by (cases e) (auto simp: list_all_iff)
qed

lemma collect_rewrite:
  "collect_direct_tables (rewrite cond ctes tenant e) = map (rewrite cond ctes tenant) (collect_direct_tables e)"
proof (induction e rule: nodes.induct)
  case (1 e)
  then show ?case
    by (cases e) (auto simp: map_concat comp_def intro!: arg_cong [where f = concat] arg_cong2 [where f = append])
qed

lemma collect_qualify: "collect_direct_tables (qualify ctes e) = map (qualify ctes) (collect_direct_tables e)"
proof (induction e rule: nodes.induct)
  case (1 e)
  then show ?case
    by (cases e) (auto simp: map_concat comp_def intro!: arg_cong [where f = concat] arg_cong2 [where f = append])
qed

lemma direct_tables_rewrite:
  "direct_tables (map (qualify ctes) (map (rewrite cond ctes tenant) fr)) (map (qualify ctes) (map (rewrite cond ctes tenant) js)) =
     map (\<lambda>t. qualify ctes (rewrite cond ctes tenant t)) (direct_tables fr js)"
  by (simp add: direct_tables_def collect_qualify collect_rewrite map_concat comp_def)

subsection \<open>What the rewriter promises\<close>

text \<open>The conditions are read back as the comparisons that they spell, and joined tables have aliases.\<close>

definition reads_conditions :: "condition_parser \<Rightarrow> string set \<Rightarrow> string \<Rightarrow> exp \<Rightarrow> bool" where
  "reads_conditions cond ctes tenant e =
     (case e of Select es fr js wh lim ot \<Rightarrow>
        (let ts = real_tables ctes fr js in
         cond (predicate_text tenant ts) = Some (map (\<lambda>a. Tenant_Eq a tenant) (qualifiers ts)))
      | _ \<Rightarrow> True)"

definition joins_aliased :: "string set \<Rightarrow> exp \<Rightarrow> bool" where
  "joins_aliased ctes e =
     (case e of Select es fr js wh lim ot \<Rightarrow>
        (let ts = real_tables ctes fr js in length ts \<le> 1 \<or> list_all (\<lambda>t. alias_of t \<noteq> []) ts)
      | _ \<Rightarrow> True)"

text \<open>
  A table of a SELECT is safe when it is no table function and is a CTE or an allowlisted table with its
  schema, of which the SELECT compares the tenant column: by the alias, or unqualified for the only table.
\<close>

definition table_safe :: "string set \<Rightarrow> string \<Rightarrow> nat \<Rightarrow> exp list \<Rightarrow> exp \<Rightarrow> bool" where
  "table_safe ctes tenant n_real wh t =
     (\<not> is_table_function t \<and>
      (case t of Table this n d a ot \<Rightarrow>
         n \<noteq> [] \<and> (d = [] \<and> n \<in> ctes
           \<or> d \<noteq> [] \<and> lower d @ ''.'' @ lower n \<in> set ALLOWED_TABLES
             \<and> (a \<noteq> [] \<and> Tenant_Eq a tenant \<in> set wh \<or> n_real = 1 \<and> Tenant_Eq [] tenant \<in> set wh))
       | _ \<Rightarrow> False))"

definition isolated :: "string set \<Rightarrow> string \<Rightarrow> exp \<Rightarrow> bool" where
  "isolated ctes tenant e =
     (case e of Select es fr js wh lim ot \<Rightarrow>
        list_all (table_safe ctes tenant (length (real_tables ctes fr js)) wh) (direct_tables fr js)
      | _ \<Rightarrow> True)"


lemma predicates_read:
  "reads_conditions cond ctes tenant (Select es fr js wh lim ot) \<Longrightarrow>
     predicates cond tenant (real_tables ctes fr js) =
       Some (if real_tables ctes fr js = [] then [] else map (\<lambda>a. Tenant_Eq a tenant) (qualifiers (real_tables ctes fr js)))"
  by (auto simp: reads_conditions_def predicates_def Let_def)

lemma all_nodes_rewrite:
  assumes "\<And>x. all_nodes Q x \<Longrightarrow> P (rewrite cond ctes tenant x)"
    and qualify: "\<And>x. P (qualify ctes x) = P x"
    and reads: "\<And>x. Q x \<Longrightarrow> reads_conditions cond ctes tenant x"
    and eq: "\<And>a t. P (Tenant_Eq a t)"
  shows "all_nodes Q e \<Longrightarrow> all_nodes P (rewrite cond ctes tenant e)"
proof (induction e rule: nodes.induct)
  case (1 e)
  have "P (rewrite cond ctes tenant e)" and Q: "Q e"
    using assms(1) 1(2) by (auto simp: all_nodes_iff [of Q e])
  then show ?case
  proof (cases e)
    case (Select es fr js wh lim ot)
    then have "reads_conditions cond ctes tenant (Select es fr js wh lim ot)"
      using reads [OF Q] by simp
    then show ?thesis
      using Select 1 \<open>P (rewrite cond ctes tenant e)\<close>
      by (auto simp: list_all_iff predicates_read all_nodes_qualify qualify eq)
  qed (use 1 in \<open>auto simp: list_all_iff\<close>)
qed

lemma rewrite_anonymous:
  "all_nodes (\<lambda>x. reads_conditions cond ctes tenant x \<and> \<not> is_anonymous x) e \<Longrightarrow>
     all_nodes (\<lambda>x. \<not> is_anonymous x) (rewrite cond ctes tenant e)"
proof (rule all_nodes_rewrite [where Q = "\<lambda>x. reads_conditions cond ctes tenant x \<and> \<not> is_anonymous x"])
  show "\<not> is_anonymous (rewrite cond ctes tenant x)"
    if "all_nodes (\<lambda>x. reads_conditions cond ctes tenant x \<and> \<not> is_anonymous x) x" for x
    using that by (cases x) auto
  show "(\<not> is_anonymous (qualify ctes x)) = (\<not> is_anonymous x)" for x
    by (cases x) auto
qed auto

lemma all_nodes_conj: "all_nodes (\<lambda>x. P x \<and> Q x) e \<longleftrightarrow> all_nodes P e \<and> all_nodes Q e"
  by (auto simp: all_nodes_def list_all_iff)

lemma is_table_function_iff:
  "is_table_function (Table this n d a ot) \<longleftrightarrow>
     (\<exists>es. this = Anonymous es) \<or> (\<exists>f es. this = Func f es) \<or> \<not> list_all (all_nodes (\<lambda>x. \<not> is_anonymous x)) (this # ot)"
  by (auto simp: all_nodes_def list_all_iff list_ex_iff split: exp.splits)

declare is_table_function.simps(1) [simp del]

lemma rewrite_heads:
  "(\<exists>es. rewrite cond ctes tenant x = Anonymous es) \<longleftrightarrow> (\<exists>es. x = Anonymous es)"
  "(\<exists>f es. rewrite cond ctes tenant x = Func f es) \<longleftrightarrow> (\<exists>f es. x = Func f es)"
  by (cases x; simp)+

lemma rewrite_table_function:
  assumes no: "\<not> is_table_function (Table this n d a ot)"
    and reads: "all_nodes (reads_conditions cond ctes tenant) (Table this n d a ot)"
  shows "\<not> is_table_function (Table (rewrite cond ctes tenant this) n d' a (map (rewrite cond ctes tenant) ot))"
proof -
  have "all_nodes (\<lambda>x. reads_conditions cond ctes tenant x \<and> \<not> is_anonymous x) x" if "x \<in> set (this # ot)" for x
    using that no reads unfolding all_nodes_conj is_table_function_iff by (auto simp: list_all_iff)
  then have "all_nodes (\<lambda>x. \<not> is_anonymous x) (rewrite cond ctes tenant x)" if "x \<in> set (this # ot)" for x
    using that rewrite_anonymous by blast
  then show ?thesis
    using no unfolding is_table_function_iff rewrite_heads by (auto simp: list_all_iff)
qed

lemma collect_tables:
  "t \<in> set (collect_direct_tables e) \<Longrightarrow> (\<exists>this n d a ot. t = Table this n d a ot) \<and> (all_nodes P e \<longrightarrow> all_nodes P t)"
proof (induction e arbitrary: t rule: nodes.induct)
  case (1 e)
  then show ?case
    by (cases e) (fastforce simp: list_all_iff)+
qed

lemma direct_tables_table:
  assumes "t \<in> set (direct_tables fr js)"
  obtains this n d a ot where "t = Table this n d a ot"
  using assms collect_tables unfolding direct_tables_def by fastforce

lemma direct_tables_nodes:
  "t \<in> set (direct_tables fr js) \<Longrightarrow> list_all (all_nodes P) fr \<Longrightarrow> list_all (all_nodes P) js \<Longrightarrow> all_nodes P t"
  using collect_tables [where P = P] by (fastforce simp: direct_tables_def list_all_iff)

lemma real_tables_rewrite:
  "length (real_tables ctes (map (qualify ctes) (map (rewrite cond ctes tenant) fr)) (map (qualify ctes) (map (rewrite cond ctes tenant) js)))
     = length (real_tables ctes fr js)"
proof -
  have "is_real ctes (qualify ctes (rewrite cond ctes tenant t)) = is_real ctes t" if "t \<in> set (direct_tables fr js)" for t
    by (rule direct_tables_table [OF that]) (auto simp: is_real_def DEFAULT_SCHEMA_def)
  then have "filter (\<lambda>t. is_real ctes (qualify ctes (rewrite cond ctes tenant t))) (direct_tables fr js)
      = filter (is_real ctes) (direct_tables fr js)"
    by (auto intro: filter_cong)
  then show ?thesis
    unfolding real_tables_def direct_tables_rewrite by (simp add: filter_map comp_def)
qed

lemma qualifiers_member:
  assumes "t \<in> set ts" "length ts \<le> 1 \<or> list_all (\<lambda>t. alias_of t \<noteq> []) ts"
  shows "alias_of t \<noteq> [] \<and> alias_of t \<in> set (qualifiers ts) \<or> length ts = 1 \<and> [] \<in> set (qualifiers ts)"
proof (cases "length ts = 1")
  case False
  then have "length ts \<noteq> 0" "list_all (\<lambda>t. alias_of t \<noteq> []) ts"
    using assms by (cases ts; force)+
  then have "filter (\<lambda>t. alias_of t \<noteq> []) ts = ts"
    by (simp add: list_all_iff)
  then show ?thesis
    using False assms(1) \<open>list_all _ ts\<close> by (auto simp: qualifiers_def Let_def list_all_iff)
qed (simp add: qualifiers_def)

definition validated :: "string set \<Rightarrow> exp \<Rightarrow> bool" where
  "validated ctes e =
     (case e of Select es fr js wh lim ot \<Rightarrow> list_all (\<lambda>t. \<not> isl (classify_table ctes t)) (direct_tables fr js) | _ \<Rightarrow> True)"

definition rewritable :: "condition_parser \<Rightarrow> string set \<Rightarrow> string \<Rightarrow> exp \<Rightarrow> bool" where
  "rewritable cond ctes tenant e = (reads_conditions cond ctes tenant e \<and> joins_aliased ctes e \<and> validated ctes e)"

lemma classify_ok:
  "\<not> isl (classify_table ctes (Table this n d a ot)) \<longleftrightarrow>
     \<not> is_table_function (Table this n d a ot) \<and> n \<noteq> [] \<and>
     (d = [] \<and> n \<in> ctes \<or> qualified_name d n \<in> set ALLOWED_TABLES)"
  by (auto simp: Let_def)

lemma qualified_default: "qualified_name DEFAULT_SCHEMA n = qualified_name [] n"
  by (simp add: qualified_name_def DEFAULT_SCHEMA_def)

lemma table_rewritten:
  assumes "\<not> isl (classify_table ctes (Table this n d a ot))"
    and "all_nodes (reads_conditions cond ctes tenant) (Table this n d a ot)"
    and "\<not> (d = [] \<and> n \<in> ctes) \<Longrightarrow> a \<noteq> [] \<and> Tenant_Eq a tenant \<in> set wh \<or> k = 1 \<and> Tenant_Eq [] tenant \<in> set wh"
  shows "table_safe ctes tenant k wh (qualify ctes (rewrite cond ctes tenant (Table this n d a ot)))"
  using assms rewrite_table_function [of this n d a ot cond ctes tenant]
  unfolding classify_ok
  by (auto simp: table_safe_def qualified_name_def DEFAULT_SCHEMA_def lower_def lower_char_def)

lemma isolated_rewrite:
  assumes "all_nodes (rewritable cond ctes tenant) e"
  shows "isolated ctes tenant (rewrite cond ctes tenant e)"
proof (cases e)
  case (Select es fr js wh lim ot)
  let ?ts = "real_tables ctes fr js"
  have e: "reads_conditions cond ctes tenant (Select es fr js wh lim ot)" "joins_aliased ctes (Select es fr js wh lim ot)"
    "validated ctes (Select es fr js wh lim ot)"
    using assms Select by (auto simp: rewritable_def)
  have "table_safe ctes tenant (length ?ts)
      (map (rewrite cond ctes tenant) wh @ (if ?ts = [] then [] else map (\<lambda>a. Tenant_Eq a tenant) (qualifiers ?ts)))
      (qualify ctes (rewrite cond ctes tenant t))"
    if t: "t \<in> set (direct_tables fr js)" for t
  proof (rule direct_tables_table [OF t])
    fix this n d a ot'
    assume T: "t = Table this n d a ot'"
    have "all_nodes (rewritable cond ctes tenant) t"
      using direct_tables_nodes [OF t] assms Select by auto
    then have "all_nodes (reads_conditions cond ctes tenant) (Table this n d a ot')"
      unfolding T rewritable_def all_nodes_conj by blast
    moreover have "\<not> isl (classify_table ctes (Table this n d a ot'))"
      using e(3) t unfolding T validated_def exp.case list_all_iff by blast
    moreover have "a \<noteq> [] \<and> a \<in> set (qualifiers ?ts) \<or> length ?ts = 1 \<and> [] \<in> set (qualifiers ?ts)" "?ts \<noteq> []"
      if "\<not> (d = [] \<and> n \<in> ctes)"
    proof -
      have "t \<in> set ?ts"
        using t that T by (simp add: real_tables_def is_real_def)
      then show "a \<noteq> [] \<and> a \<in> set (qualifiers ?ts) \<or> length ?ts = 1 \<and> [] \<in> set (qualifiers ?ts)" "?ts \<noteq> []"
        using qualifiers_member [of t ?ts] e(2) T by (auto simp: joins_aliased_def alias_of_def Let_def)
    qed
    ultimately show ?thesis
      unfolding T by (intro table_rewritten) auto
  qed
  then show ?thesis
    using Select e(1) unfolding isolated_def
    by (simp add: predicates_read direct_tables_rewrite real_tables_rewrite list_all_iff del: map_map split: if_splits)
qed (simp_all add: isolated_def)

lemma all_nodes_clamp:
  assumes "\<And>es fr js wh lim ot lim'. P (Select es fr js wh lim ot) \<Longrightarrow> P (Select es fr js wh lim' ot)"
    and other: "\<And>e. \<not> is_select e \<Longrightarrow> P e" and e: "all_nodes P e"
  shows "all_nodes P (on_root (clamp_outer_limit cap) e)"
proof -
  have lim: "list_all (all_nodes P) (limit_children (clamped cap lim))" if "list_all (all_nodes P) (limit_children lim)" for lim
    using that by (cases lim) (auto simp: clamped_def)
  have target: "all_nodes P (clamp_target cap x)" if "all_nodes P x" for x
    using that assms(1) other by (cases x) (auto simp: lim)
  have outer: "all_nodes P (clamp_outer_limit cap x)" if "all_nodes P x" for x
  proof (cases "\<exists>c q es. x = Node c (q # es)")
    case False
    then have "clamp_outer_limit cap x = clamp_target cap x"
      by (cases "(cap, x)" rule: clamp_outer_limit.cases) auto
    then show ?thesis
      using target [OF that] by simp
  qed (use that target other in auto)
  show ?thesis
  proof (cases "\<exists>q ot. e = Subquery q ot")
    case False
    then have "on_root (clamp_outer_limit cap) e = clamp_outer_limit cap e"
      by (cases e) (simp_all add: on_root_def)
    then show ?thesis
      using outer [OF e] by simp
  qed (use e outer other in \<open>auto simp: on_root_def\<close>)
qed

definition root_limited :: "int \<Rightarrow> exp \<Rightarrow> bool" where
  "root_limited cap e =
     (case e of
        Select es fr js wh lim ot \<Rightarrow> (case lim of Literal_Limit n _ \<Rightarrow> n \<le> cap | _ \<Rightarrow> False)
      | Union qs lim \<Rightarrow> (case lim of Literal_Limit n _ \<Rightarrow> n \<le> cap | _ \<Rightarrow> False)
      | Node c es \<Rightarrow> c = ''With''
      | _ \<Rightarrow> False)"

lemma root_limited_rewrite:
  assumes "is_query (root_of tree)"
  shows "root_limited cap (root_of (on_root (clamp_outer_limit cap) (rewrite cond ctes tenant tree)))"
proof -
  have "root_limited cap (clamp_outer_limit cap (rewrite cond ctes tenant e))" if "is_query e" for e
  proof (cases e)
    case (Node c es)
    then show ?thesis
      using that by (cases es) (auto simp: root_limited_def)
  qed (use that in \<open>auto simp: root_limited_def clamped_def split: limit.splits\<close>)
  note limited = this
  have idle: "root_of x = x" if "root_limited cap x" for x
    using that by (cases x) (auto simp: root_limited_def root_of_def)
  show ?thesis
  proof (cases "\<exists>q ot. tree = Subquery q ot")
    case False
    then have "root_of tree = tree" "on_root f (rewrite cond ctes tenant tree) = f (rewrite cond ctes tenant tree)" for f
      by (cases tree; simp add: root_of_def on_root_def)+
    then show ?thesis
      using limited [of tree] idle assms by simp
  qed (use limited assms in \<open>auto simp: root_of_def on_root_def\<close>)
qed

lemma mapM_res_Inr:
  assumes "mapM_res f xs = Inr ys"
  shows "list_all (\<lambda>x. \<exists>y. f x = Inr y) xs" "\<forall>y \<in> set ys. \<exists>x. f x = Inr y"
  using assms by (induction xs arbitrary: ys) auto

lemma classify_allowed: "classify_table ctes t = Inr (Some f) \<Longrightarrow> f \<in> set ALLOWED_TABLES"
  by (cases t) (auto simp: Let_def split: if_splits)

lemma validate_select_ok:
  assumes "validate_select cond ctes tenant s = Inr fs"
  shows "validated ctes s" "set fs \<subseteq> set ALLOWED_TABLES"
proof -
  have "validated ctes s \<and> set fs \<subseteq> set ALLOWED_TABLES"
  proof (cases s)
    case (Select es fr js wh lim ot)
    then obtain names where names: "mapM_res (classify_table ctes) (direct_tables fr js) = Inr names"
      and fs: "fs = concat (map (\<lambda>n. case n of None \<Rightarrow> [] | Some f \<Rightarrow> [f]) names)"
      using assms by (auto split: option.splits)
    from mapM_res_Inr [OF names] have "list_all (\<lambda>t. \<not> isl (classify_table ctes t)) (direct_tables fr js)"
      "\<forall>n \<in> set names. \<exists>t. classify_table ctes t = Inr n"
      by (auto simp: list_all_iff isl_def)
    then show ?thesis
      using Select by (auto simp: validated_def fs classify_allowed split: option.splits)
  qed (use assms in \<open>auto simp: validated_def\<close>)
  then show "validated ctes s" "set fs \<subseteq> set ALLOWED_TABLES"
    by auto
qed

lemma resolve_row_cap_range: "1 \<le> resolve_row_cap row_cap" "resolve_row_cap row_cap \<le> MAX_ROW_CAP"
  by (auto simp: resolve_row_cap_def DEFAULT_ROW_CAP_def MAX_ROW_CAP_def split: option.splits)

lemma rewrite_for_tenant_ok:
  assumes "rewrite_for_tenant cond (Some [Some tree]) tenant row_cap = Inr r"
  shows "is_query (root_of tree)" "list_all (validated (cte_aliases tree)) (selects tree)"
    "rw_referenced r \<subseteq> set ALLOWED_TABLES" "rw_row_cap r = resolve_row_cap row_cap"
    "rw_tree r = on_root (clamp_outer_limit (rw_row_cap r)) (rewrite cond (cte_aliases tree) tenant tree)"
proof -
  obtain namess where q: "is_query (root_of tree)"
    and m: "mapM_res (validate_select cond (cte_aliases tree) tenant) (selects tree) = Inr namess"
    and r: "r = \<lparr>rw_tree = on_root (clamp_outer_limit (resolve_row_cap row_cap)) (rewrite cond (cte_aliases tree) tenant tree),
                rw_row_cap = resolve_row_cap row_cap, rw_referenced = set (concat namess)\<rparr>"
    using assms by (auto simp: rewrite_for_tenant_def check_root_def Let_def map_filter_simps split: if_splits)
  from mapM_res_Inr [OF m] have "list_all (\<lambda>s. \<exists>fs. validate_select cond (cte_aliases tree) tenant s = Inr fs) (selects tree)"
    "\<forall>fs \<in> set namess. \<exists>s. validate_select cond (cte_aliases tree) tenant s = Inr fs"
    by auto
  then show "is_query (root_of tree)" "list_all (validated (cte_aliases tree)) (selects tree)"
    "rw_referenced r \<subseteq> set ALLOWED_TABLES" "rw_row_cap r = resolve_row_cap row_cap"
    "rw_tree r = on_root (clamp_outer_limit (rw_row_cap r)) (rewrite cond (cte_aliases tree) tenant tree)"
    using q r validate_select_ok by (fastforce simp: list_all_iff)+
qed

subsection \<open>The guarantee\<close>

text \<open>\<open>SELECT * FROM raw_events AS a JOIN Aisoc.ALERT_METRICS AS b WHERE x IN (SELECT * FROM ioc_enrichments) LIMIT 500000\<close>.\<close>

definition sample_join :: exp where
  "sample_join =
     (let ident = Node ''Identifier'' []; star = Node ''Star'' [];
        ioc = Select [star] [Node ''From'' [Table ident ''ioc_enrichments'' [] [] []]] [] [] No_Limit [] in
      Select [star] [Node ''From'' [Table ident ''raw_events'' [] ''a'' []]]
        [Node ''Join'' [Table ident ''ALERT_METRICS'' ''Aisoc'' ''b'' []]] [Node ''In'' [Subquery ioc []]]
        (Literal_Limit 500000 []) [])"

definition sample_conditions :: condition_parser where
  "sample_conditions x =
     (if x = clause ''t'' [] then Some [Tenant_Eq [] ''t'']
      else if x = clause ''t'' ''a'' @ '' AND '' @ clause ''t'' ''b'' then Some [Tenant_Eq ''a'' ''t'', Tenant_Eq ''b'' ''t'']
      else None)"

lemma rewrite_isolates:
  assumes "rewrite_for_tenant cond (Some [Some tree]) tenant row_cap = Inr r"
    and "list_all (\<lambda>s. reads_conditions cond (cte_aliases tree) tenant s \<and> joins_aliased (cte_aliases tree) s) (selects tree)"
  shows "list_all (isolated (cte_aliases tree) tenant) (selects (rw_tree r)) \<and>
    root_limited (rw_row_cap r) (root_of (rw_tree r)) \<and> 1 \<le> rw_row_cap r \<and> rw_row_cap r \<le> MAX_ROW_CAP \<and>
    rw_referenced r \<subseteq> set ALLOWED_TABLES"
proof -
  let ?ctes = "cte_aliases tree"
  note ok = rewrite_for_tenant_ok [OF assms(1)]
  have idle: "Q x" if "\<not> is_select x" "Q = rewritable cond ?ctes tenant \<or> Q = isolated ?ctes tenant" for Q x
    using that by (cases x)
      (auto simp: rewritable_def reads_conditions_def joins_aliased_def validated_def isolated_def)
  have "all_nodes (rewritable cond ?ctes tenant) tree"
    using assms(2) ok(2) idle [of _ "rewritable cond ?ctes tenant"]
    unfolding all_nodes_def selects_def list_all_iff rewritable_def by auto
  then have "all_nodes (isolated ?ctes tenant) (rewrite cond ?ctes tenant tree)"
  proof (rule all_nodes_rewrite [rotated -1])
    show "isolated ?ctes tenant (qualify ?ctes x) = isolated ?ctes tenant x" for x
      by (cases x) (auto simp: isolated_def)
    show "isolated ?ctes tenant (Tenant_Eq a t)" for a t
      by (simp add: isolated_def)
  qed (auto simp: isolated_rewrite rewritable_def)
  then have "all_nodes (isolated ?ctes tenant) (rw_tree r)"
    unfolding ok(5)
  proof (rule all_nodes_clamp [rotated -1])
    show "isolated ?ctes tenant e" if "\<not> is_select e" for e
      using that idle by blast
  qed (simp add: isolated_def)
  then have "list_all (isolated ?ctes tenant) (selects (rw_tree r))"
    unfolding all_nodes_def selects_def list_all_iff by auto
  then show ?thesis
    using ok root_limited_rewrite [OF ok(1)] resolve_row_cap_range by auto
qed


lemma sample_join_accepted:
  "rewrite_for_tenant sample_conditions (Some [Some sample_join]) ''t'' None = Inr (projr (rewrite_for_tenant sample_conditions (Some [Some sample_join]) ''t'' None))"
  by code_simp


subsection \<open>What escapes the rewriter\<close>

text \<open>
  \<open>SELECT * FROM n WHERE EXISTS (WITH n AS (SELECT 1) SELECT 1 FROM n)\<close>: the CTE is in scope in the inner
  query only, so that the outer FROM names a table of the session's database.
\<close>

definition shadow_query :: "string \<Rightarrow> exp limit \<Rightarrow> exp" where
  "shadow_query n lim =
     (let ident = Node ''Identifier'' []; one = Node ''Literal'' [];
        inner = Select [one] [Node ''From'' [Table ident n [] [] []]] [] [] No_Limit
          [Node ''With'' [Cte n (Select [one] [] [] [] No_Limit [])]] in
      Select [Node ''Star'' []] [Node ''From'' [Table ident n [] [] []]] [] [Node ''Exists'' [inner]] lim [])"

lemmas shadow_simps = nodes.simps Let_def predicates_def real_tables_def direct_tables_def is_real_def
  classify_table.simps is_table_function.simps

text \<open>
  C8. A CTE of a nested query lifts the checks for the whole statement.  For every table name the
  rewriter accepts the query above: it prints it as it came but for the limit, with no condition on the
  tenant at all, no check against the allowlist, and an empty set of tables for the audit log.
\<close>

theorem nested_cte_unguarded:
  assumes "n \<noteq> []"
  shows "rewrite_for_tenant cond (Some [Some (shadow_query n No_Limit)]) tenant row_cap =
    Inr \<lparr>rw_tree = shadow_query n (Literal_Limit (resolve_row_cap row_cap) []),
         rw_row_cap = resolve_row_cap row_cap, rw_referenced = {}\<rparr>"
proof -
  have "cte_aliases (shadow_query n No_Limit) = {n}"
    by (simp add: shadow_query_def cte_aliases_def shadow_simps)
  then show ?thesis
    using assms
    by (simp add: rewrite_for_tenant_def map_filter_simps check_root_def root_of_def on_root_def shadow_query_def
        selects_def FORBIDDEN_ROOTS_def clamped_def shadow_simps)
qed

theorem nested_cte_unguarded_witness:
  "rewrite_for_tenant (\<lambda>_. None) (Some [Some (shadow_query ''raw_events'' No_Limit)]) ''t'' None =
    Inr \<lparr>rw_tree = shadow_query ''raw_events'' (Literal_Limit 10000 []), rw_row_cap = 10000, rw_referenced = {}\<rparr>"
  using nested_cte_unguarded [of "''raw_events''" "\<lambda>_. None" "''t''" None]
  by (simp add: resolve_row_cap_def DEFAULT_ROW_CAP_def)

text \<open>\<open>SELECT * FROM raw_events AS "x" JOIN raw_events AS b\<close>, \<open>x\<close> a quoted identifier.\<close>

definition alias_query :: "string \<Rightarrow> exp list \<Rightarrow> string \<Rightarrow> exp limit \<Rightarrow> exp" where
  "alias_query x conds schema lim =
     Select [Node ''Star'' []] [Node ''From'' [Table (Node ''Identifier'' []) ''raw_events'' schema x []]]
       [Node ''Join'' [Table (Node ''Identifier'' []) ''raw_events'' schema ''b'' []]] conds lim []"

text \<open>
  C33. An alias becomes part of the condition.  Whatever the quoted alias of a joined table is, the
  condition that the rewriter adds is what the parser makes of a text that begins with this alias; with
  the alias "1 = 1 OR b" the text is a disjunction with a true side, and the tenant no longer matters.
\<close>

theorem alias_text_injected:
  assumes "x \<noteq> []" and "cond (x @ ''.'' @ clause tenant [] @ '' AND '' @ clause tenant ''b'') = Some conds"
  shows "rewrite_for_tenant cond (Some [Some (alias_query x [] [] No_Limit)]) tenant row_cap =
    Inr \<lparr>rw_tree = alias_query x conds DEFAULT_SCHEMA (Literal_Limit (resolve_row_cap row_cap) []),
         rw_row_cap = resolve_row_cap row_cap, rw_referenced = {''aisoc.raw_events''}\<rparr>"
proof -
  have "cte_aliases (alias_query x [] [] No_Limit) = {}"
    by (simp add: alias_query_def cte_aliases_def shadow_simps)
  moreover have "qualified_name [] ''raw_events'' = ''aisoc.raw_events''" "''aisoc.raw_events'' \<in> set ALLOWED_TABLES"
    by code_simp+
  moreover have "predicate_text tenant [Table i ''raw_events'' [] x [], Table j ''raw_events'' [] ''b'' []]
      = x @ ''.'' @ clause tenant [] @ '' AND '' @ clause tenant ''b''" for i j
    using assms(1) by (simp add: predicate_text_def qualifiers_def alias_of_def clause_def)
  ultimately show ?thesis
    using assms
    by (simp add: rewrite_for_tenant_def map_filter_simps check_root_def root_of_def on_root_def alias_query_def
        selects_def FORBIDDEN_ROOTS_def clamped_def shadow_simps)
qed

theorem alias_text_injected_witness:
  "let always = Node ''Or'' [Node ''EQ'' [], Node ''And'' [Tenant_Eq ''b'' ''t'', Tenant_Eq ''b'' ''t'']];
       cond = (\<lambda>s. if s = ''1 = 1 OR b.'' @ clause ''t'' [] @ '' AND b.'' @ clause ''t'' [] then Some [always] else None)
   in rewrite_for_tenant cond (Some [Some (alias_query ''1 = 1 OR b'' [] [] No_Limit)]) ''t'' None =
     Inr \<lparr>rw_tree = alias_query ''1 = 1 OR b'' [always] ''aisoc'' (Literal_Limit 10000 []),
          rw_row_cap = 10000, rw_referenced = {''aisoc.raw_events''}\<rparr>"
  unfolding Let_def
  by (subst alias_text_injected [where conds = "[Node ''Or'' [Node ''EQ'' [], Node ''And'' [Tenant_Eq ''b'' ''t'', Tenant_Eq ''b'' ''t'']]]"])
    (simp_all add: clause_def resolve_row_cap_def DEFAULT_ROW_CAP_def DEFAULT_SCHEMA_def)

end
