(* ===== verification/Rate_Limit.thy ===== *)
theory Rate_Limit
  imports Py_Text
begin

text \<open>
  The per-tenant token buckets of the lake API (\<open>services/api/app/services/lake_rate_limit.py\<close>), and the
  continuous leaky buckets that the code says they are equivalent to.  Times, tokens and costs are exact
  numbers.  Every bucket is locked while it is used, and nothing is awaited under the lock, so that
  requests take effect one after the other.
\<close>

subsection \<open>Buckets\<close>

definition DEFAULT_CAPACITY :: rat where
  "DEFAULT_CAPACITY = 60"

definition DEFAULT_REFILL_PER_SECOND :: rat where
  "DEFAULT_REFILL_PER_SECOND = 1"

record token_bucket =
  bk_capacity :: rat
  bk_refill_per_second :: rat
  bk_tokens :: rat
  bk_last_refill :: rat

text \<open>\<open>created\<close> is the clock reading of the constructor.\<close>

definition new_bucket :: "rat \<Rightarrow> rat \<Rightarrow> rat \<Rightarrow> rat \<Rightarrow> token_bucket" where
  "new_bucket capacity rate tokens created =
     \<lparr>bk_capacity = capacity, bk_refill_per_second = rate,
      bk_tokens = (if tokens > capacity then capacity else tokens), bk_last_refill = created\<rparr>"

definition refill :: "token_bucket \<Rightarrow> rat \<Rightarrow> token_bucket" where
  "refill b now =
     (let elapsed = max 0 (now - bk_last_refill b) in
      if elapsed > 0
      then b\<lparr>bk_tokens := min (bk_capacity b) (bk_tokens b + elapsed * bk_refill_per_second b), bk_last_refill := now\<rparr>
      else b)"

record rate_decision =
  rd_allowed :: bool
  rd_remaining :: rat
  rd_capacity :: rat
  rd_retry_after_seconds :: rat

definition retry_after_header :: "rate_decision \<Rightarrow> int" where
  "retry_after_header d = max 1 (rat_trunc (rd_retry_after_seconds d + 999 / 1000))"

definition to_headers :: "rate_decision \<Rightarrow> (string \<times> string) list" where
  "to_headers d =
     [(''X-RateLimit-Limit'', int_str (rat_trunc (rd_capacity d))),
      (''X-RateLimit-Remaining'', int_str (max 0 (rat_trunc (rd_remaining d))))]
     @ (if rd_allowed d then [] else [(''Retry-After'', int_str (retry_after_header d))])"

subsection \<open>The limiter\<close>

record limiter =
  lm_capacity :: rat
  lm_refill_per_second :: rat
  lm_buckets :: "string \<Rightarrow> token_bucket option"

datatype limit_error = Capacity_Not_Positive | Refill_Not_Positive | Cost_Not_Positive | Cost_Exceeds_Capacity rat rat

definition limiter_init :: "rat \<Rightarrow> rat \<Rightarrow> limit_error + limiter" where
  "limiter_init capacity rate =
     (if capacity \<le> 0 then Inl Capacity_Not_Positive
      else if rate \<le> 0 then Inl Refill_Not_Positive
      else Inr \<lparr>lm_capacity = capacity, lm_refill_per_second = rate, lm_buckets = Map.empty\<rparr>)"

definition get_bucket :: "limiter \<Rightarrow> string \<Rightarrow> rat \<Rightarrow> token_bucket \<times> limiter" where
  "get_bucket l key created =
     (case lm_buckets l key of
        Some b \<Rightarrow> (b, l)
      | None \<Rightarrow>
          let b = new_bucket (lm_capacity l) (lm_refill_per_second l) (lm_capacity l) created in
          (b, l\<lparr>lm_buckets := (lm_buckets l)(key \<mapsto> b)\<rparr>))"

definition acquire :: "limiter \<Rightarrow> string \<Rightarrow> rat \<Rightarrow> rat \<Rightarrow> rat \<Rightarrow> (limit_error + rate_decision) \<times> limiter" where
  "acquire l key cost created now =
     (if cost \<le> 0 then (Inl Cost_Not_Positive, l)
      else if cost > lm_capacity l then (Inl (Cost_Exceeds_Capacity cost (lm_capacity l)), l)
      else
        case get_bucket l key created of (b0, l') \<Rightarrow>
          let b = refill b0 now in
          if bk_tokens b \<ge> cost then
            (Inr \<lparr>rd_allowed = True, rd_remaining = bk_tokens b - cost, rd_capacity = lm_capacity l, rd_retry_after_seconds = 0\<rparr>,
             l'\<lparr>lm_buckets := (lm_buckets l')(key \<mapsto> b\<lparr>bk_tokens := bk_tokens b - cost\<rparr>)\<rparr>)
          else
            let shortfall = cost - bk_tokens b; retry_after = shortfall / lm_refill_per_second l in
            (Inr \<lparr>rd_allowed = False, rd_remaining = bk_tokens b, rd_capacity = lm_capacity l, rd_retry_after_seconds = retry_after\<rparr>,
             l'\<lparr>lm_buckets := (lm_buckets l')(key \<mapsto> b)\<rparr>))"

definition peek :: "limiter \<Rightarrow> string \<Rightarrow> rat \<Rightarrow> rat \<Rightarrow> rate_decision \<times> limiter" where
  "peek l key created now =
     (case get_bucket l key created of (b0, l') \<Rightarrow>
        let b = refill b0 now in
        (\<lparr>rd_allowed = True, rd_remaining = bk_tokens b, rd_capacity = lm_capacity l, rd_retry_after_seconds = 0\<rparr>,
         l'\<lparr>lm_buckets := (lm_buckets l')(key \<mapsto> b)\<rparr>))"

definition reset :: "limiter \<Rightarrow> string option \<Rightarrow> limiter" where
  "reset l tenant =
     (case tenant of
        None \<Rightarrow> l\<lparr>lm_buckets := Map.empty\<rparr>
      | Some k \<Rightarrow> l\<lparr>lm_buckets := (lm_buckets l)(k := None)\<rparr>)"

subsection \<open>Runs\<close>

text \<open>A request with its clock readings: one for a bucket that it creates, one for the refill.\<close>

datatype limit_event = Acquire string rat rat rat | Peek string rat rat | Reset "string option"

datatype answer = Decided "limit_error + rate_decision" | Was_Reset

fun answer_event :: "limiter \<Rightarrow> limit_event \<Rightarrow> answer \<times> limiter" where
  "answer_event l (Acquire k cost created now) = map_prod Decided id (acquire l k cost created now)"
| "answer_event l (Peek k created now) = map_prod (Decided \<circ> Inr) id (peek l k created now)"
| "answer_event l (Reset tenant) = (Was_Reset, reset l tenant)"

fun serve :: "limiter \<Rightarrow> limit_event list \<Rightarrow> answer list \<times> limiter" where
  "serve l [] = ([], l)"
| "serve l (e # es) =
     (case answer_event l e of (a, l') \<Rightarrow> case serve l' es of (as, l'') \<Rightarrow> (a # as, l''))"

fun event_time :: "rat \<Rightarrow> limit_event \<Rightarrow> rat" where
  "event_time t (Acquire k cost created now) = now"
| "event_time t (Peek k created now) = now"
| "event_time t (Reset tenant) = t"

definition end_time :: "rat \<Rightarrow> limit_event list \<Rightarrow> rat" where
  "end_time t es = foldl event_time t es"

fun event_clock :: "rat \<Rightarrow> limit_event \<Rightarrow> bool" where
  "event_clock t (Acquire k cost created now) = (t \<le> created \<and> created \<le> now)"
| "event_clock t (Peek k created now) = (t \<le> created \<and> created \<le> now)"
| "event_clock t (Reset tenant) = True"

fun clock_ok :: "rat \<Rightarrow> limit_event list \<Rightarrow> bool" where
  "clock_ok t [] = True"
| "clock_ok t (e # es) = (event_clock t e \<and> clock_ok (event_time t e) es)"

subsection \<open>Ideal buckets\<close>

text \<open>
  A level for every tenant there may ever be, at one common time, rising at the refill rate up to the
  capacity: no registry, no lazy refill, no time stamps.
\<close>

type_synonym ideal = "rat \<times> (string \<Rightarrow> rat)"

definition risen :: "rat \<Rightarrow> rat \<Rightarrow> ideal \<Rightarrow> rat \<Rightarrow> string \<Rightarrow> rat" where
  "risen cap rate s now k = min cap (snd s k + (now - fst s) * rate)"

fun ideal_event :: "rat \<Rightarrow> rat \<Rightarrow> ideal \<Rightarrow> limit_event \<Rightarrow> answer \<times> ideal" where
  "ideal_event cap rate s (Acquire k cost created now) =
     (let v = risen cap rate s now in
      if cost \<le> 0 then (Decided (Inl Cost_Not_Positive), (now, v))
      else if cost > cap then (Decided (Inl (Cost_Exceeds_Capacity cost cap)), (now, v))
      else if cost \<le> v k
        then (Decided (Inr \<lparr>rd_allowed = True, rd_remaining = v k - cost, rd_capacity = cap, rd_retry_after_seconds = 0\<rparr>),
              (now, v(k := v k - cost)))
      else (Decided (Inr \<lparr>rd_allowed = False, rd_remaining = v k, rd_capacity = cap, rd_retry_after_seconds = (cost - v k) / rate\<rparr>),
            (now, v)))"
| "ideal_event cap rate s (Peek k created now) =
     (let v = risen cap rate s now in
      (Decided (Inr \<lparr>rd_allowed = True, rd_remaining = v k, rd_capacity = cap, rd_retry_after_seconds = 0\<rparr>), (now, v)))"
| "ideal_event cap rate s (Reset tenant) =
     (Was_Reset, (fst s, case tenant of None \<Rightarrow> (\<lambda>_. cap) | Some k \<Rightarrow> (snd s)(k := cap)))"

fun ideal_serve :: "rat \<Rightarrow> rat \<Rightarrow> ideal \<Rightarrow> limit_event list \<Rightarrow> answer list \<times> ideal" where
  "ideal_serve cap rate s [] = ([], s)"
| "ideal_serve cap rate s (e # es) =
     (case ideal_event cap rate s e of (a, s') \<Rightarrow> case ideal_serve cap rate s' es of (as, s'') \<Rightarrow> (a # as, s''))"

definition full :: "rat \<Rightarrow> rat \<Rightarrow> ideal" where
  "full cap t = (t, \<lambda>_. cap)"

subsection \<open>The limiter implements the ideal buckets\<close>

definition bucket_ok :: "rat \<Rightarrow> rat \<Rightarrow> rat \<Rightarrow> token_bucket \<Rightarrow> bool" where
  "bucket_ok cap rate t b \<longleftrightarrow>
     bk_capacity b = cap \<and> bk_refill_per_second b = rate \<and> 0 \<le> bk_tokens b \<and> bk_tokens b \<le> cap \<and> bk_last_refill b \<le> t"

definition limiter_ok :: "rat \<Rightarrow> rat \<Rightarrow> rat \<Rightarrow> limiter \<Rightarrow> bool" where
  "limiter_ok cap rate t l \<longleftrightarrow>
     0 < cap \<and> 0 < rate \<and> lm_capacity l = cap \<and> lm_refill_per_second l = rate \<and>
     (\<forall>k b. lm_buckets l k = Some b \<longrightarrow> bucket_ok cap rate t b)"

lemma limiter_bucket: "limiter_ok cap rate t l \<Longrightarrow> lm_buckets l k = Some b \<Longrightarrow> bucket_ok cap rate t b"
  by (simp add: limiter_ok_def)

definition ideal_of :: "limiter \<Rightarrow> rat \<Rightarrow> ideal" where
  "ideal_of l t =
     (t, \<lambda>k. case lm_buckets l k of
          None \<Rightarrow> lm_capacity l
        | Some b \<Rightarrow> min (lm_capacity l) (bk_tokens b + (t - bk_last_refill b) * lm_refill_per_second l))"

lemma min_min_plus: "0 \<le> (d :: rat) \<Longrightarrow> min c (min c x + d) = min c (x + d)"
  by (auto simp: min_def)

lemma rise_twice:
  "0 < (rate :: rat) \<Longrightarrow> t0 \<le> t \<Longrightarrow> t \<le> now \<Longrightarrow>
     min c (min c (x + (t - t0) * rate) + (now - t) * rate) = min c (x + (now - t0) * rate)"
  by (subst min_min_plus) (auto simp: algebra_simps)

lemma refill_ok:
  "bucket_ok cap rate t b \<Longrightarrow> 0 < rate \<Longrightarrow> t \<le> now \<Longrightarrow>
     refill b now = \<lparr>bk_capacity = cap, bk_refill_per_second = rate,
       bk_tokens = min cap (bk_tokens b + (now - bk_last_refill b) * rate), bk_last_refill = now\<rparr>"
  by (cases "bk_last_refill b = now"; cases b) (auto simp: refill_def bucket_ok_def Let_def max_def min_def)

lemma risen_ideal_of:
  "limiter_ok cap rate t l \<Longrightarrow> t \<le> now \<Longrightarrow>
     risen cap rate (ideal_of l t) now =
       (\<lambda>k. case lm_buckets l k of None \<Rightarrow> cap | Some b \<Rightarrow> min cap (bk_tokens b + (now - bk_last_refill b) * rate))"
  by (rule ext) (auto simp: risen_def ideal_of_def limiter_ok_def bucket_ok_def rise_twice split: option.split)

lemma ideal_of_later:
  "limiter_ok cap rate t l \<Longrightarrow> t \<le> now \<Longrightarrow> ideal_of l now = (now, risen cap rate (ideal_of l t) now)"
  by (simp add: risen_ideal_of) (auto simp: ideal_of_def limiter_ok_def split: option.splits)

lemma limiter_ok_later: "limiter_ok cap rate t l \<Longrightarrow> t \<le> now \<Longrightarrow> limiter_ok cap rate now l"
  by (force simp: limiter_ok_def bucket_ok_def)

text \<open>Looking up and refilling a bucket: the refilled bucket holds the ideal level.\<close>

lemma get_refill:
  assumes "limiter_ok cap rate t l" "t \<le> created" "created \<le> now" "get_bucket l k created = (b, l')"
  shows "refill b now = \<lparr>bk_capacity = cap, bk_refill_per_second = rate,
      bk_tokens = risen cap rate (ideal_of l t) now k, bk_last_refill = now\<rparr>"
    and "lm_capacity l' = cap" "lm_refill_per_second l' = rate"
    and "\<And>k'. k' \<noteq> k \<Longrightarrow> lm_buckets l' k' = lm_buckets l k'"
proof -
  show "refill b now = \<lparr>bk_capacity = cap, bk_refill_per_second = rate,
      bk_tokens = risen cap rate (ideal_of l t) now k, bk_last_refill = now\<rparr>"
  proof (cases "lm_buckets l k")
    case None
    then have "b = new_bucket cap rate cap created"
      using assms by (auto simp: get_bucket_def limiter_ok_def Let_def)
    moreover have "bucket_ok cap rate created b"
      using assms(1) \<open>b = _\<close> by (simp add: bucket_ok_def new_bucket_def limiter_ok_def)
    ultimately show ?thesis
      using assms None refill_ok [of cap rate created b now]
      by (simp add: risen_ideal_of new_bucket_def limiter_ok_def)
  next
    case (Some b')
    then have "bucket_ok cap rate t b" "b' = b"
      using assms by (auto simp: get_bucket_def limiter_ok_def)
    then show ?thesis
      using assms Some refill_ok [of cap rate t b now] by (simp add: risen_ideal_of limiter_ok_def)
  qed
  show "lm_capacity l' = cap" "lm_refill_per_second l' = rate"
    "\<And>k'. k' \<noteq> k \<Longrightarrow> lm_buckets l' k' = lm_buckets l k'"
    using assms by (auto simp: get_bucket_def limiter_ok_def Let_def split: option.splits)
qed

lemma risen_range:
  assumes ok: "limiter_ok cap rate t l" and t: "t \<le> now"
  shows "0 \<le> risen cap rate (ideal_of l t) now k" "risen cap rate (ideal_of l t) now k \<le> cap"
proof -
  have "0 \<le> bk_tokens b + (now - bk_last_refill b) * rate" if "lm_buckets l k = Some b" for b
    using limiter_bucket [OF ok that] ok t by (simp add: bucket_ok_def limiter_ok_def)
  then show "0 \<le> risen cap rate (ideal_of l t) now k" "risen cap rate (ideal_of l t) now k \<le> cap"
    using ok unfolding risen_ideal_of [OF ok t] by (auto simp: limiter_ok_def split: option.splits)
qed

text \<open>Writing back a bucket filled up to now, at the level \<open>v\<close>.\<close>

lemma store_bucket:
  assumes ok: "limiter_ok cap rate t l" and t: "t \<le> now" and v: "0 \<le> v" "v \<le> cap"
    and l': "lm_capacity l' = cap" "lm_refill_per_second l' = rate" "\<And>k'. k' \<noteq> k \<Longrightarrow> lm_buckets l' k' = lm_buckets l k'"
    and b: "b = \<lparr>bk_capacity = cap, bk_refill_per_second = rate, bk_tokens = v, bk_last_refill = now\<rparr>"
  defines "l'' \<equiv> l'\<lparr>lm_buckets := (lm_buckets l')(k \<mapsto> b)\<rparr>"
  shows "limiter_ok cap rate now l''" "ideal_of l'' now = (now, (risen cap rate (ideal_of l t) now)(k := v))"
proof -
  show "limiter_ok cap rate now l''"
    using limiter_ok_later [OF ok t] l' v b by (auto simp: limiter_ok_def l''_def bucket_ok_def)
  have "snd (ideal_of l'' now) = (snd (ideal_of l now))(k := v)"
    using ok l' v b by (intro ext) (simp add: ideal_of_def l''_def limiter_ok_def split: option.split)
  then show "ideal_of l'' now = (now, (risen cap rate (ideal_of l t) now)(k := v))"
    using ideal_of_later [OF ok t] by (simp add: prod_eq_iff) (simp add: ideal_of_def)
qed

lemma limiter_ok_capacity: "limiter_ok cap rate t l \<Longrightarrow> lm_capacity l = cap"
  by (simp add: limiter_ok_def)

lemma acquire_ideal:
  assumes ok: "limiter_ok cap rate t l" and c: "t \<le> created" "created \<le> now"
    and a: "acquire l k cost created now = (a, l')"
  shows "ideal_event cap rate (ideal_of l t) (Acquire k cost created now) = (Decided a, ideal_of l' now) \<and> limiter_ok cap rate now l'"
proof (cases "cost \<le> 0 \<or> cost > cap")
  case True
  then show ?thesis
    using ok c a ideal_of_later [OF ok, of now, symmetric] limiter_ok_later [OF ok, of now] limiter_ok_capacity [OF ok]
    by (auto simp: acquire_def Let_def)
next
  case False
  let ?v = "risen cap rate (ideal_of l t) now"
  obtain b m where g: "get_bucket l k created = (b, m)"
    by fastforce
  have t: "t \<le> now"
    using c by simp
  have l: "lm_capacity l = cap" "lm_refill_per_second l = rate"
    using ok by (auto simp: limiter_ok_def)
  note r = get_refill [OF ok c g] and range = risen_range [OF ok t, of k]
  show ?thesis
  proof (cases "cost \<le> ?v k")
    case True
    note st = store_bucket [OF ok t, of "?v k - cost", OF _ _ r(2,3,4) refl]
    show ?thesis
      using a False True range st by (auto simp: acquire_def g l r(1) Let_def)
  next
    case False': False
    note st = store_bucket [OF ok t, of "?v k", OF range r(2,3,4) refl]
    show ?thesis
      using a False False' st by (auto simp: acquire_def g l r(1) Let_def)
  qed
qed

lemma peek_ideal:
  assumes ok: "limiter_ok cap rate t l" and c: "t \<le> created" "created \<le> now" and a: "peek l k created now = (d, l')"
  shows "ideal_event cap rate (ideal_of l t) (Peek k created now) = (Decided (Inr d), ideal_of l' now) \<and> limiter_ok cap rate now l'"
proof -
  obtain b m where g: "get_bucket l k created = (b, m)"
    by fastforce
  have t: "t \<le> now" and l: "lm_capacity l = cap"
    using c ok by (auto simp: limiter_ok_def)
  note r = get_refill [OF ok c g]
  note st = store_bucket [OF ok t, of "risen cap rate (ideal_of l t) now k", OF risen_range [OF ok t] r(2,3,4) refl]
  show ?thesis
    using a st by (auto simp: peek_def g l r(1) Let_def)
qed

lemma reset_ideal:
  "limiter_ok cap rate t l \<Longrightarrow>
     ideal_event cap rate (ideal_of l t) (Reset k) = (Was_Reset, ideal_of (reset l k) t) \<and> limiter_ok cap rate t (reset l k)"
  by (cases k) (auto simp: ideal_of_def reset_def limiter_ok_def fun_eq_iff split: option.splits)

lemma event_ideal:
  assumes "limiter_ok cap rate t l" "event_clock t e" "answer_event l e = (a, l')"
  shows "ideal_event cap rate (ideal_of l t) e = (a, ideal_of l' (event_time t e)) \<and> limiter_ok cap rate (event_time t e) l'"
  using assms
proof (cases e)
  case (Acquire k cost created now)
  then show ?thesis
    using assms acquire_ideal [OF assms(1), of created now k cost] by (cases "acquire l k cost created now") auto
next
  case (Peek k created now)
  then show ?thesis
    using assms peek_ideal [OF assms(1), of created now k] by (cases "peek l k created now") auto
qed (use assms reset_ideal in auto)

lemma serve_ideal:
  "limiter_ok cap rate t l \<Longrightarrow> clock_ok t es \<Longrightarrow>
     ideal_serve cap rate (ideal_of l t) es = (fst (serve l es), ideal_of (snd (serve l es)) (end_time t es))
     \<and> limiter_ok cap rate (end_time t es) (snd (serve l es))"
proof (induction es arbitrary: l t)
  case (Cons e es)
  obtain a l' where a: "answer_event l e = (a, l')"
    by fastforce
  have "ideal_event cap rate (ideal_of l t) e = (a, ideal_of l' (event_time t e))" "limiter_ok cap rate (event_time t e) l'"
    using event_ideal [OF Cons.prems(1) _ a] Cons.prems(2) by auto
  then show ?case
    using Cons.IH [of "event_time t e" l'] Cons.prems(2) a by (auto simp: end_time_def split: prod.splits)
qed (simp add: end_time_def)

lemma limiter_init_ok: "limiter_init cap rate = Inr l \<Longrightarrow> limiter_ok cap rate t l \<and> ideal_of l t = full cap t"
  by (auto simp: limiter_init_def limiter_ok_def ideal_of_def full_def split: if_splits)

subsection \<open>What tenants get\<close>

fun resets :: "string \<Rightarrow> limit_event \<Rightarrow> bool" where
  "resets k (Reset tenant) = (tenant = None \<or> tenant = Some k)"
| "resets k e = False"

fun acquires :: "string \<Rightarrow> limit_event \<Rightarrow> bool" where
  "acquires k (Acquire k' cost created now) = (k' = k)"
| "acquires k e = False"

text \<open>The cost of what is admitted for a tenant.\<close>

fun spent_by :: "string \<Rightarrow> limit_event \<Rightarrow> answer \<Rightarrow> rat" where
  "spent_by k (Acquire k' cost created now) (Decided (Inr d)) = (if k' = k \<and> rd_allowed d then cost else 0)"
| "spent_by k e a = 0"

definition spent :: "string \<Rightarrow> limit_event list \<Rightarrow> answer list \<Rightarrow> rat" where
  "spent k es as = sum_list (map2 (spent_by k) es as)"

lemma ideal_event_time: "ideal_event cap rate s e = (a, s') \<Longrightarrow> fst s' = event_time (fst s) e"
  by (cases e) (auto simp: Let_def split: if_splits)

lemma ideal_event_spent:
  assumes "ideal_event cap rate s e = (a, s')" "event_clock (fst s) e" "0 \<le> rate" "0 \<le> cap" "0 \<le> snd s k"
  shows "0 \<le> snd s' k" "\<not> resets k e \<Longrightarrow> spent_by k e a + snd s' k \<le> snd s k + rate * (event_time (fst s) e - fst s)"
proof -
  have v: "0 \<le> risen cap rate s now k" "risen cap rate s now k \<le> snd s k + rate * (now - fst s)" if "fst s \<le> now" for now
    using that assms by (auto simp: risen_def mult.commute)
  show "0 \<le> snd s' k" "\<not> resets k e \<Longrightarrow> spent_by k e a + snd s' k \<le> snd s k + rate * (event_time (fst s) e - fst s)"
    using assms(1,2,4,5) v by (cases e; force simp: Let_def split: if_splits option.splits)+
qed

lemma ideal_serve_spent:
  assumes "ideal_serve cap rate s es = (as, s')" "clock_ok (fst s) es" "0 \<le> rate" "0 \<le> cap" "0 \<le> snd s k"
  shows "fst s' = end_time (fst s) es \<and> length as = length es \<and> 0 \<le> snd s' k \<and>
    (list_all (\<lambda>e. \<not> resets k e) es \<longrightarrow> spent k es as + snd s' k \<le> snd s k + rate * (end_time (fst s) es - fst s))"
  using assms
proof (induction es arbitrary: s as)
  case (Cons e es)
  obtain a s1 bs where e: "ideal_event cap rate s e = (a, s1)" and es: "ideal_serve cap rate s1 es = (bs, s')" "as = a # bs"
    using Cons.prems(1) by (auto split: prod.splits)
  have t: "fst s1 = event_time (fst s) e" and c: "event_clock (fst s) e" "clock_ok (fst s1) es"
    using ideal_event_time [OF e] Cons.prems(2) by auto
  note h = ideal_event_spent [OF e c(1) Cons.prems(3-5)]
  show ?case
    using Cons.IH [OF es(1) c(2) Cons.prems(3,4) h(1)] h(2) es(2) t
    by (auto simp: end_time_def spent_def algebra_simps)
qed (auto simp: end_time_def spent_def)

text \<open>A tenant that asks for nothing rises, whatever the others do.\<close>

lemma ideal_serve_rises:
  assumes "ideal_serve cap rate s es = (as, s')" "clock_ok (fst s) es" "0 \<le> rate" "list_all (\<lambda>e. \<not> acquires k e) es"
  shows "min cap (snd s k + rate * (end_time (fst s) es - fst s)) \<le> snd s' k \<and> fst s \<le> end_time (fst s) es"
  using assms
proof (induction es arbitrary: s as)
  case (Cons e es)
  obtain a s1 bs where e: "ideal_event cap rate s e = (a, s1)" and es: "ideal_serve cap rate s1 es = (bs, s')"
    using Cons.prems(1) by (auto split: prod.splits)
  have t: "fst s1 = event_time (fst s) e" and c: "event_clock (fst s) e" "clock_ok (fst s1) es"
    using ideal_event_time [OF e] Cons.prems(2) by auto
  have step: "min cap (snd s k + rate * (fst s1 - fst s)) \<le> snd s1 k" "fst s \<le> fst s1"
    using e c(1) Cons.prems(4) by (cases e; force simp: Let_def risen_def mult.commute split: if_splits option.splits)+
  note ih = Cons.IH [OF es c(2) Cons.prems(3)]
  have "min cap (snd s1 k + rate * (end_time (fst s1) es - fst s1)) \<le> snd s' k" "fst s1 \<le> end_time (fst s1) es"
    using ih Cons.prems(4) by auto
  moreover have "0 \<le> rate * (end_time (fst s1) es - fst s1)"
    using calculation(2) Cons.prems(3) by simp
  moreover have "end_time (fst s) (e # es) = end_time (fst s1) es"
    using t by (simp add: end_time_def)
  ultimately show ?case
    using step by (auto simp: algebra_simps min_def split: if_splits)
qed (auto simp: end_time_def)

lemma serve_append: "serve l (es @ fs) = (case serve l es of (as, l') \<Rightarrow> case serve l' fs of (bs, l'') \<Rightarrow> (as @ bs, l''))"
  by (induction es arbitrary: l) (auto split: prod.splits)

lemma clock_ok_append: "clock_ok t (es @ fs) \<longleftrightarrow> clock_ok t es \<and> clock_ok (end_time t es) fs"
  by (induction es arbitrary: t) (auto simp: end_time_def)

lemma end_time_append: "end_time t (es @ fs) = end_time (end_time t es) fs"
  by (simp add: end_time_def)

lemma serve_length: "length (fst (serve l es)) = length es"
  by (induction es arbitrary: l) (auto simp: prod.case_eq_if)

lemma served_from_init:
  assumes "limiter_init cap rate = Inr l" "clock_ok t (es @ fs)" "serve l es = (as, l')"
  shows "limiter_ok cap rate (end_time t es) l'" "clock_ok (end_time t es) fs" "0 < cap" "0 < rate"
  using serve_ideal [of cap rate t l es] limiter_init_ok [OF assms(1)] assms by (auto simp: clock_ok_append limiter_ok_def)

text \<open>
  C9.  Lazy refill is exact.  A limiter that refills a bucket when it is used, creates it on its first use
  and keeps a time stamp for each gives, in every run with a clock that does not run backwards, the
  answers of ideal buckets that exist for every tenant and rise continuously.
\<close>

theorem limiter_refines_ideal:
  assumes "limiter_init cap rate = Inr l" "clock_ok t es"
  shows "fst (serve l es) = fst (ideal_serve cap rate (full cap t) es)"
  using serve_ideal [of cap rate t l es] limiter_init_ok [OF assms(1), of t] assms(2) by (metis fst_conv)

definition sample_events :: "limit_event list" where
  "sample_events = [Acquire ''a'' 2 0 0, Peek ''b'' 0 1, Acquire ''a'' 1 1 1, Acquire ''b'' 3 2 2, Acquire ''a'' 2 2 2,
     Reset (Some ''a''), Acquire ''a'' 3 3 3, Acquire ''b'' 0 3 3, Acquire ''b'' 4 3 3]"

theorem limiter_refines_ideal_witness:
  "fst (serve \<lparr>lm_capacity = 3, lm_refill_per_second = 1 / 2, lm_buckets = Map.empty\<rparr> sample_events)
     = fst (ideal_serve 3 (1 / 2) (full 3 0) sample_events)"
  by (rule limiter_refines_ideal [where cap = 3 and rate = "1 / 2" and t = 0])
    (simp_all add: limiter_init_def sample_events_def)

lemma spent_bounded:
  assumes "limiter_init cap rate = Inr l" "clock_ok t (es @ fs)" "list_all (\<lambda>e. \<not> resets k e) fs"
  shows "spent k fs (drop (length es) (fst (serve l (es @ fs)))) \<le> cap + rate * (end_time t (es @ fs) - end_time t es)"
proof -
  obtain as l' bs l'' where s: "serve l es = (as, l')" "serve l' fs = (bs, l'')"
    by fastforce
  note ok = served_from_init [OF assms(1,2) s(1)]
  let ?s = "ideal_of l' (end_time t es)"
  have i: "ideal_serve cap rate ?s fs = (bs, ideal_of l'' (end_time (end_time t es) fs))"
    using serve_ideal [OF ok(1,2)] s(2) by simp
  have at: "fst ?s = end_time t es"
    by (simp add: ideal_of_def)
  have level: "0 \<le> snd ?s k" "snd ?s k \<le> cap"
    using risen_range [OF ok(1) order_refl, of k] ideal_of_later [OF ok(1) order_refl] by (metis snd_conv)+
  have "spent k fs bs \<le> cap + rate * (end_time (end_time t es) fs - end_time t es)"
    using ideal_serve_spent [OF i, of k] ok(2-4) level assms(3) unfolding at by auto
  then show ?thesis
    using s serve_length [of l es] by (simp add: serve_append end_time_append)
qed

text \<open>
  A tenant gets no more than its budget.  In every part of a run in which no operator resets the
  tenant, the admitted costs of the tenant are at most the capacity plus the refill for the time that
  this part takes, whatever other tenants ask for in between.
\<close>

theorem admitted_bounded:
  assumes "limiter_init cap rate = Inr l" "clock_ok t (es @ fs)" "list_all (\<lambda>e. \<not> resets k e) fs"
  shows "spent k fs (drop (length es) (fst (serve l (es @ fs)))) \<le> cap + rate * (end_time t (es @ fs) - end_time t es)"
  using assms by (rule spent_bounded)

theorem admitted_bounded_witness:
  "spent ''a'' (take 4 (drop 1 sample_events))
     (drop 1 (fst (serve \<lparr>lm_capacity = 3, lm_refill_per_second = 1 / 2, lm_buckets = Map.empty\<rparr> (take 1 sample_events @ take 4 (drop 1 sample_events)))))
   \<le> 3 + 1 / 2 * (2 - 0)"
  using admitted_bounded [of 3 "1 / 2" "\<lparr>lm_capacity = 3, lm_refill_per_second = 1 / 2, lm_buckets = Map.empty\<rparr>" 0
      "take 1 sample_events" "take 4 (drop 1 sample_events)" "''a''"]
  by (simp add: limiter_init_def sample_events_def end_time_def)

lemma ideal_denied:
  "ideal_event cap rate s (Acquire k cost created now) = (Decided (Inr d), s') \<Longrightarrow> \<not> rd_allowed d \<Longrightarrow>
     0 < cost \<and> cost \<le> cap \<and> rd_retry_after_seconds d = (cost - snd s' k) / rate"
  by (auto simp: Let_def split: if_splits)

lemma retry_header_close: "rd_retry_after_seconds d < of_int (retry_after_header d) + 1 / 1000"
proof -
  let ?r = "rd_retry_after_seconds d + 999 / 1000"
  have "?r < of_int (rat_trunc ?r) + 1"
    using floor_correct [of ?r] of_int_floor_le [of "- ?r"] unfolding rat_trunc_def by (auto simp: algebra_simps)
  moreover have "of_int (rat_trunc ?r) \<le> (of_int (retry_after_header d) :: rat)"
    unfolding retry_after_header_def of_int_le_iff by simp
  ultimately show ?thesis
    by linarith
qed

text \<open>
  C34.  Waiting as told is enough.  If a request is denied and its tenant asks for nothing else until the
  announced waiting time is over, the same request is then admitted, whatever other tenants and operators
  do; the header rounds this time to whole seconds and falls short of it by less than a millisecond.
\<close>

theorem retry_after_sufficient:
  assumes "limiter_init cap rate = Inr l"
    and clock: "clock_ok t (es @ Acquire k cost created now # fs @ [Acquire k cost created' now'])"
    and denied: "last (fst (serve l (es @ [Acquire k cost created now]))) = Decided (Inr d)" "\<not> rd_allowed d"
    and quiet: "list_all (\<lambda>e. \<not> acquires k e) fs"
    and waited: "now + rd_retry_after_seconds d \<le> now'"
  shows "(\<exists>d'. last (fst (serve l (es @ Acquire k cost created now # fs @ [Acquire k cost created' now']))) = Decided (Inr d') \<and> rd_allowed d')
    \<and> rd_retry_after_seconds d < of_int (retry_after_header d) + 1 / 1000"
proof -
  let ?e = "Acquire k cost created now" and ?e' = "Acquire k cost created' now'"
  obtain as l1 where s1: "serve l es = (as, l1)"
    by fastforce
  obtain a l2 where s2: "answer_event l1 ?e = (a, l2)"
    by fastforce
  obtain bs l3 where s3: "serve l2 fs = (bs, l3)"
    by fastforce
  obtain a' l4 where s4: "answer_event l3 ?e' = (a', l4)"
    by fastforce
  note ok1 = served_from_init [OF assms(1) clock s1]
  have c: "event_clock (end_time t es) ?e" "clock_ok now fs" "event_clock (end_time now fs) ?e'"
    using ok1(2) by (auto simp: clock_ok_append)
  note e2 = event_ideal [OF ok1(1) c(1) s2]
  have e2': "ideal_event cap rate (ideal_of l1 (end_time t es)) ?e = (a, ideal_of l2 now)" "limiter_ok cap rate now l2"
    using e2 by auto
  note e3 = serve_ideal [OF e2'(2) c(2)]
  have e3': "ideal_serve cap rate (ideal_of l2 now) fs = (bs, ideal_of l3 (end_time now fs))"
    "limiter_ok cap rate (end_time now fs) l3"
    using e3 s3 by auto
  note e4 = event_ideal [OF e3'(2) c(3) s4]
  have at: "fst (ideal_of x y) = y" for x y
    by (simp add: ideal_of_def)
  have "a = Decided (Inr d)"
    using denied(1) s1 s2 by (simp add: serve_append)
  then have cost: "0 < cost" "cost \<le> cap" "rd_retry_after_seconds d = (cost - snd (ideal_of l2 now) k) / rate"
    using ideal_denied [of cap rate _ k cost created now d] e2'(1) denied(2) by auto
  have rise: "min cap (snd (ideal_of l2 now) k + rate * (end_time now fs - now)) \<le> snd (ideal_of l3 (end_time now fs)) k"
    using ideal_serve_rises [OF e3'(1), of k] c(2) ok1(4) quiet unfolding at by simp
  have le: "end_time now fs \<le> now'"
    using c(3) by simp
  have "cost - snd (ideal_of l2 now) k \<le> rate * (now' - now)"
    using waited ok1(4) unfolding cost(3) by (simp add: field_simps)
  moreover have "0 \<le> rate * (now' - end_time now fs)"
    using le ok1(4) by simp
  ultimately have "cost \<le> risen cap rate (ideal_of l3 (end_time now fs)) now' k"
    using rise cost(2) unfolding risen_def at by (auto simp: algebra_simps min_def split: if_splits)
  then have "\<exists>d'. a' = Decided (Inr d') \<and> rd_allowed d'"
    using e4 cost(1,2) by (auto simp: Let_def)
  moreover have "last (fst (serve l (es @ ?e # fs @ [?e']))) = a'"
    using s1 s2 s3 s4 by (simp add: serve_append)
  ultimately show ?thesis
    using retry_header_close by simp
qed

theorem retry_after_sufficient_witness:
  "\<exists>d. last (fst (serve \<lparr>lm_capacity = 3, lm_refill_per_second = 1 / 2, lm_buckets = Map.empty\<rparr>
       ([Acquire ''a'' 2 0 0] @ Acquire ''a'' 2 1 1 # [Peek ''b'' 1 2] @ [Acquire ''a'' 2 2 2]))) = Decided (Inr d) \<and> rd_allowed d"
  using retry_after_sufficient [of 3 "1 / 2" "\<lparr>lm_capacity = 3, lm_refill_per_second = 1 / 2, lm_buckets = Map.empty\<rparr>" 0
      "[Acquire ''a'' 2 0 0]" "''a''" 2 1 1 "[Peek ''b'' 1 2]" 2 2
      "\<lparr>rd_allowed = False, rd_remaining = 3 / 2, rd_capacity = 3, rd_retry_after_seconds = 1\<rparr>"]
  by (simp add: limiter_init_def acquire_def get_bucket_def new_bucket_def refill_def Let_def)

end
