(* ===== verification/Lake_Service.thy ===== *)
theory Lake_Service
  imports Lake_Sql Rate_Limit
begin

text \<open>
  The lake API over the rewriter and the limiter: the ClickHouse helpers
  (\<open>services/api/app/db/clickhouse.py\<close>) and the endpoints (\<open>services/api/app/api/v1/endpoints/lake.py\<close>).
  The SQL parser and printer, the database driver and the writer of the audit log are parameters.
\<close>

subsection \<open>Queries on the database\<close>

type_synonym query_settings = "(string \<times> int) list"

definition DEFAULT_QUERY_SETTINGS :: query_settings where
  "DEFAULT_QUERY_SETTINGS =
     [(''max_execution_time'', 30), (''max_memory_usage'', 1024 * 1024 * 1024), (''max_result_rows'', 100000),
      (''max_threads'', 4), (''max_network_bandwidth'', 256 * 1024 * 1024)]"

record lake_query_result =
  lq_columns :: "string list"
  lq_rows :: "val list list"
  lq_row_count :: nat
  lq_elapsed_ms :: int

datatype lake_query_error = Not_Configured string | Query_Timeout string | Query_Error string

text \<open>What the driver does within the given time: rows with named and typed columns and the milliseconds it took, an exception, or nothing.\<close>

datatype driver_result = Returned "val list list" "(string \<times> string) list" int | Raised string | Not_In_Time

type_synonym driver = "string \<Rightarrow> query_settings \<Rightarrow> rat \<Rightarrow> driver_result"

definition effective_cap :: "rat option \<Rightarrow> rat" where
  "effective_cap timeout = (case timeout of None \<Rightarrow> 30 | Some s \<Rightarrow> min 30 s)"

definition merged_settings :: "rat option \<Rightarrow> query_settings \<Rightarrow> query_settings" where
  "merged_settings timeout extra =
     dict_set ''max_execution_time'' (rat_trunc (effective_cap timeout)) (dict_update DEFAULT_QUERY_SETTINGS extra)"

definition said_timeout :: "string \<Rightarrow> bool" where
  "said_timeout message = (substr_in ''TIMEOUT_EXCEEDED'' message \<or> substr_in ''exceeded the timeout'' (lower message))"

text \<open>\<open>client\<close> is \<open>get_clickhouse_client\<close>: \<open>Some\<close> message when there is none.\<close>

definition execute_lake_query :: "string option \<Rightarrow> driver \<Rightarrow> string \<Rightarrow> rat option \<Rightarrow> query_settings \<Rightarrow> lake_query_error + lake_query_result" where
  "execute_lake_query client run sql timeout extra =
     (case client of
        Some message \<Rightarrow> Inl (Not_Configured message)
      | None \<Rightarrow>
          case run sql (merged_settings timeout extra) (effective_cap timeout + 2) of
            Not_In_Time \<Rightarrow> Inl (Query_Timeout (''lake query exceeded '' @ int_str (round_half_even (effective_cap timeout)) @ ''s wall-clock timeout''))
          | Raised message \<Rightarrow>
              if said_timeout message then Inl (Query_Timeout message)
              else Inl (Query_Error (''clickhouse query failed: '' @ message))
          | Returned rows column_meta elapsed \<Rightarrow>
              Inr \<lparr>lq_columns = map fst column_meta, lq_rows = rows, lq_row_count = length rows, lq_elapsed_ms = elapsed\<rparr>)"

subsection \<open>Columns of the tables\<close>

record column_row =
  cr_database :: string
  cr_table :: string
  cr_name :: string
  cr_type :: string
  cr_comment :: "string option"

record column_info =
  ci_name :: string
  ci_type :: string
  ci_comment :: string

datatype schema_answer = Columns "column_row list" | Schema_Raised string | Schema_Not_In_Time

definition requested_tables :: "string list option \<Rightarrow> string list" where
  "requested_tables tables =
     sorted_set (filter (\<lambda>t. t \<in> set ALLOWED_TABLES) (case tables of None \<Rightarrow> ALLOWED_TABLES | Some ts \<Rightarrow> ts))"

definition table_pair :: "string \<Rightarrow> string \<times> string" where
  "table_pair fq = (takeWhile (\<lambda>c. c \<noteq> CHR ''.'') fq, drop 1 (dropWhile (\<lambda>c. c \<noteq> CHR ''.'') fq))"

definition schema_params :: "string list \<Rightarrow> (string \<times> string) list" where
  "schema_params tables =
     concat (map (\<lambda>(i, fq). [(''db'' @ nat_str i, fst (table_pair fq)), (''tbl'' @ nat_str i, snd (table_pair fq))])
       (enumerate 0 tables))"

definition schema_sql :: "string list \<Rightarrow> string" where
  "schema_sql tables =
     ''SELECT database, table, name, type, comment FROM system.columns WHERE '' @
     join_with '' OR '' (map (\<lambda>i. ''(database = %(db'' @ nat_str i @ '')s AND table = %(tbl'' @ nat_str i @ '')s)'') [0..<length tables])
     @ '' ORDER BY database, table, position''"

definition add_column :: "(string \<times> column_info list) list \<Rightarrow> column_row \<Rightarrow> (string \<times> column_info list) list" where
  "add_column by_table row =
     (let key = cr_database row @ ''.'' @ cr_table row in
      case dict_get by_table key of
        None \<Rightarrow> by_table
      | Some cols \<Rightarrow>
          dict_set key (cols @ [\<lparr>ci_name = cr_name row, ci_type = cr_type row,
            ci_comment = (case cr_comment row of None \<Rightarrow> [] | Some c \<Rightarrow> c)\<rparr>]) by_table)"

definition fetch_lake_schema ::
  "string option \<Rightarrow> (string \<Rightarrow> (string \<times> string) list \<Rightarrow> schema_answer) \<Rightarrow> string list option
     \<Rightarrow> lake_query_error + (string \<times> column_info list) list" where
  "fetch_lake_schema client run tables =
     (let requested = requested_tables tables in
      if requested = [] then Inr []
      else
        case client of
          Some message \<Rightarrow> Inl (Not_Configured message)
        | None \<Rightarrow>
            case run (schema_sql requested) (schema_params requested) of
              Schema_Not_In_Time \<Rightarrow> Inl (Query_Timeout ''lake schema lookup timed out'')
            | Schema_Raised message \<Rightarrow> Inl (Query_Error (''clickhouse schema lookup failed: '' @ message))
            | Columns rows \<Rightarrow>
                Inr (foldl add_column (map (\<lambda>fq. (fst (table_pair fq) @ ''.'' @ snd (table_pair fq), [])) requested) rows))"

subsection \<open>Endpoints\<close>

definition QUERY_COST :: rat where
  "QUERY_COST = 1"

definition SCHEMA_COST :: rat where
  "SCHEMA_COST = 1 / 4"

record lake_audit =
  la_tenant :: string
  la_outcome :: string
  la_reason :: "string option"
  la_tables :: "string list"
  la_row_count :: "nat option"
  la_elapsed_ms :: "int option"
  la_row_cap :: "int option"

record lake_state =
  ls_limiter :: limiter
  ls_sent :: "(string \<times> string \<times> query_settings) list"
  ls_audit :: "lake_audit list"

text \<open>What the code calls: the parsers of statements and of conditions, the printer, the driver and the audit log, which may refuse a row.\<close>

record lake_env =
  le_parse :: "string \<Rightarrow> exp option list option"
  le_condition :: condition_parser
  le_sql :: "exp \<Rightarrow> string"
  le_client :: "string option"
  le_run :: driver
  le_audit_ok :: "lake_audit \<Rightarrow> bool"

record lake_request =
  lr_tenant :: string
  lr_sql :: string
  lr_row_cap :: "int option"
  lr_timeout_seconds :: "rat option"
  lr_created :: rat
  lr_now :: rat

record lake_response =
  lp_columns :: "string list"
  lp_rows :: "val list list"
  lp_row_count :: nat
  lp_row_cap :: int
  lp_referenced_tables :: "string list"
  lp_elapsed_ms :: int

datatype http_answer = Ok lake_response "(string \<times> string) list" | Http int "(string \<times> string) list" | Uncaught

text \<open>Charging the bucket: the headers, and whether the request goes on; \<open>None\<close> for a ValueError.\<close>

definition acquire_or_429 :: "lake_state \<Rightarrow> string \<Rightarrow> rat \<Rightarrow> rat \<Rightarrow> rat \<Rightarrow> (bool \<times> (string \<times> string) list) option \<times> lake_state" where
  "acquire_or_429 s tenant cost created now =
     (case acquire (ls_limiter s) tenant cost created now of (d, l) \<Rightarrow>
        ((case d of Inl _ \<Rightarrow> None | Inr d \<Rightarrow> Some (rd_allowed d, to_headers d)), s\<lparr>ls_limiter := l\<rparr>))"

definition audit_query_attempt :: "lake_env \<Rightarrow> lake_audit \<Rightarrow> lake_state \<Rightarrow> lake_state" where
  "audit_query_attempt env row s = (if le_audit_ok env row then s\<lparr>ls_audit := ls_audit s @ [row]\<rparr> else s)"

definition attempt :: "string \<Rightarrow> string \<Rightarrow> string \<Rightarrow> string list \<Rightarrow> lake_audit" where
  "attempt tenant outcome reason tables =
     \<lparr>la_tenant = tenant, la_outcome = outcome, la_reason = Some reason, la_tables = tables, la_row_count = None,
      la_elapsed_ms = None, la_row_cap = None\<rparr>"

text \<open>Step 2 and 3 of the pipeline; \<open>ls_sent\<close> records what is handed to the driver.\<close>

definition run_rewritten :: "lake_env \<Rightarrow> lake_request \<Rightarrow> (string \<times> string) list \<Rightarrow> rewrite_result \<Rightarrow> lake_state \<Rightarrow> http_answer \<times> lake_state" where
  "run_rewritten env q headers rw s =
     (let sql = le_sql env (rw_tree rw);
        timeout = (case lr_timeout_seconds q of None \<Rightarrow> Some 30 | Some t \<Rightarrow> if t = 0 then Some 30 else Some t);
        tables = sorted_list_of_set (rw_referenced rw);
        s1 = (if le_client env = None then s\<lparr>ls_sent := ls_sent s @ [(lr_tenant q, sql, merged_settings timeout [])]\<rparr> else s) in
      case execute_lake_query (le_client env) (le_run env) sql timeout [] of
        Inl (Not_Configured reason) \<Rightarrow> (Http 503 [], s1)
      | Inl (Query_Timeout reason) \<Rightarrow> (Http 422 [], audit_query_attempt env (attempt (lr_tenant q) ''timeout'' reason tables) s1)
      | Inl (Query_Error reason) \<Rightarrow> (Http 502 [], audit_query_attempt env (attempt (lr_tenant q) ''backend_error'' reason tables) s1)
      | Inr r \<Rightarrow>
          (Ok \<lparr>lp_columns = lq_columns r, lp_rows = lq_rows r, lp_row_count = lq_row_count r, lp_row_cap = rw_row_cap rw,
               lp_referenced_tables = tables, lp_elapsed_ms = lq_elapsed_ms r\<rparr> headers,
           audit_query_attempt env
             \<lparr>la_tenant = lr_tenant q, la_outcome = ''ok'', la_reason = None, la_tables = tables, la_row_count = Some (lq_row_count r),
              la_elapsed_ms = Some (lq_elapsed_ms r), la_row_cap = Some (rw_row_cap rw)\<rparr> s1))"

definition execute_lake_sql :: "lake_env \<Rightarrow> lake_request \<Rightarrow> lake_state \<Rightarrow> http_answer \<times> lake_state" where
  "execute_lake_sql env q s0 =
     (case acquire_or_429 s0 (lr_tenant q) QUERY_COST (lr_created q) (lr_now q) of
        (None, s) \<Rightarrow> (Uncaught, s)
      | (Some (False, headers), s) \<Rightarrow> (Http 429 headers, s)
      | (Some (True, headers), s) \<Rightarrow>
          case rewrite_for_tenant (le_condition env) (le_parse env (lr_sql q)) (lr_tenant q) (lr_row_cap q) of
            Inl (Forbidden reason) \<Rightarrow> (Http 403 [], audit_query_attempt env (attempt (lr_tenant q) ''forbidden'' reason []) s)
          | Inl (Syntax_Error reason) \<Rightarrow> (Http 400 [], s)
          | Inl Condition_Error \<Rightarrow> (Uncaught, s)
          | Inr rw \<Rightarrow> run_rewritten env q headers rw s)"

text \<open>A run of the service, each request with what its environment does for it.\<close>

fun serve_lake :: "(lake_env \<times> lake_request) list \<Rightarrow> lake_state \<Rightarrow> http_answer list \<times> lake_state" where
  "serve_lake [] s = ([], s)"
| "serve_lake ((env, q) # qs) s =
     (case execute_lake_sql env q s of (a, s') \<Rightarrow> case serve_lake qs s' of (as, s'') \<Rightarrow> (a # as, s''))"

text \<open>The schema endpoint, which neither sends a query of the caller nor writes the audit log.\<close>

datatype schema_response = Schema "(string \<times> column_info list) list" "(string \<times> string) list" | Schema_Http int "(string \<times> string) list" | Schema_Uncaught

definition get_lake_schema ::
  "lake_env \<Rightarrow> (string \<Rightarrow> (string \<times> string) list \<Rightarrow> schema_answer) \<Rightarrow> string \<Rightarrow> rat \<Rightarrow> rat \<Rightarrow> lake_state \<Rightarrow> schema_response \<times> lake_state" where
  "get_lake_schema env run tenant created now s0 =
     (case acquire_or_429 s0 tenant SCHEMA_COST created now of
        (None, s) \<Rightarrow> (Schema_Uncaught, s)
      | (Some (False, headers), s) \<Rightarrow> (Schema_Http 429 headers, s)
      | (Some (True, headers), s) \<Rightarrow>
          (case fetch_lake_schema (le_client env) run None of
             Inl (Not_Configured _) \<Rightarrow> Schema_Http 503 []
           | Inl (Query_Timeout _) \<Rightarrow> Schema_Http 422 []
           | Inl (Query_Error _) \<Rightarrow> Schema_Http 502 []
           | Inr tables \<Rightarrow> Schema tables headers, s))"

subsection \<open>Requests and the limiter\<close>

definition lake_event :: "lake_env \<times> lake_request \<Rightarrow> limit_event" where
  "lake_event x = Acquire (lr_tenant (snd x)) QUERY_COST (lr_created (snd x)) (lr_now (snd x))"

lemma audit_query_attempt_state [simp]:
  "ls_limiter (audit_query_attempt env row s) = ls_limiter s" "ls_sent (audit_query_attempt env row s) = ls_sent s"
  by (auto simp: audit_query_attempt_def)

lemma run_rewritten_state:
  "run_rewritten env q headers rw s = (a, s') \<Longrightarrow>
     ls_limiter s' = ls_limiter s \<and>
     (ls_sent s' = ls_sent s \<or> (\<exists>timeout. ls_sent s' = ls_sent s @ [(lr_tenant q, le_sql env (rw_tree rw), merged_settings timeout [])]))"
  by (auto simp: run_rewritten_def Let_def split: sum.splits lake_query_error.splits if_splits)

text \<open>A request moves the limiter as its event does, and sends a statement only if it is admitted and rewritten.\<close>

lemma execute_lake_sql_state:
  assumes "execute_lake_sql env q s = (a, s')"
  shows "answer_event (ls_limiter s) (lake_event (env, q)) = (fst (answer_event (ls_limiter s) (lake_event (env, q))), ls_limiter s')"
    and "ls_sent s' = ls_sent s \<or>
      (\<exists>d rw timeout. fst (answer_event (ls_limiter s) (lake_event (env, q))) = Decided (Inr d) \<and> rd_allowed d \<and>
        rewrite_for_tenant (le_condition env) (le_parse env (lr_sql q)) (lr_tenant q) (lr_row_cap q) = Inr rw \<and>
        ls_sent s' = ls_sent s @ [(lr_tenant q, le_sql env (rw_tree rw), merged_settings timeout [])])"
proof -
  obtain d l where a: "acquire (ls_limiter s) (lr_tenant q) QUERY_COST (lr_created q) (lr_now q) = (d, l)"
    by fastforce
  have "ls_limiter s' = l \<and> (ls_sent s' = ls_sent s \<or>
      (\<exists>d' rw timeout. d = Inr d' \<and> rd_allowed d' \<and>
        rewrite_for_tenant (le_condition env) (le_parse env (lr_sql q)) (lr_tenant q) (lr_row_cap q) = Inr rw \<and>
        ls_sent s' = ls_sent s @ [(lr_tenant q, le_sql env (rw_tree rw), merged_settings timeout [])]))"
    using assms unfolding execute_lake_sql_def acquire_or_429_def a
    by (auto split: sum.splits bool.splits lake_error.splits dest!: run_rewritten_state)
  then show "answer_event (ls_limiter s) (lake_event (env, q)) = (fst (answer_event (ls_limiter s) (lake_event (env, q))), ls_limiter s')"
    and "ls_sent s' = ls_sent s \<or>
      (\<exists>d rw timeout. fst (answer_event (ls_limiter s) (lake_event (env, q))) = Decided (Inr d) \<and> rd_allowed d \<and>
        rewrite_for_tenant (le_condition env) (le_parse env (lr_sql q)) (lr_tenant q) (lr_row_cap q) = Inr rw \<and>
        ls_sent s' = ls_sent s @ [(lr_tenant q, le_sql env (rw_tree rw), merged_settings timeout [])])"
    by (auto simp: lake_event_def a)
qed

definition sent_for :: "string \<Rightarrow> lake_state \<Rightarrow> rat" where
  "sent_for k s = of_nat (length (filter (\<lambda>x. fst x = k) (ls_sent s)))"

lemma serve_lake_limiter: "serve (ls_limiter s) (map lake_event qs) = (fst (serve (ls_limiter s) (map lake_event qs)), ls_limiter (snd (serve_lake qs s)))"
proof (induction qs arbitrary: s)
  case (Cons x qs)
  obtain env q where x: "x = (env, q)"
    by fastforce
  obtain a s' where e: "execute_lake_sql env q s = (a, s')"
    by fastforce
  show ?case
    using execute_lake_sql_state(1) [OF e] Cons.IH [of s'] e x by (auto split: prod.splits)
qed simp

lemma serve_lake_sent: "sent_for k (snd (serve_lake qs s)) \<le> sent_for k s + spent k (map lake_event qs) (fst (serve (ls_limiter s) (map lake_event qs)))"
proof (induction qs arbitrary: s)
  case (Cons x qs)
  obtain env q where x: "x = (env, q)"
    by fastforce
  obtain a s' where e: "execute_lake_sql env q s = (a, s')"
    by fastforce
  obtain b where b: "answer_event (ls_limiter s) (lake_event (env, q)) = (b, ls_limiter s')"
    using execute_lake_sql_state(1) [OF e] by blast
  have "0 \<le> spent_by k (lake_event (env, q)) b"
    by (cases "(k, lake_event (env, q), b)" rule: spent_by.cases) (auto simp: lake_event_def QUERY_COST_def)
  then have "sent_for k s' \<le> sent_for k s + spent_by k (lake_event (env, q)) b"
    using execute_lake_sql_state(2) [OF e] unfolding b fst_conv by (auto simp: sent_for_def lake_event_def QUERY_COST_def)
  then show ?case
    using Cons.IH [of s'] e x b by (auto simp: spent_def split: prod.splits)
qed (simp add: spent_def)

subsection \<open>What the service promises\<close>

text \<open>
  C10. A tenant sends no more queries than its budget.  From a fresh limiter, in every part of a run, the
  statements that are handed to the database for a tenant are at most the capacity plus the refill for
  the time that this part takes, whatever is asked, answered, or asked by others.
\<close>

theorem lake_sends_bounded:
  assumes "limiter_init cap rate = Inr (ls_limiter s)" "clock_ok t (map lake_event (qs @ rs))"
    and "serve_lake qs s = (as, s1)" "serve_lake rs s1 = (bs, s2)"
  shows "sent_for k s2 - sent_for k s1
    \<le> cap + rate * (end_time t (map lake_event (qs @ rs)) - end_time t (map lake_event qs))"
proof -
  have l: "serve (ls_limiter s) (map lake_event qs) = (fst (serve (ls_limiter s) (map lake_event qs)), ls_limiter s1)"
    using serve_lake_limiter [of s qs] assms(3) by simp
  have "sent_for k s2 - sent_for k s1 \<le> spent k (map lake_event rs) (fst (serve (ls_limiter s1) (map lake_event rs)))"
    using serve_lake_sent [of k rs s1] assms(4) by simp
  also have "fst (serve (ls_limiter s1) (map lake_event rs))
      = drop (length (map lake_event qs)) (fst (serve (ls_limiter s) (map lake_event qs @ map lake_event rs)))"
    using l serve_length [of "ls_limiter s" "map lake_event qs"] by (auto simp: serve_append split: prod.splits)
  also have "spent k (map lake_event rs) \<dots>
      \<le> cap + rate * (end_time t (map lake_event qs @ map lake_event rs) - end_time t (map lake_event qs))"
    using assms(2) by (intro spent_bounded [OF assms(1)]) (auto simp: lake_event_def list_all_iff)
  finally show ?thesis
    by simp
qed

text \<open>The hypotheses of the rewriter's guarantee, for the statement that a request is parsed into.\<close>

definition parsed_tree :: "lake_env \<Rightarrow> lake_request \<Rightarrow> exp option" where
  "parsed_tree env q =
     (case le_parse env (lr_sql q) of
        Some statements \<Rightarrow> (case List.map_filter id statements of [tree] \<Rightarrow> Some tree | _ \<Rightarrow> None)
      | None \<Rightarrow> None)"

definition well_read :: "lake_env \<times> lake_request \<Rightarrow> bool" where
  "well_read x =
     (case parsed_tree (fst x) (snd x) of
        None \<Rightarrow> True
      | Some tree \<Rightarrow>
          list_all (\<lambda>s. reads_conditions (le_condition (fst x)) (cte_aliases tree) (lr_tenant (snd x)) s \<and> joins_aliased (cte_aliases tree) s)
            (selects tree))"

lemma rewrite_parsed_tree:
  assumes "rewrite_for_tenant cond (le_parse env (lr_sql q)) tenant row_cap = Inr rw"
  obtains tree where "parsed_tree env q = Some tree" "rewrite_for_tenant cond (Some [Some tree]) tenant row_cap = Inr rw"
  using assms that by (auto simp: rewrite_for_tenant_def parsed_tree_def map_filter_simps split: option.splits list.splits)

definition sent_ok :: "(lake_env \<times> lake_request) list \<Rightarrow> string \<times> string \<times> query_settings \<Rightarrow> bool" where
  "sent_ok qs x =
     (\<exists>(env, q) \<in> set qs. \<exists>tree (rw :: rewrite_result). parsed_tree env q = Some tree \<and> fst x = lr_tenant q \<and> fst (snd x) = le_sql env (rw_tree rw) \<and>
        list_all (isolated (cte_aliases tree) (lr_tenant q)) (selects (rw_tree rw)) \<and>
        root_limited (rw_row_cap rw) (root_of (rw_tree rw)) \<and> rw_row_cap rw \<le> MAX_ROW_CAP \<and>
        dict_get (snd (snd x)) ''max_result_rows'' = Some 100000)"

lemma merged_result_rows: "dict_get (merged_settings timeout []) ''max_result_rows'' = Some 100000"
  by (simp add: merged_settings_def dict_update_def DEFAULT_QUERY_SETTINGS_def dict_get_def)

lemma sent_ok_mono: "sent_ok qs x \<Longrightarrow> set qs \<subseteq> set qs' \<Longrightarrow> sent_ok qs' x"
  unfolding sent_ok_def by blast

lemma serve_lake_sent_ok:
  "list_all well_read qs \<Longrightarrow> x \<in> set (ls_sent (snd (serve_lake qs s))) \<Longrightarrow> x \<in> set (ls_sent s) \<or> sent_ok qs x"
proof (induction qs arbitrary: s)
  case (Cons y qs)
  obtain env q where y: "y = (env, q)"
    by fastforce
  obtain a s' where e: "execute_lake_sql env q s = (a, s')"
    by fastforce
  have "sent_ok [y] x" if new: "x \<in> set (ls_sent s')" "x \<notin> set (ls_sent s)"
  proof -
    obtain rw timeout where rw: "rewrite_for_tenant (le_condition env) (le_parse env (lr_sql q)) (lr_tenant q) (lr_row_cap q) = Inr rw"
      and x: "x = (lr_tenant q, le_sql env (rw_tree rw), merged_settings timeout [])"
      using execute_lake_sql_state(2) [OF e] new by auto
    obtain tree where tree: "parsed_tree env q = Some tree"
      "rewrite_for_tenant (le_condition env) (Some [Some tree]) (lr_tenant q) (lr_row_cap q) = Inr rw"
      using rewrite_parsed_tree [OF rw] .
    show ?thesis
      using rewrite_isolates [OF tree(2)] Cons.prems(1) tree(1)
      by (auto simp: sent_ok_def y x well_read_def merged_result_rows)
  qed
  moreover have "x \<in> set (ls_sent s') \<or> sent_ok qs x"
    using Cons.IH [of s'] Cons.prems e y by (auto split: prod.splits)
  ultimately show ?case
    using sent_ok_mono [of "[y]" x "y # qs"] sent_ok_mono [of qs x "y # qs"] by auto
qed simp



text \<open>A concrete environment, three requests of a tenant with a budget of two, and the state they start from.\<close>

definition sample_env :: lake_env where
  "sample_env =
     \<lparr>le_parse = (\<lambda>sql. if sql = ''join'' then Some [Some sample_join, None] else if sql = ''drop'' then Some [Some (Node ''Drop'' [])] else None),
      le_condition = sample_conditions, le_sql = (\<lambda>_. ''rewritten''), le_client = None,
      le_run = (\<lambda>sql settings cap. if cap \<le> 3 then Not_In_Time else Returned [[VInt 1]] [(''n'', ''UInt8'')] 5),
      le_audit_ok = (\<lambda>_. True)\<rparr>"

definition sample_requests :: "(lake_env \<times> lake_request) list" where
  "sample_requests =
     [(sample_env, \<lparr>lr_tenant = ''t'', lr_sql = ''join'', lr_row_cap = None, lr_timeout_seconds = None, lr_created = 0, lr_now = 0\<rparr>),
      (sample_env, \<lparr>lr_tenant = ''t'', lr_sql = ''drop'', lr_row_cap = None, lr_timeout_seconds = None, lr_created = 0, lr_now = 0\<rparr>),
      (sample_env, \<lparr>lr_tenant = ''t'', lr_sql = ''join'', lr_row_cap = None, lr_timeout_seconds = None, lr_created = 0, lr_now = 0\<rparr>),
      (sample_env, \<lparr>lr_tenant = ''t'', lr_sql = ''join'', lr_row_cap = None, lr_timeout_seconds = Some 1, lr_created = 0, lr_now = 1\<rparr>)]"

definition sample_state :: lake_state where
  "sample_state = \<lparr>ls_limiter = \<lparr>lm_capacity = 2, lm_refill_per_second = 1, lm_buckets = Map.empty\<rparr>, ls_sent = [], ls_audit = []\<rparr>"

lemma sample_well_read: "list_all well_read sample_requests"
proof -
  have p: "parsed_tree sample_env q = (if lr_sql q = ''join'' then Some sample_join
      else if lr_sql q = ''drop'' then Some (Node ''Drop'' []) else None)" for q :: lake_request
    by (simp add: parsed_tree_def sample_env_def map_filter_simps)
  have c: "le_condition sample_env = sample_conditions"
    by (simp add: sample_env_def)
  have "list_all (\<lambda>s. reads_conditions sample_conditions (cte_aliases sample_join) ''t'' s \<and> joins_aliased (cte_aliases sample_join) s) (selects sample_join)"
    by code_simp
  moreover have "selects (Node ''Drop'' []) = []"
    by code_simp
  ultimately show ?thesis
    by (simp add: sample_requests_def well_read_def p c)
qed


theorem lake_sends_bounded_witness:
  "sent_for ''t'' (snd (serve_lake (drop 1 sample_requests) (snd (serve_lake (take 1 sample_requests) sample_state))))
     - sent_for ''t'' (snd (serve_lake (take 1 sample_requests) sample_state)) \<le> 2 + 1 * (1 - 0)"
  using lake_sends_bounded [of 2 1 sample_state 0 "take 1 sample_requests" "drop 1 sample_requests"
      "fst (serve_lake (take 1 sample_requests) sample_state)" "snd (serve_lake (take 1 sample_requests) sample_state)"
      "fst (serve_lake (drop 1 sample_requests) (snd (serve_lake (take 1 sample_requests) sample_state)))"
      "snd (serve_lake (drop 1 sample_requests) (snd (serve_lake (take 1 sample_requests) sample_state)))" "''t''"]
  by (simp add: sample_state_def sample_requests_def limiter_init_def lake_event_def end_time_def del: serve_lake.simps)

subsection \<open>The audit log\<close>

fun audited_as :: "http_answer \<Rightarrow> (string \<times> nat option) option" where
  "audited_as (Ok r headers) = Some (''ok'', Some (lp_row_count r))"
| "audited_as (Http status headers) =
     (if status = 403 then Some (''forbidden'', None) else if status = 422 then Some (''timeout'', None)
      else if status = 502 then Some (''backend_error'', None) else None)"
| "audited_as Uncaught = None"

definition audit_of :: "(lake_env \<times> lake_request) \<times> http_answer \<Rightarrow> (string \<times> string \<times> nat option) list" where
  "audit_of x = (case audited_as (snd x) of None \<Rightarrow> [] | Some (outcome, n) \<Rightarrow> [(lr_tenant (snd (fst x)), outcome, n)])"

definition audit_view :: "lake_audit \<Rightarrow> string \<times> string \<times> nat option" where
  "audit_view row = (la_tenant row, la_outcome row, la_row_count row)"

lemma execute_lake_sql_audit:
  assumes "execute_lake_sql env q s = (a, s')" "\<And>row. le_audit_ok env row"
  shows "map audit_view (ls_audit s') = map audit_view (ls_audit s) @ audit_of ((env, q), a)"
  using assms
  by (auto simp: execute_lake_sql_def acquire_or_429_def run_rewritten_def Let_def audit_query_attempt_def attempt_def
      audit_view_def audit_of_def split: prod.splits sum.splits option.splits bool.splits lake_error.splits lake_query_error.splits if_splits)




subsection \<open>The schema\<close>

definition row_key :: "column_row \<Rightarrow> string" where
  "row_key row = cr_database row @ ''.'' @ cr_table row"

definition column_of :: "column_row \<Rightarrow> column_info" where
  "column_of row = \<lparr>ci_name = cr_name row, ci_type = cr_type row, ci_comment = (case cr_comment row of None \<Rightarrow> [] | Some c \<Rightarrow> c)\<rparr>"

lemma dict_get_keys: "dict_get (map (\<lambda>k. (k, f k)) ks) k = (if k \<in> set ks then Some (f k) else None)"
  by (induction ks) (auto simp: dict_get_def)

lemma dict_set_keys: "distinct ks \<Longrightarrow> k \<in> set ks \<Longrightarrow> dict_set k v (map (\<lambda>k. (k, f k)) ks) = map (\<lambda>k'. (k', if k' = k then v else f k')) ks"
  by (induction ks) auto

lemma add_column_map:
  "distinct ks \<Longrightarrow> add_column (map (\<lambda>k. (k, f k)) ks) row = map (\<lambda>k. (k, f k @ (if row_key row = k then [column_of row] else []))) ks"
  by (auto simp: add_column_def Let_def dict_get_keys dict_set_keys row_key_def column_of_def)

lemma add_columns:
  "distinct ks \<Longrightarrow> foldl add_column (map (\<lambda>k. (k, f k)) ks) rows = map (\<lambda>k. (k, f k @ map column_of (filter (\<lambda>r. row_key r = k) rows))) ks"
  by (induction rows arbitrary: f) (simp_all add: add_column_map)

lemma requested_props: "distinct (requested_tables tables)" "set (requested_tables tables) \<subseteq> set ALLOWED_TABLES"
  by (auto simp: requested_tables_def)

lemma allowed_pair: "t \<in> set ALLOWED_TABLES \<Longrightarrow> fst (table_pair t) @ ''.'' @ snd (table_pair t) = t"
  by (auto simp: ALLOWED_TABLES_def table_pair_def)

text \<open>
  The schema is the columns of the allowlisted tables.  Whatever rows the system table returns, the
  answer has one entry for every allowlisted table that was asked for, sorted and without repetition, with
  exactly the rows of that table in their order; what else the database volunteers is left out.
\<close>

theorem schema_exact:
  assumes "run (schema_sql (requested_tables tables)) (schema_params (requested_tables tables)) = Columns rows"
  shows "fetch_lake_schema None run tables
    = Inr (map (\<lambda>fq. (fq, map column_of (filter (\<lambda>r. row_key r = fq) rows))) (requested_tables tables))"
proof -
  have "fst (table_pair fq) @ ''.'' @ snd (table_pair fq) = fq" if "fq \<in> set (requested_tables tables)" for fq
    using that requested_props(2) allowed_pair by blast
  then show ?thesis
    using assms add_columns [OF requested_props(1), of "\<lambda>_. []" tables rows]
    by (simp add: fetch_lake_schema_def Let_def cong: map_cong)
qed

theorem schema_exact_witness:
  "fetch_lake_schema None (\<lambda>_ _. Columns [\<lparr>cr_database = ''aisoc'', cr_table = ''raw_events'', cr_name = ''id'', cr_type = ''UUID'', cr_comment = None\<rparr>,
      \<lparr>cr_database = ''system'', cr_table = ''users'', cr_name = ''name'', cr_type = ''String'', cr_comment = None\<rparr>]) (Some [''aisoc.raw_events'', ''system.users''])
   = Inr [(''aisoc.raw_events'', [\<lparr>ci_name = ''id'', ci_type = ''UUID'', ci_comment = []\<rparr>])]"
proof -
  have "requested_tables (Some [''aisoc.raw_events'', ''system.users'']) = [''aisoc.raw_events'']"
    by (simp add: requested_tables_def ALLOWED_TABLES_def sorted_set_def)
  then show ?thesis
    by (subst schema_exact) (auto simp: row_key_def column_of_def)
qed

end
