(* ===== verification/Spec2Isabelle.thy ===== *)
theory Spec2Isabelle
  imports Filter_Rules Fingerprint Audit_Chain Action_Router Live_Actions Fusion_Pipeline Sigma_Rules Ssrf_Guard Chatops_Token Effective_Permissions Alert_Queue Mssp_Rules Email_Approval Osquery_Allowlist Osquery_Tls Osquery_Clients Osquery_Polling Lake_Sql Rate_Limit Lake_Service
begin

text \<open>
  A verification library for the security-operations platform in this repository: its Python services
  under \<open>src/services\<close>.  Every definition is a translation of a named function, method, table or block
  of lines; every property is a theorem over these definitions.

  The program and how its parts interact.  Events are pulled from vendors by connectors, which drop
  or keep them by tenant rules and watch the shape of their payloads (Filter_Rules, Fingerprint).  The
  fusion service turns events into scored alerts, deduplicates them, correlates them into incidents,
  keeps a risk score per entity and writes a short narrative (Fusion_*, Entity_Risk).  Analysts see
  the alerts in a queue (Alert_Queue), hunt with detection rules (Sigma_*, Mssp_Rules) or with SQL on the
  tenant lake within a budget (Lake_*, Rate_Limit), and ask what a principal can do in the cloud (Effective_Permissions).  Responses are actions behind a gate, run after
  approval in a chat or by mail (Action_*, Chatops_Token, Email_Approval), or steps of playbooks
  (Playbook_*, Ssrf_Guard), of which some query hosts through osquery (Osquery_*).  What happens is
  recorded in a redacted, hash-chained log (Audit_*).

  Theories and sources.
    \<^item> Py_Prelude, Py_Value, Py_Text, Py_Obj: the Python fragment the services use: texts, JSON-like
      values with truth, equality and \<open>str\<close>, dictionaries as association lists in insertion order, results
      as sums.  Json and Json_Parse (\<open>json.dumps\<close>, \<open>json.loads\<close>), Sha256 (\<open>hashlib\<close>, \<open>hmac\<close>), Base64,
      Uuid, Fnmatch, Ip_Address (\<open>ipaddress\<close>), Codec, Token_Payload: the standard library as far as it
      is used, computed and not assumed.
    \<^item> Filter_Rules and Fingerprint: \<open>connectors/app/pipeline\<close>.
    \<^item> Audit_Redaction, Audit_Chain: \<open>api/app/services/audit_redaction.py\<close>, \<open>audit_hash.py\<close>, \<open>audit.py\<close>.
    \<^item> Action_Model, Action_Gates, Action_Router, Live_Actions: \<open>actions/app\<close>: models, blast radius and
      maturity, the handlers as a machine over records, calls and the log, the registry of live actions.
    \<^item> Fusion_Model, Fusion_Correlation, Fusion_Scoring, Entity_Risk, Fusion_Engine, Fusion_Narrative,
      Fusion_Pipeline: \<open>fusion/app\<close>, from the alert model to the composed service.
    \<^item> Sigma_Condition, Sigma_Rules: \<open>api/app/services/rule_engine.py\<close>; Mssp_Rules:
      \<open>mssp_rule_resolver.py\<close> and the hunt endpoint over that engine.
    \<^item> Playbook_Model, Playbook_Condition, Playbook_Handlers, Playbook_Engine, Ssrf_Guard:
      \<open>agents/app/playbook\<close>.
    \<^item> Chatops_Token: \<open>actions/app/security/chatops_token.py\<close> and the callback endpoint; Email_Approval:
      \<open>api/app/services/email_approval.py\<close>.
    \<^item> Effective_Permissions: \<open>api/app/services/effective_permissions\<close> and its endpoint; Alert_Queue:
      \<open>api/app/services/alert_queue.py\<close> and the endpoints that change an alert.
    \<^item> Lake_Sql: \<open>api/app/services/lake_sql.py\<close>, on the syntax trees of the parser it uses; Rate_Limit:
      \<open>lake_rate_limit.py\<close>; Lake_Service: the lake endpoints and \<open>api/app/db/clickhouse.py\<close> over both.
    \<^item> Osquery_Allowlist, Osquery_Clients, Osquery_Polling: \<open>actions/app/clients\<close>; Osquery_Tls:
      \<open>osquery-tls/app\<close>.

  How state and effects are modelled.  A table is a list of rows or a map, a service a record of its
  tables and logs, an operation a function that returns its answer and the new state, an exception or
  an error response the left side of a sum.  Clocks, random tokens and the answers of databases, caches,
  vendors and other services are arguments; where the code relies on them, the laws are the assumptions
  of a locale which is interpreted on the model's own definitions (the stores of the fusion engine, the
  caches, the payload codec of the tokens, the transport of the osquery clients).  Concurrent requests
  are step relations or runs over lists of requests (Alert_Queue, Audit_Chain, Action_Router, Osquery_Tls).

  What the groups of lemmas show.  Gates and tokens: nothing reaches an executor without its gate, and
  no click counts without a valid, unexpired, unused signature.  Logs: redaction hides every secret at
  any depth, the chain verifies what the writer writes and no change of it.  Scoring and correlation:
  scores are reproducible from their factors, duplicates are found exactly within the window, incidents
  and risk queues keep their invariants.  Rules and conditions: the parser computes the truth table of a
  condition; the effective rules are the ones the assignments give.  Playbooks: runs terminate within
  the bounds of their steps and contact allowed hosts only.  Permissions and queues: answers equal
  their set-based specifications.  The lake: an accepted query compares every table with the
  tenant, up to the two ways around it that are stated with their proofs.  The limiter behaves as
  buckets that fill continuously; composed with it, the endpoint sends only rewritten statements, within
  the budget of their tenant, and its audit log tells their outcomes.  Osquery: a statement is a filled template, a query has the life
  that the log of writes gives it.  Some properties state how the code falls short of what it says;
  the manifest lists them as findings.

  Bounds and fuel.  \<open>json_loads\<close> gives its parser two units per character and two more, which
  \<open>need_bound\<close> shows to be enough; the condition parser gets fuel from the number of tokens
  (\<open>fuel_enough\<close>); a run of a playbook visits a step at most once (\<open>run_steps_once\<close>), which bounds its
  loop; a claim takes at most three statements; SHA-256 works on 32-bit words.  The polling loops of
  the osquery clients have fuel that a lemma relates to the time limit and the polling interval.

  Limits.  Texts are Latin-1, most of them ASCII; floating point numbers are exact rationals with their
  text, so rounding is only what the code writes out.  Pydantic and FastAPI checks of request bodies are
  taken as the types of the arguments.

  Not modelled, and why.  Connector adapters, vendor executors, chat bots and client libraries (HTTP glue
  around vendors); case endpoints and the ORM (their behaviour is the SQL they send); agents that are
  driven by language models; the machine-learned scorer (third-party libraries, a parameter of the
  scoring); threat-intelligence feeds, honeytokens, behaviour analytics and purple-team services;
  reports; generators, seeds, evaluations and migrations; the vendored copy of the narrative.
\<close>

end
